(* ===== verification/Prelude.thy ===== *)
theory Prelude
  imports Main "HOL-Library.Word" "HOL-Library.AList" "HOL-Library.Multiset"
begin

text \<open>
  Shared vocabulary of the development: the machine integers and the results of Rust code,
  the checked arithmetic of the language, the operations of \<open>Vec\<close>, \<open>VecDeque\<close> and
  iterators that the sources use, and the generic lemmas the component theories share.
\<close>

section \<open>Types\<close>

type_synonym u8 = "8 word"
type_synonym usize = "64 word"
type_synonym bytes = "u8 list"

text \<open>The error kinds declared by the \<open>error_chain!\<close> block of \<open>mydht-base/src/mydhtresult.rs\<close>.\<close>

datatype error_kind =
    ChannelSend string
  | SyncPoison string
  | Bug string
  | Serializing string
  | ExternalLib string
  | Io string
  | ExpectedError
  | MissingStartConf
  | ChannelFinishedDest

text \<open>
  Outcome of a piece of Rust code: a value, an \<open>Err\<close> or a panic (\<open>panic!\<close>, \<open>unwrap\<close>
  on \<open>None\<close>, an index out of range, an arithmetic overflow with overflow checks on).
\<close>

datatype 'a outcome = Ok 'a | Err error_kind | Panic

named_theorems rust_simps \<open>unfolding rules for the operations of the Rust library\<close>

fun and_then :: "'a outcome \<Rightarrow> ('a \<Rightarrow> 'b outcome) \<Rightarrow> 'b outcome" where
  "and_then (Ok a) f = f a"
| "and_then (Err e) f = Err e"
| "and_then Panic f = Panic"

definition unwrap :: "'a option \<Rightarrow> 'a outcome" where
  [rust_simps]: "unwrap x = (case x of Some a \<Rightarrow> Ok a | None \<Rightarrow> Panic)"

lemma unwrap_simps [simp]: "unwrap (Some a) = Ok a" "unwrap None = Panic"
  by (simp_all add: unwrap_def)

lemma and_then_eq_Ok: "and_then m f = Ok b \<longleftrightarrow> (\<exists>a. m = Ok a \<and> f a = Ok b)"
  by (cases m) auto

lemma and_then_assoc: "and_then (and_then m f) g = and_then m (\<lambda>a. and_then (f a) g)"
  by (cases m) auto

text \<open>A loop over an iterator whose body may fail: it stops at the first failure.\<close>

fun fold_try :: "('s \<Rightarrow> 'x \<Rightarrow> 's outcome) \<Rightarrow> 's \<Rightarrow> 'x list \<Rightarrow> 's outcome" where
  "fold_try f s [] = Ok s"
| "fold_try f s (x # xs) = and_then (f s x) (\<lambda>s'. fold_try f s' xs)"

lemma fold_try_append:
  "fold_try f s (xs @ ys) = and_then (fold_try f s xs) (\<lambda>s'. fold_try f s' ys)"
  by (induction xs arbitrary: s) (simp_all add: and_then_assoc)

text \<open>A loop whose body never fails on the states it meets is a plain fold.\<close>

lemma fold_try_pure:
  assumes "I s xs"
    and "\<And>s x xs. I s (x # xs) \<Longrightarrow> f s x = Ok (g s x) \<and> I (g s x) xs"
  shows "fold_try f s xs = Ok (foldl g s xs) \<and> I (foldl g s xs) []"
  using assms(1)
proof (induction xs arbitrary: s)
  case Nil
  then show ?case by simp
next
  case (Cons x xs)
  from assms(2) [OF Cons.prems] Cons.IH show ?case by simp
qed

section \<open>Arithmetic\<close>

text \<open>
  Rust's \<open>+\<close>, \<open>-\<close> and \<open>*\<close> on unsigned integers: with overflow checks (\<open>ck\<close>,
  the development profile) an overflow panics, without them (the release profile) it wraps.
  Division by zero panics in both.
\<close>

definition checked_add :: "bool \<Rightarrow> 'a::len word \<Rightarrow> 'a word \<Rightarrow> 'a word outcome" where
  [rust_simps]: "checked_add ck a b =
     (if ck \<and> 2 ^ LENGTH('a) \<le> unat a + unat b then Panic else Ok (a + b))"

definition checked_sub :: "bool \<Rightarrow> 'a::len word \<Rightarrow> 'a word \<Rightarrow> 'a word outcome" where
  [rust_simps]: "checked_sub ck a b = (if ck \<and> unat a < unat b then Panic else Ok (a - b))"

definition checked_mul :: "bool \<Rightarrow> 'a::len word \<Rightarrow> 'a word \<Rightarrow> 'a word outcome" where
  [rust_simps]: "checked_mul ck a b =
     (if ck \<and> 2 ^ LENGTH('a) \<le> unat a * unat b then Panic else Ok (a * b))"

definition checked_pow :: "bool \<Rightarrow> 'a::len word \<Rightarrow> nat \<Rightarrow> 'a word outcome" where
  [rust_simps]: "checked_pow ck a n =
     (if ck \<and> 2 ^ LENGTH('a) \<le> unat a ^ n then Panic else Ok (a ^ n))"

definition div_or_panic :: "'a::len word \<Rightarrow> 'a word \<Rightarrow> 'a word outcome" where
  [rust_simps]: "div_or_panic a b = (if b = 0 then Panic else Ok (a div b))"

lemma checked_sub_Ok [simp]: "unat b \<le> unat a \<Longrightarrow> checked_sub ck a b = Ok (a - b)"
  by (simp add: checked_sub_def)

lemma unat_sub_le: "unat b \<le> unat (a :: 'a::len word) \<Longrightarrow> unat (a - b) = unat a - unat b"
  by (simp add: unat_sub word_le_nat_alt)

lemma unat_pos_iff: "0 < unat (a :: 'a::len word) \<longleftrightarrow> a \<noteq> 0"
  by (simp add: unat_gt_0)

lemma unat_dec: "a \<noteq> 0 \<Longrightarrow> unat (a - 1) = unat (a :: 'a::len word) - 1"
  by (simp add: unat_minus_one)

section \<open>Vectors and queues\<close>

text \<open>\<open>Iterator::position\<close>: the index of the first element that satisfies a predicate.\<close>

fun position :: "('a \<Rightarrow> bool) \<Rightarrow> 'a list \<Rightarrow> nat option" where
  "position p [] = None"
| "position p (x # xs) = (if p x then Some 0 else map_option Suc (position p xs))"

text \<open>\<open>Vec::get\<close>, \<open>Vec::remove\<close> at an index in range, and \<open>n\<close> times \<open>pop_front\<close>.\<close>

definition vec_get :: "'a list \<Rightarrow> nat \<Rightarrow> 'a option" where
  [rust_simps]: "vec_get xs i = (if i < length xs then Some (xs ! i) else None)"

definition vec_remove :: "nat \<Rightarrow> 'a list \<Rightarrow> 'a list" where
  [rust_simps]: "vec_remove i xs = take i xs @ drop (Suc i) xs"

lemma position_None: "position p xs = None \<longleftrightarrow> (\<forall>x\<in>set xs. \<not> p x)"
  by (induction xs) auto

lemma position_Some:
  "position p xs = Some i \<Longrightarrow> i < length xs \<and> p (xs ! i) \<and> (\<forall>j<i. \<not> p (xs ! j))"
proof (induction xs arbitrary: i)
  case (Cons x xs)
  show ?case
  proof (cases "p x")
    case True
    with Cons.prems show ?thesis by auto
  next
    case False
    with Cons.prems obtain k where "position p xs = Some k" "i = Suc k" by auto
    with Cons.IH [of k] False show ?thesis by (auto simp: nth_Cons split: nat.splits)
  qed
qed simp

lemma position_Ex: "x \<in> set xs \<Longrightarrow> p x \<Longrightarrow> \<exists>i. position p xs = Some i"
  by (metis not_Some_eq position_None)

lemma vec_remove_Cons [simp]:
  "vec_remove 0 (x # xs) = xs" "vec_remove (Suc i) (x # xs) = x # vec_remove i xs"
  by (simp_all add: vec_remove_def)

lemma length_vec_remove [simp]: "i < length xs \<Longrightarrow> length (vec_remove i xs) = length xs - 1"
  by (simp add: vec_remove_def)

lemma set_vec_remove_subset: "set (vec_remove i xs) \<subseteq> set xs"
  by (auto simp: vec_remove_def dest: in_set_takeD in_set_dropD)

lemma mset_vec_remove: "i < length xs \<Longrightarrow> mset (vec_remove i xs) = mset xs - {#xs ! i#}"
proof -
  assume i: "i < length xs"
  have "mset xs = add_mset (xs ! i) (mset (vec_remove i xs))"
    by (subst id_take_nth_drop [OF i]) (simp add: vec_remove_def)
  then show ?thesis by simp
qed

lemma distinct_vec_remove: "distinct xs \<Longrightarrow> distinct (vec_remove i xs)"
  by (auto simp: vec_remove_def set_take_disj_set_drop_if_distinct)

lemma map_vec_remove: "map f (vec_remove i xs) = vec_remove i (map f xs)"
  by (simp add: vec_remove_def take_map drop_map)

text \<open>Removing the only element with a given key keeps exactly the others.\<close>

lemma set_vec_remove_distinct:
  "distinct xs \<Longrightarrow> i < length xs \<Longrightarrow> set (vec_remove i xs) = set xs - {xs ! i}"
proof -
  assume d: "distinct xs" and i: "i < length xs"
  have "xs = take i xs @ xs ! i # drop (Suc i) xs"
    by (rule id_take_nth_drop [OF i])
  with d have "distinct (take i xs @ xs ! i # drop (Suc i) xs)"
    and "set xs = set (take i xs @ xs ! i # drop (Suc i) xs)" by simp_all
  then show ?thesis by (auto simp: vec_remove_def)
qed

lemma map_filter_cong:
  "(\<And>x. x \<in> set xs \<Longrightarrow> f x = g x) \<Longrightarrow> List.map_filter f xs = List.map_filter g xs"
  by (induction xs) (auto simp: map_filter_simps split: option.splits)

lemma set_map_filter: "set (List.map_filter f xs) = {y. \<exists>x\<in>set xs. f x = Some y}"
  by (induction xs) (auto simp: map_filter_simps split: option.splits)

end
