(* ===== verification/Peer.thy ===== *)
theory Peer
  imports Prelude
begin

text \<open>
  Peers and their connection state (\<open>mydht-base/src/peer.rs\<close> and the peer part of
  \<open>mydht-base/src/route.rs\<close>).  A peer has a key and an address; the shadow modes belong to the
  transports.  A \<open>Ping\<close> state holds the challenge sent and the handle of the \<open>OneResult\<close> that the
  drop of the state unlocks with \<open>false\<close>.
\<close>

record ('k, 'a) peer =
  get_key :: 'k
  get_address :: 'a

datatype peer_priority = Unchecked | Normal | Priority u8

datatype 'o peer_state =
    Refused
  | Blocked peer_priority
  | Offline peer_priority
  | Ping bytes "'o option" peer_priority
  | Online peer_priority

datatype 'o peer_state_change =
    ChRefused
  | ChBlocked
  | ChOffline
  | ChOnline
  | ChPing bytes "'o option"

fun get_priority :: "'o peer_state \<Rightarrow> peer_priority" where
  "get_priority Refused = Unchecked"
| "get_priority (Blocked p) = p"
| "get_priority (Offline p) = p"
| "get_priority (Ping c o1 p) = p"
| "get_priority (Online p) = p"

definition new_state :: "'o peer_state \<Rightarrow> 'o peer_state_change \<Rightarrow> 'o peer_state" where
  "new_state s change =
     (let pri = get_priority s in
      case change of
        ChRefused \<Rightarrow> Refused
      | ChBlocked \<Rightarrow> Blocked pri
      | ChOffline \<Rightarrow> Offline pri
      | ChOnline \<Rightarrow> Online pri
      | ChPing chal o1 \<Rightarrow> Ping chal o1 pri)"

text \<open>\<open>Drop for PeerState\<close>: the signals sent when a state is dropped.\<close>

definition drop_state :: "'o peer_state \<Rightarrow> ('o \<times> bool) list" where
  "drop_state s = (case s of Ping c (Some r) p \<Rightarrow> [(r, False)] | _ \<Rightarrow> [])"

text \<open>
  \<open>PeerInfoBase\<close> and the update function of the route caches; assigning the state drops the old
  one, whose signals are the second component.
\<close>

type_synonym ('p, 'o, 'i) peer_info = "'p \<times> 'o peer_state \<times> 'i"

definition is_peerinfo_online :: "('p, 'o, 'i) peer_info \<Rightarrow> bool" where
  "is_peerinfo_online b = (case b of (_, Online _, _) \<Rightarrow> True | _ \<Rightarrow> False)"

definition pi_upprio_base ::
    "('p, 'o, 'i) peer_info \<Rightarrow> 'o peer_state option \<Rightarrow> 'o peer_state_change option
      \<Rightarrow> (('p, 'o, 'i) peer_info \<times> ('o \<times> bool) list) outcome" where
  "pi_upprio_base pi ostate och =
     (case pi of (p, s, i) \<Rightarrow>
        (case ostate of
           Some newstate \<Rightarrow> Ok ((p, newstate, i), drop_state s)
         | None \<Rightarrow>
            (case och of
               Some ch \<Rightarrow> Ok ((p, new_state s ch, i), drop_state s)
             | None \<Rightarrow> Ok ((p, s, i), []))))"

section \<open>Lemmas\<close>

lemma get_priority_new_state:
  "get_priority (new_state s ch) = (if ch = ChRefused then Unchecked else get_priority s)"
  by (cases ch) (simp_all add: new_state_def)

lemma new_state_Online_iff: "(\<exists>p. new_state s ch = Online p) \<longleftrightarrow> ch = ChOnline"
  by (cases ch) (simp_all add: new_state_def)

lemma get_priority_changes:
  "get_priority (foldl new_state s chs)
     = (if ChRefused \<in> set chs then Unchecked else get_priority s)"
  by (induction chs arbitrary: s) (simp_all add: get_priority_new_state)

lemma changes_Online:
  "chs \<noteq> [] \<Longrightarrow> (\<exists>p. foldl new_state s chs = Online p) \<longleftrightarrow> last chs = ChOnline"
  by (induction chs arbitrary: s rule: rev_induct) (simp_all add: new_state_Online_iff)

section \<open>Properties\<close>

text \<open>
  Through any sequence of state changes a peer keeps the priority the accept gave it until
  it is refused, which resets it to \<open>Unchecked\<close> for good; and it is online exactly when the last
  change of a non-empty sequence was \<open>Online\<close>.
\<close>

lemma peer_state_changes:
  "get_priority (foldl new_state s chs)
     = (if ChRefused \<in> set chs then Unchecked else get_priority s)
   \<and> is_peerinfo_online (p, foldl new_state s (chs @ [ch]), i) = (ch = ChOnline)"
  using get_priority_changes [of s chs] changes_Online [of "chs @ [ch]" s]
  by (auto simp: is_peerinfo_online_def split: peer_state.splits)

end
