(* ===== verification/Kvcache.thy ===== *)
theory Kvcache
  imports Prelude "HOL-Library.Sublist"
begin

text \<open>
  The cache interface of \<open>mydht-base/src/kvcache/mod.rs\<close>: the traits \<open>Cache\<close>, \<open>KVCache\<close> and
  \<open>RandCache\<close>, their default methods, and the two implementations of the file, \<open>HashMap\<close> and
  \<open>NoCache\<close>.  A hash map is the list of its entries in iteration order, with distinct keys;
  the order is arbitrary, so a statement about iteration is proved for every such list.  The
  closures of the source that mutate captured variables thread an explicit state.
\<close>

section \<open>Implementations of the traits\<close>

type_synonym ('k, 'v) hashmap = "('k \<times> 'v) list"

definition hashmap_ok :: "('k, 'v) hashmap \<Rightarrow> bool" where
  "hashmap_ok m = distinct (map fst m)"

definition hashmap_new :: "('k, 'v) hashmap" where
  "hashmap_new = []"

definition hashmap_add_val_c :: "'k \<Rightarrow> 'v \<Rightarrow> ('k, 'v) hashmap \<Rightarrow> ('k, 'v) hashmap" where
  "hashmap_add_val_c key val m = AList.update key val m"

definition hashmap_get_val_c :: "('k, 'v) hashmap \<Rightarrow> 'k \<Rightarrow> 'v option" where
  "hashmap_get_val_c m key = map_of m key"

text \<open>\<open>get_val_mut_c\<close> hands out a reference into the map: what the caller does with it is \<open>g\<close>.\<close>

definition hashmap_get_val_mut_c ::
    "('k, 'v) hashmap \<Rightarrow> 'k \<Rightarrow> ('v \<Rightarrow> 'v) \<Rightarrow> ('k, 'v) hashmap" where
  "hashmap_get_val_mut_c m key g =
     (case map_of m key of Some v \<Rightarrow> AList.update key (g v) m | None \<Rightarrow> m)"

definition hashmap_has_val_c :: "('k, 'v) hashmap \<Rightarrow> 'k \<Rightarrow> bool" where
  "hashmap_has_val_c m key = (key \<in> set (map fst m))"

definition hashmap_remove_val_c ::
    "'k \<Rightarrow> ('k, 'v) hashmap \<Rightarrow> ('k, 'v) hashmap \<times> 'v option" where
  "hashmap_remove_val_c key m = (AList.delete key m, map_of m key)"

definition hashmap_len_c :: "('k, 'v) hashmap \<Rightarrow> nat" where
  "hashmap_len_c m = length m"

text \<open>The update closure may change the value and then fail: the change stays.\<close>

definition hashmap_update_val_c ::
    "'k \<Rightarrow> ('v \<Rightarrow> 'v \<times> unit outcome) \<Rightarrow> ('k, 'v) hashmap \<Rightarrow> ('k, 'v) hashmap \<times> bool outcome" where
  "hashmap_update_val_c k f m =
     (case map_of m k of
        Some x \<Rightarrow> (let (x', r) = f x in (AList.update k x' m, and_then r (\<lambda>_. Ok True)))
      | None \<Rightarrow> (m, Ok False))"

fun hashmap_strict_fold_c :: "('b \<Rightarrow> 'k \<times> 'v \<Rightarrow> 'b) \<Rightarrow> 'b \<Rightarrow> ('k, 'v) hashmap \<Rightarrow> 'b" where
  "hashmap_strict_fold_c f res [] = res"
| "hashmap_strict_fold_c f res (kv # m) = hashmap_strict_fold_c f (f res kv) m"

fun hashmap_fold_c ::
    "('s \<Rightarrow> 'b \<Rightarrow> 'k \<times> 'v \<Rightarrow> 's \<times> 'b) \<Rightarrow> 's \<Rightarrow> 'b \<Rightarrow> ('k, 'v) hashmap \<Rightarrow> 's \<times> 'b" where
  "hashmap_fold_c f s res [] = (s, res)"
| "hashmap_fold_c f s res (kv # m) = (let (s', res') = f s res kv in hashmap_fold_c f s' res' m)"

text \<open>The override of \<open>map_inplace_c\<close> for \<open>HashMap\<close>: \<open>try!\<close> leaves the loop at the first error.\<close>

fun hashmap_map_inplace_c ::
    "('s \<Rightarrow> 'k \<times> 'v \<Rightarrow> 's \<times> unit outcome) \<Rightarrow> 's \<Rightarrow> ('k, 'v) hashmap \<Rightarrow> 's \<times> unit outcome" where
  "hashmap_map_inplace_c f s [] = (s, Ok ())"
| "hashmap_map_inplace_c f s (kv # m) =
     (case f s kv of
        (s', Ok _) \<Rightarrow> hashmap_map_inplace_c f s' m
      | (s', Err e) \<Rightarrow> (s', Err e)
      | (s', Panic) \<Rightarrow> (s', Panic))"

text \<open>\<open>NoCache\<close> keeps nothing: its state is the unit value.\<close>

definition nocache_add_val_c :: "'k \<Rightarrow> 'v \<Rightarrow> unit \<Rightarrow> unit" where
  "nocache_add_val_c key val c = ()"

definition nocache_get_val_c :: "unit \<Rightarrow> 'k \<Rightarrow> 'v option" where
  "nocache_get_val_c c key = None"

definition nocache_remove_val_c :: "'k \<Rightarrow> unit \<Rightarrow> unit \<times> 'v option" where
  "nocache_remove_val_c key c = (c, None)"

definition nocache_len_c :: "unit \<Rightarrow> nat" where
  "nocache_len_c c = 0"

definition nocache_update_val_c ::
    "'k \<Rightarrow> ('v \<Rightarrow> 'v \<times> unit outcome) \<Rightarrow> unit \<Rightarrow> unit \<times> bool outcome" where
  "nocache_update_val_c key f c = (c, Ok False)"

definition nocache_fold_c ::
    "('s \<Rightarrow> 'b \<Rightarrow> 'k \<times> 'v \<Rightarrow> 's \<times> 'b) \<Rightarrow> 's \<Rightarrow> 'b \<Rightarrow> unit \<Rightarrow> 's \<times> 'b" where
  "nocache_fold_c f s res c = (s, res)"

text \<open>The default \<open>has_val_c\<close> of the trait, which \<open>NoCache\<close> inherits.\<close>

definition default_has_val_c :: "('c \<Rightarrow> 'k \<Rightarrow> 'v option) \<Rightarrow> 'c \<Rightarrow> 'k \<Rightarrow> bool" where
  "default_has_val_c get_val_c c k = (get_val_c c k \<noteq> None)"

section \<open>Default methods of \<open>KVCache\<close>\<close>

definition default_map_inplace_c ::
    "('s \<Rightarrow> 'k \<times> 'v \<Rightarrow> 's \<times> unit outcome) \<Rightarrow> 's \<Rightarrow> ('k, 'v) hashmap \<Rightarrow> 's \<times> unit outcome" where
  "default_map_inplace_c f s m =
     hashmap_fold_c (\<lambda>s err kv. if err = Ok () then f s kv else (s, err)) s (Ok ()) m"

definition len_where_c :: "('v \<Rightarrow> bool) \<Rightarrow> ('k, 'v) hashmap \<Rightarrow> nat" where
  "len_where_c f m =
     snd (hashmap_fold_c (\<lambda>s nb kv. (s, if f (snd kv) then nb + 1 else nb)) () 0 m)"

definition distrib_ratio :: "nat \<times> nat" where
  "distrib_ratio = (2, 3)"

section \<open>Random choice of cache values\<close>

text \<open>
  \<open>inner_cache_bv_rand\<close>: one random bit per candidate value.  \<open>from_bytes\<close> is
  \<open>BitVec::from_bytes\<close> of the bit vector crate.
\<close>

fun clear_bits :: "nat \<Rightarrow> bool list \<Rightarrow> bool list outcome" where
  "clear_bits 0 r = Ok r"
| "clear_bits (Suc i) r =
     and_then (clear_bits i r) (\<lambda>r. if i < length r then Ok (r[i := False]) else Panic)"

definition bv_fsize ::
    "bool list \<Rightarrow> nat \<Rightarrow> ('v \<Rightarrow> bool) option \<Rightarrow> ('k, 'v) hashmap \<Rightarrow> nat outcome" where
  "bv_fsize flt xess filtfn c =
     (case filtfn of
        Some f \<Rightarrow>
          and_then
            (hashmap_strict_fold_c
              (\<lambda>st kv. and_then st (\<lambda>(i, tot).
                 if f (snd kv)
                 then and_then (unwrap (vec_get flt i)) (\<lambda>b. Ok (i + 1, if b then tot + 1 else tot))
                 else Ok (i, tot)))
              (Ok (xess, 0)) c)
            (\<lambda>(i, tot). Ok tot)
      | None \<Rightarrow> Ok (length (filter (\<lambda>x. x) flt)))"

definition bv_pick ::
    "bool list \<Rightarrow> nat \<Rightarrow> nat \<Rightarrow> nat \<Rightarrow> ('v \<Rightarrow> bool) option \<Rightarrow> ('k, 'v) hashmap
      \<Rightarrow> (nat \<times> nat \<times> 'v list) outcome" where
  "bv_pick flt xess nb ratio filtfn c =
     hashmap_strict_fold_c
       (\<lambda>st kv. and_then st (\<lambda>(i, tot, r).
          if case filtfn of None \<Rightarrow> True | Some f \<Rightarrow> f (snd kv)
          then and_then (unwrap (vec_get flt i)) (\<lambda>b.
            if b
            then Ok (i + 1, tot + 1, if tot < nb \<and> tot mod ratio = 0 then r @ [snd kv] else r)
            else Ok (i + 1, tot, r))
          else Ok (i, tot, r)))
       (Ok (xess, 0, [])) c"

definition inner_cache_bv_rand ::
    "(bytes \<Rightarrow> bool list) \<Rightarrow> ('k, 'v) hashmap \<Rightarrow> bytes \<Rightarrow> nat \<Rightarrow> nat \<Rightarrow> ('v \<Rightarrow> bool) option
      \<Rightarrow> 'v list option outcome" where
  "inner_cache_bv_rand from_bytes c buf xess nb filtfn =
     and_then (clear_bits xess (from_bytes buf)) (\<lambda>flt.
     and_then (bv_fsize flt xess filtfn c) (\<lambda>fsize.
     if nb = 0 then Panic
     else let ratio = fsize div nb in
       if ratio = 0 then Ok None
       else and_then (bv_pick flt xess nb ratio filtfn c) (\<lambda>(i, tot, r). Ok (Some r))))"

definition rand_nb :: "nat \<Rightarrow> nat \<Rightarrow> nat" where
  "rand_nb l queried_nb =
     (let randrat = l * fst distrib_ratio div snd distrib_ratio in
      if queried_nb > randrat then (if randrat = 0 then 1 else randrat) else queried_nb)"

definition rand_xess :: "nat \<Rightarrow> nat" where
  "rand_xess l = (let m = l mod 8 in if m = 0 then 0 else 8 - m)"

definition rand_buf_len :: "nat \<Rightarrow> nat" where
  "rand_buf_len l = (if rand_xess l = 0 then l div 8 else l div 8 + 1)"

text \<open>
  The rerolling loop: \<open>fill n len\<close> is the content of the buffer after the \<open>n\<close>-th
  \<open>fill_bytes\<close>.  The loop may run for ever, so it is a partial function.
\<close>

partial_function (option) rand_loop ::
    "(bytes \<Rightarrow> bool list) \<Rightarrow> (nat \<Rightarrow> nat \<Rightarrow> bytes) \<Rightarrow> ('k, 'v) hashmap \<Rightarrow> nat \<Rightarrow> nat \<Rightarrow> nat
      \<Rightarrow> ('v \<Rightarrow> bool) option \<Rightarrow> nat \<Rightarrow> 'v list outcome option" where
  "rand_loop from_bytes fill c len xess nb f n =
     (case inner_cache_bv_rand from_bytes c (fill n len) xess nb f of
        Ok (Some res) \<Rightarrow>
          if length res = nb then Some (Ok res)
          else rand_loop from_bytes fill c len xess nb f (Suc n)
      | Ok None \<Rightarrow> rand_loop from_bytes fill c len xess nb f (Suc n)
      | Err e \<Rightarrow> Some (Err e)
      | Panic \<Rightarrow> Some Panic)"

definition next_random_values ::
    "(bytes \<Rightarrow> bool list) \<Rightarrow> (nat \<Rightarrow> nat \<Rightarrow> bytes) \<Rightarrow> ('k, 'v) hashmap \<Rightarrow> nat
      \<Rightarrow> ('v \<Rightarrow> bool) option \<Rightarrow> 'v list outcome option" where
  "next_random_values from_bytes fill c queried_nb f =
     (let l = (case f of Some fil \<Rightarrow> len_where_c fil c | None \<Rightarrow> hashmap_len_c c) in
      if l = 0 \<or> queried_nb = 0 then Some (Ok [])
      else rand_loop from_bytes fill c (rand_buf_len l) (rand_xess l) (rand_nb l queried_nb) f 0)"

section \<open>\<open>RandCache::exact_rand\<close>\<close>

text \<open>One draw of the inner loop; \<open>rng i\<close> is the \<open>i\<close>-th number of the generator.\<close>

definition draw_pos ::
    "(nat \<Rightarrow> nat) \<Rightarrow> nat \<Rightarrow> nat \<Rightarrow> nat \<Rightarrow> nat list \<times> nat list \<Rightarrow> (nat list \<times> nat list) outcome" where
  "draw_pos rng c_len tot_nb_done nb_done st =
     (case st of (positions, positions2) \<Rightarrow>
        if c_len \<le> nb_done then Panic
        else let endp = c_len - nb_done; pos = rng tot_nb_done mod endp in
          if length positions2 \<le> pos \<or> length positions2 < endp
             \<or> length positions \<le> tot_nb_done then Panic
          else let p = positions2 ! pos in
            Ok (positions[tot_nb_done := p],
                (positions2[pos := positions2 ! (endp - 1)])[endp - 1 := p]))"

function draw_block ::
    "(nat \<Rightarrow> nat) \<Rightarrow> nat \<Rightarrow> nat \<Rightarrow> nat \<Rightarrow> nat \<Rightarrow> nat list \<times> nat list \<Rightarrow> (nat list \<times> nat list) outcome" where
  "draw_block rng c_len min_no_repeat tot_nb_done nb_done st =
     (if nb_done < min_no_repeat
      then and_then (draw_pos rng c_len tot_nb_done nb_done st)
             (draw_block rng c_len min_no_repeat (tot_nb_done + 1) (nb_done + 1))
      else Ok st)"
  by pat_completeness auto
termination
  by (relation "measure (\<lambda>(rng, c_len, m, tot, nb, st). m - nb)") auto

declare draw_block.simps [simp del]

text \<open>The outer loop runs once per block; \<open>min_no_repeat\<close> is not zero when it is entered.\<close>

function draw_all ::
    "(nat \<Rightarrow> nat) \<Rightarrow> nat \<Rightarrow> nat \<Rightarrow> nat \<Rightarrow> nat \<Rightarrow> nat list \<times> nat list \<Rightarrow> (nat list \<times> nat list) outcome" where
  "draw_all rng c_len min_no_repeat mult_nb_ret tot_nb_done st =
     (if tot_nb_done < mult_nb_ret \<and> 0 < min_no_repeat
      then and_then (draw_block rng c_len min_no_repeat tot_nb_done 0 st)
             (draw_all rng c_len min_no_repeat mult_nb_ret (tot_nb_done + min_no_repeat))
      else Ok st)"
  by pat_completeness auto
termination
  by (relation "measure (\<lambda>(rng, c_len, m, mult, tot, st). mult - tot)") auto

declare draw_all.simps [simp del]

definition fill_result :: "nat list \<Rightarrow> nat \<Rightarrow> 'v \<Rightarrow> 'v option list \<Rightarrow> 'v option list" where
  "fill_result positions i v result =
     foldl (\<lambda>r j. if positions ! j = i then r[j := Some v] else r) result [0..<length positions]"

definition exact_rand ::
    "(nat \<Rightarrow> nat) \<Rightarrow> ('k, 'v) hashmap \<Rightarrow> nat \<Rightarrow> nat \<Rightarrow> 'v list outcome" where
  "exact_rand rng c min_no_repeat nb_tot =
     (let c_len = hashmap_len_c c in
      if c_len < min_no_repeat
      then Err (Bug ''Unchecked call to cache exact_rand, insufficient value'')
      else let nb_ret = min nb_tot c_len in
      if min_no_repeat = 0 then Panic
      else let mult_nb_ret = (nb_ret div min_no_repeat) * min_no_repeat in
      and_then (draw_all rng c_len min_no_repeat mult_nb_ret 0
                 (replicate mult_nb_ret 0, [0..<c_len])) (\<lambda>(positions, positions2).
      let result = fst (hashmap_strict_fold_c
            (\<lambda>(result, i) kv. (fill_result positions i (snd kv) result, i + 1))
            (replicate mult_nb_ret None, 0) c) in
      fold_try (\<lambda>r v. and_then (unwrap v) (\<lambda>v. Ok (r @ [v]))) [] result))"

section \<open>The contract of a cache\<close>

text \<open>
  What the users of the trait rely on.  The first locale holds for every implementation,
  \<open>NoCache\<close> included; the second one adds what a cache that really stores promises.
\<close>

locale cache_base =
  fixes invar :: "'c \<Rightarrow> bool"
    and add :: "'k \<Rightarrow> 'v \<Rightarrow> 'c \<Rightarrow> 'c"
    and get :: "'c \<Rightarrow> 'k \<Rightarrow> 'v option"
    and has :: "'c \<Rightarrow> 'k \<Rightarrow> bool"
    and rem :: "'k \<Rightarrow> 'c \<Rightarrow> 'c \<times> 'v option"
  assumes has_get: "invar c \<Longrightarrow> has c k \<longleftrightarrow> get c k \<noteq> None"
    and rem_result: "invar c \<Longrightarrow> snd (rem k c) = get c k"
    and rem_get: "invar c \<Longrightarrow> get (fst (rem k c)) k' = (if k' = k then None else get c k')"
    and add_other: "invar c \<Longrightarrow> k' \<noteq> k \<Longrightarrow> get (add k v c) k' = get c k'"
    and add_invar: "invar c \<Longrightarrow> invar (add k v c)"
    and rem_invar: "invar c \<Longrightarrow> invar (fst (rem k c))"
begin

lemma rem_idem: "invar c \<Longrightarrow> snd (rem k (fst (rem k c))) = None"
  by (simp add: rem_result rem_get rem_invar)

lemma has_rem: "invar c \<Longrightarrow> has (fst (rem k c)) k' \<longleftrightarrow> k' \<noteq> k \<and> has c k'"
  by (simp add: has_get rem_get rem_invar)

end

locale cache_store = cache_base invar add get has rem
  for invar :: "'c \<Rightarrow> bool" and add :: "'k \<Rightarrow> 'v \<Rightarrow> 'c \<Rightarrow> 'c" and get has rem +
  assumes add_same: "invar c \<Longrightarrow> get (add k v c) k = Some v"
begin

lemma get_add: "invar c \<Longrightarrow> get (add k v c) = (get c)(k \<mapsto> v)"
  by (rule ext) (simp add: add_same add_other)

lemma get_rem: "invar c \<Longrightarrow> get (fst (rem k c)) = (get c)(k := None)"
  by (rule ext) (simp add: rem_get)

lemma has_add: "invar c \<Longrightarrow> has (add k v c) k' \<longleftrightarrow> k' = k \<or> has c k'"
  by (simp add: has_get get_add add_invar)

lemma rem_add_result: "invar c \<Longrightarrow> snd (rem k (add k v c)) = Some v"
  by (simp add: rem_result add_invar add_same)

end

lemma hashmap_ok_new [simp]: "hashmap_ok hashmap_new"
  by (simp add: hashmap_ok_def hashmap_new_def)

lemma hashmap_ok_add [simp]: "hashmap_ok m \<Longrightarrow> hashmap_ok (hashmap_add_val_c k v m)"
  by (simp add: hashmap_ok_def hashmap_add_val_c_def distinct_update)

lemma hashmap_ok_remove [simp]: "hashmap_ok m \<Longrightarrow> hashmap_ok (fst (hashmap_remove_val_c k m))"
  by (simp add: hashmap_ok_def hashmap_remove_val_c_def distinct_delete)

interpretation hm: cache_store hashmap_ok hashmap_add_val_c hashmap_get_val_c
    hashmap_has_val_c hashmap_remove_val_c
proof
  fix m :: "('a \<times> 'b) list" and k
  show "hashmap_has_val_c m k \<longleftrightarrow> hashmap_get_val_c m k \<noteq> None"
    by (simp add: hashmap_has_val_c_def hashmap_get_val_c_def map_of_eq_None_iff)
qed (simp_all add: hashmap_get_val_c_def hashmap_add_val_c_def hashmap_remove_val_c_def
      update_conv' delete_conv' hashmap_ok_def distinct_update distinct_delete)

interpretation nc: cache_base "\<lambda>_. True" nocache_add_val_c nocache_get_val_c
    "default_has_val_c nocache_get_val_c" nocache_remove_val_c
  by unfold_locales (simp_all add: nocache_get_val_c_def nocache_remove_val_c_def
      default_has_val_c_def)

section \<open>Folds\<close>

lemma hashmap_strict_fold_c_foldl: "hashmap_strict_fold_c f b m = foldl f b m"
  by (induction m arbitrary: b) simp_all

lemma hashmap_fold_c_err:
  "err \<noteq> Ok () \<Longrightarrow>
   hashmap_fold_c (\<lambda>s err kv. if err = Ok () then f s kv else (s, err)) s err m = (s, err)"
  by (induction m) simp_all

lemma map_inplace_default:
  "default_map_inplace_c f s m = hashmap_map_inplace_c f s m"
proof (induction m arbitrary: s)
  case Nil
  then show ?case by (simp add: default_map_inplace_c_def)
next
  case (Cons kv m)
  obtain s' r where f: "f s kv = (s', r)" by fastforce
  show ?case
  proof (cases r)
    case (Ok u)
    with f Cons.IH [of s'] show ?thesis by (simp add: default_map_inplace_c_def)
  next
    case (Err e)
    with f show ?thesis by (simp add: default_map_inplace_c_def hashmap_fold_c_err)
  next
    case Panic
    with f show ?thesis by (simp add: default_map_inplace_c_def hashmap_fold_c_err)
  qed
qed

lemma len_where_fold:
  "snd (hashmap_fold_c (\<lambda>s nb kv. (s, if f (snd kv) then nb + 1 else nb)) s n m)
   = n + length (filter (\<lambda>kv. f (snd kv)) m)"
  by (induction m arbitrary: n) simp_all

lemma len_where_c_filter: "len_where_c f m = length (filter (\<lambda>kv. f (snd kv)) m)"
  using len_where_fold [of f "()" 0 m] by (simp add: len_where_c_def)

section \<open>Random choice by bit vectors\<close>

text \<open>
  Vocabulary of the statements: the values a draw may return, those whose bit is set, and the
  ones the second pass keeps out of them.
\<close>

definition passes :: "('v \<Rightarrow> bool) option \<Rightarrow> 'v \<Rightarrow> bool" where
  "passes filtfn v = (case filtfn of None \<Rightarrow> True | Some f \<Rightarrow> f v)"

definition candidates :: "('v \<Rightarrow> bool) option \<Rightarrow> ('k, 'v) hashmap \<Rightarrow> 'v list" where
  "candidates filtfn c = filter (passes filtfn) (map snd c)"

definition ones :: "bool list \<Rightarrow> nat" where
  "ones bs = length (filter (\<lambda>b. b) bs)"

fun selected :: "'v list \<Rightarrow> bool list \<Rightarrow> 'v list" where
  "selected (v # vs) (b # bs) = (if b then v # selected vs bs else selected vs bs)"
| "selected _ _ = []"

fun every :: "nat \<Rightarrow> nat \<Rightarrow> nat \<Rightarrow> 'v list \<Rightarrow> 'v list" where
  "every nb ratio tot [] = []"
| "every nb ratio tot (v # vs) =
     (if tot < nb \<and> tot mod ratio = 0 then v # every nb ratio (tot + 1) vs
      else every nb ratio (tot + 1) vs)"

lemma length_selected: "length vs = length bs \<Longrightarrow> length (selected vs bs) = ones bs"
  by (induction vs bs rule: list_induct2) (simp_all add: ones_def)

lemma subseq_selected: "subseq (selected vs bs) vs"
  by (induction vs bs rule: selected.induct) auto

lemma subseq_every: "subseq (every nb ratio tot vs) vs"
  by (induction vs arbitrary: tot) auto

lemma length_every:
  "length (every nb ratio tot vs) = card {t. tot \<le> t \<and> t < tot + length vs \<and> t < nb \<and> ratio dvd t}"
proof (induction vs arbitrary: tot)
  case (Cons v vs)
  let ?R = "{t. tot + 1 \<le> t \<and> t < tot + 1 + length vs \<and> t < nb \<and> ratio dvd t}"
  have "{t. tot \<le> t \<and> t < tot + length (v # vs) \<and> t < nb \<and> ratio dvd t}
      = (if tot < nb \<and> tot mod ratio = 0 then insert tot ?R else ?R)"
    by (auto simp: mod_eq_0_iff_dvd) (metis Suc_leI le_neq_implies_less)+
  moreover have "finite ?R" by simp
  ultimately show ?case using Cons.IH [of "tot + 1"] by simp
qed simp

lemma card_multiples:
  assumes "0 < ratio"
  shows "card {t. t < nb \<and> ratio dvd t} = (nb + ratio - 1) div ratio"
proof -
  have "{t. t < nb \<and> ratio dvd t} = (\<lambda>k. ratio * k) ` {..<(nb + ratio - 1) div ratio}"
  proof (intro equalityI subsetI)
    fix t assume "t \<in> {t. t < nb \<and> ratio dvd t}"
    then obtain k where k: "t = ratio * k" "ratio * k < nb" by auto
    then have "Suc k * ratio \<le> nb + ratio - 1" using assms by (simp add: algebra_simps)
    then have "Suc k \<le> (nb + ratio - 1) div ratio" by (simp add: less_eq_div_iff_mult_less_eq assms)
    with k show "t \<in> (\<lambda>k. ratio * k) ` {..<(nb + ratio - 1) div ratio}" by auto
  next
    fix t assume "t \<in> (\<lambda>k. ratio * k) ` {..<(nb + ratio - 1) div ratio}"
    then obtain k where k: "t = ratio * k" "Suc k \<le> (nb + ratio - 1) div ratio"
      by (auto simp: Suc_le_eq)
    then have "Suc k * ratio \<le> nb + ratio - 1" by (simp add: less_eq_div_iff_mult_less_eq assms)
    with k assms show "t \<in> {t. t < nb \<and> ratio dvd t}" by (simp add: algebra_simps)
  qed
  moreover have "inj_on (\<lambda>k. ratio * k) {..<(nb + ratio - 1) div ratio}"
    using assms by (simp add: inj_on_def)
  ultimately show ?thesis by (simp add: card_image)
qed

lemma length_every_all:
  assumes "0 < ratio" "nb \<le> length vs"
  shows "length (every nb ratio 0 vs) = (nb + ratio - 1) div ratio"
proof -
  have "{t. 0 \<le> t \<and> t < 0 + length vs \<and> t < nb \<and> ratio dvd t} = {t. t < nb \<and> ratio dvd t}"
    using assms(2) by auto
  then show ?thesis by (simp only: length_every card_multiples [OF assms(1)])
qed

lemma drop_nth_Cons: "i < length xs \<Longrightarrow> drop i xs = xs ! i # drop (Suc i) xs"
  by (simp add: Cons_nth_drop_Suc)

lemma bv_pick_fold:
  "i + length (candidates filtfn c) \<le> length flt \<Longrightarrow>
   foldl (\<lambda>st kv. and_then st (\<lambda>(i, tot, r).
          if case filtfn of None \<Rightarrow> True | Some f \<Rightarrow> f (snd kv)
          then and_then (unwrap (vec_get flt i)) (\<lambda>b.
            if b
            then Ok (i + 1, tot + 1, if tot < nb \<and> tot mod ratio = 0 then r @ [snd kv] else r)
            else Ok (i + 1, tot, r))
          else Ok (i, tot, r))) (Ok (i, tot, r)) c
   = Ok (i + length (candidates filtfn c),
         tot + length (selected (candidates filtfn c) (drop i flt)),
         r @ every nb ratio tot (selected (candidates filtfn c) (drop i flt)))"
proof (induction c arbitrary: i tot r)
  case Nil
  then show ?case by (simp add: candidates_def)
next
  case (Cons kv c)
  show ?case
  proof (cases "passes filtfn (snd kv)")
    case True
    then have cnd: "candidates filtfn (kv # c) = snd kv # candidates filtfn c"
      by (simp add: candidates_def)
    with Cons.prems have i: "i < length flt" "Suc i + length (candidates filtfn c) \<le> length flt"
      by simp_all
    from True i show ?thesis
      by (auto simp: cnd vec_get_def passes_def drop_nth_Cons Cons.IH)
  next
    case False
    then have "candidates filtfn (kv # c) = candidates filtfn c" by (simp add: candidates_def)
    with False Cons show ?thesis by (simp add: passes_def)
  qed
qed

lemma bv_fsize_fold:
  "i + length (candidates (Some f) c) \<le> length flt \<Longrightarrow>
   foldl (\<lambda>st kv. and_then st (\<lambda>(i, tot).
                 if f (snd kv)
                 then and_then (unwrap (vec_get flt i)) (\<lambda>b. Ok (i + 1, if b then tot + 1 else tot))
                 else Ok (i, tot))) (Ok (i, tot)) c
   = Ok (i + length (candidates (Some f) c),
         tot + length (selected (candidates (Some f) c) (drop i flt)))"
proof (induction c arbitrary: i tot)
  case Nil
  then show ?case by (simp add: candidates_def)
next
  case (Cons kv c)
  show ?case
  proof (cases "f (snd kv)")
    case True
    then have cnd: "candidates (Some f) (kv # c) = snd kv # candidates (Some f) c"
      by (simp add: candidates_def passes_def)
    with Cons.prems have i: "i < length flt" "Suc i + length (candidates (Some f) c) \<le> length flt"
      by simp_all
    from True i show ?thesis by (auto simp: cnd vec_get_def drop_nth_Cons Cons.IH)
  next
    case False
    then have "candidates (Some f) (kv # c) = candidates (Some f) c"
      by (simp add: candidates_def passes_def)
    with False Cons show ?thesis by simp
  qed
qed

lemma clear_bits_Ok:
  "n \<le> length bs \<Longrightarrow> clear_bits n bs = Ok (replicate n False @ drop n bs)"
proof (induction n)
  case (Suc n)
  then have "clear_bits n bs = Ok (replicate n False @ drop n bs)" by simp
  moreover have "(replicate n False @ drop n bs)[n := False] = replicate (Suc n) False @ drop (Suc n) bs"
    using Suc.prems by (simp add: list_update_append drop_nth_Cons replicate_append_same [symmetric])
  ultimately show ?case using Suc.prems by simp
qed simp

text \<open>
  One draw, in closed form: with \<open>ones\<close> of the random bits set, no result when fewer than
  \<open>nb\<close> of them are, and otherwise a subsequence of the candidates of length \<open>nb / ratio\<close>
  rounded up, where \<open>ratio\<close> is \<open>ones / nb\<close>.
\<close>

lemma inner_cache_bv_rand_result:
  assumes len: "length (from_bytes buf) = xess + length (candidates filtfn c)" and nb: "0 < nb"
    and n: "n = ones (drop xess (from_bytes buf))"
  shows "if n < nb then inner_cache_bv_rand from_bytes c buf xess nb filtfn = Ok None
         else \<exists>r. inner_cache_bv_rand from_bytes c buf xess nb filtfn = Ok (Some r)
                \<and> length r = (nb + n div nb - 1) div (n div nb)
                \<and> subseq r (candidates filtfn c)"
proof -
  let ?flt = "replicate xess False @ drop xess (from_bytes buf)"
  let ?sel = "selected (candidates filtfn c) (drop xess (from_bytes buf))"
  have flt: "clear_bits xess (from_bytes buf) = Ok ?flt" using len by (simp add: clear_bits_Ok)
  have sel: "length ?sel = n" using len by (simp add: length_selected n)
  have fsize: "bv_fsize ?flt xess filtfn c = Ok n"
  proof (cases filtfn)
    case None
    then show ?thesis by (simp add: bv_fsize_def n ones_def)
  next
    case (Some f)
    with len sel show ?thesis
      by (simp add: bv_fsize_def hashmap_strict_fold_c_foldl bv_fsize_fold)
  qed
  have pick: "bv_pick ?flt xess nb ratio filtfn c
      = Ok (xess + length (candidates filtfn c), n, every nb ratio 0 ?sel)" for ratio
    using len sel by (simp add: bv_pick_def hashmap_strict_fold_c_foldl bv_pick_fold)
  show ?thesis
  proof (cases "n < nb")
    case True
    then show ?thesis by (simp add: inner_cache_bv_rand_def flt fsize nb)
  next
    case False
    then have pos: "0 < n div nb" using nb by (simp add: div_greater_zero_iff)
    have "length (every nb (n div nb) 0 ?sel) = (nb + n div nb - 1) div (n div nb)"
      using False sel pos by (intro length_every_all) simp_all
    moreover have "subseq (every nb (n div nb) 0 ?sel) (candidates filtfn c)"
      by (rule subseq_order.trans [OF subseq_every subseq_selected])
    ultimately show ?thesis using False pos nb
      by (simp add: inner_cache_bv_rand_def flt fsize pick)
  qed
qed

lemma ceil_div_self:
  assumes "0 < (q::nat)" "0 < nb"
  shows "(nb + q - 1) div q = nb \<longleftrightarrow> q = 1 \<or> nb = 1"
proof
  assume eq: "(nb + q - 1) div q = nb"
  show "q = 1 \<or> nb = 1"
  proof (rule ccontr)
    assume "\<not> (q = 1 \<or> nb = 1)"
    with assms obtain a b where "q = Suc (Suc a)" "nb = Suc (Suc b)"
      by (metis One_nat_def not0_implies_Suc not_gr_zero)
    then have "nb + q - 1 < nb * q" by simp
    then have "(nb + q - 1) div q < nb" using assms by (simp add: div_less_iff_less_mult)
    with eq show False by simp
  qed
next
  assume "q = 1 \<or> nb = 1"
  with assms show "(nb + q - 1) div q = nb" by auto
qed

text \<open>The draws the loop stops on.\<close>

definition roll_ok :: "(bytes \<Rightarrow> bool list) \<Rightarrow> bytes \<Rightarrow> nat \<Rightarrow> nat \<Rightarrow> bool" where
  "roll_ok from_bytes buf xess nb =
     (let n = ones (drop xess (from_bytes buf)) in nb \<le> n \<and> (nb = 1 \<or> n < 2 * nb))"

lemma roll_ok_result:
  assumes len: "length (from_bytes buf) = xess + length (candidates filtfn c)" and nb: "0 < nb"
  shows "if roll_ok from_bytes buf xess nb
         then \<exists>r. inner_cache_bv_rand from_bytes c buf xess nb filtfn = Ok (Some r)
                \<and> length r = nb \<and> subseq r (candidates filtfn c)
         else inner_cache_bv_rand from_bytes c buf xess nb filtfn = Ok None
            \<or> (\<exists>r. inner_cache_bv_rand from_bytes c buf xess nb filtfn = Ok (Some r)
                   \<and> length r \<noteq> nb)"
proof -
  define n where "n = ones (drop xess (from_bytes buf))"
  note res = inner_cache_bv_rand_result [where from_bytes = from_bytes and buf = buf, OF len nb n_def]
  show ?thesis
  proof (cases "n < nb")
    case True
    with res show ?thesis by (simp add: roll_ok_def n_def [symmetric])
  next
    case False
    then have pos: "0 < n div nb" using nb by (simp add: div_greater_zero_iff)
    have one: "n div nb = 1 \<longleftrightarrow> n < 2 * nb"
    proof
      assume "n < 2 * nb"
      then have "n div nb < 2" using nb by (simp add: div_less_iff_less_mult)
      with pos show "n div nb = 1" by simp
    next
      assume "n div nb = 1"
      then have "n div nb < 2" by simp
      then show "n < 2 * nb" using nb by (simp add: div_less_iff_less_mult)
    qed
    from False res obtain r where
      r: "inner_cache_bv_rand from_bytes c buf xess nb filtfn = Ok (Some r)"
         "length r = (nb + n div nb - 1) div (n div nb)" "subseq r (candidates filtfn c)"
      by auto
    with False show ?thesis using ceil_div_self [OF pos nb] one
      by (auto simp: roll_ok_def n_def [symmetric])
  qed
qed

lemma rand_loop_returns:
  assumes len: "\<And>n. length (from_bytes (fill n len)) = xess + length (candidates filtfn c)"
    and nb: "0 < nb" and ok: "roll_ok from_bytes (fill (n + d) len) xess nb"
  shows "\<exists>r. rand_loop from_bytes fill c len xess nb filtfn n = Some (Ok r)
           \<and> length r = nb \<and> subseq r (candidates filtfn c)"
  using ok
proof (induction d arbitrary: n)
  case 0
  with roll_ok_result [where from_bytes = from_bytes and buf = "fill n len", OF len nb] show ?case by (auto simp: rand_loop.simps)
next
  case (Suc d)
  then have step: "\<exists>r. rand_loop from_bytes fill c len xess nb filtfn (Suc n) = Some (Ok r)
           \<and> length r = nb \<and> subseq r (candidates filtfn c)" by simp
  show ?case
  proof (cases "roll_ok from_bytes (fill n len) xess nb")
    case True
    with roll_ok_result [where from_bytes = from_bytes and buf = "fill n len", OF len nb] show ?thesis by (auto simp: rand_loop.simps)
  next
    case False
    with roll_ok_result [where from_bytes = from_bytes and buf = "fill n len", OF len nb]
    have "rand_loop from_bytes fill c len xess nb filtfn n
        = rand_loop from_bytes fill c len xess nb filtfn (Suc n)"
      by (subst rand_loop.simps) auto
    with step show ?thesis by simp
  qed
qed

lemma rand_loop_stops_only:
  fixes c :: "('k, 'v) hashmap"
  assumes len: "\<And>n. length (from_bytes (fill n len)) = xess + length (candidates filtfn c)"
    and nb: "0 < nb" and "rand_loop from_bytes fill c len xess nb filtfn n = Some y"
  shows "\<exists>k. roll_ok from_bytes (fill k len) xess nb"
proof -
  let ?P = "\<lambda>from_bytes fill c len xess nb filtfn n (y :: 'v list outcome).
     (\<forall>n. length (from_bytes (fill n len)) = xess + length (candidates filtfn (c :: ('k, 'v) hashmap)))
       \<longrightarrow> 0 < nb \<longrightarrow> (\<exists>k. roll_ok from_bytes (fill k len) xess nb)"
  have "?P from_bytes fill c len xess nb filtfn n y"
  proof (rule rand_loop.raw_induct [OF _ assms(3)], intro impI)
    fix rl from_bytes fill len xess nb filtfn n and c :: "('k, 'v) hashmap" and y :: "'v list outcome"
    assume IH: "\<And>from_bytes fill c len xess nb filtfn n y. rl from_bytes fill c len xess nb filtfn n
        = Some y \<Longrightarrow> ?P from_bytes fill c len xess nb filtfn n y"
      and eq: "(case inner_cache_bv_rand from_bytes c (fill n len) xess nb filtfn of
          Ok None \<Rightarrow> rl from_bytes fill c len xess nb filtfn (Suc n)
        | Ok (Some res) \<Rightarrow> if length res = nb then Some (Ok res)
            else rl from_bytes fill c len xess nb filtfn (Suc n)
        | Err e \<Rightarrow> Some (Err e) | Panic \<Rightarrow> Some Panic) = Some y"
      and len: "\<forall>n. length (from_bytes (fill n len)) = xess + length (candidates filtfn c)"
      and nb: "0 < nb"
    show "\<exists>k. roll_ok from_bytes (fill k len) xess nb"
    proof (cases "roll_ok from_bytes (fill n len) xess nb")
      case False
      with roll_ok_result [where from_bytes = from_bytes and buf = "fill n len", OF len [rule_format] nb] eq
      have "rl from_bytes fill c len xess nb filtfn (Suc n) = Some y" by auto
      from IH [OF this] len nb show ?thesis by blast
    qed blast
  qed
  with len nb show ?thesis by blast
qed
section \<open>The partial shuffle of \<open>exact_rand\<close>\<close>

text \<open>
  After \<open>j\<close> draws of a block that started at \<open>s\<close>, the tail of \<open>positions2\<close> holds the drawn
  positions in reverse, and \<open>positions2\<close> is still a permutation of all positions.
\<close>

definition draw_inv :: "nat \<Rightarrow> nat \<Rightarrow> nat \<Rightarrow> nat \<Rightarrow> nat list \<times> nat list \<Rightarrow> bool" where
  "draw_inv c_len tot s j st =
     (length (fst st) = tot \<and> mset (snd st) = mset [0..<c_len]
      \<and> rev (drop (c_len - j) (snd st)) = take j (drop s (fst st)))"

lemma draw_pos_inv:
  assumes inv: "draw_inv c_len tot s j st" and j: "j < c_len" and s: "s + j < tot"
  shows "\<exists>st'. draw_pos rng c_len (s + j) j st = Ok st' \<and> draw_inv c_len tot s (j + 1) st'
           \<and> take s (fst st') = take s (fst st)"
proof -
  obtain ps p2 where st: "st = (ps, p2)" by fastforce
  define e where "e = c_len - j"
  define pos where "pos = rng (s + j) mod e"
  define p where "p = p2 ! pos"
  define p2' where "p2' = p2[pos := p2 ! (e - 1), e - 1 := p]"
  have e: "0 < e" "e \<le> c_len" "pos < e" using j by (simp_all add: e_def pos_def)
  have perm: "mset p2 = mset [0..<c_len]" and lps: "length ps = tot"
    and tl: "rev (drop e p2) = take j (drop s ps)"
    using inv by (simp_all add: draw_inv_def st e_def)
  have lp2: "length p2 = c_len" using perm by (metis diff_zero length_upt mset_eq_length)
  have run: "draw_pos rng c_len (s + j) j st = Ok (ps[s + j := p], p2')"
  proof -
    have "pos < c_len" "\<not> c_len < e" using e by simp_all
    then show ?thesis using j s lps lp2
      unfolding draw_pos_def st p2'_def p_def by (simp add: pos_def e_def Let_def not_le)
  qed
  have "mset p2' = mset p2"
    unfolding p2'_def p_def using e lp2 by (intro mset_swap) simp_all
  moreover have "rev (drop (c_len - (j + 1)) p2') = take (j + 1) (drop s (ps[s + j := p]))"
  proof -
    have "c_len - (j + 1) = e - 1" by (simp add: e_def)
    moreover have "drop (e - 1) p2' = p # drop e p2"
      using e lp2 by (subst drop_nth_Cons) (simp_all add: p2'_def)
    moreover have "drop s (ps[s + j := p]) = (drop s ps)[j := p]"
      by (simp add: drop_update_swap)
    moreover have "take (j + 1) ((drop s ps)[j := p]) = take j (drop s ps) @ [p]"
      using s lps by (simp add: take_Suc_conv_app_nth)
    ultimately show ?thesis using tl by simp
  qed
  ultimately show ?thesis using run lps perm by (auto simp: draw_inv_def st)
qed

lemma draw_block_inv:
  assumes "draw_inv c_len tot s j st" "j \<le> m" "m \<le> c_len" "s + m \<le> tot"
  shows "\<exists>st'. draw_block rng c_len m (s + j) j st = Ok st' \<and> draw_inv c_len tot s m st'
           \<and> take s (fst st') = take s (fst st)"
  using assms
proof (induction "m - j" arbitrary: j st)
  case 0
  then show ?case by (simp add: draw_block.simps)
next
  case (Suc d)
  then have j: "j < m" by simp
  from draw_pos_inv [of c_len tot s j st rng] Suc.prems j obtain st1 where
    st1: "draw_pos rng c_len (s + j) j st = Ok st1" "draw_inv c_len tot s (j + 1) st1"
      "take s (fst st1) = take s (fst st)" by auto
  have "d = m - (j + 1)" using Suc.hyps(2) by simp
  from Suc.hyps(1) [OF this st1(2)] Suc.prems j obtain st' where
    "draw_block rng c_len m (s + (j + 1)) (j + 1) st1 = Ok st'" "draw_inv c_len tot s m st'"
    "take s (fst st') = take s (fst st1)" by auto
  with st1 j show ?case by (subst draw_block.simps) simp
qed

definition block_ok :: "nat \<Rightarrow> nat \<Rightarrow> nat list \<Rightarrow> bool" where
  "block_ok c_len m ps = (distinct (take m ps) \<and> set (take m ps) \<subseteq> {..<c_len})"

lemma draw_inv_block:
  assumes "draw_inv c_len tot s m st" shows "block_ok c_len m (drop s (fst st))"
proof -
  have "distinct (snd st)" "set (snd st) = {..<c_len}"
    using assms mset_eq_imp_distinct_iff [of "snd st" "[0..<c_len]"]
      mset_eq_setD [of "snd st" "[0..<c_len]"] by (auto simp: draw_inv_def atLeast0LessThan)
  moreover have "take m (drop s (fst st)) = rev (drop (c_len - m) (snd st))"
    using assms by (simp add: draw_inv_def)
  ultimately show ?thesis by (auto simp: block_ok_def dest: in_set_dropD)
qed

lemma draw_all_blocks:
  assumes "length (fst st) = s + r * m" "mset (snd st) = mset [0..<c_len]" "0 < m" "m \<le> c_len"
  shows "\<exists>st'. draw_all rng c_len m (s + r * m) s st = Ok st'
           \<and> length (fst st') = s + r * m \<and> take s (fst st') = take s (fst st)
           \<and> (\<forall>k<r. block_ok c_len m (drop (s + k * m) (fst st')))"
  using assms
proof (induction r arbitrary: s st)
  case 0
  then show ?case by (simp add: draw_all.simps)
next
  case (Suc r)
  let ?tot = "s + Suc r * m"
  have lp2: "length (snd st) = c_len"
    using Suc.prems(2) by (metis diff_zero length_upt mset_eq_length)
  then have "draw_inv c_len ?tot s 0 st" using Suc.prems by (simp add: draw_inv_def)
  from draw_block_inv [OF this, of m rng] Suc.prems obtain st1 where
    st1: "draw_block rng c_len m s 0 st = Ok st1" "draw_inv c_len ?tot s m st1"
      "take s (fst st1) = take s (fst st)" by auto
  have eq: "?tot = (s + m) + r * m" by simp
  from Suc.IH [of st1 "s + m"] Suc.prems st1(2) obtain st' where
    st': "draw_all rng c_len m ?tot (s + m) st1 = Ok st'" "length (fst st') = ?tot"
      "take (s + m) (fst st') = take (s + m) (fst st1)"
      "\<forall>k<r. block_ok c_len m (drop (s + m + k * m) (fst st'))"
    unfolding eq by (auto simp: draw_inv_def algebra_simps)
  have "take m (drop s (fst st')) = take m (drop s (fst st1))"
    using st'(3) by (simp add: take_drop add.commute)
  then have first: "block_ok c_len m (drop s (fst st'))"
    using draw_inv_block [OF st1(2)] by (simp add: block_ok_def)
  have "block_ok c_len m (drop (s + k * m) (fst st'))" if "k < Suc r" for k
    using that first st'(4) by (cases k) (auto simp: algebra_simps)
  moreover have "take s (fst st') = take s (fst st)"
    using st'(3) st1(3) by (metis min.absorb1 le_add1 take_take)
  ultimately show ?case using st1 st' Suc.prems(3) by (subst draw_all.simps) simp
qed

text \<open>The costly pass that collects the values sets every slot to the value at its position.\<close>

lemma fill_result_prefix:
  assumes "n \<le> length result"
  shows "foldl (\<lambda>r j. if ps ! j = i then r[j := Some v] else r) result [0..<n]
       = map (\<lambda>j. if j < n \<and> ps ! j = i then Some v else result ! j) [0..<length result]"
  using assms
proof (induction n)
  case 0
  then show ?case by (simp add: map_nth)
next
  case (Suc n)
  then show ?case by (auto intro!: nth_equalityI simp: nth_list_update less_Suc_eq)
qed

lemma collect_values:
  assumes "length result = length ps"
  shows "fst (foldl (\<lambda>(result, i) kv. (fill_result ps i (snd kv) result, i + 1)) (result, i) c)
       = map (\<lambda>j. if i \<le> ps ! j \<and> ps ! j < i + length c then Some (snd (c ! (ps ! j - i)))
                   else result ! j) [0..<length ps]"
  using assms
proof (induction c arbitrary: result i)
  case Nil
  then show ?case by (auto intro!: nth_equalityI)
next
  case (Cons kv c)
  have f: "fill_result ps i (snd kv) result
      = map (\<lambda>j. if ps ! j = i then Some (snd kv) else result ! j) [0..<length ps]"
    using Cons.prems by (auto simp: fill_result_def fill_result_prefix)
  have "fst (foldl (\<lambda>(result, i) kv. (fill_result ps i (snd kv) result, i + 1))
            (fill_result ps i (snd kv) result, i + 1) c)
      = map (\<lambda>j. if i + 1 \<le> ps ! j \<and> ps ! j < i + 1 + length c then Some (snd (c ! (ps ! j - (i + 1))))
                 else fill_result ps i (snd kv) result ! j) [0..<length ps]"
    using Cons.prems by (intro Cons.IH) (simp add: f)
  then show ?case by (auto simp: f nth_Cons' Suc_le_eq)
qed

lemma unwrap_all:
  "fold_try (\<lambda>r v. and_then (unwrap v) (\<lambda>v. Ok (r @ [v]))) acc (map Some xs) = Ok (acc @ xs)"
  by (induction xs arbitrary: acc) simp_all

lemma exact_rand_Ok:
  assumes m: "0 < m" "m \<le> length c" and q: "q = min nb_tot (length c) div m"
  shows "\<exists>ps. exact_rand rng c m nb_tot = Ok (map (\<lambda>p. snd (c ! p)) ps) \<and> length ps = q * m
           \<and> (\<forall>k<q. block_ok (length c) m (drop (k * m) ps))"
proof -
  from draw_all_blocks [of "(replicate (q * m) 0, [0..<length c])" 0 q m "length c" rng] m
  obtain st' where st': "draw_all rng (length c) m (q * m) 0 (replicate (q * m) 0, [0..<length c])
      = Ok st'" "length (fst st') = q * m"
      "\<forall>k<q. block_ok (length c) m (drop (k * m) (fst st'))" by auto
  have lt: "fst st' ! j < length c" if "j < q * m" for j
  proof -
    have dv: "j div m < q" using that m by (simp add: div_less_iff_less_mult)
    then have blk: "set (take m (drop (j div m * m) (fst st'))) \<subseteq> {..<length c}"
      using st'(3) by (simp add: block_ok_def)
    have j: "j = j div m * m + j mod m" "j mod m < m" using m by simp_all
    have "j div m * m \<le> length (fst st')" using dv st'(2) by simp
    then have "take m (drop (j div m * m) (fst st')) ! (j mod m) = fst st' ! j"
      using j(2) by (simp add: div_mult_mod_eq)
    moreover have "j mod m < q * m - j div m * m" using that j(1) by linarith
    then have "j mod m < length (take m (drop (j div m * m) (fst st')))"
      using j(2) st'(2) by simp
    ultimately show ?thesis using blk by (metis lessThan_iff nth_mem subsetD)
  qed
  have "map (\<lambda>j. if 0 \<le> fst st' ! j \<and> fst st' ! j < 0 + length c then Some (snd (c ! (fst st' ! j - 0)))
          else replicate (q * m) None ! j) [0..<length (fst st')]
      = map Some (map (\<lambda>p. snd (c ! p)) (fst st'))"
    using lt st'(2) by (auto intro!: nth_equalityI)
  with collect_values [of "replicate (q * m) None" "fst st'" 0 c] st'
  have "fst (foldl (\<lambda>(result, i) kv. (fill_result (fst st') i (snd kv) result, i + 1))
          (replicate (q * m) None, 0) c) = map Some (map (\<lambda>p. snd (c ! p)) (fst st'))" by simp
  with st' m q have "exact_rand rng c m nb_tot = Ok (map (\<lambda>p. snd (c ! p)) (fst st'))"
    by (simp add: exact_rand_def hashmap_len_c_def hashmap_strict_fold_c_foldl Let_def
        case_prod_beta unwrap_all del: map_map)
  with st' show ?thesis by blast
qed

section \<open>Properties\<close>

lemma rand_nb_bounds:
  assumes "0 < q" shows "0 < rand_nb l q \<and> rand_nb l q \<le> q \<and> (rand_nb l q = 1 \<or> 3 * rand_nb l q \<le> 2 * l)"
  using assms by (auto simp: rand_nb_def distrib_ratio_def Let_def)

lemma rand_buffer_bits: "8 * rand_buf_len l = rand_xess l + l"
  unfolding rand_buf_len_def rand_xess_def Let_def by presburger

lemma candidates_length:
  "length (candidates f c) = (case f of Some fil \<Rightarrow> len_where_c fil c | None \<Rightarrow> hashmap_len_c c)"
proof (cases f)
  case None
  then show ?thesis by (simp add: candidates_def passes_def hashmap_len_c_def)
next
  case (Some fil)
  then have "candidates f c = map snd (filter (\<lambda>kv. fil (snd kv)) c)"
    by (simp add: candidates_def passes_def filter_map o_def)
  with Some show ?thesis by (simp add: len_where_c_filter)
qed

lemma next_random_values_cases:
  assumes from_bytes: "\<And>b. length (from_bytes b) = 8 * length b"
    and fill: "\<And>n len. length (fill n len) = len"
    and l: "l = length (candidates f c)" "0 < l" and q: "0 < queried_nb"
  shows "if \<exists>n. roll_ok from_bytes (fill n (rand_buf_len l)) (rand_xess l) (rand_nb l queried_nb)
    then \<exists>r. next_random_values from_bytes fill c queried_nb f = Some (Ok r)
           \<and> length r = rand_nb l queried_nb \<and> length r \<le> queried_nb
           \<and> (length r = 1 \<or> 3 * length r \<le> 2 * l) \<and> subseq r (candidates f c)
    else next_random_values from_bytes fill c queried_nb f = None"
proof -
  have len: "length (from_bytes (fill n (rand_buf_len l))) = rand_xess l + length (candidates f c)" for n
    by (simp add: from_bytes fill rand_buffer_bits l(1))
  have unfold: "next_random_values from_bytes fill c queried_nb f
      = rand_loop from_bytes fill c (rand_buf_len l) (rand_xess l) (rand_nb l queried_nb) f 0"
    using l q by (simp add: next_random_values_def candidates_length [symmetric] Let_def)
  have nb: "0 < rand_nb l queried_nb" using rand_nb_bounds [OF q] by blast
  show ?thesis
  proof (cases "\<exists>n. roll_ok from_bytes (fill n (rand_buf_len l)) (rand_xess l) (rand_nb l queried_nb)")
    case True
    then obtain n where
      n: "roll_ok from_bytes (fill (0 + n) (rand_buf_len l)) (rand_xess l) (rand_nb l queried_nb)"
      by auto
    from rand_loop_returns [where from_bytes = from_bytes and fill = fill, OF len nb n]
      rand_nb_bounds [OF q, of l] True show ?thesis by (auto simp: unfold)
  next
    case False
    with rand_loop_stops_only [where from_bytes = from_bytes and fill = fill, OF len nb, of 0]
    show ?thesis by (simp add: unfold) (metis option.exhaust)
  qed
qed

text \<open>
  \<open>next_random_values\<close> on a cache with candidates, asked for at least one value: it returns
  exactly when some roll of the generator sets between \<open>nb\<close> and \<open>2 nb - 1\<close> of the candidates'
  bits (any number from one on when \<open>nb\<close> is one), where \<open>nb\<close> is the queried number reduced to
  two thirds of the candidates; it then returns exactly \<open>nb\<close> candidates, no entry of the cache
  twice, and it never panics.  Otherwise it rerolls for ever.
\<close>

theorem next_random_values_returns:
  assumes from_bytes: "\<And>b. length (from_bytes b) = 8 * length b"
    and fill: "\<And>n len. length (fill n len) = len"
    and l: "l = length (candidates f c)" "0 < l" and q: "0 < queried_nb"
  shows "if \<exists>n. roll_ok from_bytes (fill n (rand_buf_len l)) (rand_xess l) (rand_nb l queried_nb)
    then \<exists>r. next_random_values from_bytes fill c queried_nb f = Some (Ok r)
           \<and> length r = rand_nb l queried_nb \<and> length r \<le> queried_nb
           \<and> (length r = 1 \<or> 3 * length r \<le> 2 * l) \<and> subseq r (candidates f c)
    else next_random_values from_bytes fill c queried_nb f = None"
  using assms by (rule next_random_values_cases)

text \<open>
  Four candidates, two values asked for; the third roll is the first with two or three bits
  set among the last four.
\<close>

theorem next_random_values_returns_witness:
  "\<exists>r. next_random_values (\<lambda>b. concat (map (\<lambda>x. map (bit x) [7,6,5,4,3,2,1,0]) b))
         (\<lambda>n len. replicate len (if n < 2 then 15 else 6))
         [(1 :: nat, 10 :: nat), (2, 20), (3, 30), (4, 40)] 2 None = Some (Ok r)
       \<and> length r = 2 \<and> subseq r [10, 20, 30, 40]"
proof -
  let ?fb = "\<lambda>b. concat (map (\<lambda>x. map (bit x) [7,6,5,4,3,2,1,0]) (b :: u8 list))"
  let ?fill = "\<lambda>n len. replicate len (if n < (2 :: nat) then 15 else (6 :: u8))"
  let ?c = "[(1 :: nat, 10 :: nat), (2, 20), (3, 30), (4, 40)]"
  have fb: "length (?fb b) = 8 * length b" for b by (induction b) simp_all
  have cnd: "4 = length (candidates None ?c)" "(0 :: nat) < 4" "(0 :: nat) < 2"
    "candidates None ?c = [10, 20, 30, 40]"
    by (simp_all add: candidates_def passes_def)
  have nb: "rand_nb 4 2 = 2" by (simp add: rand_nb_def distrib_ratio_def)
  have "roll_ok ?fb (?fill 2 (rand_buf_len 4)) (rand_xess 4) (rand_nb 4 2)"
    by (simp add: nb roll_ok_def rand_buf_len_def rand_xess_def ones_def bit_numeral_rec)
  then have ex: "\<exists>n. roll_ok ?fb (?fill n (rand_buf_len 4)) (rand_xess 4) (rand_nb 4 2)" by blast
  have "length (?fill n len) = len" for n len by simp
  from next_random_values_returns [of ?fb ?fill, OF fb this cnd(1) cnd(2) cnd(3), unfolded if_P [OF ex]]
  show ?thesis unfolding cnd(4) nb by blast
qed

text \<open>
  \<open>exact_rand\<close> with enough values: the result has the greatest multiple of
  \<open>min_no_repeat\<close> that \<open>nb_tot\<close> and the cache allow as its length, and no block of
  \<open>min_no_repeat\<close> consecutive results uses an entry of the cache twice, whatever the
  generator yields.  No index of the shuffle is out of range.
\<close>

theorem exact_rand_blocks_distinct:
  assumes "0 < min_no_repeat" "min_no_repeat \<le> length c"
  shows "\<exists>ps. exact_rand rng c min_no_repeat nb_tot = Ok (map (\<lambda>p. snd (c ! p)) ps)
     \<and> length ps = min nb_tot (length c) div min_no_repeat * min_no_repeat
     \<and> (\<forall>k < min nb_tot (length c) div min_no_repeat.
          distinct (take min_no_repeat (drop (k * min_no_repeat) ps))
          \<and> set (take min_no_repeat (drop (k * min_no_repeat) ps)) \<subseteq> {..<length c})"
  using exact_rand_Ok [OF assms refl, of rng nb_tot] unfolding block_ok_def .

theorem exact_rand_blocks_distinct_witness:
  "\<exists>ps. exact_rand (\<lambda>i. 5 * i + 3) [(1 :: nat, ''a''), (2, ''b''), (3, ''c'')] 1 7
          = Ok (map (\<lambda>p. snd ([(1 :: nat, ''a''), (2, ''b''), (3, ''c'')] ! p)) ps)
      \<and> length ps = 3"
  using exact_rand_blocks_distinct [of 1 "[(1 :: nat, ''a''), (2, ''b''), (3, ''c'')]" "\<lambda>i. 5 * i + 3" 7]
  by auto

text \<open>
  The failures of \<open>exact_rand\<close>: fewer values than \<open>min_no_repeat\<close> is an error, and
  \<open>min_no_repeat = 0\<close>, which passes that test, divides by zero.
\<close>

lemma exact_rand_failures:
  "(length c < min_no_repeat \<longrightarrow> exact_rand rng c min_no_repeat nb_tot
      = Err (Bug ''Unchecked call to cache exact_rand, insufficient value''))
   \<and> exact_rand rng c 0 nb_tot = Panic"
  by (simp add: exact_rand_def hashmap_len_c_def Let_def)

lemma exact_rand_failures_witness:
  "exact_rand (\<lambda>_. 0) ([] :: (nat \<times> nat) list) 1 1
     = Err (Bug ''Unchecked call to cache exact_rand, insufficient value'')"
  using exact_rand_failures [of "[] :: (nat \<times> nat) list" 1 "\<lambda>_. 0" 1] by simp


end
