(* ===== verification/Simplecache.thy ===== *)
theory Simplecache
  imports Kvcache
begin

text \<open>
  The storage interface \<open>KVStore\<close> of \<open>mydht-base/src/kvstore.rs\<close> and its implementation
  \<open>SimpleCache\<close> over a hash map (\<open>mydht-base/src/simplecache.rs\<close>), with the persistence to a
  JSON file.  \<open>get_key\<close> is the method of the \<open>KeyVal\<close> trait, an argument of the definitions; the
  JSON library is a pair of functions, and the files are a map from paths to contents.
\<close>

section \<open>State and operations\<close>

datatype cache_policy = CachePolicy nat

datatype storage_priority =
    StorageLocal | PropagateL nat | PropagateH nat | Trensiant | NoStore | StorageAll

record ('k, 'v) simple_cache =
  cache :: "('k, 'v) hashmap"
  persi :: "string option"

definition add_val ::
    "('v \<Rightarrow> 'k) \<Rightarrow> 'v \<Rightarrow> cache_policy option \<Rightarrow> ('k, 'v) simple_cache \<Rightarrow> ('k, 'v) simple_cache" where
  "add_val get_key v pol st = st\<lparr>cache := hashmap_add_val_c (get_key v) v (cache st)\<rparr>"

definition get_val :: "('k, 'v) simple_cache \<Rightarrow> 'k \<Rightarrow> 'v option" where
  "get_val st k = hashmap_get_val_c (cache st) k"

definition has_val :: "('k, 'v) simple_cache \<Rightarrow> 'k \<Rightarrow> bool" where
  "has_val st k = hashmap_has_val_c (cache st) k"

definition remove_val :: "'k \<Rightarrow> ('k, 'v) simple_cache \<Rightarrow> ('k, 'v) simple_cache" where
  "remove_val k st = st\<lparr>cache := fst (hashmap_remove_val_c k (cache st))\<rparr>"

text \<open>One of the two completing passes of \<open>get_next_vals\<close>: \<open>use i\<close> says which indices it takes.\<close>

definition fill_pass ::
    "(nat \<Rightarrow> bool) \<Rightarrow> nat \<Rightarrow> 'v list \<Rightarrow> ('k, 'v) hashmap \<Rightarrow> 'v list" where
  "fill_pass use adjust r c =
     fst (snd (snd (hashmap_fold_c
       (\<lambda>s (i, res, rem) kv.
          if use i \<and> rem > 0 \<and> snd kv \<notin> set res
          then (s, i + 1, res @ [snd kv], rem - 1)
          else (s, i + 1, res, rem))
       () (0, r, adjust) c)))"

text \<open>
  \<open>rnd\<close> is the number drawn for the start position.  The outer option is the possible
  divergence of \<open>next_random_values\<close>; the subtraction \<open>min nb clen - r.len()\<close> panics below
  zero.
\<close>

definition get_next_vals ::
    "(bytes \<Rightarrow> bool list) \<Rightarrow> (nat \<Rightarrow> nat \<Rightarrow> bytes) \<Rightarrow> nat \<Rightarrow> ('k, 'v) simple_cache \<Rightarrow> nat
      \<Rightarrow> 'v list option outcome option" where
  "get_next_vals from_bytes fill rnd st nb =
     (let clen = hashmap_len_c (cache st) in
      if clen = 0 then Some (Ok (Some []))
      else case next_random_values from_bytes fill (cache st) nb None of
        None \<Rightarrow> None
      | Some res \<Rightarrow> Some (and_then res (\<lambda>r.
          if length r < nb \<and> length r < clen
          then let adjust = min nb clen - length r;
                   pos = rnd mod clen;
                   r1 = (if pos < clen - 1
                         then fill_pass (\<lambda>i. pos < i) adjust r (cache st) else r) in
            if min nb clen < length r1 then Panic
            else let adjust1 = min nb clen - length r1 in
              Ok (Some (if adjust1 \<noteq> 0
                        then fill_pass (\<lambda>i. i \<le> pos) adjust1 r1 (cache st) else r1))
          else Ok (Some r))))"

definition get_vals_from_left :: "('k1 \<times> 'k2, 'v) simple_cache \<Rightarrow> 'k1 \<Rightarrow> 'v list" where
  "get_vals_from_left st k1 =
     hashmap_strict_fold_c (\<lambda>r kv. if fst (fst kv) = k1 then r @ [snd kv] else r) [] (cache st)"

definition get_vals_from_right :: "('k1 \<times> 'k2, 'v) simple_cache \<Rightarrow> 'k2 \<Rightarrow> 'v list" where
  "get_vals_from_right st k2 =
     hashmap_strict_fold_c (\<lambda>r kv. if snd (fst kv) = k2 then r @ [snd kv] else r) [] (cache st)"

section \<open>Persistence\<close>

type_synonym files = "string \<rightharpoonup> string"

text \<open>
  \<open>commit_store_new\<close> copies the file aside, empties it and makes a single \<open>write\<close> call, which
  takes the first \<open>wlen\<close> characters of its argument.  \<open>bupath\<close> is \<open>with_extension("_bu")\<close>.
\<close>

definition commit_store_new ::
    "('v list \<Rightarrow> string option) \<Rightarrow> (string \<Rightarrow> string) \<Rightarrow> nat \<Rightarrow> files \<Rightarrow> ('k, 'v) simple_cache
      \<Rightarrow> files \<times> unit outcome" where
  "commit_store_new to_string bupath wlen fs st =
     (case persi st of
        Some confpath \<Rightarrow>
          (case fs confpath of
             None \<Rightarrow> (fs, Panic)
           | Some content \<Rightarrow>
               let fs1 = fs(bupath confpath \<mapsto> content);
                   fs2 = fs1(confpath \<mapsto> []);
                   vser = hashmap_strict_fold_c (\<lambda>v p. v @ [snd p]) [] (cache st) in
               (case to_string vser of
                  None \<Rightarrow> (fs2, Panic)
                | Some js \<Rightarrow> (fs2(confpath \<mapsto> take wlen js), Ok ())))
      | None \<Rightarrow> (fs, Ok ()))"

definition commit_store ::
    "('v list \<Rightarrow> string option) \<Rightarrow> (string \<Rightarrow> string) \<Rightarrow> nat \<Rightarrow> files \<Rightarrow> ('k, 'v) simple_cache
      \<Rightarrow> files \<times> bool outcome" where
  "commit_store to_string bupath wlen fs st =
     (case commit_store_new to_string bupath wlen fs st of
        (fs', Ok _) \<Rightarrow> (fs', Ok True)
      | (fs', Err _) \<Rightarrow> (fs', Ok False)
      | (fs', Panic) \<Rightarrow> (fs', Panic))"

text \<open>
  \<open>SimpleCache::new\<close>.  The variable \<open>new\<close> of the source is true when the file exists, and the
  file is opened, without creating it, before the variable is tested.
\<close>

definition simple_cache_new ::
    "(string \<Rightarrow> 'v list option) \<Rightarrow> ('v \<Rightarrow> 'k) \<Rightarrow> files \<Rightarrow> string option \<Rightarrow> ('k, 'v) simple_cache outcome" where
  "simple_cache_new from_str get_key fs op =
     (let new = (case op of Some p \<Rightarrow> fs p \<noteq> None | None \<Rightarrow> True) in
      and_then
        (case op of
           Some p \<Rightarrow>
             and_then (unwrap (fs p)) (\<lambda>jcont.
               if \<not> new then Ok hashmap_new
               else case from_str jcont of
                 None \<Rightarrow> Panic
               | Some vser \<Rightarrow> Ok (foldl (\<lambda>m v. hashmap_add_val_c (get_key v) v m) hashmap_new vser))
         | None \<Rightarrow> Ok hashmap_new)
        (\<lambda>m. Ok \<lparr>cache = m, persi = op\<rparr>))"

section \<open>The contract of a store\<close>

definition store_ok :: "('v \<Rightarrow> 'k) \<Rightarrow> ('k, 'v) simple_cache \<Rightarrow> bool" where
  "store_ok get_key st = (hashmap_ok (cache st) \<and> (\<forall>(k, v) \<in> set (cache st). k = get_key v))"

text \<open>
  What a service over a \<open>KVStore\<close> relies on: values are found under their own key, and the
  operations keep the invariant.
\<close>

locale kv_store =
  fixes sinvar :: "'st \<Rightarrow> bool"
    and skey :: "'v \<Rightarrow> 'k"
    and sadd :: "'v \<Rightarrow> cache_policy option \<Rightarrow> 'st \<Rightarrow> 'st"
    and sget :: "'st \<Rightarrow> 'k \<Rightarrow> 'v option"
    and shas :: "'st \<Rightarrow> 'k \<Rightarrow> bool"
    and sremove :: "'k \<Rightarrow> 'st \<Rightarrow> 'st"
  assumes sget_sadd: "sinvar s \<Longrightarrow> sget (sadd v p s) = (sget s)(skey v \<mapsto> v)"
    and sget_sremove: "sinvar s \<Longrightarrow> sget (sremove k s) = (sget s)(k := None)"
    and shas_sget: "sinvar s \<Longrightarrow> shas s k \<longleftrightarrow> sget s k \<noteq> None"
    and sget_key: "sinvar s \<Longrightarrow> sget s k = Some v \<Longrightarrow> skey v = k"
    and sinvar_sadd: "sinvar s \<Longrightarrow> sinvar (sadd v p s)"
    and sinvar_sremove: "sinvar s \<Longrightarrow> sinvar (sremove k s)"
begin

text \<open>Adding a list of values one after the other: the last value of a key wins.\<close>

lemma sinvar_fold: "sinvar s \<Longrightarrow> sinvar (foldl (\<lambda>s v. sadd v p s) s vs)"
  by (induction vs arbitrary: s) (simp_all add: sinvar_sadd)

lemma sget_fold:
  "sinvar s \<Longrightarrow> sget (foldl (\<lambda>s v. sadd v p s) s vs) = sget s ++ map_of (rev (map (\<lambda>v. (skey v, v)) vs))"
  by (induction vs arbitrary: s) (simp_all add: sinvar_sadd sget_sadd)

lemma sget_fold_mono:
  "sinvar s \<Longrightarrow> k \<in> dom (sget s) \<Longrightarrow> k \<in> dom (sget (foldl (\<lambda>s v. sadd v p s) s vs))"
  by (auto simp: sget_fold)

lemma shas_fold:
  "sinvar s \<Longrightarrow> v \<in> set vs \<Longrightarrow> shas (foldl (\<lambda>s v. sadd v p s) s vs) (skey v)"
proof -
  assume s: "sinvar s" and "v \<in> set vs"
  then have "skey v \<in> dom (map_of (rev (map (\<lambda>v. (skey v, v)) vs)))"
    by (auto simp: dom_map_of_conv_image_fst image_iff)
  then show ?thesis by (auto simp: shas_sget sinvar_fold s sget_fold)
qed

end

lemma get_val_cache: "get_val st = map_of (cache st)"
  by (simp add: get_val_def hashmap_get_val_c_def fun_eq_iff)

lemma set_update_subset: "set (AList.update k v m) \<subseteq> insert (k, v) (set m)"
  by (induction m) auto

lemma set_delete_subset: "set (AList.delete k m) \<subseteq> set m"
  by (auto simp: AList.delete_eq)

lemma store_ok_add: "store_ok get_key st \<Longrightarrow> store_ok get_key (add_val get_key v p st)"
  using set_update_subset [of "get_key v" v "cache st"]
  by (auto simp: store_ok_def add_val_def hashmap_add_val_c_def hashmap_ok_def distinct_update)

lemma store_ok_remove: "store_ok get_key st \<Longrightarrow> store_ok get_key (remove_val k st)"
  using set_delete_subset [of k "cache st"]
  by (auto simp: store_ok_def remove_val_def hashmap_remove_val_c_def hashmap_ok_def
      distinct_delete)

interpretation sc: kv_store "store_ok get_key" get_key "add_val get_key" get_val has_val remove_val
  for get_key
proof
  fix s :: "('b, 'a) simple_cache" and v p k
  assume ok: "store_ok get_key s"
  then have m: "hashmap_ok (cache s)" by (simp add: store_ok_def)
  show "get_val (add_val get_key v p s) = (get_val s)(get_key v \<mapsto> v)"
    using hm.get_add [OF m] by (simp add: get_val_def [abs_def] add_val_def)
  show "get_val (remove_val k s) = (get_val s)(k := None)"
    using hm.get_rem [OF m] by (simp add: get_val_def [abs_def] remove_val_def)
  show "has_val s k \<longleftrightarrow> get_val s k \<noteq> None"
    using hm.has_get [OF m] by (simp add: get_val_def has_val_def)
  show "get_val s k = Some v \<Longrightarrow> get_key v = k"
    using ok by (auto simp: get_val_cache store_ok_def dest: map_of_SomeD)
qed (simp_all add: store_ok_add store_ok_remove)

section \<open>Completing a random choice\<close>

definition unused :: "(nat \<Rightarrow> bool) \<Rightarrow> nat \<Rightarrow> 'v list \<Rightarrow> ('k, 'v) hashmap \<Rightarrow> 'v list" where
  "unused use i res c =
     map snd (filter (\<lambda>(j, v). use j \<and> v \<notin> set res) (enumerate i (map snd c)))"

lemma unused_Nil [simp]: "unused use i res [] = []"
  by (simp add: unused_def)

lemma unused_Cons:
  "unused use i res (kv # c) =
     (if use i \<and> snd kv \<notin> set res then snd kv # unused use (Suc i) res c else unused use (Suc i) res c)"
  by (simp add: unused_def)

lemma unused_insert:
  "v \<notin> set (map snd c) \<Longrightarrow> unused use i (res @ [v]) c = unused use i res c"
  by (induction c arbitrary: i) (auto simp: unused_Cons)

lemma fill_pass_fold:
  "distinct (map snd c) \<Longrightarrow>
   fst (snd (snd (hashmap_fold_c
       (\<lambda>s (i, res, rem) kv.
          if use i \<and> rem > 0 \<and> snd kv \<notin> set res
          then (s, i + 1, res @ [snd kv], rem - 1)
          else (s, i + 1, res, rem))
       s (i, res, rem) c))) = res @ take rem (unused use i res c)"
proof (induction c arbitrary: i res rem)
  case (Cons kv c)
  show ?case
  proof (cases "use i \<and> rem > 0 \<and> snd kv \<notin> set res")
    case True
    then obtain n where "rem = Suc n" by (cases rem) auto
    with True Cons show ?thesis by (simp add: unused_Cons unused_insert)
  next
    case False
    with Cons show ?thesis by (cases rem) (auto simp: unused_Cons)
  qed
qed simp

lemma fill_pass_eq:
  "distinct (map snd c) \<Longrightarrow> fill_pass use a r c = r @ take a (unused use 0 r c)"
  unfolding fill_pass_def by (rule fill_pass_fold)

lemma set_unused: "set (unused use i r c) \<subseteq> set (map snd c) - set r"
  by (induction c arbitrary: i) (auto simp: unused_Cons)

lemma distinct_unused: "distinct (map snd c) \<Longrightarrow> distinct (unused use i r c)"
  using set_unused by (induction c arbitrary: i) (fastforce simp: unused_Cons)+

lemma unused_none: "(\<And>j. i \<le> j \<Longrightarrow> j < i + length c \<Longrightarrow> \<not> use j) \<Longrightarrow> unused use i r c = []"
  by (induction c arbitrary: i) (auto simp: unused_Cons)

lemma unused_other_half:
  "set (unused use i r c) \<inter> set (unused (\<lambda>j. \<not> use j) i r c) = {}"
  if "distinct (map snd c)"
  using that
proof (induction c arbitrary: i)
  case (Cons kv c)
  have IH: "set (unused use (Suc i) r c) \<inter> set (unused (\<lambda>j. \<not> use j) (Suc i) r c) = {}"
    using Cons by simp
  have "snd kv \<notin> set (unused use (Suc i) r c)" "snd kv \<notin> set (unused (\<lambda>j. \<not> use j) (Suc i) r c)"
    using Cons.prems set_unused by fastforce+
  with IH show ?case by (auto simp: unused_Cons)
qed simp

lemma length_unused:
  "length (unused use i r c) + length (unused (\<lambda>j. \<not> use j) i r c)
     = length (filter (\<lambda>v. v \<notin> set r) (map snd c))"
  by (induction c arbitrary: i) (auto simp: unused_Cons)

lemma unused_append:
  "set xs \<inter> set (unused use i r c) = {} \<Longrightarrow> unused use i (r @ xs) c = unused use i r c"
  by (induction c arbitrary: i) (auto simp: unused_Cons split: if_splits)

lemma length_filter_notin:
  assumes "distinct r" "distinct vs" "set r \<subseteq> set vs"
  shows "length (filter (\<lambda>v. v \<notin> set r) vs) = length vs - length r"
proof -
  have "length (filter (\<lambda>v. v \<notin> set r) vs) = card (set vs - set r)"
    using assms(2) by (simp add: distinct_card [symmetric] set_diff_eq Collect_conj_eq Int_commute)
  also have "\<dots> = card (set vs) - card (set r)" using assms(3) by (simp add: card_Diff_subset)
  finally show ?thesis using assms by (simp add: distinct_card)
qed

text \<open>
  The two passes together: any distinct choice is completed to \<open>min nb clen\<close> distinct values,
  wherever the start position falls.
\<close>

lemma fill_passes_complete:
  assumes d: "distinct (map snd c)" "distinct r" "set r \<subseteq> set (map snd c)"
    and t: "length r \<le> t" "t \<le> length c"
    and r1: "r1 = (if pos < length c - 1 then fill_pass (\<lambda>i. pos < i) (t - length r) r c else r)"
    and r2: "r2 = fill_pass (\<lambda>i. i \<le> pos) (t - length r1) r1 c"
  shows "length r1 \<le> t \<and> length r2 = t \<and> distinct r1 \<and> distinct r2 \<and> set r1 \<subseteq> set (map snd c) \<and> set r2 \<subseteq> set (map snd c)"
proof -
  let ?A = "unused (\<lambda>i. pos < i) 0 r c" and ?B = "unused (\<lambda>i. \<not> pos < i) 0 r c"
  let ?a = "t - length r"
  have r1': "r1 = r @ take ?a ?A"
  proof (cases "pos < length c - 1")
    case True
    with d show ?thesis by (simp add: r1 fill_pass_eq)
  next
    case False
    then have "?A = []" by (intro unused_none) simp
    with False show ?thesis by (simp add: r1)
  qed
  have disj: "set ?A \<inter> set ?B = {}" by (rule unused_other_half [OF d(1)])
  have sub: "set ?A \<subseteq> set (map snd c) - set r" "set ?B \<subseteq> set (map snd c) - set r"
    by (rule set_unused)+
  have dA: "distinct ?A" and dB: "distinct ?B" using d by (simp_all add: distinct_unused)
  have "unused (\<lambda>i. \<not> pos < i) 0 r1 c = ?B"
    unfolding r1' by (rule unused_append) (use disj in \<open>auto dest: in_set_takeD\<close>)
  then have r2': "r2 = r1 @ take (t - length r1) ?B"
    using d by (simp add: r2 fill_pass_eq not_less)
  have "length ?A + length ?B = length c - length r"
    using length_unused length_filter_notin [OF d(2,1,3)] by (metis length_map)
  then have len: "length r1 \<le> t" "length r2 = t" using t by (auto simp: r1' r2')
  have d1: "distinct r1" using d(2) dA sub(1) by (auto simp: r1' dest: in_set_takeD)
  have d2: "distinct r2" using d1 dB sub disj by (auto simp: r2' r1' dest!: in_set_takeD)
  have "set r1 \<subseteq> set (map snd c)" "set r2 \<subseteq> set (map snd c)"
    using sub d(3) by (auto simp: r2' r1' dest!: in_set_takeD)
  with len d1 d2 show ?thesis by blast
qed

lemma subseq_imp_distinct: "subseq xs ys \<Longrightarrow> distinct ys \<Longrightarrow> distinct xs"
  by (induction rule: list_emb.induct) (auto dest: list_emb_set)

lemma store_ok_distinct: "store_ok get_key st \<Longrightarrow> distinct (map snd (cache st))"
proof -
  assume ok: "store_ok get_key st"
  then have "map fst (cache st) = map get_key (map snd (cache st))"
    by (auto simp: store_ok_def)
  with ok show ?thesis by (metis distinct_map hashmap_ok_def store_ok_def)
qed

lemma get_next_vals_result:
  assumes ok: "store_ok get_key st"
    and from_bytes: "\<And>b. length (from_bytes b) = 8 * length b"
    and fill: "\<And>n len. length (fill n len) = len"
    and run: "get_next_vals from_bytes fill rnd st nb = Some res"
  shows "\<exists>r. res = Ok (Some r) \<and> length r = min nb (length (cache st)) \<and> distinct r
           \<and> set r \<subseteq> set (map snd (cache st))"
proof -
  let ?c = "cache st" and ?t = "min nb (length (cache st))"
  have cnd: "candidates None ?c = map snd ?c" by (simp add: candidates_def passes_def)
  have d: "distinct (map snd ?c)" by (rule store_ok_distinct [OF ok])
  consider "?c = []" | "?c \<noteq> []" "nb = 0" | "0 < length ?c" "0 < nb" by fastforce
  then show ?thesis
  proof cases
    case 1
    with run show ?thesis by (auto simp: get_next_vals_def hashmap_len_c_def)
  next
    case 2
    with run show ?thesis
      by (auto simp: get_next_vals_def hashmap_len_c_def next_random_values_def)
  next
    case 3
    then obtain nr where nr: "next_random_values from_bytes fill ?c nb None = Some nr"
      using run by (cases "next_random_values from_bytes fill ?c nb None")
        (auto simp: get_next_vals_def hashmap_len_c_def)
    obtain r where r: "nr = Ok r" "length r \<le> nb" "subseq r (map snd ?c)"
      using next_random_values_cases [where from_bytes = from_bytes and fill = fill and f = None
          and c = ?c and queried_nb = nb, OF from_bytes fill refl] 3 nr
      by (auto simp: cnd split: if_splits)
    have sub: "set r \<subseteq> set (map snd ?c)" "distinct r" "length r \<le> length ?c"
      using r(3) d by (auto dest: list_emb_set subseq_imp_distinct list_emb_length)
    define r1 where "r1 = (if rnd mod length ?c < length ?c - 1
      then fill_pass (\<lambda>i. rnd mod length ?c < i) (?t - length r) r ?c else r)"
    define r2 where "r2 = fill_pass (\<lambda>i. i \<le> rnd mod length ?c) (?t - length r1) r1 ?c"
    have comp: "length r1 \<le> ?t \<and> length r2 = ?t \<and> distinct r1 \<and> distinct r2
        \<and> set r1 \<subseteq> set (map snd ?c) \<and> set r2 \<subseteq> set (map snd ?c)"
      using d sub r(2) r1_def r2_def by (intro fill_passes_complete [of ?c r]) simp_all
    have "(if length r < nb \<and> length r < length ?c
        then (if ?t < length r1 then Panic
              else Ok (Some (if ?t - length r1 \<noteq> 0 then r2 else r1)))
        else Ok (Some r)) = res"
      using run 3
      unfolding r2_def r1_def get_next_vals_def hashmap_len_c_def Let_def nr r(1) by auto
    then have res: "res = (if length r < nb \<and> length r < length ?c
        then Ok (Some (if ?t - length r1 \<noteq> 0 then r2 else r1)) else Ok (Some r))"
      using comp by (auto split: if_splits)
    show ?thesis
    proof (cases "length r < nb \<and> length r < length ?c")
      case False
      then have "length r = ?t" using r(2) sub(3) by linarith
      then show ?thesis using sub unfolding res if_not_P [OF False] by blast
    next
      case True
      show ?thesis
      proof (cases "?t - length r1 \<noteq> 0")
        case t: True
        show ?thesis using comp unfolding res if_P [OF True] if_P [OF t] by blast
      next
        case t: False
        with comp have "length r1 = ?t" by linarith
        then show ?thesis using comp unfolding res if_P [OF True] if_not_P [OF t] by blast
      qed
    qed
  qed
qed

section \<open>Reloading a committed store\<close>

lemma fold_append_snd: "foldl (\<lambda>v p. v @ [snd p]) acc c = acc @ map snd c"
  by (induction c arbitrary: acc) simp_all

lemma cache_fold_add:
  "cache (foldl (\<lambda>s v. add_val get_key v None s) s vs)
     = foldl (\<lambda>m v. hashmap_add_val_c (get_key v) v m) (cache s) vs"
  by (induction vs arbitrary: s) (simp_all add: add_val_def)

lemma map_of_rev_distinct: "distinct (map fst xs) \<Longrightarrow> map_of (rev xs) = map_of xs"
  by (rule map_of_eqI)
    (auto simp: map_of_eq_Some_iff rev_map [symmetric])

lemma reload_cache:
  assumes ok: "store_ok get_key st"
  shows "map_of (foldl (\<lambda>m v. hashmap_add_val_c (get_key v) v m) hashmap_new (map snd (cache st)))
       = map_of (cache st)"
    and "hashmap_ok (foldl (\<lambda>m v. hashmap_add_val_c (get_key v) v m) hashmap_new (map snd (cache st)))"
proof -
  let ?e = "\<lparr>cache = hashmap_new, persi = None\<rparr>"
  let ?s = "foldl (\<lambda>s v. add_val get_key v None s) ?e (map snd (cache st))"
  have ok0: "store_ok get_key ?e" by (simp add: store_ok_def hashmap_ok_def hashmap_new_def)
  have entries: "map (\<lambda>v. (get_key v, v)) (map snd (cache st)) = cache st"
    using ok by (auto intro!: nth_equalityI simp: store_ok_def set_conv_nth)
      (metis (mono_tags, lifting) case_prod_beta prod.collapse)
  have "get_val ?s = get_val ?e ++ map_of (rev (cache st))"
    using sc.sget_fold [OF ok0] entries by metis
  then show "map_of (foldl (\<lambda>m v. hashmap_add_val_c (get_key v) v m) hashmap_new (map snd (cache st)))
       = map_of (cache st)"
    using ok by (simp add: get_val_cache cache_fold_add map_of_rev_distinct store_ok_def hashmap_ok_def
        hashmap_new_def)
  show "hashmap_ok (foldl (\<lambda>m v. hashmap_add_val_c (get_key v) v m) hashmap_new (map snd (cache st)))"
    using sc.sinvar_fold [OF ok0, of None "map snd (cache st)"]
    by (simp add: store_ok_def cache_fold_add)
qed

section \<open>Properties\<close>

text \<open>
  \<open>get_next_vals\<close>, whenever the random draw it starts with ends, returns exactly
  \<open>min nb clen\<close> values of the store, none twice: the two completing passes fill up whatever the
  draw left out, no subtraction goes below zero, and the result is never \<open>None\<close>.
\<close>

theorem get_next_vals_complete:
  assumes "store_ok get_key st"
    and "\<And>b. length (from_bytes b) = 8 * length b"
    and "\<And>n len. length (fill n len) = len"
    and "get_next_vals from_bytes fill rnd st nb = Some res"
  shows "\<exists>r. res = Ok (Some r) \<and> length r = min nb (length (cache st)) \<and> distinct r
           \<and> set r \<subseteq> set (map snd (cache st))"
  using assms by (rule get_next_vals_result)

theorem get_next_vals_complete_witness:
  "\<exists>r. get_next_vals (\<lambda>b. concat (map (\<lambda>x. map (bit x) [7,6,5,4,3,2,1,0]) b))
         (\<lambda>n len. replicate len 255) 1 \<lparr>cache = [(1 :: nat, 1 :: nat), (2, 2)], persi = None\<rparr> 2
       = Some (Ok (Some r)) \<and> length r = 2 \<and> distinct r \<and> set r \<subseteq> {1, 2 :: nat}"
proof -
  let ?fb = "\<lambda>b. concat (map (\<lambda>x. map (bit x) [7,6,5,4,3,2,1,0]) (b :: u8 list))"
  let ?fill = "\<lambda>n len. replicate len (255 :: u8)"
  let ?st = "\<lparr>cache = [(1 :: nat, 1 :: nat), (2, 2)], persi = None\<rparr>"
  have fb: "length (?fb b) = 8 * length b" for b by (induction b) simp_all
  have fl: "length (?fill n len) = len" for n :: nat and len by simp
  have ok: "store_ok (\<lambda>v. v) ?st" by (simp add: store_ok_def hashmap_ok_def)
  have cnd: "candidates None (cache ?st) = [1, 2]" by (simp add: candidates_def passes_def)
  have "roll_ok ?fb (?fill 0 (rand_buf_len 2)) (rand_xess 2) (rand_nb 2 2)"
    by (simp add: rand_nb_def distrib_ratio_def roll_ok_def rand_buf_len_def rand_xess_def ones_def
        bit_numeral_rec)
  then obtain nr where "next_random_values ?fb ?fill (cache ?st) 2 None = Some nr"
    using next_random_values_cases [where from_bytes = ?fb and fill = ?fill and c = "cache ?st"
        and f = None and queried_nb = 2 and l = 2, OF fb fl] cnd
    by (auto split: if_splits)
  then obtain res where "get_next_vals ?fb ?fill 1 ?st 2 = Some res"
    by (simp add: get_next_vals_def hashmap_len_c_def Let_def)
  with get_next_vals_complete [OF ok fb fl this] show ?thesis by auto
qed

text \<open>
  A store committed to its file and loaded again by \<open>SimpleCache::new\<close> answers every
  lookup as before, given a JSON library that reads back what it wrote and a \<open>write\<close> call that
  takes all of it; the previous content is in the backup file.
\<close>

theorem commit_new_roundtrip:
  assumes ok: "store_ok get_key st" and persi: "persi st = Some p" and conf: "fs p = Some old"
    and json: "to_string (map snd (cache st)) = Some js" "from_str js = Some (map snd (cache st))"
    and wr: "length js \<le> wlen" and bu: "bupath p \<noteq> p"
    and run: "commit_store_new to_string bupath wlen fs st = (fs', r)"
  shows "r = Ok () \<and> fs' (bupath p) = Some old
    \<and> (\<exists>st'. simple_cache_new from_str get_key fs' (Some p) = Ok st' \<and> get_val st' = get_val st
             \<and> hashmap_ok (cache st') \<and> persi st' = persi st)"
proof -
  have vser: "hashmap_strict_fold_c (\<lambda>v p. v @ [snd p]) [] (cache st) = map snd (cache st)"
    by (simp add: hashmap_strict_fold_c_foldl fold_append_snd)
  have fs': "fs' = fs(bupath p \<mapsto> old, p \<mapsto> js)" and r: "r = Ok ()"
    using run wr by (simp_all add: commit_store_new_def persi conf vser json(1) Let_def)
  show ?thesis using bu reload_cache [OF ok]
    by (simp add: fs' r simple_cache_new_def json(2) get_val_cache persi)
qed

theorem commit_new_roundtrip_witness:
  "\<exists>st'. simple_cache_new (\<lambda>s. Some (map of_char s)) (\<lambda>v. v mod 10)
      (fst (commit_store_new (\<lambda>vs. Some (map char_of vs)) (\<lambda>p. p @ ''_bu'') 100
        [''f'' \<mapsto> ''old''] \<lparr>cache = [(1 :: nat, 21 :: nat), (2, 42)], persi = Some ''f''\<rparr>)) (Some ''f'') = Ok st'
    \<and> get_val st' (1 :: nat) = Some (21 :: nat)"
proof -
  let ?st = "\<lparr>cache = [(1 :: nat, 21 :: nat), (2, 42)], persi = Some ''f''\<rparr>"
  let ?run = "commit_store_new (\<lambda>vs. Some (map char_of vs)) (\<lambda>p. p @ ''_bu'') 100 [''f'' \<mapsto> ''old''] ?st"
  have "store_ok (\<lambda>v. v mod 10) ?st" by (simp add: store_ok_def hashmap_ok_def)
  from commit_new_roundtrip [OF this, of "''f''" "[''f'' \<mapsto> ''old'']" "''old''"
      "\<lambda>vs. Some (map char_of vs)" "map char_of [21, 42 :: nat]" "\<lambda>s. Some (map of_char s)" 100
      "\<lambda>p. p @ ''_bu''" "fst ?run" "snd ?run"]
  show ?thesis by (auto simp: get_val_cache)
qed

text \<open>
  \<open>SimpleCache::new\<close> on the path of a file that does not exist panics: the branch of the
  source that starts with an empty map there is never reached.
\<close>

lemma simple_cache_new_missing_file:
  "fs p = None \<Longrightarrow> simple_cache_new from_str get_key fs (Some p) = Panic"
  by (simp add: simple_cache_new_def)

lemma simple_cache_new_missing_file_witness:
  "simple_cache_new (\<lambda>_. Some [0 :: nat]) id Map.empty (Some ''conf'') = Panic"
  using simple_cache_new_missing_file [of Map.empty "''conf''" "\<lambda>_. Some [0 :: nat]" id] by simp

end
