(* ===== verification/Query.thy ===== *)
theory Query
  imports Peer Simplecache
begin

text \<open>
  Queries and the rules that shape them: the query message with its mode, its hop counter and
  its route history (\<open>mydht-base/src/query.rs\<close>), the default methods of the rules
  (\<open>mydht-base/src/rules.rs\<close>), the rules used by the applications
  (\<open>mydht/src/rules/simplerules.rs\<close>) and the start of a query (\<open>mydht/src/query/mod.rs\<close>).  Hop
  counters are eight bit words: their arithmetic is checked or wraps, by the profile \<open>ck\<close>.
\<close>

section \<open>Data\<close>

datatype 'k last_sent = LastSentHop nat "'k list" | LastSentPeer nat "'k list"

datatype query_mode = ModeAProxy | ModeAsynch | ModeAMix u8

datatype ('k, 'a) query_mode_msg =
    AProxy usize
  | Asynch 'k 'a usize
  | AMix u8 usize

record ('k, 'a) query_msg =
  mode_info :: "('k, 'a) query_mode_msg"
  hop_hist :: "'k last_sent option"
  storage :: storage_priority
  rem_hop :: u8
  nb_forw :: u8
  prio :: u8
  nb_res :: usize

definition QUERY_ID_DEFAULT :: usize where
  "QUERY_ID_DEFAULT = 0"

section \<open>Query modes\<close>

definition fwd_dests ::
    "('k, 'a) query_mode_msg \<Rightarrow> 'p option
      \<Rightarrow> 'p list option \<times> ('k option \<times> 'a option) list option \<times> usize" where
  "fwd_dests m owith =
     (case m of
        AProxy qid \<Rightarrow> (map_option (\<lambda>pr. [pr]) owith, None, qid)
      | AMix _ qid \<Rightarrow> (map_option (\<lambda>pr. [pr]) owith, None, qid)
      | Asynch k a qid \<Rightarrow> (None, Some [(Some k, Some a)], qid))"

fun do_store_on_forward :: "('k, 'a) query_mode_msg \<Rightarrow> bool" where
  "do_store_on_forward (AProxy _) = True"
| "do_store_on_forward (Asynch _ _ _) = False"
| "do_store_on_forward (AMix _ _) = True"

fun get_mode :: "('k, 'a) query_mode_msg \<Rightarrow> query_mode" where
  "get_mode (AProxy _) = ModeAProxy"
| "get_mode (Asynch _ _ _) = ModeAsynch"
| "get_mode (AMix h _) = ModeAMix h"

fun get_qid :: "('k, 'a) query_mode_msg \<Rightarrow> usize" where
  "get_qid (AProxy q) = q"
| "get_qid (Asynch _ _ q) = q"
| "get_qid (AMix _ q) = q"

fun new_hop :: "('k, 'a) query_mode_msg \<Rightarrow> ('k, 'a) peer \<Rightarrow> usize \<Rightarrow> u8 \<Rightarrow> ('k, 'a) query_mode_msg" where
  "new_hop (AProxy _) p qid nbdec = AProxy qid"
| "new_hop (Asynch k a _) p qid nbdec = Asynch k a qid"
| "new_hop (AMix a q) p qid nbdec =
     (if a > 0 then AMix (a - min a nbdec) qid else Asynch (get_key p) (get_address p) qid)"

fun set_qid :: "usize \<Rightarrow> ('k, 'a) query_mode_msg \<Rightarrow> ('k, 'a) query_mode_msg" where
  "set_qid qid (AProxy _) = AProxy qid"
| "set_qid qid (Asynch k a _) = Asynch k a qid"
| "set_qid qid (AMix h _) = AMix h qid"

section \<open>Rules\<close>

text \<open>\<open>qm.nb_res as u8\<close> keeps the low eight bits.\<close>

definition nb_proxy_with_nb_res ::
    "bool \<Rightarrow> ('k, 'a) query_msg \<Rightarrow> (u8 \<times> usize) outcome" where
  "nb_proxy_with_nb_res ck qm =
     (let nb_proxy = min (nb_forw qm) (ucast (nb_res qm)) in
      and_then
        (if nb_res qm > ucast (nb_forw qm)
         then and_then (div_or_panic (nb_res qm) (ucast (nb_forw qm))) (\<lambda>d. checked_add ck d 1)
         else Ok 1)
        (\<lambda>nb_for. Ok (nb_proxy, nb_for)))"

definition notfoundtreshold :: "bool \<Rightarrow> u8 \<Rightarrow> u8 \<Rightarrow> query_mode \<Rightarrow> usize outcome" where
  "notfoundtreshold ck nbquer maxhop mode =
     (case mode of
        ModeAsynch \<Rightarrow>
          and_then (checked_pow ck (ucast nbquer :: usize) (unat maxhop)) (\<lambda>mx.
            if mx > 2 then checked_mul ck (mx div 3) 2 else Ok mx)
      | _ \<Rightarrow> Ok (ucast nbquer))"

text \<open>
  \<open>SimpleRules\<close> over \<open>DhtRules\<close>.  The factor \<open>nbqueryfact\<close> is a float of type \<open>'f\<close> and
  \<open>f32_mul_as_u8\<close> its product with a priority, cast to eight bits.
\<close>

datatype client_mode = LocalMode bool | ThreadedOne | ThreadedMax nat | ThreadPool nat

record 'f dht_rules =
  randqueryid :: bool
  nbhopfact :: u8
  nbqueryfact :: 'f
  lifetime_base :: "64 word"
  lifetimeinc :: u8
  cleaninterval :: "64 word option"
  cacheduration :: "64 word option"
  cacheproxied :: bool
  storelocal :: bool
  storeproxied :: "nat option"
  heavyaccept :: bool
  clientmode :: client_mode
  tunnellength :: u8
  not_found_reply :: bool

definition nbhop :: "bool \<Rightarrow> 'f dht_rules \<Rightarrow> u8 \<Rightarrow> u8 outcome" where
  "nbhop ck dr pr = checked_mul ck (nbhopfact dr) pr"

definition lifetime :: "bool \<Rightarrow> 'f dht_rules \<Rightarrow> u8 \<Rightarrow> 64 word outcome" where
  "lifetime ck dr pr =
     and_then (checked_mul ck pr (lifetimeinc dr)) (\<lambda>inc. checked_add ck (lifetime_base dr) (ucast inc))"

definition nbquery :: "bool \<Rightarrow> ('f \<Rightarrow> u8 \<Rightarrow> u8) \<Rightarrow> 'f dht_rules \<Rightarrow> u8 \<Rightarrow> u8 outcome" where
  "nbquery ck f32_mul_as_u8 dr pr = checked_add ck 1 (f32_mul_as_u8 (nbqueryfact dr) pr)"

definition notfoundreply :: "'f dht_rules \<Rightarrow> query_mode \<Rightarrow> bool" where
  "notfoundreply dr mode = not_found_reply dr"

definition asynch_clean :: "'f dht_rules \<Rightarrow> 64 word option" where
  "asynch_clean dr = cleaninterval dr"

definition do_store :: "'f dht_rules \<Rightarrow> bool \<Rightarrow> u8 \<Rightarrow> bool \<times> cache_policy option" where
  "do_store dr islocal pr =
     (let cd = map_option (\<lambda>s. CachePolicy (unat s)) (cacheduration dr) in
      if islocal \<and> storelocal dr then (True, cd) else (False, cd))"

definition nbhop_dec :: u8 where
  "nbhop_dec = 1"

section \<open>Query messages\<close>

definition dec_nbhop :: "bool \<Rightarrow> u8 \<Rightarrow> ('k, 'a) query_msg \<Rightarrow> ('k, 'a) query_msg outcome" where
  "dec_nbhop ck nbdec qm =
     and_then (checked_sub ck (rem_hop qm) nbdec) (\<lambda>h. Ok (qm\<lparr>rem_hop := h\<rparr>))"

definition get_query_id :: "('k, 'a) query_msg \<Rightarrow> usize" where
  "get_query_id qm = get_qid (mode_info qm)"

definition to_next_hop ::
    "bool \<Rightarrow> ('k, 'a) peer \<Rightarrow> usize \<Rightarrow> u8 \<Rightarrow> ('k, 'a) query_msg
      \<Rightarrow> (('k, 'a) query_msg \<times> ('k, 'a) query_mode_msg) outcome" where
  "to_next_hop ck p qid nbdec qm =
     and_then (checked_sub ck (rem_hop qm) nbdec) (\<lambda>h.
     let qm1 = qm\<lparr>rem_hop := h, mode_info := new_hop (mode_info qm) p qid nbdec\<rparr>;
         o_mode_info = mode_info qm in
     and_then (nb_proxy_with_nb_res ck qm1) (\<lambda>(nb_for, nb_res_for).
     Ok (qm1\<lparr>nb_res := nb_res_for, nb_forw := nb_for\<rparr>, o_mode_info)))"

definition get_filter_mut :: "('k, 'a) query_msg \<Rightarrow> 'k list option" where
  "get_filter_mut qm =
     (case hop_hist qm of
        Some (LastSentPeer _ lpeers) \<Rightarrow> Some lpeers
      | Some (LastSentHop _ lpeers) \<Rightarrow> Some lpeers
      | None \<Rightarrow> None)"

text \<open>\<open>n\<close> calls of \<open>pop_front\<close> drop at most \<open>n\<close> elements.\<close>

definition update_lastsent_conf ::
    "('k, 'a) peer list \<Rightarrow> u8 \<Rightarrow> ('k, 'a) query_msg \<Rightarrow> ('k, 'a) query_msg" where
  "update_lastsent_conf peers nbq qm =
     (case hop_hist qm of
        Some (LastSentPeer maxnb lpeers) \<Rightarrow>
          let totalnb = length peers + length lpeers;
              l1 = (if totalnb > maxnb then drop (totalnb - maxnb) lpeers else lpeers) in
          qm\<lparr>hop_hist := Some (LastSentPeer maxnb (l1 @ map get_key peers))\<rparr>
      | Some (LastSentHop hop lpeers) \<Rightarrow>
          if hop > 0
          then qm\<lparr>hop_hist := Some (LastSentHop (hop - 1) (lpeers @ map get_key peers))\<rparr>
          else qm\<lparr>hop_hist := Some (LastSentHop hop (drop (unat nbq) lpeers @ map get_key peers))\<rparr>
      | None \<Rightarrow> qm)"

definition adjust_lastsent_next_hop :: "nat \<Rightarrow> ('k, 'a) query_msg \<Rightarrow> ('k, 'a) query_msg" where
  "adjust_lastsent_next_hop nbq qm =
     (case hop_hist qm of
        Some (LastSentPeer maxnb lpeers) \<Rightarrow>
          if length lpeers > maxnb
          then qm\<lparr>hop_hist := Some (LastSentPeer maxnb (drop (length lpeers - maxnb) lpeers))\<rparr>
          else qm
      | Some (LastSentHop hop lpeers) \<Rightarrow>
          if hop > 0 then qm\<lparr>hop_hist := Some (LastSentHop (hop - 1) lpeers)\<rparr>
          else qm\<lparr>hop_hist := Some (LastSentHop hop (drop nbq lpeers))\<rparr>
      | None \<Rightarrow> qm)"

record query_conf =
  mode :: query_mode
  conf_hop_hist :: "(nat \<times> bool) option"

definition query_message ::
    "query_conf \<Rightarrow> ('k, 'a) peer \<Rightarrow> usize \<Rightarrow> u8 \<Rightarrow> u8 \<Rightarrow> u8 \<Rightarrow> ('k, 'a) query_msg" where
  "query_message qc me nbres nb_hop nbforw pr =
     \<lparr>mode_info = (case mode qc of
          ModeAProxy \<Rightarrow> AProxy QUERY_ID_DEFAULT
        | ModeAsynch \<Rightarrow> Asynch (get_key me) (get_address me) QUERY_ID_DEFAULT
        | ModeAMix nb \<Rightarrow> AMix nb QUERY_ID_DEFAULT),
      hop_hist = map_option (\<lambda>(nb, md).
          let hist = (if nb > 0 then [get_key me] else []) in
          if md then LastSentHop nb hist else LastSentPeer nb hist) (conf_hop_hist qc),
      storage = StorageLocal, rem_hop = nb_hop, nb_forw = nbforw, prio = pr, nb_res = nbres\<rparr>"

section \<open>Lemmas\<close>

lemma unat_ucast_u8: "unat (ucast (w :: usize) :: u8) = unat w mod 256"
  by (simp add: unsigned_ucast_eq unsigned_take_bit_eq take_bit_eq_mod)

lemma unat_ucast_usize: "unat (ucast (w :: u8) :: usize) = unat w"
proof -
  have "unat w < 2 ^ 8" using unsigned_less [of w] by simp
  then have "unat w < 2 ^ 64" by simp
  then show ?thesis by (simp add: unsigned_ucast_eq take_bit_nat_eq_self)
qed

lemma unat_min: "unat (min a b :: 'a::len word) = min (unat a) (unat b)"
  by (simp add: min_def word_le_nat_alt)

lemma nb_proxy_big:
  assumes big: "nb_res qm > ucast (nb_forw qm)" and nz: "nb_forw qm \<noteq> 0"
    and room: "unat (nb_res qm) div unat (nb_forw qm) + 1 < 2 ^ 64"
  shows "\<exists>f. nb_proxy_with_nb_res ck qm = Ok (min (nb_forw qm) (ucast (nb_res qm)), f)
           \<and> unat f = unat (nb_res qm) div unat (nb_forw qm) + 1"
proof -
  let ?f = "nb_res qm div ucast (nb_forw qm)"
  have nz': "(ucast (nb_forw qm) :: usize) \<noteq> 0"
    using nz by (metis unat_eq_0 unat_ucast_usize)
  have d: "unat ?f = unat (nb_res qm) div unat (nb_forw qm)"
    by (simp add: unat_div unat_ucast_usize)
  then have s: "unat (?f + 1) = unat (nb_res qm) div unat (nb_forw qm) + 1"
    using room by (subst unat_add_lem [THEN iffD1]) simp_all
  have "nb_proxy_with_nb_res ck qm = Ok (min (nb_forw qm) (ucast (nb_res qm)), ?f + 1)"
    using big nz' d room by (simp add: nb_proxy_with_nb_res_def div_or_panic_def checked_add_def)
  with s show ?thesis by blast
qed

lemma nb_proxy_small:
  "\<not> nb_res qm > ucast (nb_forw qm) \<Longrightarrow>
   nb_proxy_with_nb_res ck qm = Ok (min (nb_forw qm) (ucast (nb_res qm)), 1)"
  by (simp add: nb_proxy_with_nb_res_def)

lemma nb_proxy_covers:
  assumes nz: "nb_forw qm \<noteq> 0" and lt: "unat (nb_res qm) < 256"
  shows "\<exists>p f. nb_proxy_with_nb_res ck qm = Ok (p, f) \<and> p \<le> nb_forw qm
           \<and> unat (nb_res qm) \<le> unat p * unat f"
proof (cases "nb_res qm > ucast (nb_forw qm)")
  case True
  have pos: "0 < unat (nb_forw qm)" using nz by (simp add: unat_gt_0)
  have lt': "unat (nb_forw qm) < unat (nb_res qm)"
    using True by (simp add: word_less_nat_alt unat_ucast_usize)
  have "unat (nb_res qm) div unat (nb_forw qm) + 1 \<le> 256"
    using lt div_le_dividend [of "unat (nb_res qm)" "unat (nb_forw qm)"] by linarith
  then have "unat (nb_res qm) div unat (nb_forw qm) + 1 < 2 ^ 64" by simp
  from nb_proxy_big [OF True nz this, of ck] obtain f where
    f: "nb_proxy_with_nb_res ck qm = Ok (min (nb_forw qm) (ucast (nb_res qm)), f)"
       "unat f = unat (nb_res qm) div unat (nb_forw qm) + 1" by blast
  have "unat (min (nb_forw qm) (ucast (nb_res qm))) = unat (nb_forw qm)"
    using lt lt' by (simp add: unat_min unat_ucast_u8)
  moreover have "unat (nb_res qm) \<le> unat (nb_forw qm) * (unat (nb_res qm) div unat (nb_forw qm) + 1)"
    using pos by (metis dividend_less_times_div less_imp_le_nat mult_Suc_right Suc_eq_plus1)
  ultimately show ?thesis using f by auto
next
  case False
  then have "unat (nb_res qm) \<le> unat (nb_forw qm)"
    by (simp add: word_less_nat_alt unat_ucast_usize not_less)
  then have "unat (nb_res qm) \<le> unat (min (nb_forw qm) (ucast (nb_res qm)))"
    using lt by (simp add: unat_min unat_ucast_u8)
  with nb_proxy_small [OF False, of ck] show ?thesis by auto
qed

lemma to_next_hop_Ok:
  assumes "unat d \<le> unat (rem_hop qm)"
    and "nb_proxy_with_nb_res ck (qm\<lparr>rem_hop := rem_hop qm - d, mode_info := new_hop (mode_info qm) p qid d\<rparr>)
         = Ok (np, nf)"
  shows "to_next_hop ck p qid d qm
       = Ok (qm\<lparr>rem_hop := rem_hop qm - d, mode_info := new_hop (mode_info qm) p qid d,
                nb_res := nf, nb_forw := np\<rparr>, mode_info qm)"
  using assms by (simp add: to_next_hop_def Let_def)

lemma to_next_hop_rem_hop:
  assumes "to_next_hop True p qid d qm = Ok (qm', old)"
  shows "unat (rem_hop qm') + unat d = unat (rem_hop qm)"
  using assms
  by (auto simp: to_next_hop_def and_then_eq_Ok checked_sub_def Let_def unat_sub_le
      split: if_splits prod.splits)

lemma hops_budget:
  "fold_try (\<lambda>q (p, qid). and_then (to_next_hop True p qid d q) (\<lambda>(q', old). Ok q')) qm hops = Ok qm'
   \<Longrightarrow> unat (rem_hop qm') + length hops * unat d = unat (rem_hop qm)"
proof (induction hops arbitrary: qm)
  case (Cons h hops)
  obtain p qid where h: "h = (p, qid)" by fastforce
  from Cons.prems obtain q old where
    q: "to_next_hop True p qid d qm = Ok (q, old)"
       "fold_try (\<lambda>q (p, qid). and_then (to_next_hop True p qid d q) (\<lambda>(q', old). Ok q')) q hops = Ok qm'"
    by (auto simp: h and_then_eq_Ok)
  from Cons.IH [OF q(2)] to_next_hop_rem_hop [OF q(1)] show ?case by simp
qed simp

text \<open>The hops an \<open>AMix\<close> query makes before it switches.\<close>

definition amix_hops :: "u8 \<Rightarrow> u8 \<Rightarrow> nat" where
  "amix_hops a d = (unat a + unat d - 1) div unat d"

lemma unat_sub_min: "unat (a - min a d :: 'a::len word) = unat a - unat d"
proof -
  have "unat (min a d) \<le> unat a" by (simp add: unat_min)
  then have "unat (a - min a d) = unat a - unat (min a d)" by (rule unat_sub_le)
  then show ?thesis by (simp add: unat_min)
qed

lemma amix_hops_0: "d \<noteq> 0 \<Longrightarrow> amix_hops 0 d = 0"
  by (simp add: amix_hops_def unat_gt_0)

lemma amix_hops_step: "a \<noteq> 0 \<Longrightarrow> d \<noteq> 0 \<Longrightarrow> amix_hops a d = Suc (amix_hops (a - min a d) d)"
proof -
  assume "a \<noteq> 0" "d \<noteq> 0"
  then have pos: "0 < unat a" "0 < unat d" by (simp_all add: unat_gt_0)
  show ?thesis
  proof (cases "unat d \<le> unat a")
    case True
    then have "unat a + unat d - 1 = (unat a - unat d + unat d - 1) + unat d" using pos by simp
    then show ?thesis using pos unfolding amix_hops_def unat_sub_min
      by (metis Suc_eq_plus1 bits_mod_div_trivial div_add_self2 not_gr_zero)
  next
    case False
    then have "unat a + unat d - 1 = (unat a - 1) + unat d" "unat a - 1 < unat d"
      using pos by simp_all
    then have "(unat a + unat d - 1) div unat d = 1"
      using pos by (metis One_nat_def Suc_eq_plus1 div_add_self2 div_less neq0_conv plus_1_eq_Suc add.commute)
    moreover have "(unat a - unat d + unat d - 1) div unat d = 0"
      using False pos by simp
    ultimately show ?thesis by (simp add: amix_hops_def unat_sub_min)
  qed
qed

definition run_hops ::
    "u8 \<Rightarrow> ('k, 'a) query_mode_msg \<Rightarrow> (('k, 'a) peer \<times> usize) list \<Rightarrow> ('k, 'a) query_mode_msg" where
  "run_hops d m hops = foldl (\<lambda>m (p, qid). new_hop m p qid d) m hops"

lemma run_hops_simps [simp]:
  "run_hops d m [] = m"
  "run_hops d m ((p, qid) # hops) = run_hops d (new_hop m p qid d) hops"
  by (simp_all add: run_hops_def)

lemma run_hops_Asynch:
  "hops \<noteq> [] \<Longrightarrow> run_hops d (Asynch k a q) hops = Asynch k a (snd (last hops))"
proof (induction hops arbitrary: q)
  case (Cons h hops)
  then show ?case by (cases h; cases hops) auto
qed simp

lemma run_hops_AMix:
  assumes "d \<noteq> 0" "amix_hops a d < length hops"
  shows "run_hops d (AMix a q) hops
       = Asynch (get_key (fst (hops ! amix_hops a d))) (get_address (fst (hops ! amix_hops a d)))
           (snd (last hops))"
  using assms(2)
proof (induction hops arbitrary: a q)
  case (Cons h hops)
  obtain p qid where h: "h = (p, qid)" by fastforce
  show ?case
  proof (cases "a = 0")
    case True
    then show ?thesis using run_hops_Asynch [of hops d "get_key p" "get_address p" qid]
      by (cases "hops = []") (simp_all add: h amix_hops_0 [OF assms(1)])
  next
    case False
    then have st: "amix_hops a d = Suc (amix_hops (a - min a d) d)"
      using amix_hops_step assms(1) by blast
    with Cons.prems have lt: "amix_hops (a - min a d) d < length hops" by simp
    then have "hops \<noteq> []" by auto
    with Cons.IH [OF lt, of qid] False st show ?thesis by (simp add: h word_gt_0)
  qed
qed simp

lemma drop_suffix: "\<exists>pre. xs = pre @ drop n xs"
  by (rule exI [of _ "take n xs"]) simp

lemma adjust_history_bound:
  assumes "hop_hist qm = Some (LastSentPeer maxnb lpeers)"
  shows "\<exists>l. hop_hist (adjust_lastsent_next_hop n qm) = Some (LastSentPeer maxnb l)
           \<and> length l = min maxnb (length lpeers) \<and> (\<exists>pre. lpeers = pre @ l)"
  using assms unfolding adjust_lastsent_next_hop_def
  by (cases "length lpeers > maxnb") (auto simp: drop_suffix)

lemma update_history_bound:
  assumes "hop_hist qm = Some (LastSentPeer maxnb lpeers)"
  shows "\<exists>l. hop_hist (update_lastsent_conf peers n qm) = Some (LastSentPeer maxnb (l @ map get_key peers))
           \<and> length (l @ map get_key peers) = min (length lpeers + length peers) (max maxnb (length peers))
           \<and> (\<exists>pre. lpeers = pre @ l)"
proof (cases "length peers + length lpeers > maxnb")
  case True
  let ?l = "drop (length peers + length lpeers - maxnb) lpeers"
  have "length ?l + length peers = min (length lpeers + length peers) (max maxnb (length peers))"
    using True by (simp add: min_def max_def)
  then show ?thesis using assms True
    by (intro exI [of _ ?l]) (simp add: update_lastsent_conf_def drop_suffix)
next
  case False
  then show ?thesis using assms by (auto simp: update_lastsent_conf_def)
qed

section \<open>Properties\<close>

text \<open>
  C38. Forwarding a query that expects fewer than 256 results over at least one peer, with
  enough hops left: the hop counter goes down by the decrement of the rules, the previous mode is
  handed back for the reply, no more peers than before are used, and the expected results of the
  peers together are at least the expected results of the query.
\<close>

theorem to_next_hop_covers_results:
  assumes "unat d \<le> unat (rem_hop qm)" "nb_forw qm \<noteq> 0" "unat (nb_res qm) < 256"
  shows "\<exists>qm'. to_next_hop ck p qid d qm = Ok (qm', mode_info qm)
      \<and> unat (rem_hop qm') = unat (rem_hop qm) - unat d
      \<and> mode_info qm' = new_hop (mode_info qm) p qid d
      \<and> hop_hist qm' = hop_hist qm
      \<and> nb_forw qm' \<le> nb_forw qm
      \<and> unat (nb_res qm) \<le> unat (nb_forw qm') * unat (nb_res qm')"
proof -
  let ?q = "qm\<lparr>rem_hop := rem_hop qm - d, mode_info := new_hop (mode_info qm) p qid d\<rparr>"
  from nb_proxy_covers [of ?q ck] assms(2,3) obtain np nf where
    "nb_proxy_with_nb_res ck ?q = Ok (np, nf)" "np \<le> nb_forw qm"
    "unat (nb_res qm) \<le> unat np * unat nf" by auto
  with to_next_hop_Ok [OF assms(1), of ck p qid] assms(1) show ?thesis
    by (auto simp: unat_sub_le)
qed

theorem to_next_hop_covers_results_witness:
  "\<exists>qm'. to_next_hop True \<lparr>get_key = 1 :: nat, get_address = 2 :: nat\<rparr> 9 1
      \<lparr>mode_info = AMix 1 4, hop_hist = None, storage = StorageLocal, rem_hop = 3, nb_forw = 2,
        prio = 1, nb_res = 7\<rparr> = Ok (qm', AMix 1 4)
    \<and> 7 \<le> unat (nb_forw qm') * unat (nb_res qm')"
  using to_next_hop_covers_results [of 1
      "\<lparr>mode_info = AMix 1 4, hop_hist = None, storage = StorageLocal, rem_hop = 3, nb_forw = 2,
        prio = 1, nb_res = 7\<rparr>" True "\<lparr>get_key = 1 :: nat, get_address = 2 :: nat\<rparr>" 9]
  by auto

text \<open>
  With overflow checks, a query that was forwarded along a chain of peers without a panic
  has used exactly its hop budget: hops made times the decrement plus the remaining counter is
  the counter it started with, so no chain is longer than the budget allows.
\<close>

theorem hop_budget_respected:
  assumes "fold_try (\<lambda>q (p, qid). and_then (to_next_hop True p qid d q) (\<lambda>(q', old). Ok q')) qm hops
         = Ok qm'"
  shows "length hops * unat d \<le> unat (rem_hop qm)
       \<and> unat (rem_hop qm') = unat (rem_hop qm) - length hops * unat d"
  using hops_budget [OF assms] by simp

theorem hop_budget_respected_witness:
  "\<exists>qm'. fold_try (\<lambda>q (p, qid). and_then (to_next_hop True p qid 1 q) (\<lambda>(q', old). Ok q'))
       \<lparr>mode_info = AProxy 0, hop_hist = None, storage = StorageLocal, rem_hop = 2, nb_forw = 1,
        prio = 1, nb_res = 1\<rparr>
       [(\<lparr>get_key = 1 :: nat, get_address = 1 :: nat\<rparr>, 5), (\<lparr>get_key = 2, get_address = 2\<rparr>, 6)] = Ok qm'
     \<and> unat (rem_hop qm') = 0"
proof -
  let ?q = "\<lparr>mode_info = AProxy 0, hop_hist = None, storage = StorageLocal, rem_hop = 2, nb_forw = 1,
        prio = 1, nb_res = 1\<rparr> :: (nat, nat) query_msg"
  let ?hops = "[(\<lparr>get_key = 1 :: nat, get_address = 1 :: nat\<rparr>, 5), (\<lparr>get_key = 2, get_address = 2\<rparr>, 6)]
     :: ((nat, nat) peer \<times> usize) list"
  have "fold_try (\<lambda>q (p, qid). and_then (to_next_hop True p qid 1 q) (\<lambda>(q', old). Ok q')) ?q ?hops
      = Ok (?q\<lparr>rem_hop := 0, mode_info := AProxy 6\<rparr>)"
    by (simp add: to_next_hop_def checked_sub_def nb_proxy_with_nb_res_def Let_def)
  from this hop_budget_respected [OF this] show ?thesis by auto
qed

text \<open>
  The cast of \<open>nb_res\<close> to eight bits: a query that expects a non-zero multiple of 256
  results is forwarded to no peer at all.
\<close>

theorem forward_multiple_of_256_to_nobody:
  assumes "nb_forw qm \<noteq> 0" "nb_res qm \<noteq> 0" "256 dvd unat (nb_res qm)"
    "unat d \<le> unat (rem_hop qm)" "unat (nb_res qm) < 2 ^ 63"
  shows "\<exists>qm'. to_next_hop ck p qid d qm = Ok (qm', mode_info qm) \<and> nb_forw qm' = 0"
proof -
  let ?q = "qm\<lparr>rem_hop := rem_hop qm - d, mode_info := new_hop (mode_info qm) p qid d\<rparr>"
  have z: "(ucast (nb_res qm) :: u8) = 0"
    using assms(3) by (metis unat_ucast_u8 dvd_imp_mod_0 unat_eq_0)
  have "256 \<le> unat (nb_res qm)" using assms(2,3) by (metis dvd_imp_le unat_gt_0)
  moreover have "unat (nb_forw qm) < 256" using unsigned_less [of "nb_forw qm"] by simp
  ultimately have big: "nb_res ?q > ucast (nb_forw ?q)"
    by (simp add: word_less_nat_alt unat_ucast_usize)
  have "unat (nb_res qm) div unat (nb_forw qm) + 1 \<le> 2 ^ 63"
    using assms(5) div_le_dividend [of "unat (nb_res qm)" "unat (nb_forw qm)"] by linarith
  then have "unat (nb_res ?q) div unat (nb_forw ?q) + 1 < 2 ^ 64" by simp
  from nb_proxy_big [OF big _ this, of ck] assms(1) z obtain f where
    "nb_proxy_with_nb_res ck ?q = Ok (0, f)" by auto
  from to_next_hop_Ok [OF assms(4) this] show ?thesis by auto
qed

theorem forward_multiple_of_256_to_nobody_witness:
  "\<exists>qm'. to_next_hop False \<lparr>get_key = 1 :: nat, get_address = 2 :: nat\<rparr> 9 1
      \<lparr>mode_info = AProxy 4, hop_hist = None, storage = StorageLocal, rem_hop = 3, nb_forw = 2,
        prio = 1, nb_res = 512\<rparr> = Ok (qm', AProxy 4) \<and> nb_forw qm' = 0"
  using forward_multiple_of_256_to_nobody [of
      "\<lparr>mode_info = AProxy 4, hop_hist = None, storage = StorageLocal, rem_hop = 3, nb_forw = 2,
        prio = 1, nb_res = 512\<rparr>" 1 False "\<lparr>get_key = 1 :: nat, get_address = 2 :: nat\<rparr>" 9]
  by auto

text \<open>
  An \<open>AMix\<close> query with counter \<open>a\<close> is proxied for \<open>a / nbdec\<close> hops, rounded up; the peer
  of the next hop becomes the one the answer is sent to, and stays it for the rest of the route.
\<close>

theorem amix_switches_to_asynch:
  assumes "d \<noteq> 0" "amix_hops a d < length hops"
  shows "run_hops d (AMix a q) hops
       = Asynch (get_key (fst (hops ! amix_hops a d))) (get_address (fst (hops ! amix_hops a d)))
           (snd (last hops))"
  using assms by (rule run_hops_AMix)

theorem amix_switches_to_asynch_witness:
  "run_hops 2 (AMix 3 0) (map (\<lambda>i. (\<lparr>get_key = i, get_address = i + 10\<rparr>, of_nat i)) [1, 2, 3, 4 :: nat])
     = Asynch 3 13 4"
proof -
  have n: "amix_hops 3 2 = 2" by (simp add: amix_hops_def)
  show ?thesis
    using amix_switches_to_asynch [of 2 3
        "map (\<lambda>i. (\<lparr>get_key = i, get_address = i + 10\<rparr>, of_nat i)) [1, 2, 3, 4 :: nat]" 0]
    unfolding n by simp
qed

text \<open>
  The bounded route history: \<open>adjust_lastsent_next_hop\<close> keeps the most recent \<open>maxnb\<close>
  peers, and \<open>update_lastsent_conf\<close> appends the new peers after the most recent ones that still
  fit, so the history exceeds \<open>maxnb\<close> only when the new peers alone do.
\<close>

theorem history_bounded:
  assumes "hop_hist qm = Some (LastSentPeer maxnb lpeers)"
  shows "(\<exists>l. hop_hist (adjust_lastsent_next_hop n qm) = Some (LastSentPeer maxnb l)
             \<and> length l = min maxnb (length lpeers) \<and> (\<exists>pre. lpeers = pre @ l))
       \<and> (\<exists>l. hop_hist (update_lastsent_conf peers m qm) = Some (LastSentPeer maxnb (l @ map get_key peers))
             \<and> length (l @ map get_key peers)
                 = min (length lpeers + length peers) (max maxnb (length peers))
             \<and> (\<exists>pre. lpeers = pre @ l))"
  using adjust_history_bound [OF assms, of n] update_history_bound [OF assms, of peers m]
  by blast

theorem history_bounded_witness:
  "\<exists>l. hop_hist (adjust_lastsent_next_hop 1 \<lparr>mode_info = AProxy 4 :: (nat, nat) query_mode_msg,
       hop_hist = Some (LastSentPeer 2 [1, 2, 3]), storage = StorageLocal, rem_hop = 3, nb_forw = 2,
       prio = 1, nb_res = 1\<rparr>) = Some (LastSentPeer 2 l) \<and> length l = 2"
  using history_bounded [of "\<lparr>mode_info = AProxy 4 :: (nat, nat) query_mode_msg,
       hop_hist = Some (LastSentPeer 2 [1, 2, 3]), storage = StorageLocal, rem_hop = 3, nb_forw = 2,
       prio = 1, nb_res = 1\<rparr>" 2 "[1, 2, 3]" 1 "[]" 0]
  by auto

end
