(* ===== verification/Querycache.thy ===== *)
theory Querycache
  imports Query
begin

text \<open>
  The cache of running queries: \<open>QReply\<close> and \<open>Query\<close> of \<open>mydht/src/query/mod.rs\<close>, and
  \<open>SimpleCacheQuery\<close> over a hash map (\<open>mydht/src/query/simplecache.rs\<close>).  Instants are natural
  numbers, \<open>rnd\<close> the number a generator yields.
\<close>

section \<open>Data and operations\<close>

datatype ('k, 'a, 'p, 'v) qreply =
    QLocal usize usize "'v list" usize u8
  | QDist "('k, 'a) query_mode_msg" "'p option" usize "'v list" usize

record ('k, 'a, 'p, 'v) query =
  query_id :: usize
  query_reply :: "('k, 'a, 'p, 'v) qreply"
  query_expire :: "nat option"

definition get_expire :: "('k, 'a, 'p, 'v) query \<Rightarrow> nat option" where
  "get_expire q = query_expire q"

definition set_expire :: "nat \<Rightarrow> ('k, 'a, 'p, 'v) query \<Rightarrow> ('k, 'a, 'p, 'v) query" where
  "set_expire d q = q\<lparr>query_expire := Some d\<rparr>"

record ('k, 'a, 'p, 'v) query_cache =
  qcache :: "(usize, ('k, 'a, 'p, 'v) query) hashmap"
  randomids :: bool
  lastid :: usize

definition query_cache_new :: "bool \<Rightarrow> ('k, 'a, 'p, 'v) query_cache" where
  "query_cache_new randid = \<lparr>qcache = hashmap_new, randomids = randid, lastid = 0\<rparr>"

definition query_add ::
    "usize \<Rightarrow> ('k, 'a, 'p, 'v) query \<Rightarrow> ('k, 'a, 'p, 'v) query_cache \<Rightarrow> ('k, 'a, 'p, 'v) query_cache" where
  "query_add qid q qc = qc\<lparr>qcache := hashmap_add_val_c qid q (qcache qc)\<rparr>"

definition query_get :: "('k, 'a, 'p, 'v) query_cache \<Rightarrow> usize \<Rightarrow> ('k, 'a, 'p, 'v) query option" where
  "query_get qc qid = hashmap_get_val_c (qcache qc) qid"

definition query_get_mut ::
    "('k, 'a, 'p, 'v) query_cache \<Rightarrow> usize
      \<Rightarrow> (('k, 'a, 'p, 'v) query \<Rightarrow> ('k, 'a, 'p, 'v) query) \<Rightarrow> ('k, 'a, 'p, 'v) query_cache" where
  "query_get_mut qc qid g = qc\<lparr>qcache := hashmap_get_val_mut_c (qcache qc) qid g\<rparr>"

definition query_update ::
    "usize \<Rightarrow> (('k, 'a, 'p, 'v) query \<Rightarrow> ('k, 'a, 'p, 'v) query \<times> unit outcome)
      \<Rightarrow> ('k, 'a, 'p, 'v) query_cache \<Rightarrow> ('k, 'a, 'p, 'v) query_cache \<times> bool outcome" where
  "query_update qid f qc =
     (let (m, r) = hashmap_update_val_c qid f (qcache qc) in (qc\<lparr>qcache := m\<rparr>, r))"

definition query_remove ::
    "usize \<Rightarrow> ('k, 'a, 'p, 'v) query_cache
      \<Rightarrow> ('k, 'a, 'p, 'v) query_cache \<times> ('k, 'a, 'p, 'v) query option" where
  "query_remove qid qc =
     (let (m, r) = hashmap_remove_val_c qid (qcache qc) in (qc\<lparr>qcache := m\<rparr>, r))"

definition new_id ::
    "bool \<Rightarrow> usize \<Rightarrow> ('k, 'a, 'p, 'v) query_cache \<Rightarrow> (('k, 'a, 'p, 'v) query_cache \<times> usize) outcome" where
  "new_id ck rnd qc =
     (if randomids qc then Ok (qc, rnd)
      else and_then (checked_add ck (lastid qc) 1) (\<lambda>i. Ok (qc\<lparr>lastid := i\<rparr>, i)))"

text \<open>
  \<open>cache_clean_nodes\<close> at the instant \<open>now\<close>: a pass that collects the identifiers, the update of
  the queries without a date, then the removals.
\<close>

definition clean_scan ::
    "nat \<Rightarrow> (usize, ('k, 'a, 'p, 'v) query) hashmap \<Rightarrow> usize list \<times> usize list" where
  "clean_scan now m =
     fst (hashmap_map_inplace_c
       (\<lambda>(remqid, initexpire) q.
          (case get_expire (snd q) of
             Some date \<Rightarrow> if date > now then (remqid @ [fst q], initexpire) else (remqid, initexpire)
           | None \<Rightarrow> (remqid, initexpire @ [fst q]),
           Ok ()))
       ([], []) m)"

definition clean_init ::
    "nat \<Rightarrow> ('k, 'a, 'p, 'v) query_cache \<Rightarrow> usize \<Rightarrow> ('k, 'a, 'p, 'v) query_cache outcome" where
  "clean_init now qc qid =
     (let (m, r) = hashmap_update_val_c qid (\<lambda>mq. (set_expire now mq, Ok ())) (qcache qc) in
      case r of Ok _ \<Rightarrow> Ok (qc\<lparr>qcache := m\<rparr>) | _ \<Rightarrow> Panic)"

definition clean_remove ::
    "('k, 'a, 'p, 'v) query_cache \<times> ('k, 'a, 'p, 'v) query list \<Rightarrow> usize
      \<Rightarrow> ('k, 'a, 'p, 'v) query_cache \<times> ('k, 'a, 'p, 'v) query list" where
  "clean_remove st qid =
     (let (qc, remq) = st; (m, r) = hashmap_remove_val_c qid (qcache qc) in
      case r of Some q \<Rightarrow> (qc\<lparr>qcache := m\<rparr>, remq @ [q]) | None \<Rightarrow> (qc\<lparr>qcache := m\<rparr>, remq))"

definition cache_clean_nodes ::
    "nat \<Rightarrow> ('k, 'a, 'p, 'v) query_cache
      \<Rightarrow> (('k, 'a, 'p, 'v) query_cache \<times> ('k, 'a, 'p, 'v) query list) outcome" where
  "cache_clean_nodes now qc =
     (let (remqid, initexpire) = clean_scan now (qcache qc) in
      and_then (fold_try (clean_init now) qc initexpire) (\<lambda>qc.
      Ok (foldl clean_remove (qc, []) remqid)))"

section \<open>Lemmas\<close>

definition query_cache_ok :: "('k, 'a, 'p, 'v) query_cache \<Rightarrow> bool" where
  "query_cache_ok qc = hashmap_ok (qcache qc)"

interpretation qc: cache_store query_cache_ok query_add query_get
    "\<lambda>qc k. query_get qc k \<noteq> None" query_remove
proof
  fix c :: "('a, 'b, 'c, 'd) query_cache" and k k' v
  assume ok: "query_cache_ok c"
  then have m: "hashmap_ok (qcache c)" by (simp add: query_cache_ok_def)
  show "snd (query_remove k c) = query_get c k"
    using hm.rem_result [OF m] by (simp add: query_remove_def query_get_def case_prod_beta Let_def)
  show "query_get (fst (query_remove k c)) k' = (if k' = k then None else query_get c k')"
    using hm.rem_get [OF m] by (simp add: query_remove_def query_get_def case_prod_beta Let_def)
  show "k' \<noteq> k \<Longrightarrow> query_get (query_add k v c) k' = query_get c k'"
    using hm.add_other [OF m] by (simp add: query_add_def query_get_def)
  show "query_get (query_add k v c) k = Some v"
    using hm.add_same [OF m] by (simp add: query_add_def query_get_def)
  show "query_cache_ok (query_add k v c)" "query_cache_ok (fst (query_remove k c))"
    using m by (simp_all add: query_cache_ok_def query_add_def query_remove_def case_prod_beta Let_def)
qed simp

lemma query_get_mut_get:
  "query_get (query_get_mut qc qid g) k
     = (if k = qid then map_option g (query_get qc qid) else query_get qc k)"
  by (simp add: query_get_mut_def query_get_def hashmap_get_val_mut_c_def hashmap_get_val_c_def
      update_conv' split: option.splits)

lemma query_get_mut_ok [simp]:
  "query_cache_ok qc \<Longrightarrow> query_cache_ok (query_get_mut qc qid g)"
  by (simp add: query_cache_ok_def query_get_mut_def hashmap_get_val_mut_c_def hashmap_ok_def
      distinct_update split: option.splits)

lemma clean_scan_fold:
  "fst (hashmap_map_inplace_c
       (\<lambda>(remqid, initexpire) q.
          (case get_expire (snd q) of
             Some date \<Rightarrow> if date > now then (remqid @ [fst q], initexpire) else (remqid, initexpire)
           | None \<Rightarrow> (remqid, initexpire @ [fst q]),
           Ok ())) (r, i) m)
   = (r @ map fst (filter (\<lambda>kq. case query_expire (snd kq) of Some d \<Rightarrow> d > now | None \<Rightarrow> False) m),
      i @ map fst (filter (\<lambda>kq. query_expire (snd kq) = None) m))"
  by (induction m arbitrary: r i) (auto simp: get_expire_def split: option.splits)

lemma clean_init_Ok:
  assumes "query_get qc qid = Some q"
  shows "clean_init now qc qid = Ok (query_get_mut qc qid (set_expire now))"
  using assms by (simp add: clean_init_def hashmap_update_val_c_def query_get_mut_def
      hashmap_get_val_mut_c_def query_get_def hashmap_get_val_c_def)

lemma clean_init_fold:
  "\<forall>k\<in>set ks. query_get qc k \<noteq> None \<Longrightarrow>
   \<exists>qc'. fold_try (clean_init now) qc ks = Ok qc' \<and> (query_cache_ok qc \<longrightarrow> query_cache_ok qc')
       \<and> (\<forall>k. query_get qc' k = (if k \<in> set ks then map_option (set_expire now) (query_get qc k)
                                else query_get qc k))"
proof (induction ks arbitrary: qc)
  case (Cons k ks)
  let ?q = "query_get_mut qc k (set_expire now)"
  from Cons.prems obtain q where q: "query_get qc k = Some q" by auto
  have "\<forall>k'\<in>set ks. query_get ?q k' \<noteq> None"
    using Cons.prems by (simp add: query_get_mut_get)
  from Cons.IH [OF this] obtain qc' where
    qc': "fold_try (clean_init now) ?q ks = Ok qc'" "query_cache_ok ?q \<longrightarrow> query_cache_ok qc'"
      "\<forall>k'. query_get qc' k' = (if k' \<in> set ks then map_option (set_expire now) (query_get ?q k')
                                else query_get ?q k')" by blast
  have "query_get qc' k' = (if k' \<in> set (k # ks) then map_option (set_expire now) (query_get qc k')
                                else query_get qc k')" for k'
    using qc'(3) [rule_format, of k']
    by (auto simp: query_get_mut_get set_expire_def [abs_def] option.map_comp comp_def)
  with qc'(1,2) show ?case by (simp add: clean_init_Ok [OF q])
qed simp

lemma clean_remove_fold:
  "query_cache_ok qc \<Longrightarrow> distinct ks \<Longrightarrow>
   query_cache_ok (fst (foldl clean_remove (qc, r) ks))
   \<and> (\<forall>k. query_get (fst (foldl clean_remove (qc, r) ks)) k = (if k \<in> set ks then None else query_get qc k))
   \<and> snd (foldl clean_remove (qc, r) ks) = r @ List.map_filter (query_get qc) ks"
proof (induction ks arbitrary: qc r)
  case Nil
  then show ?case by (simp add: map_filter_def)
next
  case (Cons k ks)
  let ?qc = "fst (query_remove k qc)"
  have st: "clean_remove (qc, r) k = (?qc, r @ List.map_filter (query_get qc) [k])"
    by (simp add: clean_remove_def query_remove_def query_get_def hashmap_remove_val_c_def
        hashmap_get_val_c_def map_filter_simps Let_def split: option.splits)
  have ok: "query_cache_ok ?qc" using Cons.prems by (simp add: qc.rem_invar)
  have "List.map_filter (query_get ?qc) ks = List.map_filter (query_get qc) ks"
    using Cons.prems by (intro map_filter_cong) (auto simp: qc.rem_get)
  with Cons.IH [OF ok, of "r @ List.map_filter (query_get qc) [k]"] Cons.prems
  have "query_cache_ok (fst (foldl clean_remove (?qc, r @ List.map_filter (query_get qc) [k]) ks))
    \<and> (\<forall>k'. query_get (fst (foldl clean_remove (?qc, r @ List.map_filter (query_get qc) [k]) ks)) k'
          = (if k' \<in> set ks then None else query_get ?qc k'))
    \<and> snd (foldl clean_remove (?qc, r @ List.map_filter (query_get qc) [k]) ks)
          = (r @ List.map_filter (query_get qc) [k]) @ List.map_filter (query_get qc) ks"
    by simp
  with Cons.prems show ?case
    by (simp add: st qc.rem_get) (simp add: map_filter_simps split: option.splits)
qed

section \<open>Properties\<close>

text \<open>What a cleaning at \<open>now\<close> leaves of a query.\<close>

definition after_clean :: "nat \<Rightarrow> ('k, 'a, 'p, 'v) query \<Rightarrow> ('k, 'a, 'p, 'v) query option" where
  "after_clean now q =
     (case query_expire q of
        None \<Rightarrow> Some (set_expire now q)
      | Some d \<Rightarrow> if d > now then None else Some q)"

lemma in_clean_scan:
  assumes "query_cache_ok qc"
  shows "k \<in> fst ` {kq \<in> set (qcache qc). P (snd kq)} \<longleftrightarrow> (\<exists>q. query_get qc k = Some q \<and> P q)"
  using assms by (force simp: query_cache_ok_def hashmap_ok_def query_get_def hashmap_get_val_c_def
      map_of_eq_Some_iff)

lemma cache_clean_nodes_result:
  assumes ok: "query_cache_ok qc"
  shows "\<exists>qc' removed. cache_clean_nodes now qc = Ok (qc', removed) \<and> query_cache_ok qc'
      \<and> (\<forall>k. query_get qc' k = Option.bind (query_get qc k) (after_clean now))
      \<and> set removed = {q. \<exists>k d. query_get qc k = Some q \<and> query_expire q = Some d \<and> now < d}"
proof -
  let ?live = "\<lambda>q. case query_expire q of Some d \<Rightarrow> d > now | None \<Rightarrow> False"
  define rs where "rs = map fst (filter (\<lambda>kq. ?live (snd kq)) (qcache qc))"
  define ini where "ini = map fst (filter (\<lambda>kq. query_expire (snd kq) = None) (qcache qc))"
  have scan: "clean_scan now (qcache qc) = (rs, ini)"
    by (simp add: clean_scan_def clean_scan_fold rs_def ini_def)
  have mem: "k \<in> set rs \<longleftrightarrow> (\<exists>q. query_get qc k = Some q \<and> ?live q)"
    "k \<in> set ini \<longleftrightarrow> (\<exists>q. query_get qc k = Some q \<and> query_expire q = None)" for k
    using in_clean_scan [OF ok] by (simp_all add: rs_def ini_def)
  have drs: "distinct rs" using ok
    by (simp add: rs_def query_cache_ok_def hashmap_ok_def distinct_map_filter)
  have "\<forall>k\<in>set ini. query_get qc k \<noteq> None" using mem(2) by auto
  from clean_init_fold [OF this, of now] ok obtain qc1 where
    qc1: "fold_try (clean_init now) qc ini = Ok qc1" "query_cache_ok qc1"
      "\<forall>k. query_get qc1 k = (if k \<in> set ini then map_option (set_expire now) (query_get qc k)
                                else query_get qc k)" by blast
  obtain qc' removed where res: "foldl clean_remove (qc1, []) rs = (qc', removed)" by fastforce
  from clean_remove_fold [OF qc1(2) drs, of "[]"] res have
    fin: "query_cache_ok qc'" "\<forall>k. query_get qc' k = (if k \<in> set rs then None else query_get qc1 k)"
      "removed = List.map_filter (query_get qc1) rs" by auto
  have "query_get qc' k = Option.bind (query_get qc k) (after_clean now)" for k
    using mem [of k] qc1(3) fin(2)
    by (cases "query_get qc k") (auto simp: after_clean_def split: option.splits if_splits)
  moreover have "set removed = {q. \<exists>k d. query_get qc k = Some q \<and> query_expire q = Some d \<and> now < d}"
  proof -
    have "query_get qc1 k = query_get qc k" if "k \<in> set rs" for k
      using that mem [of k] qc1(3) by auto
    then have "removed = List.map_filter (query_get qc) rs"
      unfolding fin(3) by (intro map_filter_cong) auto
    then show ?thesis using mem(1)
      by (force simp: set_map_filter split: option.splits)
  qed
  ultimately show ?thesis using fin(1) by (simp add: cache_clean_nodes_def scan qc1(1) res)
qed

text \<open>
  \<open>cache_clean_nodes\<close> at \<open>now\<close> removes, and returns, exactly the queries whose expiry date
  is still in the future, keeps those whose date is past, and gives the current date to the ones
  without any: the comparison that selects the expired queries is the wrong way round.
\<close>

theorem cache_clean_nodes_removes_unexpired:
  assumes "query_cache_ok qc"
  shows "\<exists>qc' removed. cache_clean_nodes now qc = Ok (qc', removed)
      \<and> (\<forall>k. query_get qc' k = Option.bind (query_get qc k) (after_clean now))
      \<and> set removed = {q. \<exists>k d. query_get qc k = Some q \<and> query_expire q = Some d \<and> now < d}"
  using cache_clean_nodes_result [OF assms, of now] by blast

text \<open>At time 10, the query that expires at 15 goes and the one that expired at 5 stays.\<close>

theorem cache_clean_nodes_removes_unexpired_witness:
  "\<exists>qc' removed. cache_clean_nodes 10
       \<lparr>qcache = [(1, \<lparr>query_id = 1, query_reply = QLocal 7 1 [] 1 1, query_expire = Some 15\<rparr>),
                 (2, \<lparr>query_id = 2, query_reply = QLocal 8 1 [] 1 1, query_expire = Some 5\<rparr>)],
        randomids = False, lastid = 2\<rparr> = Ok (qc', removed)
     \<and> query_get qc' (1 :: usize) = None
     \<and> query_get qc' 2 = Some (\<lparr>query_id = 2, query_reply = QLocal 8 1 [] 1 1, query_expire = Some 5\<rparr>
          :: (nat, nat, nat, nat) query)"
proof -
  let ?qc = "\<lparr>qcache = [(1, \<lparr>query_id = 1, query_reply = QLocal 7 1 [] 1 1, query_expire = Some 15\<rparr>),
                 (2, \<lparr>query_id = 2, query_reply = QLocal 8 1 [] 1 1, query_expire = Some 5\<rparr>)],
        randomids = False, lastid = 2\<rparr> :: (nat, nat, nat, nat) query_cache"
  have "query_cache_ok ?qc" by (simp add: query_cache_ok_def hashmap_ok_def)
  from cache_clean_nodes_removes_unexpired [OF this, of 10] obtain qc' removed where
    r: "cache_clean_nodes 10 ?qc = Ok (qc', removed)"
       "\<forall>k. query_get qc' k = Option.bind (query_get ?qc k) (after_clean 10)" by blast
  have "query_get qc' 1 = None"
    unfolding r(2) [rule_format] by (simp add: query_get_def hashmap_get_val_c_def after_clean_def)
  moreover have "query_get qc' 2
      = Some \<lparr>query_id = 2, query_reply = QLocal 8 1 [] 1 1, query_expire = Some 5\<rparr>"
    unfolding r(2) [rule_format] by (simp add: query_get_def hashmap_get_val_c_def after_clean_def)
  ultimately show ?thesis using r(1) by blast
qed

end
