(* ===== verification/Commands.thy ===== *)
theory Commands
  imports Querycache
begin

text \<open>
  The messages the processes exchange: the commands and replies of the key-value service
  (\<open>mydht/src/procs/storeprop.rs\<close>), of the global service (\<open>procs/deflocal.rs\<close>) and of the
  configured services together (\<open>procs/mod.rs\<close>), with their conversions.  A function pointer
  held by a command is a code of type \<open>'f\<close> or \<open>'g\<close>; what it computes is an argument of the
  service.  A reference to a value or a peer is the value itself.
\<close>

section \<open>Key-value commands\<close>

datatype ('k, 'a, 'key, 'v, 'f, 'g) kv_command =
    KVStart
  | CommitStore
  | Subset nat 'f
  | WithLocalValue 'key 'g
  | Find "('k, 'a) query_msg" 'key "usize option"
  | FindLocally 'key usize
  | Store usize "'v list"
  | NotFound usize
  | StoreLocally 'v u8 "usize option"

datatype 'v kv_reply =
    FoundApi "'v option" usize
  | FoundApiMult "'v list" usize
  | KVDone usize

record 'k propagate_msg =
  prop_hop_hist :: "'k last_sent option"
  prop_rem_hop :: u8
  prop_nb_forw :: u8
  prop_nb_res :: usize

datatype ('k, 'a, 'key, 'v) kv_proto_msg =
    FIND "('k, 'a) query_msg" 'key
  | STORE usize "'v list"
  | NOTFOUND usize
  | PROPAGATE "'k propagate_msg" 'v

fun kv_can_from :: "('k, 'a, 'key, 'v, 'f, 'g) kv_command \<Rightarrow> bool" where
  "kv_can_from KVStart = False"
| "kv_can_from CommitStore = False"
| "kv_can_from (Subset _ _) = False"
| "kv_can_from (WithLocalValue _ _) = False"
| "kv_can_from (Find _ _ _) = True"
| "kv_can_from (FindLocally _ _) = False"
| "kv_can_from (Store _ _) = True"
| "kv_can_from (NotFound _) = True"
| "kv_can_from (StoreLocally _ _ _) = False"

fun kv_opt_from :: "('k, 'a, 'key, 'v, 'f, 'g) kv_command \<Rightarrow> ('k, 'a, 'key, 'v) kv_proto_msg option" where
  "kv_opt_from KVStart = None"
| "kv_opt_from CommitStore = None"
| "kv_opt_from (Subset _ _) = None"
| "kv_opt_from (WithLocalValue _ _) = None"
| "kv_opt_from (Find qmess key _) = Some (FIND qmess key)"
| "kv_opt_from (FindLocally _ _) = None"
| "kv_opt_from (Store qid vrs) = Some (STORE qid vrs)"
| "kv_opt_from (NotFound qid) = Some (NOTFOUND qid)"
| "kv_opt_from (StoreLocally _ _ _) = None"

text \<open>\<open>Into<KVStoreCommand>\<close>; the arm of \<open>PROPAGATE\<close> is \<open>unimplemented!()\<close>.\<close>

fun kv_proto_into ::
    "('k, 'a, 'key, 'v) kv_proto_msg \<Rightarrow> ('k, 'a, 'key, 'v, 'f, 'g) kv_command outcome" where
  "kv_proto_into (FIND qmes key) = Ok (Find qmes key None)"
| "kv_proto_into (STORE qid refval) = Ok (Store qid refval)"
| "kv_proto_into (NOTFOUND qid) = Ok (NotFound qid)"
| "kv_proto_into (PROPAGATE _ _) = Panic"

text \<open>\<open>ApiQueriable\<close> and \<open>RouteBaseMessage\<close> for the command.\<close>

fun kv_is_api_reply :: "('k, 'a, 'key, 'v, 'f, 'g) kv_command \<Rightarrow> bool" where
  "kv_is_api_reply (Find _ _ _) = True"
| "kv_is_api_reply (FindLocally _ _) = True"
| "kv_is_api_reply (StoreLocally _ _ _) = True"
| "kv_is_api_reply _ = False"

fun kv_set_api_reply ::
    "usize \<Rightarrow> ('k, 'a, 'key, 'v, 'f, 'g) kv_command \<Rightarrow> ('k, 'a, 'key, 'v, 'f, 'g) kv_command" where
  "kv_set_api_reply i (StoreLocally v p _) = StoreLocally v p (Some i)"
| "kv_set_api_reply i (Find q k _) = Find q k (Some i)"
| "kv_set_api_reply i (FindLocally k _) = FindLocally k i"
| "kv_set_api_reply i c = c"

fun kv_get_api_reply :: "('k, 'a, 'key, 'v, 'f, 'g) kv_command \<Rightarrow> usize option" where
  "kv_get_api_reply (StoreLocally _ _ oaqid) = oaqid"
| "kv_get_api_reply (Find _ _ oaqid) = oaqid"
| "kv_get_api_reply (FindLocally _ oaqid) = Some oaqid"
| "kv_get_api_reply _ = None"

fun kv_get_filter_mut :: "('k, 'a, 'key, 'v, 'f, 'g) kv_command \<Rightarrow> 'k list option" where
  "kv_get_filter_mut (Find qm _ _) = get_filter_mut qm"
| "kv_get_filter_mut _ = None"

fun kv_adjust_lastsent_next_hop ::
    "nat \<Rightarrow> ('k, 'a, 'key, 'v, 'f, 'g) kv_command \<Rightarrow> ('k, 'a, 'key, 'v, 'f, 'g) kv_command" where
  "kv_adjust_lastsent_next_hop n (Find qm k i) = Find (adjust_lastsent_next_hop n qm) k i"
| "kv_adjust_lastsent_next_hop n c = c"

text \<open>
  \<open>SRef\<close> and \<open>SToRef\<close>: a command crosses a thread boundary with its values replaced by their
  sendable form \<open>'w\<close>.
\<close>

fun kv_get_sendable ::
    "('v \<Rightarrow> 'w) \<Rightarrow> ('k, 'a, 'key, 'v, 'f, 'g) kv_command \<Rightarrow> ('k, 'a, 'key, 'w, 'f, 'g) kv_command" where
  "kv_get_sendable snd1 KVStart = KVStart"
| "kv_get_sendable snd1 CommitStore = CommitStore"
| "kv_get_sendable snd1 (Subset nb f) = Subset nb f"
| "kv_get_sendable snd1 (WithLocalValue k f) = WithLocalValue k f"
| "kv_get_sendable snd1 (Find qm k oaqid) = Find qm k oaqid"
| "kv_get_sendable snd1 (FindLocally k oaqid) = FindLocally k oaqid"
| "kv_get_sendable snd1 (Store qid vrp) = Store qid (map snd1 vrp)"
| "kv_get_sendable snd1 (NotFound qid) = NotFound qid"
| "kv_get_sendable snd1 (StoreLocally rp qp oaqid) = StoreLocally (snd1 rp) qp oaqid"

fun kv_to_ref ::
    "('w \<Rightarrow> 'v) \<Rightarrow> ('k, 'a, 'key, 'w, 'f, 'g) kv_command \<Rightarrow> ('k, 'a, 'key, 'v, 'f, 'g) kv_command" where
  "kv_to_ref ref1 KVStart = KVStart"
| "kv_to_ref ref1 CommitStore = CommitStore"
| "kv_to_ref ref1 (Subset nb f) = Subset nb f"
| "kv_to_ref ref1 (WithLocalValue k f) = WithLocalValue k f"
| "kv_to_ref ref1 (Find qm k oaqid) = Find qm k oaqid"
| "kv_to_ref ref1 (FindLocally k oaqid) = FindLocally k oaqid"
| "kv_to_ref ref1 (Store qid vrp) = Store qid (map ref1 vrp)"
| "kv_to_ref ref1 (NotFound qid) = NotFound qid"
| "kv_to_ref ref1 (StoreLocally rp qp oaqid) = StoreLocally (ref1 rp) qp oaqid"

fun kv_reply_api_reply :: "'v kv_reply \<Rightarrow> usize option" where
  "kv_reply_api_reply (FoundApi _ a) = Some a"
| "kv_reply_api_reply (FoundApiMult _ a) = Some a"
| "kv_reply_api_reply (KVDone a) = Some a"

fun kv_reply_get_sendable :: "('v \<Rightarrow> 'w) \<Rightarrow> 'v kv_reply \<Rightarrow> 'w kv_reply" where
  "kv_reply_get_sendable snd1 (FoundApi ovr aqid) = FoundApi (map_option snd1 ovr) aqid"
| "kv_reply_get_sendable snd1 (FoundApiMult vrs aqid) = FoundApiMult (map snd1 vrs) aqid"
| "kv_reply_get_sendable snd1 (KVDone aqid) = KVDone aqid"

fun kv_reply_to_ref :: "('w \<Rightarrow> 'v) \<Rightarrow> 'w kv_reply \<Rightarrow> 'v kv_reply" where
  "kv_reply_to_ref ref1 (FoundApi ovr aqid) = FoundApi (map_option ref1 ovr) aqid"
| "kv_reply_to_ref ref1 (FoundApiMult vrs aqid) = FoundApiMult (map ref1 vrs) aqid"
| "kv_reply_to_ref ref1 (KVDone aqid) = KVDone aqid"

section \<open>Commands of all services\<close>

datatype ('l, 'c, 's, 'a) mc_command =
    MCLocal 'l
  | MCGlobal 'c
  | MCPeerStore 's
  | MCTryConnect 'a "usize option"

datatype ('l, 'r, 's) mc_reply =
    MRLocal 'l
  | MRGlobal 'r
  | MRPeerStore 's
  | MRDone usize

text \<open>
  \<open>ApiQueriable\<close> for the sum of the commands, over the methods of the local and global commands
  (the application's), and \<open>ApiRepliable\<close> for the replies.
\<close>

fun mc_is_api_reply ::
    "('l \<Rightarrow> bool) \<Rightarrow> ('c \<Rightarrow> bool) \<Rightarrow> ('l, 'c, ('k, 'a, 'key, 'v, 'f, 'g) kv_command, 'a) mc_command \<Rightarrow> bool" where
  "mc_is_api_reply li gi (MCLocal c) = li c"
| "mc_is_api_reply li gi (MCGlobal c) = gi c"
| "mc_is_api_reply li gi (MCPeerStore c) = kv_is_api_reply c"
| "mc_is_api_reply li gi (MCTryConnect _ _) = True"

fun mc_set_api_reply ::
    "(usize \<Rightarrow> 'l \<Rightarrow> 'l) \<Rightarrow> (usize \<Rightarrow> 'c \<Rightarrow> 'c) \<Rightarrow> usize
      \<Rightarrow> ('l, 'c, ('k, 'a, 'key, 'v, 'f, 'g) kv_command, 'a) mc_command
      \<Rightarrow> ('l, 'c, ('k, 'a, 'key, 'v, 'f, 'g) kv_command, 'a) mc_command" where
  "mc_set_api_reply ls gs i (MCLocal c) = MCLocal (ls i c)"
| "mc_set_api_reply ls gs i (MCGlobal c) = MCGlobal (gs i c)"
| "mc_set_api_reply ls gs i (MCPeerStore c) = MCPeerStore (kv_set_api_reply i c)"
| "mc_set_api_reply ls gs i (MCTryConnect a _) = MCTryConnect a (Some i)"

fun mc_get_api_reply ::
    "('l \<Rightarrow> usize option) \<Rightarrow> ('c \<Rightarrow> usize option)
      \<Rightarrow> ('l, 'c, ('k, 'a, 'key, 'v, 'f, 'g) kv_command, 'a) mc_command \<Rightarrow> usize option" where
  "mc_get_api_reply lg gg (MCLocal c) = lg c"
| "mc_get_api_reply lg gg (MCGlobal c) = gg c"
| "mc_get_api_reply lg gg (MCPeerStore c) = kv_get_api_reply c"
| "mc_get_api_reply lg gg (MCTryConnect _ a) = a"

fun mc_reply_api_reply ::
    "('l \<Rightarrow> usize option) \<Rightarrow> ('r \<Rightarrow> usize option) \<Rightarrow> ('l, 'r, 'v kv_reply) mc_reply \<Rightarrow> usize option" where
  "mc_reply_api_reply lg gg (MRLocal a) = lg a"
| "mc_reply_api_reply lg gg (MRGlobal a) = gg a"
| "mc_reply_api_reply lg gg (MRPeerStore a) = kv_reply_api_reply a"
| "mc_reply_api_reply lg gg (MRDone a) = Some a"

text \<open>\<open>KVStoreProtoMsgWithPeer\<close>: the protocol of a dht whose main service is a key-value store.\<close>

datatype ('m, 'n) proto_with_peer = ProtoMain 'm | ProtoPeerMgmt 'n

fun pwp_into ::
    "(('k, 'a, 'key, 'v) kv_proto_msg, ('k, 'a, 'pk, 'p) kv_proto_msg) proto_with_peer
     \<Rightarrow> ('l, ('k, 'a, 'key, 'v, 'f, 'g) kv_command, ('k, 'a, 'pk, 'p, 'f, 'g) kv_command, 'a) mc_command outcome" where
  "pwp_into (ProtoMain pmess) = and_then (kv_proto_into pmess) (\<lambda>c. Ok (MCGlobal c))"
| "pwp_into (ProtoPeerMgmt pmess) = and_then (kv_proto_into pmess) (\<lambda>c. Ok (MCPeerStore c))"

fun pwp_can_from ::
    "('l, ('k, 'a, 'key, 'v, 'f, 'g) kv_command, ('k, 'a, 'pk, 'p, 'f, 'g) kv_command, 'a) mc_command \<Rightarrow> bool" where
  "pwp_can_from (MCLocal _) = False"
| "pwp_can_from (MCGlobal gc) = kv_can_from gc"
| "pwp_can_from (MCPeerStore pc) = kv_can_from pc"
| "pwp_can_from (MCTryConnect _ _) = False"

fun pwp_opt_from ::
    "('l, ('k, 'a, 'key, 'v, 'f, 'g) kv_command, ('k, 'a, 'pk, 'p, 'f, 'g) kv_command, 'a) mc_command
     \<Rightarrow> (('k, 'a, 'key, 'v) kv_proto_msg, ('k, 'a, 'pk, 'p) kv_proto_msg) proto_with_peer option" where
  "pwp_opt_from (MCGlobal pmess) = map_option ProtoMain (kv_opt_from pmess)"
| "pwp_opt_from (MCPeerStore pmess) = map_option ProtoPeerMgmt (kv_opt_from pmess)"
| "pwp_opt_from _ = None"

section \<open>The global service\<close>

record fw_conf =
  nb_for :: nat
  discover :: bool

datatype ('p, 'c) global_command = GLocal 'c | GDistant "'p option" 'c

fun is_local :: "('p, 'c) global_command \<Rightarrow> bool" where
  "is_local (GLocal _) = True"
| "is_local (GDistant _ _) = False"

fun get_inner_command :: "('p, 'c) global_command \<Rightarrow> 'c" where
  "get_inner_command (GLocal gsc) = gsc"
| "get_inner_command (GDistant _ gsc) = gsc"

fun get_inner_command_mut :: "('c \<Rightarrow> 'c) \<Rightarrow> ('p, 'c) global_command \<Rightarrow> ('p, 'c) global_command" where
  "get_inner_command_mut h (GLocal gsc) = GLocal (h gsc)"
| "get_inner_command_mut h (GDistant ow gsc) = GDistant ow (h gsc)"

datatype ('k, 'a) main_loop_sub_command =
    SubTrustedTryConnect "('k, 'a) peer"
  | SubTryConnect 'k 'a
  | SubDiscover "('k \<times> 'a) list"
  | SubFoundAddressForKey "'a option"
  | SubPoolSize nat

type_synonym ('k, 'a) dests = "('k option \<times> 'a option) list option"

type_synonym ('k, 'a, 'f, 'g) peer_command = "('k, 'a, 'k, ('k, 'a) peer, 'f, 'g) kv_command"

datatype ('k, 'a, 'f, 'g, 'c, 'r) global_reply =
    Forward "('k, 'a) peer list option" "('k, 'a) dests" fw_conf 'c
  | ForwardOnce "'k option" "'a option" fw_conf 'c
  | PeerForward "('k, 'a) peer list option" "('k, 'a) dests" fw_conf "('k, 'a, 'f, 'g) peer_command"
  | ApiRep 'r
  | PeerApi "('k, 'a) peer kv_reply"
  | MainLoopRep "('k, 'a) main_loop_sub_command"
  | PeerStoreRep "('k, 'a, 'f, 'g) peer_command"
  | GlobalSendPeer "('k, 'a) peer option"
  | NoRep
  | Mult "('k, 'a, 'f, 'g, 'c, 'r) global_reply list"

text \<open>The functions of \<open>storeprop.rs\<close> that commands on the peer store hand over.\<close>

definition trusted_peer_ping ::
    "('k, 'a) peer list \<Rightarrow> ('k, 'a, 'f, 'g, 'c, 'r) global_reply" where
  "trusted_peer_ping v =
     (if length v = 0 then NoRep else Mult (map (\<lambda>p. MainLoopRep (SubTrustedTryConnect p)) v))"

definition peer_ping :: "('k, 'a) peer list \<Rightarrow> ('k, 'a, 'f, 'g, 'c, 'r) global_reply" where
  "peer_ping v =
     (if length v = 0 then NoRep
      else Mult (map (\<lambda>p. MainLoopRep (SubTryConnect (get_key p) (get_address p))) v))"

definition peer_discover :: "('k, 'a) peer list \<Rightarrow> ('k, 'a, 'f, 'g, 'c, 'r) global_reply" where
  "peer_discover v =
     (if length v = 0 then NoRep
      else MainLoopRep (SubDiscover (map (\<lambda>p. (get_key p, get_address p)) v)))"

definition peer_forward_ka :: "('k, 'a) peer option \<Rightarrow> ('k, 'a, 'f, 'g, 'c, 'r) global_reply" where
  "peer_forward_ka op1 = MainLoopRep (SubFoundAddressForKey (map_option get_address op1))"

definition send_user_to_global :: "('k, 'a) peer option \<Rightarrow> ('k, 'a, 'f, 'g, 'c, 'r) global_reply" where
  "send_user_to_global res_q_peer = GlobalSendPeer res_q_peer"

section \<open>Lemmas\<close>

lemma kv_can_from_iff: "kv_can_from c \<longleftrightarrow> kv_opt_from c \<noteq> None"
  by (cases c) simp_all

lemma kv_opt_from_into:
  "kv_opt_from c = Some m \<Longrightarrow>
   kv_proto_into m = Ok (case c of Find q k i \<Rightarrow> Find q k None | _ \<Rightarrow> c)"
  by (cases c) auto

lemma kv_is_api_reply_set:
  "kv_get_api_reply (kv_set_api_reply i c)
     = (if kv_is_api_reply c then Some i else None)"
  by (cases c) simp_all

lemma kv_sendable_to_ref:
  "(\<And>v. ref1 (snd1 v) = v) \<Longrightarrow> kv_to_ref ref1 (kv_get_sendable snd1 c) = c"
  by (cases c) (simp_all add: map_idI)

lemma kv_reply_sendable_to_ref:
  "(\<And>v. ref1 (snd1 v) = v) \<Longrightarrow> kv_reply_to_ref ref1 (kv_reply_get_sendable snd1 r) = r"
  by (cases r) (simp_all add: map_idI option.map_comp comp_def option.map_ident)

section \<open>Properties\<close>

text \<open>
  A command of a key-value dht is sent to a peer exactly when it has a protocol message,
  and the peer decodes that message into the same command, without the api identifier of the
  sender; decoding never reaches the unimplemented arm on a message that was encoded.
\<close>

theorem proto_roundtrip:
  "(pwp_can_from c \<longleftrightarrow> pwp_opt_from c \<noteq> None)
   \<and> (\<forall>m. pwp_opt_from c = Some m \<longrightarrow>
       pwp_into m = Ok (case c of
           MCGlobal (Find q k i) \<Rightarrow> MCGlobal (Find q k None)
         | MCPeerStore (Find q k i) \<Rightarrow> MCPeerStore (Find q k None)
         | _ \<Rightarrow> c))"
proof (cases c)
  case (MCGlobal g)
  then show ?thesis by (cases g) auto
next
  case (MCPeerStore s)
  then show ?thesis by (cases s) auto
qed simp_all

theorem proto_roundtrip_witness:
  "pwp_into (ProtoPeerMgmt (NOTFOUND 4) ::
      ((nat, nat, nat, nat) kv_proto_msg, (nat, nat, nat, nat) kv_proto_msg) proto_with_peer)
    = Ok (MCPeerStore (NotFound 4)
        :: (nat, (nat, nat, nat, nat, unit, unit) kv_command, (nat, nat, nat, nat, unit, unit) kv_command, nat) mc_command)"
  using proto_roundtrip [of "MCPeerStore (NotFound 4)
        :: (nat, (nat, nat, nat, nat, unit, unit) kv_command, (nat, nat, nat, nat, unit, unit) kv_command, nat) mc_command"]
  by simp

end
