(* ===== verification/Kvservice.thy ===== *)
theory Kvservice
  imports Commands
begin

text \<open>
  The key-value service \<open>KVStoreService\<close> (\<open>mydht/src/procs/storeprop.rs\<close>): it answers, stores
  and forwards queries, remembers the forwarded ones in the query cache and gathers their
  results.  The store, the rules and the meaning of the function pointers are arguments; the
  query cache is \<open>SimpleCacheQuery\<close>.  An environment gives the profile, the current instant and
  the number a generator would yield.
\<close>

section \<open>State\<close>

record ('st, 'key, 'v) store_ops =
  so_add :: "'v \<Rightarrow> cache_policy option \<Rightarrow> 'st \<Rightarrow> 'st"
  so_get :: "'st \<Rightarrow> 'key \<Rightarrow> 'v option"
  so_next :: "'st \<Rightarrow> nat \<Rightarrow> 'v list option outcome"
  so_commit :: "'st \<Rightarrow> 'st \<times> bool outcome"

record rules =
  r_do_store :: "bool \<Rightarrow> u8 \<Rightarrow> bool \<times> cache_policy option"
  r_notfoundreply :: "query_mode \<Rightarrow> bool"
  r_nbhop_dec :: u8
  r_lifetime :: "u8 \<Rightarrow> nat outcome"

record env =
  env_ck :: bool
  env_now :: nat
  env_rnd :: usize

record ('k, 'a, 'st, 'v) kv_service =
  kv_me :: "('k, 'a) peer"
  init_store :: "'st outcome"
  init_cache :: "('k, 'a, ('k, 'a) peer, 'v) query_cache outcome"
  store :: "'st option"
  dht_rules :: rules
  query_cache :: "('k, 'a, ('k, 'a) peer, 'v) query_cache option"
  kv_discover :: bool

type_synonym ('k, 'a, 'key, 'v, 'f, 'g) kv_out =
  "('k, 'a, 'f, 'g, ('k, 'a, 'key, 'v, 'f, 'g) kv_command, 'v kv_reply) global_reply"

type_synonym ('k, 'a, 'st, 'key, 'v, 'f, 'g) kv_result =
  "('st \<times> ('k, 'a, ('k, 'a) peer, 'v) query_cache \<times> ('k, 'a, 'key, 'v, 'f, 'g) kv_out) outcome"

text \<open>The reply forwarded to whoever sent the query: no routing, discovery allowed.\<close>

definition fw_reply :: fw_conf where
  "fw_reply = \<lparr>nb_for = 0, discover = True\<rparr>"

definition reply_to ::
    "('k, 'a) query_mode_msg \<Rightarrow> ('k, 'a) peer option
      \<Rightarrow> (usize \<Rightarrow> ('k, 'a, 'key, 'v, 'f, 'g) kv_command) \<Rightarrow> ('k, 'a, 'key, 'v, 'f, 'g) kv_out" where
  "reply_to mi owith cmd =
     (let (odpr, odka, qid) = fwd_dests mi owith in Forward odpr odka fw_reply (cmd qid))"

section \<open>The arms of \<open>call\<close>\<close>

text \<open>\<open>Store\<close>: results for a cached query.\<close>

definition kv_store_reply ::
    "usize \<Rightarrow> 'st \<Rightarrow> ('k, 'a, ('k, 'a) peer, 'v) query_cache
      \<Rightarrow> ('k, 'a, 'st, 'key, 'v, 'f, 'g) kv_result" where
  "kv_store_reply qid st qc =
     (let (qc', oq) = query_remove qid qc in
      and_then (unwrap oq) (\<lambda>q.
        case query_reply q of
          QLocal apiqid _ vres _ _ \<Rightarrow> Ok (st, qc', ApiRep (FoundApiMult vres apiqid))
        | QDist old_mode_info owith _ vres _ \<Rightarrow>
            Ok (st, qc', reply_to old_mode_info owith (\<lambda>qid. Store qid vres))))"

definition kv_store_cmd ::
    "('st, 'key, 'v) store_ops \<Rightarrow> rules \<Rightarrow> usize \<Rightarrow> 'v list \<Rightarrow> 'st
      \<Rightarrow> ('k, 'a, ('k, 'a) peer, 'v) query_cache \<Rightarrow> ('k, 'a, 'st, 'key, 'v, 'f, 'g) kv_result" where
  "kv_store_cmd ops rl qid vs st qc =
     (case query_get qc qid of
        Some q \<Rightarrow>
          (case query_reply q of
             QLocal apiqid nbres vres nnf qp \<Rightarrow>
               let (ds, cp) = r_do_store rl True qp;
                   st1 = (if ds then foldl (\<lambda>s v. so_add ops v cp s) st vs else st);
                   qc1 = query_get_mut qc qid
                     (\<lambda>q. q\<lparr>query_reply := QLocal apiqid nbres (vres @ vs) nnf qp\<rparr>) in
               if unat nbres = length (vres @ vs) then kv_store_reply qid st1 qc1
               else Ok (st1, qc1, NoRep)
           | QDist old_mode_info owith nbres vres nnf \<Rightarrow>
               let (ds, cp) = r_do_store rl False 0;
                   st1 = (if ds then foldl (\<lambda>s v. so_add ops v cp s) st vs else st) in
               if \<not> r_notfoundreply rl (get_mode old_mode_info)
               then Ok (st1, qc, reply_to old_mode_info owith (\<lambda>qid. Store qid vs))
               else let qc1 = query_get_mut qc qid
                      (\<lambda>q. q\<lparr>query_reply := QDist old_mode_info owith nbres (vres @ vs) nnf\<rparr>) in
                 if unat nbres = length (vres @ vs) then kv_store_reply qid st1 qc1
                 else Ok (st1, qc1, NoRep))
      | None \<Rightarrow> Ok (st, qc, NoRep))"

definition kv_store_locally ::
    "('st, 'key, 'v) store_ops \<Rightarrow> rules \<Rightarrow> 'v \<Rightarrow> u8 \<Rightarrow> usize option \<Rightarrow> 'st
      \<Rightarrow> ('k, 'a, ('k, 'a) peer, 'v) query_cache \<Rightarrow> ('k, 'a, 'st, 'key, 'v, 'f, 'g) kv_result" where
  "kv_store_locally ops rl v qprio o_api_queryid st qc =
     (let (ds, cp) = r_do_store rl True qprio;
          st1 = (if ds then so_add ops v cp st else st) in
      case o_api_queryid of
        Some api_queryid \<Rightarrow> Ok (st1, qc, ApiRep (KVDone api_queryid))
      | None \<Rightarrow> Ok (st1, qc, NoRep))"

text \<open>\<open>NotFound\<close>: the countdown of the negative replies to a cached query.\<close>

fun dec_not_found ::
    "('k, 'a, 'p, 'v) qreply \<Rightarrow> ('k, 'a, 'p, 'v) qreply \<times> bool" where
  "dec_not_found (QLocal a nbres vres nnf qp) =
     (if nnf > 0 then (QLocal a nbres vres (nnf - 1) qp, nnf - 1 = 0)
      else (QLocal a nbres vres nnf qp, False))"
| "dec_not_found (QDist m ow nbres vres nnf) =
     (if nnf > 0 then (QDist m ow nbres vres (nnf - 1), nnf - 1 = 0)
      else (QDist m ow nbres vres nnf, False))"

definition kv_not_found_reply ::
    "rules \<Rightarrow> usize \<Rightarrow> 'st \<Rightarrow> ('k, 'a, ('k, 'a) peer, 'v) query_cache
      \<Rightarrow> ('k, 'a, 'st, 'key, 'v, 'f, 'g) kv_result" where
  "kv_not_found_reply rl qid st qc =
     (let (qc', oq) = query_remove qid qc in
      and_then (unwrap oq) (\<lambda>q.
        case query_reply q of
          QLocal apiqid _ vres _ _ \<Rightarrow> Ok (st, qc', ApiRep (FoundApiMult vres apiqid))
        | QDist old_mode_info owith _ vres _ \<Rightarrow>
            if length vres > 0
            then Ok (st, qc', reply_to old_mode_info owith (\<lambda>qid. Store qid vres))
            else if r_notfoundreply rl (get_mode old_mode_info)
              then Ok (st, qc', reply_to old_mode_info owith NotFound)
              else Ok (st, qc', NoRep)))"

definition kv_not_found ::
    "rules \<Rightarrow> usize \<Rightarrow> 'st \<Rightarrow> ('k, 'a, ('k, 'a) peer, 'v) query_cache
      \<Rightarrow> ('k, 'a, 'st, 'key, 'v, 'f, 'g) kv_result" where
  "kv_not_found rl qid st qc =
     (case query_get qc qid of
        Some q \<Rightarrow>
          let (rep, rem) = dec_not_found (query_reply q);
              qc1 = query_get_mut qc qid (\<lambda>q. q\<lparr>query_reply := rep\<rparr>) in
          if rem then kv_not_found_reply rl qid st qc1 else Ok (st, qc1, NoRep)
      | None \<Rightarrow> Ok (st, qc, NoRep))"

text \<open>\<open>Find\<close>, first part: no need to forward.\<close>

definition kv_find_end ::
    "rules \<Rightarrow> ('k, 'a) query_msg \<Rightarrow> 'v option \<Rightarrow> usize option \<Rightarrow> ('k, 'a) peer option
      \<Rightarrow> ('k, 'a, 'key, 'v, 'f, 'g) kv_out" where
  "kv_find_end rl querymess oval o_api_queryid owith =
     (case oval of
        Some val \<Rightarrow>
          (case o_api_queryid of
             Some api_queryid \<Rightarrow> ApiRep (FoundApi (Some val) api_queryid)
           | None \<Rightarrow> reply_to (mode_info querymess) owith (\<lambda>qid. Store qid [val]))
      | None \<Rightarrow>
          if r_notfoundreply rl (get_mode (mode_info querymess))
          then (case o_api_queryid of
                  Some api_queryid \<Rightarrow> ApiRep (FoundApi None api_queryid)
                | None \<Rightarrow> reply_to (mode_info querymess) owith NotFound)
          else NoRep)"

text \<open>
  Second part: the value found locally goes into the results to send later, or is sent at
  once; the query is registered and forwarded.
\<close>

definition kv_split_val :: "bool \<Rightarrow> 'v option \<Rightarrow> 'v list \<times> 'v option" where
  "kv_split_val do_reply_not_found oval =
     (case oval of
        Some v \<Rightarrow> if do_reply_not_found then ([v], None) else ([], oval)
      | None \<Rightarrow> ([], None))"

definition kv_register ::
    "usize option \<Rightarrow> bool \<Rightarrow> usize \<Rightarrow> ('k, 'a) query_mode_msg \<Rightarrow> ('k, 'a) peer option
      \<Rightarrow> ('k, 'a) query_msg \<Rightarrow> 'v list \<Rightarrow> usize \<Rightarrow> nat
      \<Rightarrow> ('k, 'a, ('k, 'a) peer, 'v) query_cache \<Rightarrow> ('k, 'a, ('k, 'a) peer, 'v) query_cache" where
  "kv_register o_api_queryid stq qid old_mode_info owith querymess vres nb_not_found expire qc =
     (case o_api_queryid of
        Some apiqid \<Rightarrow> query_add qid \<lparr>query_id = qid,
          query_reply = QLocal apiqid (nb_res querymess) vres nb_not_found (prio querymess),
          query_expire = Some expire\<rparr> qc
      | None \<Rightarrow>
          if stq then query_add qid \<lparr>query_id = qid,
            query_reply = QDist old_mode_info owith (nb_res querymess) vres nb_not_found,
            query_expire = Some expire\<rparr> qc
          else qc)"

definition kv_forward_out ::
    "bool \<Rightarrow> bool \<Rightarrow> ('k, 'a) query_mode_msg \<Rightarrow> ('k, 'a) peer option \<Rightarrow> ('k, 'a) query_msg \<Rightarrow> 'key
      \<Rightarrow> 'v option \<Rightarrow> ('k, 'a, 'key, 'v, 'f, 'g) kv_out" where
  "kv_forward_out disc do_reply_not_found old_mode_info owith querymess key oval =
     (let pquery = Forward None None \<lparr>nb_for = unat (nb_forw querymess), discover = disc\<rparr>
                     (Find querymess key None) in
      case oval of
        Some v \<Rightarrow>
          if \<not> do_reply_not_found
          then Mult [reply_to old_mode_info owith (\<lambda>oqid. Store oqid [v]), pquery]
          else pquery
      | None \<Rightarrow> pquery)"

definition kv_find_forward ::
    "env \<Rightarrow> rules \<Rightarrow> ('k, 'a) peer \<Rightarrow> bool \<Rightarrow> ('k, 'a) query_msg \<Rightarrow> 'key \<Rightarrow> 'v option
      \<Rightarrow> usize option \<Rightarrow> ('k, 'a) peer option \<Rightarrow> 'st
      \<Rightarrow> ('k, 'a, ('k, 'a) peer, 'v) query_cache \<Rightarrow> ('k, 'a, 'st, 'key, 'v, 'f, 'g) kv_result" where
  "kv_find_forward env rl me disc querymess key oval o_api_queryid owith st qc =
     and_then
       (if o_api_queryid \<noteq> None \<or> do_store_on_forward (mode_info querymess)
        then and_then (new_id (env_ck env) (env_rnd env) qc) (\<lambda>(qc, i). Ok (qc, i, True))
        else Ok (qc, get_query_id querymess, False)) (\<lambda>(qc, qid, stq).
     and_then (to_next_hop (env_ck env) me qid (r_nbhop_dec rl) querymess) (\<lambda>(querymess, old_mode_info).
     let mode = get_mode (mode_info querymess);
         do_reply_not_found = r_notfoundreply rl mode in
     and_then
       (if do_reply_not_found
        then notfoundtreshold (env_ck env) (nb_forw querymess) (rem_hop querymess) mode else Ok 0)
       (\<lambda>nb_not_found.
     and_then (r_lifetime rl (prio querymess)) (\<lambda>lifetime.
     let (vres, oval) = kv_split_val do_reply_not_found oval in
     Ok (st,
         kv_register o_api_queryid stq qid old_mode_info owith querymess vres nb_not_found
           (env_now env + lifetime) qc,
         kv_forward_out disc do_reply_not_found old_mode_info owith querymess key oval)))))"

definition kv_find ::
    "env \<Rightarrow> ('st, 'key, 'v) store_ops \<Rightarrow> rules \<Rightarrow> ('k, 'a) peer \<Rightarrow> bool \<Rightarrow> ('k, 'a) query_msg \<Rightarrow> 'key
      \<Rightarrow> usize option \<Rightarrow> ('k, 'a) peer option \<Rightarrow> 'st
      \<Rightarrow> ('k, 'a, ('k, 'a) peer, 'v) query_cache \<Rightarrow> ('k, 'a, 'st, 'key, 'v, 'f, 'g) kv_result" where
  "kv_find env ops rl me disc querymess key o_api_queryid owith st qc =
     (if (o_api_queryid \<noteq> None) = (owith \<noteq> None) then Panic
      else let oval = so_get ops st key in
      and_then
        (if oval \<noteq> None
         then and_then (checked_sub (env_ck env) (nb_res querymess) 1) (\<lambda>n. Ok (querymess\<lparr>nb_res := n\<rparr>))
         else Ok querymess) (\<lambda>querymess.
      if rem_hop querymess = 0 \<or> nb_res querymess = 0
      then Ok (st, qc, kv_find_end rl querymess oval o_api_queryid owith)
      else kv_find_forward env rl me disc querymess key oval o_api_queryid owith st qc))"

text \<open>All arms; \<open>fs\<close> and \<open>fg\<close> are the functions behind the pointers.\<close>

definition kv_exec ::
    "env \<Rightarrow> ('st, 'key, 'v) store_ops
      \<Rightarrow> ('f \<Rightarrow> 'v list \<Rightarrow> ('k, 'a, 'key, 'v, 'f, 'g) kv_out)
      \<Rightarrow> ('g \<Rightarrow> 'v option \<Rightarrow> ('k, 'a, 'key, 'v, 'f, 'g) kv_out)
      \<Rightarrow> rules \<Rightarrow> ('k, 'a) peer \<Rightarrow> bool \<Rightarrow> (('k, 'a) peer, ('k, 'a, 'key, 'v, 'f, 'g) kv_command) global_command
      \<Rightarrow> 'st \<Rightarrow> ('k, 'a, ('k, 'a) peer, 'v) query_cache \<Rightarrow> ('k, 'a, 'st, 'key, 'v, 'f, 'g) kv_result" where
  "kv_exec env ops fs fg rl me disc req st qc =
     (let (owith, cmd) = (case req of GLocal r \<Rightarrow> (None, r) | GDistant ow r \<Rightarrow> (ow, r)) in
      case cmd of
        KVStart \<Rightarrow> Ok (st, qc, NoRep)
      | Subset nb f \<Rightarrow>
          and_then (so_next ops st nb) (\<lambda>ov.
            case ov of Some vals \<Rightarrow> Ok (st, qc, fs f vals) | None \<Rightarrow> Panic)
      | WithLocalValue k f \<Rightarrow> Ok (st, qc, fg f (so_get ops st k))
      | CommitStore \<Rightarrow>
          (let (st1, r) = so_commit ops st in
           and_then r (\<lambda>b. if b then Ok (st1, qc, NoRep) else Panic))
      | Store qid vs \<Rightarrow> kv_store_cmd ops rl qid vs st qc
      | StoreLocally v qprio o_api \<Rightarrow> kv_store_locally ops rl v qprio o_api st qc
      | NotFound qid \<Rightarrow> kv_not_found rl qid st qc
      | Find querymess key o_api \<Rightarrow> kv_find env ops rl me disc querymess key o_api owith st qc
      | FindLocally key apiqid \<Rightarrow> Ok (st, qc, ApiRep (FoundApi (so_get ops st key) apiqid)))"

text \<open>\<open>call\<close>: the lazy initialisation, then the command.\<close>

definition kv_init ::
    "('k, 'a, 'st, 'v) kv_service \<Rightarrow> ('k, 'a, 'st, 'v) kv_service
      \<times> ('st \<times> ('k, 'a, ('k, 'a) peer, 'v) query_cache) outcome" where
  "kv_init svc =
     (case (case store svc of Some s \<Rightarrow> Ok s | None \<Rightarrow> init_store svc) of
        Err e \<Rightarrow> (svc, Err e)
      | Panic \<Rightarrow> (svc, Panic)
      | Ok s \<Rightarrow>
          let svc1 = svc\<lparr>store := Some s\<rparr> in
          (case (case query_cache svc1 of Some c \<Rightarrow> Ok c | None \<Rightarrow> init_cache svc1) of
             Err e \<Rightarrow> (svc1, Err e)
           | Panic \<Rightarrow> (svc1, Panic)
           | Ok c \<Rightarrow> (svc1\<lparr>query_cache := Some c\<rparr>, Ok (s, c))))"

definition kv_call ::
    "env \<Rightarrow> ('st, 'key, 'v) store_ops
      \<Rightarrow> ('f \<Rightarrow> 'v list \<Rightarrow> ('k, 'a, 'key, 'v, 'f, 'g) kv_out)
      \<Rightarrow> ('g \<Rightarrow> 'v option \<Rightarrow> ('k, 'a, 'key, 'v, 'f, 'g) kv_out)
      \<Rightarrow> (('k, 'a) peer, ('k, 'a, 'key, 'v, 'f, 'g) kv_command) global_command
      \<Rightarrow> ('k, 'a, 'st, 'v) kv_service
      \<Rightarrow> ('k, 'a, 'st, 'v) kv_service \<times> ('k, 'a, 'key, 'v, 'f, 'g) kv_out outcome" where
  "kv_call env ops fs fg req svc =
     (case kv_init svc of
        (svc1, Ok (st, qc)) \<Rightarrow>
          (case kv_exec env ops fs fg (dht_rules svc1) (kv_me svc1) (kv_discover svc1) req st qc of
             Ok (st', qc', rep) \<Rightarrow> (svc1\<lparr>store := Some st', query_cache := Some qc'\<rparr>, Ok rep)
           | Err e \<Rightarrow> (svc1, Err e)
           | Panic \<Rightarrow> (svc1, Panic))
      | (svc1, Err e) \<Rightarrow> (svc1, Err e)
      | (svc1, Panic) \<Rightarrow> (svc1, Panic))"

section \<open>Association lists as multisets\<close>

lemma mset_update_subset: "mset (AList.update k v m) \<subseteq># add_mset (k, v) (mset m)"
proof (induction m)
  case (Cons kv m)
  show ?case
  proof (cases "fst kv = k")
    case True
    then show ?thesis by (cases kv) (simp add: subset_eq_diff_conv)
  next
    case False
    with Cons show ?thesis by (cases kv) (simp add: add_mset_commute)
  qed
qed simp

lemma mset_update_Some:
  "map_of m k = Some v \<Longrightarrow> mset (AList.update k w m) = add_mset (k, w) (mset m - {#(k, v)#})"
proof (induction m)
  case (Cons kv m)
  obtain a b where kv: "kv = (a, b)" by fastforce
  show ?case
  proof (cases "a = k")
    case True
    with Cons.prems kv show ?thesis by simp
  next
    case False
    with Cons.prems kv have m: "map_of m k = Some v" by simp
    then have "(k, v) \<in># mset m" by (simp add: map_of_SomeD)
    with False kv Cons.IH [OF m] show ?thesis by (simp add: add_mset_commute)
  qed
qed simp

lemma delete_notin: "k \<notin> fst ` set m \<Longrightarrow> AList.delete k m = m"
  by (simp add: AList.delete_eq filter_id_conv) force

lemma mset_delete_Some:
  "map_of m k = Some v \<Longrightarrow> distinct (map fst m) \<Longrightarrow> mset (AList.delete k m) = mset m - {#(k, v)#}"
proof (induction m)
  case (Cons kv m)
  obtain a b where kv: "kv = (a, b)" by fastforce
  show ?case
  proof (cases "a = k")
    case True
    with Cons.prems kv show ?thesis by (simp add: delete_notin)
  next
    case False
    with Cons.prems kv have m: "map_of m k = Some v" by simp
    then have "(k, v) \<in># mset m" by (simp add: map_of_SomeD)
    with False kv Cons show ?thesis by simp
  qed
qed simp

section \<open>Api queries in flight\<close>

fun api_of :: "('k, 'a, 'p, 'v) qreply \<Rightarrow> usize list" where
  "api_of (QLocal a _ _ _ _) = [a]"
| "api_of (QDist _ _ _ _ _) = []"

text \<open>The identifiers of the api queries that wait in the cache.\<close>

definition pending :: "('k, 'a, 'p, 'v) query_cache \<Rightarrow> usize multiset" where
  "pending qc = (\<Sum>kq \<in># mset (qcache qc). mset (api_of (query_reply (snd kq))))"

text \<open>The identifiers a reply of the service answers.\<close>

fun api_replies :: "('k, 'a, 'f, 'g, 'c, 'v kv_reply) global_reply \<Rightarrow> usize list" where
  "api_replies (ApiRep r) = (case kv_reply_api_reply r of Some a \<Rightarrow> [a] | None \<Rightarrow> [])"
| "api_replies (Mult rs) = concat (map api_replies rs)"
| "api_replies _ = []"

lemma api_replies_reply_to [simp]: "api_replies (reply_to m ow c) = []"
  by (simp add: reply_to_def split: prod.splits)

lemma pending_add: "pending (query_add qid q qc) \<subseteq># pending qc + mset (api_of (query_reply q))"
proof -
  obtain rest where eq: "add_mset (qid, q) (mset (qcache qc)) = mset (AList.update qid q (qcache qc)) + rest"
    using mset_update_subset by (metis subset_mset.le_iff_add)
  have "pending qc + mset (api_of (query_reply q))
     = pending (query_add qid q qc) + (\<Sum>kq \<in># rest. mset (api_of (query_reply (snd kq))))"
    using arg_cong [OF eq, of "\<lambda>M. \<Sum>kq \<in># M. mset (api_of (query_reply (snd kq)))"]
    by (simp add: pending_def query_add_def hashmap_add_val_c_def union_commute)
  then show ?thesis by simp
qed

lemma pending_get_mut:
  assumes "query_get qc qid = Some q" "api_of (query_reply (h q)) = api_of (query_reply q)"
  shows "pending (query_get_mut qc qid h) = pending qc"
proof -
  have m: "map_of (qcache qc) qid = Some q"
    using assms(1) by (simp add: query_get_def hashmap_get_val_c_def)
  then have "(qid, q) \<in># mset (qcache qc)" by (simp add: map_of_SomeD)
  then have "mset (qcache qc) = add_mset (qid, q) (mset (qcache qc) - {#(qid, q)#})" by simp
  then have "pending qc = mset (api_of (query_reply q))
      + (\<Sum>kq \<in># mset (qcache qc) - {#(qid, q)#}. mset (api_of (query_reply (snd kq))))"
    unfolding pending_def by (metis (no_types, lifting) image_mset_add_mset snd_conv sum_mset.add_mset)
  with m assms(2) show ?thesis
    by (simp add: pending_def query_get_mut_def hashmap_get_val_mut_c_def mset_update_Some)
qed

lemma pending_remove:
  assumes "query_cache_ok qc" "query_get qc qid = Some q"
  shows "pending (fst (query_remove qid qc)) + mset (api_of (query_reply q)) = pending qc"
proof -
  have m: "map_of (qcache qc) qid = Some q"
    using assms(2) by (simp add: query_get_def hashmap_get_val_c_def)
  then have "(qid, q) \<in># mset (qcache qc)" by (simp add: map_of_SomeD)
  then have "mset (qcache qc) = add_mset (qid, q) (mset (qcache qc) - {#(qid, q)#})" by simp
  then have "pending qc = mset (api_of (query_reply q))
      + (\<Sum>kq \<in># mset (qcache qc) - {#(qid, q)#}. mset (api_of (query_reply (snd kq))))"
    unfolding pending_def by (metis (no_types, lifting) image_mset_add_mset snd_conv sum_mset.add_mset)
  with m assms(1) show ?thesis
    by (simp add: pending_def query_remove_def hashmap_remove_val_c_def mset_delete_Some
        query_cache_ok_def hashmap_ok_def union_commute)
qed

definition opt_ids :: "usize option \<Rightarrow> usize list" where
  "opt_ids oi = (case oi of Some i \<Rightarrow> [i] | None \<Rightarrow> [])"

lemma opt_ids_simps [simp]: "opt_ids None = []" "opt_ids (Some i) = [i]"
  by (simp_all add: opt_ids_def)

lemma snd_query_remove: "snd (query_remove qid qc) = query_get qc qid"
  by (simp add: query_remove_def query_get_def hashmap_remove_val_c_def hashmap_get_val_c_def Let_def)

text \<open>The equation an arm has to meet: answered and still waiting is what was waiting before.\<close>

definition conserves ::
    "('k, 'a, ('k, 'a) peer, 'v) query_cache \<Rightarrow> ('k, 'a, 'st, 'key, 'v, 'f, 'g) kv_result \<Rightarrow> bool" where
  "conserves qc res =
     (case res of
        Ok (st', qc', rep) \<Rightarrow>
          query_cache_ok qc' \<and> mset (api_replies rep) + pending qc' = pending qc
      | _ \<Rightarrow> True)"

lemma conserves_store_reply:
  assumes "query_cache_ok qc" shows "conserves qc (kv_store_reply qid st qc)"
proof (cases "query_get qc qid")
  case None
  then show ?thesis
    by (simp add: conserves_def kv_store_reply_def case_prod_beta snd_query_remove)
next
  case (Some q)
  with pending_remove [OF assms Some] qc.rem_invar [OF assms, of qid] show ?thesis
    by (cases "query_reply q")
      (simp_all add: conserves_def kv_store_reply_def case_prod_beta snd_query_remove union_commute)
qed

lemma conserves_not_found_reply:
  assumes "query_cache_ok qc" shows "conserves qc (kv_not_found_reply rl qid st qc)"
proof (cases "query_get qc qid")
  case None
  then show ?thesis
    by (simp add: conserves_def kv_not_found_reply_def case_prod_beta snd_query_remove)
next
  case (Some q)
  with pending_remove [OF assms Some] qc.rem_invar [OF assms, of qid] show ?thesis
    by (cases "query_reply q")
      (simp_all add: conserves_def kv_not_found_reply_def case_prod_beta snd_query_remove union_commute)
qed

lemma conserves_trans: "pending qc1 = pending qc \<Longrightarrow> conserves qc1 res \<Longrightarrow> conserves qc res"
  by (auto simp: conserves_def split: outcome.splits)

lemma conserves_quiet:
  "query_cache_ok qc1 \<Longrightarrow> pending qc1 = pending qc \<Longrightarrow> api_replies rep = [] \<Longrightarrow>
   conserves qc (Ok (st, qc1, rep))"
  by (simp add: conserves_def)

lemma conserves_store:
  assumes ok: "query_cache_ok qc" shows "conserves qc (kv_store_cmd ops rl qid vs st qc)"
proof (cases "query_get qc qid")
  case None
  with ok show ?thesis by (simp add: kv_store_cmd_def conserves_quiet)
next
  case (Some q)
  show ?thesis
  proof (cases "query_reply q")
    case (QLocal a n vres nnf qp)
    let ?q = "query_get_mut qc qid (\<lambda>q. q\<lparr>query_reply := QLocal a n (vres @ vs) nnf qp\<rparr>)"
    have p: "pending ?q = pending qc" using Some QLocal by (simp add: pending_get_mut)
    show ?thesis using Some QLocal ok
      by (auto simp: kv_store_cmd_def Let_def split: prod.splits
          intro!: conserves_trans [OF p conserves_store_reply] conserves_quiet [OF _ p]
          intro: conserves_quiet)
  next
    case (QDist m ow n vres nnf)
    let ?q = "query_get_mut qc qid (\<lambda>q. q\<lparr>query_reply := QDist m ow n (vres @ vs) nnf\<rparr>)"
    have p: "pending ?q = pending qc" using Some QDist by (simp add: pending_get_mut)
    show ?thesis using Some QDist ok
      by (auto simp: kv_store_cmd_def Let_def split: prod.splits
          intro!: conserves_trans [OF p conserves_store_reply] conserves_quiet [OF _ p]
          intro: conserves_quiet)
  qed
qed

lemma api_of_dec_not_found: "api_of (fst (dec_not_found r)) = api_of r"
  by (cases r) simp_all

lemma conserves_not_found:
  assumes ok: "query_cache_ok qc" shows "conserves qc (kv_not_found rl qid st qc)"
proof (cases "query_get qc qid")
  case None
  with ok show ?thesis by (simp add: kv_not_found_def conserves_quiet)
next
  case (Some q)
  let ?q = "query_get_mut qc qid (\<lambda>q'. q'\<lparr>query_reply := fst (dec_not_found (query_reply q))\<rparr>)"
  have p: "pending ?q = pending qc" using Some by (simp add: pending_get_mut api_of_dec_not_found)
  show ?thesis using Some ok
    by (auto simp: kv_not_found_def Let_def case_prod_beta
        intro!: conserves_trans [OF p conserves_not_found_reply] conserves_quiet [OF _ p])
qed

lemma api_replies_find_end: "mset (api_replies (kv_find_end rl q oval oa ow)) \<subseteq># mset (opt_ids oa)"
  by (auto simp: kv_find_end_def split: option.splits)

lemma new_id_Ok:
  "new_id ck r qc = Ok (qc', i) \<Longrightarrow> qcache qc' = qcache qc"
  by (auto simp: new_id_def and_then_eq_Ok split: if_splits)

lemma pending_cong: "qcache qc' = qcache qc \<Longrightarrow> pending qc' = pending qc"
  by (simp add: pending_def)

lemma query_cache_ok_cong: "qcache qc' = qcache qc \<Longrightarrow> query_cache_ok qc' = query_cache_ok qc"
  by (simp add: query_cache_ok_def)

lemma kv_register_pending:
  "pending (kv_register oa stq qid m ow q vres nnf ex qc) \<subseteq># pending qc + mset (opt_ids oa)"
  using pending_add [of qid "\<lparr>query_id = qid, query_reply = QDist m ow (nb_res q) vres nnf,
      query_expire = Some ex\<rparr>" qc]
    pending_add [of qid "\<lparr>query_id = qid, query_reply = QLocal (the oa) (nb_res q) vres nnf (prio q),
      query_expire = Some ex\<rparr>" qc]
  by (cases oa) (auto simp: kv_register_def)

lemma kv_register_ok: "query_cache_ok qc \<Longrightarrow> query_cache_ok (kv_register oa stq qid m ow q vres nnf ex qc)"
  by (simp add: kv_register_def qc.add_invar split: option.splits)

lemma api_replies_forward_out: "api_replies (kv_forward_out disc d m ow q key oval) = []"
  by (simp add: kv_forward_out_def Let_def split: option.splits)

text \<open>A forwarded query in normal form: what it is registered under and what is sent.\<close>

lemma kv_find_forward_Ok:
  assumes "kv_find_forward env rl me disc q key oval oa ow st qc = Ok (st', qc', rep)"
  obtains qc1 qid stq q' old nnf lt where
    "st' = st" "qcache qc1 = qcache qc"
    "to_next_hop (env_ck env) me qid (r_nbhop_dec rl) q = Ok (q', old)"
    "qc' = kv_register oa stq qid old ow q'
       (fst (kv_split_val (r_notfoundreply rl (get_mode (mode_info q'))) oval)) nnf (env_now env + lt) qc1"
    "rep = kv_forward_out disc (r_notfoundreply rl (get_mode (mode_info q'))) old ow q' key
       (snd (kv_split_val (r_notfoundreply rl (get_mode (mode_info q'))) oval))"
proof -
  from assms obtain qc1 qid stq where
    i: "(if oa \<noteq> None \<or> do_store_on_forward (mode_info q)
         then and_then (new_id (env_ck env) (env_rnd env) qc) (\<lambda>(qc, i). Ok (qc, i, True))
         else Ok (qc, get_query_id q, False)) = Ok (qc1, qid, stq)"
    by (auto simp: kv_find_forward_def and_then_eq_Ok)
  have c: "qcache qc1 = qcache qc"
    using i by (auto simp: and_then_eq_Ok dest: new_id_Ok split: if_splits prod.splits)
  with assms that show thesis unfolding kv_find_forward_def i
    by (auto simp: and_then_eq_Ok Let_def case_prod_beta)
qed

lemma kv_find_forward_pending:
  assumes ok: "query_cache_ok qc"
    and run: "kv_find_forward env rl me disc q key oval oa ow st qc = Ok (st', qc', rep)"
  shows "query_cache_ok qc' \<and> mset (api_replies rep) + pending qc' \<subseteq># pending qc + mset (opt_ids oa)"
proof -
  from run obtain qc1 qid stq q' old nnf lt vres where
    c: "qcache qc1 = qcache qc"
    and qc': "qc' = kv_register oa stq qid old ow q' vres nnf (env_now env + lt) qc1"
    and rep: "api_replies rep = []"
    by (elim kv_find_forward_Ok) (auto simp: api_replies_forward_out)
  have "query_cache_ok qc1" using ok query_cache_ok_cong [OF c] by simp
  moreover have "pending qc' \<subseteq># pending qc1 + mset (opt_ids oa)"
    unfolding qc' by (rule kv_register_pending)
  ultimately show ?thesis
    by (simp add: qc' rep kv_register_ok pending_cong [OF c, symmetric])
qed

text \<open>A \<open>Find\<close> that returns went through one of the two parts, with the counter adjusted.\<close>

lemma kv_find_Ok:
  assumes run: "kv_find env ops rl me disc q key oa ow st qc = Ok (st', qc', rep)"
  obtains (found) q1 where "rem_hop q1 = 0 \<or> nb_res q1 = 0" "rem_hop q1 = rem_hop q"
      "st' = st" "qc' = qc" "rep = kv_find_end rl q1 (so_get ops st key) oa ow"
  | (forward) q1 where "rem_hop q1 \<noteq> 0" "rem_hop q1 = rem_hop q"
      "kv_find_forward env rl me disc q1 key (so_get ops st key) oa ow st qc = Ok (st', qc', rep)"
proof -
  have ne: "\<not> ((oa \<noteq> None) = (ow \<noteq> None))"
  proof
    assume "(oa \<noteq> None) = (ow \<noteq> None)"
    from run [unfolded kv_find_def if_P [OF this]] show False by simp
  qed
  from run [unfolded kv_find_def if_not_P [OF ne] Let_def and_then_eq_Ok] obtain q1 where
    a: "(if so_get ops st key \<noteq> None
         then and_then (checked_sub (env_ck env) (nb_res q) 1) (\<lambda>n. Ok (q\<lparr>nb_res := n\<rparr>)) else Ok q) = Ok q1"
    and out: "(if rem_hop q1 = 0 \<or> nb_res q1 = 0
      then Ok (st, qc, kv_find_end rl q1 (so_get ops st key) oa ow)
      else kv_find_forward env rl me disc q1 key (so_get ops st key) oa ow st qc) = Ok (st', qc', rep)"
    by (elim exE conjE) (rule that)
  have r: "rem_hop q1 = rem_hop q" using a by (auto simp: and_then_eq_Ok split: if_splits)
  show thesis
  proof (cases "rem_hop q1 = 0 \<or> nb_res q1 = 0")
    case True
    from out [unfolded if_P [OF True]] show thesis by (intro found [OF True r]) auto
  next
    case False
    from out [unfolded if_not_P [OF False]] show thesis using False r by (intro forward) auto
  qed
qed

lemma kv_find_pending:
  assumes ok: "query_cache_ok qc"
    and run: "kv_find env ops rl me disc q key oa ow st qc = Ok (st', qc', rep)"
  shows "query_cache_ok qc' \<and> mset (api_replies rep) + pending qc' \<subseteq># pending qc + mset (opt_ids oa)"
  using run
proof (cases rule: kv_find_Ok)
  case (found q1)
  with ok api_replies_find_end [of rl q1 "so_get ops st key" oa ow] show ?thesis
    by (simp add: union_commute)
next
  case (forward q1)
  from forward(3) show ?thesis by (rule kv_find_forward_pending [OF ok])
qed

text \<open>
  One command: what it answers and what waits afterwards was waiting before or came with it.
  The commands that run a function of the caller are excepted, since that function may reply.
\<close>

fun runs_caller_fn :: "('k, 'a, 'key, 'v, 'f, 'g) kv_command \<Rightarrow> bool" where
  "runs_caller_fn (Subset _ _) = True"
| "runs_caller_fn (WithLocalValue _ _) = True"
| "runs_caller_fn _ = False"

lemma kv_exec_pending:
  assumes ok: "query_cache_ok qc" and c: "\<not> runs_caller_fn (get_inner_command req)"
    and run: "kv_exec env ops fs fg rl me disc req st qc = Ok (st', qc', rep)"
  shows "query_cache_ok qc'
       \<and> mset (api_replies rep) + pending qc'
           \<subseteq># pending qc + mset (opt_ids (kv_get_api_reply (get_inner_command req)))"
proof -
  obtain ow cmd where req: "(case req of GLocal r \<Rightarrow> (None, r) | GDistant ow r \<Rightarrow> (ow, r)) = (ow, cmd)"
    by fastforce
  then have inner: "get_inner_command req = cmd" by (cases req) auto
  show ?thesis
  proof (cases cmd)
    case (Find q key oa)
    with run req have "kv_find env ops rl me disc q key oa ow st qc = Ok (st', qc', rep)"
      by (simp add: kv_exec_def)
    with kv_find_pending [OF ok] Find inner show ?thesis by simp
  next
    case (Store qid vs)
    with run req have r: "kv_store_cmd ops rl qid vs st qc = Ok (st', qc', rep)"
      by (simp add: kv_exec_def)
    have "conserves qc (Ok (st', qc', rep))" unfolding r [symmetric] by (rule conserves_store [OF ok])
    then show ?thesis using Store inner by (simp add: conserves_def)
  next
    case (NotFound qid)
    with run req have r: "kv_not_found rl qid st qc = Ok (st', qc', rep)"
      by (simp add: kv_exec_def)
    have "conserves qc (Ok (st', qc', rep))" unfolding r [symmetric] by (rule conserves_not_found [OF ok])
    then show ?thesis using NotFound inner by (simp add: conserves_def)
  qed (use run req ok c in \<open>auto simp: kv_exec_def inner kv_store_locally_def and_then_eq_Ok
        Let_def split: prod.splits option.splits if_splits\<close>)
qed

section \<open>Sequences of commands\<close>

fun kv_run ::
    "('st, 'key, 'v) store_ops
      \<Rightarrow> ('f \<Rightarrow> 'v list \<Rightarrow> ('k, 'a, 'key, 'v, 'f, 'g) kv_out)
      \<Rightarrow> ('g \<Rightarrow> 'v option \<Rightarrow> ('k, 'a, 'key, 'v, 'f, 'g) kv_out) \<Rightarrow> rules \<Rightarrow> ('k, 'a) peer \<Rightarrow> bool
      \<Rightarrow> (env \<times> (('k, 'a) peer, ('k, 'a, 'key, 'v, 'f, 'g) kv_command) global_command) list
      \<Rightarrow> 'st \<Rightarrow> ('k, 'a, ('k, 'a) peer, 'v) query_cache
      \<Rightarrow> ('st \<times> ('k, 'a, ('k, 'a) peer, 'v) query_cache \<times> ('k, 'a, 'key, 'v, 'f, 'g) kv_out list) outcome" where
  "kv_run ops fs fg rl me disc [] st qc = Ok (st, qc, [])"
| "kv_run ops fs fg rl me disc ((env, req) # reqs) st qc =
     and_then (kv_exec env ops fs fg rl me disc req st qc) (\<lambda>(st1, qc1, rep).
     and_then (kv_run ops fs fg rl me disc reqs st1 qc1) (\<lambda>(st', qc', outs).
     Ok (st', qc', rep # outs)))"

lemma kv_run_append:
  "kv_run ops fs fg rl me disc (r1 @ r2) st qc
     = and_then (kv_run ops fs fg rl me disc r1 st qc) (\<lambda>(st1, qc1, o1).
       and_then (kv_run ops fs fg rl me disc r2 st1 qc1) (\<lambda>(st', qc', o2). Ok (st', qc', o1 @ o2)))"
proof (induction r1 arbitrary: st qc)
  case Nil
  then show ?case by (cases "kv_run ops fs fg rl me disc r2 st qc") auto
next
  case (Cons r r1)
  obtain env req where r: "r = (env, req)" by fastforce
  show ?case
  proof (cases "kv_exec env ops fs fg rl me disc req st qc")
    case (Ok x)
    then show ?thesis using Cons by (cases x) (simp add: r and_then_assoc case_prod_beta)
  qed (simp_all add: r)
qed

lemma kv_run_pending:
  assumes "query_cache_ok qc" "\<forall>er\<in>set reqs. \<not> runs_caller_fn (get_inner_command (snd er))"
    "kv_run ops fs fg rl me disc reqs st qc = Ok (st', qc', outs)"
  shows "mset (concat (map api_replies outs)) + pending qc'
       \<subseteq># pending qc + mset (concat (map (\<lambda>er. opt_ids (kv_get_api_reply (get_inner_command (snd er)))) reqs))"
  using assms
proof (induction reqs arbitrary: st qc outs)
  case (Cons r reqs)
  obtain env req where r: "r = (env, req)" by fastforce
  from Cons.prems(3) obtain st1 qc1 rep outs1 where
    e: "kv_exec env ops fs fg rl me disc req st qc = Ok (st1, qc1, rep)"
    and t: "kv_run ops fs fg rl me disc reqs st1 qc1 = Ok (st', qc', outs1)" "outs = rep # outs1"
    by (auto simp: r and_then_eq_Ok)
  have n: "\<not> runs_caller_fn (get_inner_command req)" using Cons.prems(2) by (simp add: r)
  note h = kv_exec_pending [OF Cons.prems(1) n e]
  have "mset (concat (map api_replies outs1)) + pending qc'
     \<subseteq># pending qc1 + mset (concat (map (\<lambda>er. opt_ids (kv_get_api_reply (get_inner_command (snd er)))) reqs))"
    using Cons.IH [of qc1 st1 outs1] Cons.prems(2) h t by simp
  then have "mset (api_replies rep) + (mset (concat (map api_replies outs1)) + pending qc')
     \<subseteq># (mset (api_replies rep) + pending qc1)
        + mset (concat (map (\<lambda>er. opt_ids (kv_get_api_reply (get_inner_command (snd er)))) reqs))"
    by (simp add: union_assoc)
  also have "\<dots> \<subseteq># (pending qc + mset (opt_ids (kv_get_api_reply (get_inner_command req))))
        + mset (concat (map (\<lambda>er. opt_ids (kv_get_api_reply (get_inner_command (snd er)))) reqs))"
    using h by (simp add: subset_mset.add_right_mono)
  finally show ?case by (simp add: t(2) r union_assoc)
qed simp

section \<open>Gathering results\<close>

lemma query_get_removed:
  assumes "query_cache_ok qc"
  shows "query_get (fst (query_remove qid qc)) qid = None"
  using qc.rem_get [OF assms] by simp

lemma kv_exec_store:
  "kv_exec env ops fs fg rl me disc (GDistant ow (Store qid vs)) st qc = kv_store_cmd ops rl qid vs st qc"
  by (simp add: kv_exec_def)

lemma store_local_more:
  assumes "query_get qc qid = Some q" "query_reply q = QLocal a n vres nnf qp"
    "unat n \<noteq> length (vres @ vs)"
  shows "\<exists>st'. kv_exec env ops fs fg rl me disc (GDistant ow (Store qid vs)) st qc
     = Ok (st', query_get_mut qc qid (\<lambda>q. q\<lparr>query_reply := QLocal a n (vres @ vs) nnf qp\<rparr>), NoRep)"
  using assms by (simp add: kv_exec_store kv_store_cmd_def Let_def case_prod_beta)

lemma store_local_done:
  assumes "query_cache_ok qc" "query_get qc qid = Some q" "query_reply q = QLocal a n vres nnf qp"
    "unat n = length (vres @ vs)"
  shows "\<exists>st' qc'. kv_exec env ops fs fg rl me disc (GDistant ow (Store qid vs)) st qc
         = Ok (st', qc', ApiRep (FoundApiMult (vres @ vs) a)) \<and> query_get qc' qid = None"
proof -
  let ?q = "query_get_mut qc qid (\<lambda>q. q\<lparr>query_reply := QLocal a n (vres @ vs) nnf qp\<rparr>)"
  have "query_get ?q qid = Some (q\<lparr>query_reply := QLocal a n (vres @ vs) nnf qp\<rparr>)"
    using assms(2) by (simp add: query_get_mut_get)
  moreover have "query_get (fst (query_remove qid ?q)) qid = None"
    using assms(1) by (simp add: query_get_removed)
  ultimately show ?thesis using assms
    by (simp add: kv_exec_store kv_store_cmd_def Let_def case_prod_beta kv_store_reply_def snd_query_remove)
qed

lemma gather_waits:
  assumes "query_cache_ok qc" "query_get qc qid = Some q" "query_reply q = QLocal a n vres nnf qp"
    "\<And>i. 0 < i \<Longrightarrow> i \<le> length vss \<Longrightarrow> unat n \<noteq> length (vres @ concat (take i vss))"
  shows "\<exists>st' qc'. kv_run ops fs fg rl me disc (map (\<lambda>vs. (env, GDistant ow (Store qid vs))) vss) st qc
       = Ok (st', qc', replicate (length vss) NoRep)
     \<and> query_cache_ok qc'
     \<and> query_get qc' qid = Some (q\<lparr>query_reply := QLocal a n (vres @ concat vss) nnf qp\<rparr>)"
  using assms
proof (induction vss arbitrary: qc q vres st)
  case Nil
  then have "q\<lparr>query_reply := QLocal a n vres nnf qp\<rparr> = q" by (cases q) simp
  with Nil show ?case by simp
next
  case (Cons vs vss)
  let ?q = "query_get_mut qc qid (\<lambda>q. q\<lparr>query_reply := QLocal a n (vres @ vs) nnf qp\<rparr>)"
  have "unat n \<noteq> length (vres @ vs)" using Cons.prems(4) [of 1] by simp
  from store_local_more [OF Cons.prems(2,3) this, of env ops fs fg rl me disc ow st] obtain st1 where
    s: "kv_exec env ops fs fg rl me disc (GDistant ow (Store qid vs)) st qc = Ok (st1, ?q, NoRep)"
    by blast
  have g: "query_get ?q qid = Some (q\<lparr>query_reply := QLocal a n (vres @ vs) nnf qp\<rparr>)"
    using Cons.prems(2) by (simp add: query_get_mut_get)
  have "unat n \<noteq> length ((vres @ vs) @ concat (take i vss))" if "0 < i" "i \<le> length vss" for i
    using Cons.prems(4) [of "Suc i"] that by simp
  from Cons.IH [OF _ g _ this, of st1] Cons.prems(1) obtain st' qc' where
    "kv_run ops fs fg rl me disc (map (\<lambda>vs. (env, GDistant ow (Store qid vs))) vss) st1 ?q
       = Ok (st', qc', replicate (length vss) NoRep)" "query_cache_ok qc'"
    "query_get qc' qid = Some (q\<lparr>query_reply := QLocal a n (vres @ vs @ concat vss) nnf qp\<rparr>)" by auto
  with s show ?case by simp
qed

lemma gather_completes:
  assumes "query_cache_ok qc" "query_get qc qid = Some q" "query_reply q = QLocal a n vres nnf qp"
    "\<And>i. 0 < i \<Longrightarrow> i \<le> length vss \<Longrightarrow> unat n \<noteq> length (vres @ concat (take i vss))"
    "unat n = length (vres @ concat (vss @ [vs]))"
  shows "\<exists>st' qc'. kv_run ops fs fg rl me disc
         (map (\<lambda>vs. (env, GDistant ow (Store qid vs))) (vss @ [vs])) st qc
       = Ok (st', qc', replicate (length vss) NoRep @ [ApiRep (FoundApiMult (vres @ concat (vss @ [vs])) a)])
     \<and> query_get qc' qid = None"
proof -
  from gather_waits [OF assms(1-4), of ops fs fg rl me disc env ow st] obtain st1 qc1 where
    w: "kv_run ops fs fg rl me disc (map (\<lambda>vs. (env, GDistant ow (Store qid vs))) vss) st qc
          = Ok (st1, qc1, replicate (length vss) NoRep)" "query_cache_ok qc1"
       "query_get qc1 qid = Some (q\<lparr>query_reply := QLocal a n (vres @ concat vss) nnf qp\<rparr>)" by blast
  from store_local_done [OF w(2,3), of a n "vres @ concat vss" nnf qp vs env ops fs fg rl me disc ow st1]
    assms(5) obtain st' qc' where
    "kv_exec env ops fs fg rl me disc (GDistant ow (Store qid vs)) st1 qc1
      = Ok (st', qc', ApiRep (FoundApiMult (vres @ concat vss @ vs) a))" "query_get qc' qid = None"
    by auto
  with w(1) show ?thesis by (simp add: kv_run_append)
qed

text \<open>Negative replies: the last one expected answers the api with what was gathered.\<close>

lemma kv_exec_not_found:
  "kv_exec env ops fs fg rl me disc (GDistant ow (NotFound qid)) st qc = kv_not_found rl qid st qc"
  by (simp add: kv_exec_def)

lemma not_found_countdown:
  assumes "query_cache_ok qc" "query_get qc qid = Some q" "query_reply q = QLocal a n vres nnf qp"
    "unat nnf = Suc k"
  shows "\<exists>qc'. kv_run ops fs fg rl me disc
         (replicate (Suc k) (env, GDistant ow (NotFound qid))) st qc
       = Ok (st, qc', replicate k NoRep @ [ApiRep (FoundApiMult vres a)])
     \<and> query_get qc' qid = None"
  using assms
proof (induction k arbitrary: qc q nnf)
  case 0
  let ?q = "query_get_mut qc qid (\<lambda>q. q\<lparr>query_reply := QLocal a n vres (nnf - 1) qp\<rparr>)"
  have nn: "nnf > 0" "nnf - 1 = 0"
    using 0(4) by (auto simp: word_gt_0 word_unat_eq_iff unat_minus_one)
  have "query_get ?q qid = Some (q\<lparr>query_reply := QLocal a n vres (nnf - 1) qp\<rparr>)"
    using 0(2) by (simp add: query_get_mut_get)
  moreover have "query_get (fst (query_remove qid ?q)) qid = None"
    using 0(1) by (simp add: query_get_removed)
  ultimately show ?case using 0 nn
    by (simp add: kv_exec_not_found kv_not_found_def kv_not_found_reply_def Let_def case_prod_beta
        snd_query_remove)
next
  case (Suc k)
  let ?q = "query_get_mut qc qid (\<lambda>q. q\<lparr>query_reply := QLocal a n vres (nnf - 1) qp\<rparr>)"
  have n0: "nnf \<noteq> 0" using Suc.prems(4) by auto
  then have nn: "nnf > 0" and k: "unat (nnf - 1) = Suc k"
    using Suc.prems(4) by (simp_all add: word_gt_0 unat_dec)
  then have nz: "nnf - 1 \<noteq> 0" by auto
  have g: "query_get ?q qid = Some (q\<lparr>query_reply := QLocal a n vres (nnf - 1) qp\<rparr>)"
    using Suc.prems(2) by (simp add: query_get_mut_get)
  have "kv_exec env ops fs fg rl me disc (GDistant ow (NotFound qid)) st qc = Ok (st, ?q, NoRep)"
    using Suc.prems(2,3) nn nz by (simp add: kv_exec_not_found kv_not_found_def)
  moreover from Suc.IH [OF _ g _ k] Suc.prems(1) obtain qc' where
    "kv_run ops fs fg rl me disc (replicate (Suc k) (env, GDistant ow (NotFound qid))) st ?q
       = Ok (st, qc', replicate k NoRep @ [ApiRep (FoundApiMult vres a)])" "query_get qc' qid = None"
    by auto
  ultimately show ?case by simp
qed

section \<open>Forwarded queries\<close>

fun forwarded :: "('k, 'a, 'f, 'g, 'c, 'r) global_reply \<Rightarrow> 'c list" where
  "forwarded (Forward _ _ _ c) = [c]"
| "forwarded (Mult rs) = concat (map forwarded rs)"
| "forwarded _ = []"

lemma forwarded_reply_to: "forwarded (reply_to m ow c) = [c (snd (snd (fwd_dests m ow)))]"
  by (simp add: reply_to_def case_prod_beta)

lemma no_find_in_end: "Find q' key' oa' \<notin> set (forwarded (kv_find_end rl q oval oa ow))"
  by (simp add: kv_find_end_def forwarded_reply_to split: option.splits)

lemma find_in_forward_out:
  "Find q1 key1 oa1 \<in> set (forwarded (kv_forward_out disc d m ow q key oval))
   \<Longrightarrow> q1 = q \<and> key1 = key \<and> oa1 = None"
  by (simp add: kv_forward_out_def Let_def forwarded_reply_to split: option.splits if_splits)

lemma to_next_hop_rem:
  assumes "to_next_hop ck p qid d q = Ok (q', old)"
  shows "rem_hop q' = rem_hop q - d"
  using assms by (auto simp: to_next_hop_def and_then_eq_Ok checked_sub_def Let_def
      split: if_splits prod.splits)

lemma find_forwards_fewer_hops:
  assumes "kv_find env ops rl me disc q key oa ow st qc = Ok (st', qc', rep)"
    and "Find q1 key1 oa1 \<in> set (forwarded rep)"
  shows "rem_hop q \<noteq> 0 \<and> rem_hop q1 = rem_hop q - r_nbhop_dec rl \<and> key1 = key \<and> oa1 = None"
  using assms(1)
proof (cases rule: kv_find_Ok)
  case (found qm)
  with assms(2) no_find_in_end show ?thesis by metis
next
  case (forward qm)
  from forward(3) show ?thesis
  proof (rule kv_find_forward_Ok)
    fix qid q' old dd and oval' :: "'e option"
    fix qc1 stq nnf lt
    assume h: "to_next_hop (env_ck env) me qid (r_nbhop_dec rl) qm = Ok (q', old)"
      and r: "rep = kv_forward_out disc (r_notfoundreply rl (get_mode (mode_info q'))) old ow q' key
         (snd (kv_split_val (r_notfoundreply rl (get_mode (mode_info q'))) (so_get ops st key)))"
    have "q1 = q' \<and> key1 = key \<and> oa1 = None"
      using find_in_forward_out assms(2) unfolding r by metis
    with to_next_hop_rem [OF h] forward(1,2) show ?thesis by simp
  qed
qed

section \<open>Values kept by the store\<close>

text \<open>A service over any store that meets the contract keeps the results of its own queries.\<close>

lemma kv_store_reply_store:
  "kv_store_reply qid st qc = Ok (st', qc', rep) \<Longrightarrow> st' = st"
  by (cases "query_get qc qid"; cases "query_reply (the (query_get qc qid))")
    (simp_all add: kv_store_reply_def case_prod_beta snd_query_remove)

context kv_store
begin

lemma results_stored:
  assumes "sinvar st" "so_add ops = sadd" "query_get qc qid = Some q"
    "query_reply q = QLocal a n vres nnf qp" "r_do_store rl True qp = (True, cp)"
    "kv_store_cmd ops rl qid vs st qc = Ok (st', qc', rep)"
  shows "sinvar st' \<and> (\<forall>v\<in>set vs. shas st' (skey v)) \<and> dom (sget st) \<subseteq> dom (sget st')"
proof -
  have "st' = foldl (\<lambda>s v. sadd v cp s) st vs"
    using assms(2-6)
    by (auto simp: kv_store_cmd_def Let_def dest: kv_store_reply_store split: if_splits)
  then show ?thesis using assms(1) by (auto simp: sinvar_fold shas_fold sget_fold)
qed

end

section \<open>Properties\<close>


text \<open>
  C5. A query of the api that waits for \<open>n\<close> results gets exactly one reply, with all results in
  the order of their arrival, when the batches received add up to exactly \<open>n\<close> for the first time
  with the last one; the earlier batches are kept without a reply and the query is then
  forgotten.
\<close>

theorem local_query_completes:
  assumes "query_cache_ok qc" "query_get qc qid = Some q" "query_reply q = QLocal a n vres nnf qp"
    "\<And>i. 0 < i \<Longrightarrow> i \<le> length vss \<Longrightarrow> unat n \<noteq> length (vres @ concat (take i vss))"
    "unat n = length (vres @ concat (vss @ [vs]))"
  shows "\<exists>st' qc'. kv_run ops fs fg rl me disc
         (map (\<lambda>vs. (env, GDistant ow (Store qid vs))) (vss @ [vs])) st qc
       = Ok (st', qc', replicate (length vss) NoRep @ [ApiRep (FoundApiMult (vres @ concat (vss @ [vs])) a)])
     \<and> query_get qc' qid = None"
  using assms by (rule gather_completes)


text \<open>
  C29. A query of the api that waits for \<open>k\<close> negative replies is answered, with the results
  gathered so far, by the \<open>k\<close>-th of them and by none before, and is then forgotten.
\<close>

theorem not_found_replies_complete:
  assumes "query_cache_ok qc" "query_get qc qid = Some q" "query_reply q = QLocal a n vres nnf qp"
    "unat nnf = Suc k"
  shows "\<exists>qc'. kv_run ops fs fg rl me disc
         (replicate (Suc k) (env, GDistant ow (NotFound qid))) st qc
       = Ok (st, qc', replicate k NoRep @ [ApiRep (FoundApiMult vres a)])
     \<and> query_get qc' qid = None"
  using assms by (rule not_found_countdown)

text \<open>
  C30. A \<open>Find\<close> command forwards the query only while hops remain, with the key unchanged, the
  identifier of the api removed and the hop counter lowered by the decrement of the rules; with
  the decrement one of \<open>SimpleRules\<close> the counter strictly decreases in both profiles, so a query
  propagates over at most as many peers in a row as its first counter.
\<close>

theorem find_propagation_terminates:
  assumes "kv_find env ops rl me disc q key oa ow st qc = Ok (st', qc', rep)"
    and "Find q1 key1 oa1 \<in> set (forwarded rep)"
  shows "rem_hop q1 = rem_hop q - r_nbhop_dec rl \<and> key1 = key \<and> oa1 = None
       \<and> (r_nbhop_dec rl = nbhop_dec \<longrightarrow> unat (rem_hop q1) < unat (rem_hop q))"
  using find_forwards_fewer_hops [OF assms]
  by (auto simp: nbhop_dec_def unat_dec unat_gt_0)

text \<open>
  The results of an own query are stored when the rules say so: after a batch of results,
  \<open>SimpleCache\<close> holds a value for the key of each of them, nothing it held is lost, and its
  invariant is kept.
\<close>

theorem own_results_are_stored:
  assumes "store_ok key_of st" "so_add ops = add_val key_of" "query_get qc qid = Some q"
    "query_reply q = QLocal a n vres nnf qp" "r_do_store rl True qp = (True, cp)"
    "kv_store_cmd ops rl qid vs st qc = Ok (st', qc', rep)"
  shows "store_ok key_of st' \<and> (\<forall>v\<in>set vs. has_val st' (key_of v))
       \<and> dom (get_val st) \<subseteq> dom (get_val st')"
  using assms by (rule sc.results_stored)


section \<open>Witnesses\<close>

text \<open>
  A small service for the instances: a \<open>SimpleCache\<close> of numbers that are their own keys, and
  rules that store the own results and answer negatively.
\<close>

definition demo_ops :: "((nat, nat) simple_cache, nat, nat) store_ops" where
  "demo_ops = \<lparr>so_add = add_val (\<lambda>v. v), so_get = get_val, so_next = (\<lambda>st n. Ok (Some [])),
     so_commit = (\<lambda>st. (st, Ok True))\<rparr>"

definition demo_rules :: rules where
  "demo_rules = \<lparr>r_do_store = (\<lambda>l p. (l, None)), r_notfoundreply = (\<lambda>m. True), r_nbhop_dec = nbhop_dec,
     r_lifetime = (\<lambda>p. Ok 15)\<rparr>"

definition demo_query :: "usize \<Rightarrow> usize \<Rightarrow> (nat, nat, (nat, nat) peer, nat) query" where
  "demo_query n nnf = \<lparr>query_id = 1, query_reply = QLocal 7 n [] nnf 1, query_expire = Some 15\<rparr>"

definition demo_cache :: "usize \<Rightarrow> usize \<Rightarrow> (nat, nat, (nat, nat) peer, nat) query_cache" where
  "demo_cache n nnf = \<lparr>qcache = [(1, demo_query n nnf)], randomids = False, lastid = 1\<rparr>"

definition demo_store :: "(nat, nat) simple_cache" where
  "demo_store = \<lparr>cache = [(5, 5)], persi = None\<rparr>"

definition demo_env :: env where
  "demo_env = \<lparr>env_ck = True, env_now = 0, env_rnd = 0\<rparr>"

definition demo_me :: "(nat, nat) peer" where
  "demo_me = \<lparr>get_key = 0, get_address = 0\<rparr>"

definition demo_fn :: "unit \<Rightarrow> 'x \<Rightarrow> (nat, nat, nat, nat, unit, unit) kv_out" where
  "demo_fn u x = NoRep"

lemmas demo_defs = demo_ops_def demo_rules_def demo_query_def demo_cache_def demo_store_def
  demo_env_def demo_me_def demo_fn_def

lemma demo_cache_ok: "query_cache_ok (demo_cache n nnf)"
  by (simp add: demo_defs query_cache_ok_def hashmap_ok_def)

lemma demo_cache_get: "query_get (demo_cache n nnf) 1 = Some (demo_query n nnf)"
  by (simp add: demo_defs query_get_def hashmap_get_val_c_def)

lemma demo_query_reply: "query_reply (demo_query n nnf) = QLocal 7 n [] nnf 1"
  by (simp add: demo_defs)


theorem local_query_completes_witness:
  "\<exists>st' qc'. kv_run demo_ops demo_fn demo_fn demo_rules demo_me True
       [(demo_env, GDistant None (Store 1 [10])), (demo_env, GDistant None (Store 1 [20, 30]))]
       demo_store (demo_cache 3 2)
     = Ok (st', qc', [NoRep, ApiRep (FoundApiMult [10, 20, 30] 7)]) \<and> query_get qc' 1 = None"
  using local_query_completes [OF demo_cache_ok demo_cache_get demo_query_reply, of "[[10]]" 3 "[20, 30]"
      demo_ops demo_fn demo_fn demo_rules demo_me True demo_env None demo_store 2]
  by (auto simp: take_Cons')


theorem not_found_replies_complete_witness:
  "\<exists>qc'. kv_run demo_ops demo_fn demo_fn demo_rules demo_me True
       [(demo_env, GDistant None (NotFound 1)), (demo_env, GDistant None (NotFound 1))]
       demo_store (demo_cache 3 2) = Ok (demo_store, qc', [NoRep, ApiRep (FoundApiMult [] 7)])
     \<and> query_get qc' 1 = None"
  using not_found_replies_complete [OF demo_cache_ok demo_cache_get demo_query_reply, of 2 1 demo_ops
      demo_fn demo_fn demo_rules demo_me True demo_env None demo_store 3]
  by auto

theorem own_results_are_stored_witness:
  "\<exists>st' qc' rep. kv_store_cmd demo_ops demo_rules 1 [10] demo_store (demo_cache 3 2)
       = (Ok (st', qc', rep) :: (nat, nat, (nat, nat) simple_cache, nat, nat, unit, unit) kv_result)
     \<and> has_val st' 10"
proof -
  have ok: "store_ok (\<lambda>v. v) demo_store" by (simp add: demo_defs store_ok_def hashmap_ok_def)
  have add: "so_add demo_ops = add_val (\<lambda>v. v)" by (simp add: demo_defs)
  have ds: "r_do_store demo_rules True 1 = (True, None)" by (simp add: demo_defs)
  obtain st' qc' and rep :: "(nat, nat, nat, nat, unit, unit) kv_out" where
    run: "kv_store_cmd demo_ops demo_rules 1 [10] demo_store (demo_cache 3 2) = Ok (st', qc', rep)"
    using demo_cache_get [of 3 2] demo_query_reply [of 3 2] by (simp add: kv_store_cmd_def ds)
  from own_results_are_stored [OF ok add demo_cache_get demo_query_reply ds run] run show ?thesis
    by auto
qed

section \<open>Branches of \<open>Find\<close>\<close>

text \<open>
  A \<open>Find\<close> whose value is in the store and that needs no other result (one result wanted,
  or no hop left) is answered at once and changes nothing: the api gets the value under its
  identifier, and a distant query gets it where its mode says, under the identifier of the
  requesting peer.
\<close>

theorem find_answered_from_store:
  assumes "so_get ops st key = Some v" "nb_res q \<noteq> 0" "nb_res q = 1 \<or> rem_hop q = 0"
  shows "kv_find env ops rl me disc q key (Some a) None st qc
           = Ok (st, qc, ApiRep (FoundApi (Some v) a))
       \<and> kv_find env ops rl me disc q key None (Some p) st qc
           = Ok (st, qc, case mode_info q of
               Asynch k ad qid \<Rightarrow> Forward None (Some [(Some k, Some ad)]) fw_reply (Store qid [v])
             | AProxy qid \<Rightarrow> Forward (Some [p]) None fw_reply (Store qid [v])
             | AMix _ qid \<Rightarrow> Forward (Some [p]) None fw_reply (Store qid [v]))"
proof -
  have "unat (1 :: usize) \<le> unat (nb_res q)" using assms(2) by (simp add: Suc_leI unat_gt_0)
  then have s: "checked_sub (env_ck env) (nb_res q) 1 = Ok (nb_res q - 1)" by simp
  have e: "rem_hop q = 0 \<or> nb_res q - 1 = 0" using assms(3) by auto
  show ?thesis using assms(1) s e
    by (auto simp: kv_find_def kv_find_end_def reply_to_def fwd_dests_def
        split: query_mode_msg.splits)
qed

theorem find_answered_from_store_witness:
  "kv_find demo_env demo_ops demo_rules demo_me True \<lparr>mode_info = AProxy 4, hop_hist = None,
      storage = StorageLocal, rem_hop = 3, nb_forw = 2, prio = 1, nb_res = 1\<rparr> 5 (Some 8) None
      demo_store (demo_cache 2 2)
   = (Ok (demo_store, demo_cache 2 2, ApiRep (FoundApi (Some 5) 8))
       :: (nat, nat, (nat, nat) simple_cache, nat, nat, unit, unit) kv_result)"
proof -
  have "so_get demo_ops demo_store 5 = Some 5" by (simp add: demo_defs get_val_cache)
  then show ?thesis by (rule find_answered_from_store [THEN conjunct1]) simp_all
qed

text \<open>
  A \<open>Find\<close> that wants no result at all, for a key the store knows: the decrement of the
  number of wanted results underflows, a panic with overflow checks.  Without them the counter
  wraps around to the largest number, and the query goes on as long as hops remain.
\<close>

theorem find_zero_results_underflows:
  assumes "so_get ops st key = Some v" "nb_res q = 0" "(oa \<noteq> None) \<noteq> (ow \<noteq> None)"
  shows "(env_ck env \<longrightarrow> kv_find env ops rl me disc q key oa ow st qc = Panic)
       \<and> (\<not> env_ck env \<and> rem_hop q \<noteq> 0 \<longrightarrow> kv_find env ops rl me disc q key oa ow st qc
            = kv_find_forward env rl me disc (q\<lparr>nb_res := - 1\<rparr>) key (Some v) oa ow st qc)"
  using assms by (cases oa; cases ow) (simp_all add: kv_find_def checked_sub_def unat_gt_0)

theorem find_zero_results_underflows_witness:
  "kv_find demo_env demo_ops demo_rules demo_me True \<lparr>mode_info = AProxy 4, hop_hist = None,
      storage = StorageLocal, rem_hop = 3, nb_forw = 2, prio = 1, nb_res = 0\<rparr> 5 (Some 8) None
      demo_store (demo_cache 2 2)
   = (Panic :: (nat, nat, (nat, nat) simple_cache, nat, nat, unit, unit) kv_result)"
proof -
  have "so_get demo_ops demo_store 5 = Some 5" by (simp add: demo_defs get_val_cache)
  then show ?thesis
    by (rule find_zero_results_underflows [THEN conjunct1, rule_format]) (simp_all add: demo_env_def)
qed

lemma kv_split_val_False [simp]: "kv_split_val False (Some v) = ([], Some v)"
  by (simp add: kv_split_val_def)

text \<open>
  With rules that send no negative replies, an api query that finds its value in the own
  store and still wants more results loses that value: the reply that carries it is addressed to
  no peer, the query is registered without it, and the api hears nothing.
\<close>

theorem api_find_loses_local_value:
  assumes "so_get ops st key = Some v" "\<And>m. \<not> r_notfoundreply rl m" "mode_info q = AProxy i"
    "rem_hop q \<noteq> 0" "nb_res q \<noteq> 0" "nb_res q \<noteq> 1" "query_cache_ok qc"
    "kv_find env ops rl me disc q key (Some a) None st qc = Ok (st', qc', rep)"
  shows "api_replies rep = []
    \<and> (\<exists>q'. rep = Mult [Forward None None fw_reply (Store i [v]),
         Forward None None \<lparr>nb_for = unat (nb_forw q'), discover = disc\<rparr> (Find q' key None)])
    \<and> (\<exists>qid n p ex. query_get qc' qid
         = Some \<lparr>query_id = qid, query_reply = QLocal a n [] 0 p, query_expire = ex\<rparr>)"
proof -
  have "unat (1 :: usize) \<le> unat (nb_res q)" using assms(5) by (simp add: Suc_leI unat_gt_0)
  then have s: "checked_sub (env_ck env) (nb_res q) 1 = Ok (nb_res q - 1)" by simp
  have nz: "nb_res q - 1 \<noteq> 0" using assms(6) by simp
  have run: "kv_find_forward env rl me disc (q\<lparr>nb_res := nb_res q - 1\<rparr>) key (Some v) (Some a) None st qc
      = Ok (st', qc', rep)"
    using assms(1,4,8) s nz by (simp add: kv_find_def)
  then obtain qc1 qid q' old lt stq where
    c: "qcache qc1 = qcache qc"
    and h: "to_next_hop (env_ck env) me qid (r_nbhop_dec rl) (q\<lparr>nb_res := nb_res q - 1\<rparr>) = Ok (q', old)"
    and qc': "qc' = kv_register (Some a) stq qid old None q' [] 0 (env_now env + lt) qc1"
    and rep: "rep = kv_forward_out disc False old None q' key (Some v)"
    using assms(2) by (auto simp: kv_find_forward_def and_then_eq_Ok Let_def dest: new_id_Ok)
  have "old = AProxy i"
    using h assms(3) by (auto simp: to_next_hop_def and_then_eq_Ok Let_def split: prod.splits)
  moreover have "query_get qc' qid = Some \<lparr>query_id = qid,
      query_reply = QLocal a (nb_res q') [] 0 (prio q'), query_expire = Some (env_now env + lt)\<rparr>"
    using assms(7) query_cache_ok_cong [OF c] by (simp add: qc' kv_register_def qc.add_same)
  ultimately show ?thesis
    by (auto simp: rep kv_forward_out_def reply_to_def fwd_dests_def)
qed

theorem api_find_loses_local_value_witness:
  "\<exists>st' qc' rep. kv_find demo_env demo_ops (demo_rules\<lparr>r_notfoundreply := \<lambda>_. False\<rparr>) demo_me True
      \<lparr>mode_info = AProxy 4, hop_hist = None, storage = StorageLocal, rem_hop = 3, nb_forw = 2,
        prio = 1, nb_res = 3\<rparr> 5 (Some 8) None demo_store (demo_cache 2 2)
      = (Ok (st', qc', rep) :: (nat, nat, (nat, nat) simple_cache, nat, nat, unit, unit) kv_result)
     \<and> api_replies rep = []"
proof -
  let ?q = "\<lparr>mode_info = AProxy 4, hop_hist = None, storage = StorageLocal, rem_hop = 3, nb_forw = 2,
        prio = 1, nb_res = 3\<rparr> :: (nat, nat) query_msg"
  let ?rl = "demo_rules\<lparr>r_notfoundreply := \<lambda>_. False\<rparr>"
  have g: "so_get demo_ops demo_store 5 = Some 5" by (simp add: demo_defs get_val_cache)
  have n: "\<not> r_notfoundreply ?rl m" for m by simp
  obtain st' qc' and rep :: "(nat, nat, nat, nat, unit, unit) kv_out" where
    run: "kv_find demo_env demo_ops ?rl demo_me True ?q 5 (Some 8) None demo_store (demo_cache 2 2)
       = Ok (st', qc', rep)"
    using g by (simp add: kv_find_def kv_find_forward_def new_id_def checked_add_def demo_cache_def
        demo_env_def to_next_hop_def nb_proxy_with_nb_res_def Let_def demo_rules_def nbhop_dec_def)
  from api_find_loses_local_value [OF g n _ _ _ _ demo_cache_ok run] run show ?thesis by auto
qed

theorem find_propagation_terminates_witness:
  "\<exists>q1 st' qc' rep. kv_find demo_env demo_ops demo_rules demo_me True
      \<lparr>mode_info = AProxy 4, hop_hist = None, storage = StorageLocal, rem_hop = 3, nb_forw = 1,
        prio = 1, nb_res = 1\<rparr> 6 (Some 8) None demo_store (demo_cache 2 2)
      = (Ok (st', qc', rep) :: (nat, nat, (nat, nat) simple_cache, nat, nat, unit, unit) kv_result)
     \<and> Find q1 6 None \<in> set (forwarded rep) \<and> unat (rem_hop q1) < 3"
proof -
  let ?q = "\<lparr>mode_info = AProxy 4, hop_hist = None, storage = StorageLocal, rem_hop = 3, nb_forw = 1,
        prio = 1, nb_res = 1\<rparr> :: (nat, nat) query_msg"
  have g: "so_get demo_ops demo_store 6 = None" by (simp add: demo_defs get_val_cache)
  obtain st' qc' q1 and rep :: "(nat, nat, nat, nat, unit, unit) kv_out" where
    run: "kv_find demo_env demo_ops demo_rules demo_me True ?q 6 (Some 8) None demo_store (demo_cache 2 2)
       = Ok (st', qc', rep)" "Find q1 6 None \<in> set (forwarded rep)"
    using g by (simp add: kv_find_def kv_find_forward_def new_id_def checked_add_def demo_cache_def
        demo_env_def to_next_hop_def nb_proxy_with_nb_res_def Let_def demo_rules_def nbhop_dec_def
        notfoundtreshold_def kv_split_val_def kv_forward_out_def)
  from find_propagation_terminates [OF run] run show ?thesis by (auto simp: demo_rules_def)
qed

end
