(* ===== verification/Procs.thy ===== *)
theory Procs
  imports Commands
begin

text \<open>
  The messages of the processes around the services (\<open>mydht/src/procs\<close>): commands of the write
  and read services, of the main loop, of the peer management and of the api, with the
  conversions that let them cross threads, and the state-passing of a service call.

  A type argument stands for an associated type of \<open>MyDHTConf\<close>: \<open>'p\<close> a peer reference, \<open>'c\<close> the
  global command, \<open>'mc\<close> an \<open>MCCommand\<close>, \<open>'pc\<close> a command on the peer store, \<open>'mr\<close> an
  \<open>MCReply\<close>, \<open>'ret\<close> an \<open>ApiReturn\<close>, \<open>'rs\<close> and \<open>'ws\<close> the streams of the transport.
\<close>

section \<open>Calls that update a state\<close>

text \<open>
  A call of a service returns a \<open>LoopResult\<close>: its error is \<open>EndService\<close>, \<open>Yield\<close> or an error of
  the crate.  The state reached is kept whatever the result.
\<close>

datatype loop_error = EndService | LoopYield | LoopErr error_kind

datatype 'a loop_result = LOk 'a | LErr loop_error | LPanic

fun of_outcome :: "'a outcome \<Rightarrow> 'a loop_result" where
  "of_outcome (Ok a) = LOk a"
| "of_outcome (Err e) = LErr (LoopErr e)"
| "of_outcome Panic = LPanic"

type_synonym ('s, 'a) act = "'s \<Rightarrow> 's \<times> 'a loop_result"

definition ret :: "'a \<Rightarrow> ('s, 'a) act" where
  "ret a s = (s, LOk a)"

definition fail :: "loop_error \<Rightarrow> ('s, 'a) act" where
  "fail e s = (s, LErr e)"

definition panic :: "('s, 'a) act" where
  "panic s = (s, LPanic)"

definition bind :: "('s, 'a) act \<Rightarrow> ('a \<Rightarrow> ('s, 'b) act) \<Rightarrow> ('s, 'b) act" where
  "bind m f s =
     (case m s of
        (s', LOk a) \<Rightarrow> f a s'
      | (s', LErr e) \<Rightarrow> (s', LErr e)
      | (s', LPanic) \<Rightarrow> (s', LPanic))"

definition modify :: "('s \<Rightarrow> 's) \<Rightarrow> ('s, unit) act" where
  "modify h s = (h s, LOk ())"

definition gets :: "('s \<Rightarrow> 'a) \<Rightarrow> ('s, 'a) act" where
  "gets h s = (s, LOk (h s))"

definition lift :: "'a outcome \<Rightarrow> ('s, 'a) act" where
  "lift r s = (s, of_outcome r)"

fun for_each :: "('x \<Rightarrow> ('s, unit) act) \<Rightarrow> 'x list \<Rightarrow> ('s, unit) act" where
  "for_each f [] = ret ()"
| "for_each f (x # xs) = bind (f x) (\<lambda>_. for_each f xs)"

named_theorems act_simps \<open>what the basic calls do to a state\<close>

lemma ret_apply [act_simps]: "ret a s = (s, LOk a)"
  by (simp add: ret_def)

lemma fail_apply [act_simps]: "fail e s = (s, LErr e)"
  by (simp add: fail_def)

lemma panic_apply [act_simps]: "panic s = (s, LPanic)"
  by (simp add: panic_def)

lemma modify_apply [act_simps]: "modify h s = (h s, LOk ())"
  by (simp add: modify_def)

lemma gets_apply [act_simps]: "gets h s = (s, LOk (h s))"
  by (simp add: gets_def)

lemma lift_apply [act_simps]:
  "lift (Ok a) s = (s, LOk a)" "lift (Err e) s = (s, LErr (LoopErr e))" "lift Panic s = (s, LPanic)"
  by (simp_all add: lift_def)

lemma bind_ok [act_simps]: "m s = (s', LOk a) \<Longrightarrow> bind m f s = f a s'"
  by (simp add: bind_def)

lemma bind_err [act_simps]: "m s = (s', LErr e) \<Longrightarrow> bind m f s = (s', LErr e)"
  by (simp add: bind_def)

lemma bind_panic [act_simps]: "m s = (s', LPanic) \<Longrightarrow> bind m f s = (s', LPanic)"
  by (simp add: bind_def)

lemma bind_ret [simp]: "bind (ret a) f = f a"
  by (rule ext) (simp add: bind_def ret_def)

lemma bind_eq_ok:
  "bind m f s = (s', LOk b) \<longleftrightarrow> (\<exists>s1 a. m s = (s1, LOk a) \<and> f a s1 = (s', LOk b))"
  by (auto simp: bind_def split: prod.splits loop_result.splits)

lemma bind_cases:
  assumes "bind m f s = (s', r)"
  obtains (ok) s1 a where "m s = (s1, LOk a)" "f a s1 = (s', r)"
  | (err) e where "m s = (s', LErr e)" "r = LErr e"
  | (panicked) "m s = (s', LPanic)" "r = LPanic"
  using assms by (auto simp: bind_def split: prod.splits loop_result.splits)

text \<open>
  A relation between states that every step of a call keeps, whatever the step returns, is kept
  by the call.
\<close>

definition keeps :: "('s \<Rightarrow> 's \<Rightarrow> bool) \<Rightarrow> ('s, 'a) act \<Rightarrow> bool" where
  "keeps R m = (\<forall>s. R s (fst (m s)))"

locale state_rel =
  fixes R :: "'s \<Rightarrow> 's \<Rightarrow> bool"
  assumes R_refl: "R s s"
    and R_trans: "R s t \<Longrightarrow> R t u \<Longrightarrow> R s u"
begin

lemma keeps_ret: "keeps R (ret a)"
  by (simp add: keeps_def ret_def R_refl)

lemma keeps_fail: "keeps R (fail e)"
  by (simp add: keeps_def fail_def R_refl)

lemma keeps_panic: "keeps R panic"
  by (simp add: keeps_def panic_def R_refl)

lemma keeps_gets: "keeps R (gets h)"
  by (simp add: keeps_def gets_def R_refl)

lemma keeps_lift: "keeps R (lift r)"
  by (simp add: keeps_def lift_def R_refl)

lemma keeps_modify: "(\<And>s. R s (h s)) \<Longrightarrow> keeps R (modify h)"
  by (simp add: keeps_def modify_def)

lemma keeps_bind:
  assumes "keeps R m" and "\<And>a. keeps R (f a)"
  shows "keeps R (bind m f)"
  unfolding keeps_def
proof
  fix s
  have m: "R s (fst (m s))" using assms(1) by (simp add: keeps_def)
  show "R s (fst (bind m f s))"
  proof (cases "m s")
    case (Pair s1 r)
    show ?thesis
    proof (cases r)
      case (LOk a)
      have "R s1 (fst (f a s1))" using assms(2) by (simp add: keeps_def)
      with m Pair LOk show ?thesis by (auto simp: bind_def intro: R_trans)
    qed (use m Pair in \<open>simp_all add: bind_def\<close>)
  qed
qed

lemma keeps_for_each: "(\<And>x. keeps R (f x)) \<Longrightarrow> keeps R (for_each f xs)"
  by (induction xs) (simp_all add: keeps_ret keeps_bind)

lemmas keeps_intros = keeps_ret keeps_fail keeps_panic keeps_gets keeps_lift keeps_modify
  keeps_bind keeps_for_each

end

lemma keepsD: "keeps R m \<Longrightarrow> m s = (t, r) \<Longrightarrow> R s t"
  by (auto simp: keeps_def dest: spec [of _ s])

lemma bind_lift_ok [simp]: "bind (lift (Ok a)) f = f a"
  by (rule ext) (simp add: bind_def lift_def)

lemma bind_lift_panic [simp]: "bind (lift Panic) f = panic"
  by (rule ext) (simp add: bind_def lift_def panic_def)

lemma bind_assoc: "bind (bind m f) g = bind m (\<lambda>a. bind (f a) g)"
  by (rule ext) (auto simp: bind_def split: prod.splits loop_result.splits)

section \<open>Messages\<close>

datatype shadow_auth_type = NoAuth | Public | Private

datatype 'p proto_message =
    PING 'p bytes bytes
  | PONG 'p bytes bytes "bytes option"

datatype ('p, 'mc) write_command =
    WPing bytes
  | WPong 'p bytes usize "bytes option"
  | WService 'mc

fun w_get_api_reply :: "('mc \<Rightarrow> usize option) \<Rightarrow> ('p, 'mc) write_command \<Rightarrow> usize option" where
  "w_get_api_reply g (WService lsc) = g lsc"
| "w_get_api_reply g _ = None"

datatype 'p peer_status_command =
    PeerOnline 'p peer_priority
  | PeerOffline 'p peer_priority
  | PeerQuery "'p option"

datatype ('k, 'a, 'p, 'c, 'mc, 'pc, 'mr, 'ret, 'rs, 'ws) main_loop_command =
    MLStart
  | MLSubCommand "('k, 'a) main_loop_sub_command"
  | MLTryConnect 'a "usize option"
  | MLTrustedTryConnect 'p "usize option"
  | MLForwardService "'p list option" "('k, 'a) dests" fw_conf 'mc
  | MLForwardServiceOnce "'k option" "'a option" fw_conf 'c
  | MLForwardApi 'mc nat 'ret
  | MLPeerStore "('p, 'pc) global_command"
  | MLRejectReadSpawn usize
  | MLRejectPeer 'k "usize option" "usize option"
  | MLNewPeerChallenge 'p usize bytes
  | MLNewPeerUncheckedChallenge 'p peer_priority usize bytes "bytes option"
  | MLNewPeer 'p peer_priority "usize option"
  | MLProxyWrite usize "('p, 'mc) write_command"
  | MLProxyGlobal "('p, 'c) global_command"
  | MLProxyApiReply 'mr
  | MLConnectedR 'rs "'ws option"
  | MLConnectedW usize 'ws "'rs option"
  | MLFailConnect usize

datatype 'mr main_loop_reply = MLRServiceReply 'mr | MLREnded

datatype ('p, 'mlc) peermgmt_command = PMAccept 'p 'mlc | PMNewPrio 'p peer_priority

datatype ('p, 'c, 'mc, 'mlc) read_reply =
    RRGlobal "('p, 'c) global_command"
  | RRMainLoop 'mlc
  | RRPeerMgmt "('p, 'mlc) peermgmt_command"
  | RRWrite "('p, 'mc) write_command"
  | RRNewPeer 'p peer_priority usize bytes
  | RRNoReply

datatype ('rr, 'lr) local_reply = LRRead 'rr | LRApi 'lr

datatype ('mlc, 'mc, 'mr, 'ret) api_command =
    ApiMainLoop 'mlc
  | ApiFailure usize
  | ApiServiceCommand 'mc nat 'ret
  | ApiServiceReply 'mr
  | ApiAdjust usize nat

datatype ('mlc, 'lr, 'gr) api_reply =
    ApiDone
  | ApiProxyMainloop 'mlc
  | ApiLocalServiceReply 'lr
  | ApiGlobalServiceReply 'gr

datatype 'mr api_result = ResServiceReply 'mr | ResNoResult

section \<open>Sendable forms\<close>

text \<open>
  \<open>SRef\<close> and \<open>SToRef\<close> of the composed messages, over those of their parts.  The streams of a
  connection cannot cross a thread: those arms are \<open>unreachable!()\<close>.
\<close>

fun mc_get_sendable ::
    "('l \<Rightarrow> 'l2) \<Rightarrow> ('c \<Rightarrow> 'c2) \<Rightarrow> ('s \<Rightarrow> 's2) \<Rightarrow> ('l, 'c, 's, 'a) mc_command \<Rightarrow> ('l2, 'c2, 's2, 'a) mc_command" where
  "mc_get_sendable l g s (MCLocal a) = MCLocal (l a)"
| "mc_get_sendable l g s (MCGlobal a) = MCGlobal (g a)"
| "mc_get_sendable l g s (MCPeerStore a) = MCPeerStore (s a)"
| "mc_get_sendable l g s (MCTryConnect a i) = MCTryConnect a i"

fun mc_to_ref ::
    "('l2 \<Rightarrow> 'l) \<Rightarrow> ('c2 \<Rightarrow> 'c) \<Rightarrow> ('s2 \<Rightarrow> 's) \<Rightarrow> ('l2, 'c2, 's2, 'a) mc_command \<Rightarrow> ('l, 'c, 's, 'a) mc_command" where
  "mc_to_ref l g s (MCLocal a) = MCLocal (l a)"
| "mc_to_ref l g s (MCGlobal a) = MCGlobal (g a)"
| "mc_to_ref l g s (MCPeerStore a) = MCPeerStore (s a)"
| "mc_to_ref l g s (MCTryConnect a i) = MCTryConnect a i"

fun mc_reply_get_sendable ::
    "('l \<Rightarrow> 'l2) \<Rightarrow> ('r \<Rightarrow> 'r2) \<Rightarrow> ('s \<Rightarrow> 's2) \<Rightarrow> ('l, 'r, 's) mc_reply \<Rightarrow> ('l2, 'r2, 's2) mc_reply" where
  "mc_reply_get_sendable l g s (MRLocal a) = MRLocal (l a)"
| "mc_reply_get_sendable l g s (MRGlobal a) = MRGlobal (g a)"
| "mc_reply_get_sendable l g s (MRPeerStore a) = MRPeerStore (s a)"
| "mc_reply_get_sendable l g s (MRDone a) = MRDone a"

fun mc_reply_to_ref ::
    "('l2 \<Rightarrow> 'l) \<Rightarrow> ('r2 \<Rightarrow> 'r) \<Rightarrow> ('s2 \<Rightarrow> 's) \<Rightarrow> ('l2, 'r2, 's2) mc_reply \<Rightarrow> ('l, 'r, 's) mc_reply" where
  "mc_reply_to_ref l g s (MRLocal a) = MRLocal (l a)"
| "mc_reply_to_ref l g s (MRGlobal a) = MRGlobal (g a)"
| "mc_reply_to_ref l g s (MRPeerStore a) = MRPeerStore (s a)"
| "mc_reply_to_ref l g s (MRDone a) = MRDone a"

fun gc_get_sendable ::
    "('p \<Rightarrow> 'q) \<Rightarrow> ('c \<Rightarrow> 'd) \<Rightarrow> ('p, 'c) global_command \<Rightarrow> ('q, 'd) global_command" where
  "gc_get_sendable p c (GLocal gsc) = GLocal (c gsc)"
| "gc_get_sendable p c (GDistant opr gsc) = GDistant (map_option p opr) (c gsc)"

fun gc_to_ref ::
    "('q \<Rightarrow> 'p) \<Rightarrow> ('d \<Rightarrow> 'c) \<Rightarrow> ('q, 'd) global_command \<Rightarrow> ('p, 'c) global_command" where
  "gc_to_ref p c (GLocal gsc) = GLocal (c gsc)"
| "gc_to_ref p c (GDistant opr gsc) = GDistant (map_option p opr) (c gsc)"

fun ps_get_sendable :: "('p \<Rightarrow> 'q) \<Rightarrow> 'p peer_status_command \<Rightarrow> 'q peer_status_command" where
  "ps_get_sendable g (PeerOnline p pp) = PeerOnline (g p) pp"
| "ps_get_sendable g (PeerOffline p pp) = PeerOffline (g p) pp"
| "ps_get_sendable g (PeerQuery op1) = PeerQuery (map_option g op1)"

fun ps_to_ref :: "('q \<Rightarrow> 'p) \<Rightarrow> 'q peer_status_command \<Rightarrow> 'p peer_status_command" where
  "ps_to_ref g (PeerOnline p pp) = PeerOnline (g p) pp"
| "ps_to_ref g (PeerOffline p pp) = PeerOffline (g p) pp"
| "ps_to_ref g (PeerQuery op1) = PeerQuery (map_option g op1)"

fun w_get_sendable ::
    "('p \<Rightarrow> 'q) \<Rightarrow> ('mc \<Rightarrow> 'md) \<Rightarrow> ('p, 'mc) write_command \<Rightarrow> ('q, 'md) write_command" where
  "w_get_sendable p m (WPing chal) = WPing chal"
| "w_get_sendable p m (WPong pr v s v2) = WPong (p pr) v s v2"
| "w_get_sendable p m (WService c) = WService (m c)"

fun w_to_ref ::
    "('q \<Rightarrow> 'p) \<Rightarrow> ('md \<Rightarrow> 'mc) \<Rightarrow> ('q, 'md) write_command \<Rightarrow> ('p, 'mc) write_command" where
  "w_to_ref p m (WPing chal) = WPing chal"
| "w_to_ref p m (WPong pr v s v2) = WPong (p pr) v s v2"
| "w_to_ref p m (WService c) = WService (m c)"

text \<open>The conversions of the parts of a main loop command, and those back.\<close>

record ('p, 'q, 'c, 'd, 'mc, 'md, 'pc, 'pd, 'mr, 'ms) parts_conv =
  cv_p :: "'p \<Rightarrow> 'q"
  cv_c :: "'c \<Rightarrow> 'd"
  cv_mc :: "'mc \<Rightarrow> 'md"
  cv_pc :: "'pc \<Rightarrow> 'pd"
  cv_mr :: "'mr \<Rightarrow> 'ms"

fun ml_get_sendable ::
    "('p, 'q, 'c, 'd, 'mc, 'md, 'pc, 'pd, 'mr, 'ms) parts_conv
     \<Rightarrow> ('k, 'a, 'p, 'c, 'mc, 'pc, 'mr, 'ret, 'rs, 'ws) main_loop_command
     \<Rightarrow> ('k, 'a, 'q, 'd, 'md, 'pd, 'ms, 'ret, 'rs, 'ws) main_loop_command outcome" where
  "ml_get_sendable cv MLStart = Ok MLStart"
| "ml_get_sendable cv (MLSubCommand sc) = Ok (MLSubCommand sc)"
| "ml_get_sendable cv (MLTryConnect a aid) = Ok (MLTryConnect a aid)"
| "ml_get_sendable cv (MLTrustedTryConnect p aid) = Ok (MLTrustedTryConnect (cv_p cv p) aid)"
| "ml_get_sendable cv (MLForwardService ovp okad nbf c) =
     Ok (MLForwardService (map_option (map (cv_p cv)) ovp) okad nbf (cv_mc cv c))"
| "ml_get_sendable cv (MLForwardServiceOnce ok oad nbf c) = Ok (MLForwardServiceOnce ok oad nbf (cv_c cv c))"
| "ml_get_sendable cv (MLForwardApi gc nbf r) = Ok (MLForwardApi (cv_mc cv gc) nbf r)"
| "ml_get_sendable cv (MLPeerStore cmd) = Ok (MLPeerStore (gc_get_sendable (cv_p cv) (cv_pc cv) cmd))"
| "ml_get_sendable cv (MLRejectReadSpawn s) = Ok (MLRejectReadSpawn s)"
| "ml_get_sendable cv (MLRejectPeer k os os2) = Ok (MLRejectPeer k os os2)"
| "ml_get_sendable cv (MLNewPeer rp pp os) = Ok (MLNewPeer (cv_p cv rp) pp os)"
| "ml_get_sendable cv (MLNewPeerChallenge rp rtok chal) = Ok (MLNewPeerChallenge (cv_p cv rp) rtok chal)"
| "ml_get_sendable cv (MLNewPeerUncheckedChallenge rp pp rtok chal nextchal) =
     Ok (MLNewPeerUncheckedChallenge (cv_p cv rp) pp rtok chal nextchal)"
| "ml_get_sendable cv (MLProxyWrite rt rcs) = Ok (MLProxyWrite rt (w_get_sendable (cv_p cv) (cv_mc cv) rcs))"
| "ml_get_sendable cv (MLProxyGlobal rcs) = Ok (MLProxyGlobal (gc_get_sendable (cv_p cv) (cv_c cv) rcs))"
| "ml_get_sendable cv (MLProxyApiReply rcs) = Ok (MLProxyApiReply (cv_mr cv rcs))"
| "ml_get_sendable cv (MLConnectedR _ _) = Panic"
| "ml_get_sendable cv (MLConnectedW _ _ _) = Panic"
| "ml_get_sendable cv (MLFailConnect i) = Ok (MLFailConnect i)"

fun ml_to_ref ::
    "('q, 'p, 'd, 'c, 'md, 'mc, 'pd, 'pc, 'ms, 'mr) parts_conv
     \<Rightarrow> ('k, 'a, 'q, 'd, 'md, 'pd, 'ms, 'ret, 'rs, 'ws) main_loop_command
     \<Rightarrow> ('k, 'a, 'p, 'c, 'mc, 'pc, 'mr, 'ret, 'rs, 'ws) main_loop_command outcome" where
  "ml_to_ref cv MLStart = Ok MLStart"
| "ml_to_ref cv (MLSubCommand sc) = Ok (MLSubCommand sc)"
| "ml_to_ref cv (MLTryConnect a aid) = Ok (MLTryConnect a aid)"
| "ml_to_ref cv (MLTrustedTryConnect p aid) = Ok (MLTrustedTryConnect (cv_p cv p) aid)"
| "ml_to_ref cv (MLForwardService ovp okad nbf c) =
     Ok (MLForwardService (map_option (map (cv_p cv)) ovp) okad nbf (cv_mc cv c))"
| "ml_to_ref cv (MLForwardServiceOnce ok oad nbf c) = Ok (MLForwardServiceOnce ok oad nbf (cv_c cv c))"
| "ml_to_ref cv (MLForwardApi a nbf r) = Ok (MLForwardApi (cv_mc cv a) nbf r)"
| "ml_to_ref cv (MLPeerStore cmd) = Ok (MLPeerStore (gc_to_ref (cv_p cv) (cv_pc cv) cmd))"
| "ml_to_ref cv (MLRejectReadSpawn s) = Ok (MLRejectReadSpawn s)"
| "ml_to_ref cv (MLRejectPeer k os os2) = Ok (MLRejectPeer k os os2)"
| "ml_to_ref cv (MLNewPeer rp pp os) = Ok (MLNewPeer (cv_p cv rp) pp os)"
| "ml_to_ref cv (MLNewPeerChallenge rp rtok chal) = Ok (MLNewPeerChallenge (cv_p cv rp) rtok chal)"
| "ml_to_ref cv (MLNewPeerUncheckedChallenge rp pp rtok chal nchal) =
     Ok (MLNewPeerUncheckedChallenge (cv_p cv rp) pp rtok chal nchal)"
| "ml_to_ref cv (MLProxyWrite rt rcs) = Ok (MLProxyWrite rt (w_to_ref (cv_p cv) (cv_mc cv) rcs))"
| "ml_to_ref cv (MLProxyGlobal rcs) = Ok (MLProxyGlobal (gc_to_ref (cv_p cv) (cv_c cv) rcs))"
| "ml_to_ref cv (MLProxyApiReply rcs) = Ok (MLProxyApiReply (cv_mr cv rcs))"
| "ml_to_ref cv (MLConnectedR _ _) = Panic"
| "ml_to_ref cv (MLConnectedW _ _ _) = Panic"
| "ml_to_ref cv (MLFailConnect i) = Ok (MLFailConnect i)"

fun pm_get_sendable ::
    "('p \<Rightarrow> 'q) \<Rightarrow> ('mlc \<Rightarrow> 'mld outcome) \<Rightarrow> ('p, 'mlc) peermgmt_command \<Rightarrow> ('q, 'mld) peermgmt_command outcome" where
  "pm_get_sendable p m (PMAccept pr com) = and_then (m com) (\<lambda>c. Ok (PMAccept (p pr) c))"
| "pm_get_sendable p m (PMNewPrio pr pp) = Ok (PMNewPrio (p pr) pp)"

fun pm_to_ref ::
    "('q \<Rightarrow> 'p) \<Rightarrow> ('mld \<Rightarrow> 'mlc outcome) \<Rightarrow> ('q, 'mld) peermgmt_command \<Rightarrow> ('p, 'mlc) peermgmt_command outcome" where
  "pm_to_ref p m (PMAccept pr com) = and_then (m com) (\<lambda>c. Ok (PMAccept (p pr) c))"
| "pm_to_ref p m (PMNewPrio pr pp) = Ok (PMNewPrio (p pr) pp)"

fun api_get_sendable ::
    "('mlc \<Rightarrow> 'mld outcome) \<Rightarrow> ('mc \<Rightarrow> 'md) \<Rightarrow> ('mr \<Rightarrow> 'ms)
      \<Rightarrow> ('mlc, 'mc, 'mr, 'ret) api_command \<Rightarrow> ('mld, 'md, 'ms, 'ret) api_command outcome" where
  "api_get_sendable ml mc mr (ApiMainLoop mlc) = and_then (ml mlc) (\<lambda>c. Ok (ApiMainLoop c))"
| "api_get_sendable ml mc mr (ApiFailure aqid) = Ok (ApiFailure aqid)"
| "api_get_sendable ml mc mr (ApiServiceCommand com s aret) = Ok (ApiServiceCommand (mc com) s aret)"
| "api_get_sendable ml mc mr (ApiServiceReply rep) = Ok (ApiServiceReply (mr rep))"
| "api_get_sendable ml mc mr (ApiAdjust aqid s) = Ok (ApiAdjust aqid s)"

fun api_to_ref ::
    "('mld \<Rightarrow> 'mlc outcome) \<Rightarrow> ('md \<Rightarrow> 'mc) \<Rightarrow> ('ms \<Rightarrow> 'mr)
      \<Rightarrow> ('mld, 'md, 'ms, 'ret) api_command \<Rightarrow> ('mlc, 'mc, 'mr, 'ret) api_command outcome" where
  "api_to_ref ml mc mr (ApiMainLoop mlc) = and_then (ml mlc) (\<lambda>c. Ok (ApiMainLoop c))"
| "api_to_ref ml mc mr (ApiFailure aqid) = Ok (ApiFailure aqid)"
| "api_to_ref ml mc mr (ApiServiceCommand com s aret) = Ok (ApiServiceCommand (mc com) s aret)"
| "api_to_ref ml mc mr (ApiServiceReply rep) = Ok (ApiServiceReply (mr rep))"
| "api_to_ref ml mc mr (ApiAdjust aqid s) = Ok (ApiAdjust aqid s)"

section \<open>Round trips\<close>

text \<open>The conversions of all parts can be undone.\<close>

definition conv_inverse ::
    "('p, 'q, 'c, 'd, 'mc, 'md, 'pc, 'pd, 'mr, 'ms) parts_conv
     \<Rightarrow> ('q, 'p, 'd, 'c, 'md, 'mc, 'pd, 'pc, 'ms, 'mr) parts_conv \<Rightarrow> bool" where
  "conv_inverse cv cv' =
     ((\<forall>p. cv_p cv' (cv_p cv p) = p) \<and> (\<forall>c. cv_c cv' (cv_c cv c) = c)
      \<and> (\<forall>m. cv_mc cv' (cv_mc cv m) = m) \<and> (\<forall>c. cv_pc cv' (cv_pc cv c) = c)
      \<and> (\<forall>r. cv_mr cv' (cv_mr cv r) = r))"

fun ml_has_stream :: "('k, 'a, 'p, 'c, 'mc, 'pc, 'mr, 'ret, 'rs, 'ws) main_loop_command \<Rightarrow> bool" where
  "ml_has_stream (MLConnectedR _ _) = True"
| "ml_has_stream (MLConnectedW _ _ _) = True"
| "ml_has_stream _ = False"

lemma mc_sendable_to_ref [simp]:
  "(\<And>a. l2 (l a) = a) \<Longrightarrow> (\<And>a. g2 (g a) = a) \<Longrightarrow> (\<And>a. s2 (s a) = a)
   \<Longrightarrow> mc_to_ref l2 g2 s2 (mc_get_sendable l g s c) = c"
  by (cases c) simp_all

lemma mc_reply_sendable_to_ref [simp]:
  "(\<And>a. l2 (l a) = a) \<Longrightarrow> (\<And>a. g2 (g a) = a) \<Longrightarrow> (\<And>a. s2 (s a) = a)
   \<Longrightarrow> mc_reply_to_ref l2 g2 s2 (mc_reply_get_sendable l g s c) = c"
  by (cases c) simp_all

lemma map_option_inverse [simp]: "(\<And>a. p2 (p a) = a) \<Longrightarrow> map_option p2 (map_option p x) = x"
  by (cases x) simp_all

lemma map_inverse: "(\<And>a. p2 (p a) = a) \<Longrightarrow> map p2 (map p xs) = xs"
  by (induction xs) simp_all

lemma gc_sendable_to_ref [simp]:
  "(\<And>a. p2 (p a) = a) \<Longrightarrow> (\<And>a. c2 (c a) = a) \<Longrightarrow> gc_to_ref p2 c2 (gc_get_sendable p c x) = x"
  by (cases x) simp_all

lemma ps_sendable_to_ref: "(\<And>a. p2 (p a) = a) \<Longrightarrow> ps_to_ref p2 (ps_get_sendable p x) = x"
  by (cases x) simp_all

lemma w_sendable_to_ref [simp]:
  "(\<And>a. p2 (p a) = a) \<Longrightarrow> (\<And>a. m2 (m a) = a) \<Longrightarrow> w_to_ref p2 m2 (w_get_sendable p m x) = x"
  by (cases x) simp_all

lemma map_option_map_inverse [simp]:
  "(\<And>a. p2 (p a) = a) \<Longrightarrow> map_option (map p2) (map_option (map p) x) = x"
  by (cases x) (simp_all add: map_inverse del: map_map)

lemma ml_sendable_to_ref:
  assumes "conv_inverse cv cv'"
  shows "and_then (ml_get_sendable cv c) (ml_to_ref cv') = (if ml_has_stream c then Panic else Ok c)"
  using assms by (cases c) (simp_all add: conv_inverse_def del: map_map option.map_comp)

section \<open>Properties\<close>

text \<open>
  An api command handed to another thread in its sendable form and turned back there is the
  same command, whatever it carries, provided that peers, commands and replies themselves
  survive the crossing; the only commands that cannot cross are those that carry the stream of
  a connection, and they panic.
\<close>

theorem api_command_crosses_threads:
  assumes "conv_inverse cv cv'"
  shows "and_then (api_get_sendable (ml_get_sendable cv) (cv_mc cv) (cv_mr cv) c)
                  (api_to_ref (ml_to_ref cv') (cv_mc cv') (cv_mr cv'))
         = (case c of ApiMainLoop m \<Rightarrow> if ml_has_stream m then Panic else Ok c | _ \<Rightarrow> Ok c)"
proof (cases c)
  case (ApiMainLoop m)
  show ?thesis
    using ml_sendable_to_ref [OF assms, of m] ApiMainLoop
    by (cases "ml_get_sendable cv m") (simp_all split: if_splits)
qed (use assms in \<open>simp_all add: conv_inverse_def\<close>)

theorem api_command_crosses_threads_witness:
  "let cv = \<lparr>cv_p = Suc, cv_c = Suc, cv_mc = mc_get_sendable Suc Suc Suc, cv_pc = Suc,
             cv_mr = mc_reply_get_sendable Suc Suc Suc\<rparr>;
       cv' = \<lparr>cv_p = \<lambda>n. n - 1, cv_c = \<lambda>n. n - 1,
              cv_mc = mc_to_ref (\<lambda>n. n - 1) (\<lambda>n. n - 1) (\<lambda>n. n - 1), cv_pc = \<lambda>n. n - 1,
              cv_mr = mc_reply_to_ref (\<lambda>n. n - 1) (\<lambda>n. n - 1) (\<lambda>n. n - 1)\<rparr>;
       c = ApiMainLoop (MLForwardService (Some [4, 5 :: nat]) (Some [(Some 7, None :: nat option)])
             \<lparr>nb_for = 2, discover = True\<rparr> (MCGlobal 9 :: (nat, nat, nat, nat) mc_command)
             :: (nat, nat, nat, nat, (nat, nat, nat, nat) mc_command, nat, (nat, nat, nat) mc_reply, unit, nat, nat) main_loop_command)
   in api_get_sendable (ml_get_sendable cv) (cv_mc cv) (cv_mr cv) c \<noteq> Ok c
      \<and> and_then (api_get_sendable (ml_get_sendable cv) (cv_mc cv) (cv_mr cv) c)
                 (api_to_ref (ml_to_ref cv') (cv_mc cv') (cv_mr cv')) = Ok c"
  unfolding Let_def
  by (subst api_command_crosses_threads) (simp_all add: conv_inverse_def)

end
