(* ===== verification/Writeservice.thy ===== *)
theory Writeservice
  imports Procs "HOL-Library.Sublist"
begin

text \<open>
  The write service of a connection (\<open>mydht/src/procs/client2.rs\<close>, built without the
  \<open>restartable\<close> feature).  The stream is the list of the writes completed on it; each is done
  through a shadower, named by the peer and the role it was built for, whose own state is a
  function of what was written with it.  The encoder, the transport and the signature are
  arguments: a write fails when \<open>w_io\<close> says so.
\<close>

section \<open>State\<close>

datatype 'p shadower_w = ShadWAuth 'p | ShadWMsg 'p

datatype ('p, 'm, 'att) wop =
    WHeader "'p shadower_w"
  | WProto "'p shadower_w" "'p proto_message"
  | WMsg "'p shadower_w" 'm
  | WAttach "'p shadower_w" 'att
  | WEnd "'p shadower_w"
  | WFlush "'p shadower_w"

text \<open>\<open>WriteServiceInner\<close>; the head of \<open>buff_msgs\<close> is the front of the \<open>VecDeque\<close>.\<close>

record ('p, 'mc, 'm, 'att) write_service =
  wstream :: "('p, 'm, 'att) wop list"
  wfrom :: 'p
  wwith :: "'p option"
  wtoken :: usize
  wread_token :: "usize option"
  wshad_msg :: "'p shadower_w option"
  wshut_after_first :: bool
  wbuff_msgs :: "'mc list"

record ('p, 'mc, 'm, 'att) write_env =
  w_auth_mode :: shadow_auth_type
  w_io :: "('p, 'm, 'att) wop list \<Rightarrow> ('p, 'm, 'att) wop \<Rightarrow> error_kind option"
  w_signmsg :: "'p \<Rightarrow> bytes \<Rightarrow> bytes"
  w_attachment :: "'p \<Rightarrow> 'att option"
  w_can_into :: "'mc \<Rightarrow> bool"
  w_opt_into :: "'mc \<Rightarrow> 'm option"
  w_nb_attachments :: "'m \<Rightarrow> nat"
  w_attachments :: "'m \<Rightarrow> 'att list"

type_synonym ('p, 'mc, 'm, 'att, 'r) wact = "(('p, 'mc, 'm, 'att) write_service, 'r) act"

section \<open>Operations\<close>

definition write_service_new ::
    "usize \<Rightarrow> 'p \<Rightarrow> 'p option \<Rightarrow> bool \<Rightarrow> ('p, 'mc, 'm, 'att) write_service" where
  "write_service_new tok me with1 shut =
     \<lparr>wstream = [], wfrom = me, wwith = with1, wtoken = tok, wread_token = None, wshad_msg = None,
      wshut_after_first = shut, wbuff_msgs = []\<rparr>"

definition put ::
    "('p, 'mc, 'm, 'att) write_env \<Rightarrow> ('p, 'm, 'att) wop \<Rightarrow> ('p, 'mc, 'm, 'att, unit) wact" where
  "put env w s =
     (case w_io env (wstream s) w of
        None \<Rightarrow> (s\<lparr>wstream := wstream s @ [w]\<rparr>, LOk ())
      | Some e \<Rightarrow> (s, LErr (LoopErr e)))"

definition get_shad_auth ::
    "('p, 'mc, 'm, 'att) write_env \<Rightarrow> 'p \<Rightarrow> 'p option \<Rightarrow> 'p shadower_w outcome" where
  "get_shad_auth env from with1 =
     (case w_auth_mode env of
        NoAuth \<Rightarrow> Panic
      | Public \<Rightarrow> Ok (ShadWAuth from)
      | Private \<Rightarrow> (case with1 of Some w \<Rightarrow> Ok (ShadWAuth w) | None \<Rightarrow> Panic))"

text \<open>The message of the handshake, in a frame of the authentication shadower.\<close>

definition put_auth ::
    "('p, 'mc, 'm, 'att) write_env \<Rightarrow> 'p proto_message \<Rightarrow> ('p, 'mc, 'm, 'att, unit) wact" where
  "put_auth env pmess =
     bind (gets (\<lambda>s. s)) (\<lambda>s.
     bind (lift (get_shad_auth env (wfrom s) (wwith s))) (\<lambda>shad.
     bind (put env (WHeader shad)) (\<lambda>_.
     bind (put env (WProto shad pmess)) (\<lambda>_.
     bind (case w_attachment env (wfrom s) of
             Some att \<Rightarrow> put env (WAttach shad att)
           | None \<Rightarrow> ret ()) (\<lambda>_.
     bind (put env (WEnd shad)) (\<lambda>_.
     put env (WFlush shad)))))))"

definition get_shad_msg ::
    "('p, 'mc, 'm, 'att) write_env \<Rightarrow> ('p, 'mc, 'm, 'att, 'p shadower_w) wact" where
  "get_shad_msg env s =
     (case wshad_msg s of
        Some shad \<Rightarrow> (s, LOk shad)
      | None \<Rightarrow>
          (case (if w_auth_mode env = NoAuth then Some (ShadWMsg (wfrom s)) else map_option ShadWMsg (wwith s)) of
             Some shad \<Rightarrow> (s\<lparr>wshad_msg := Some shad\<rparr>, LOk shad)
           | None \<Rightarrow> (s, LErr (LoopErr (Bug ''route return slab may contain write ref of non initialized (connected), a route impl issue'')))))"

definition forward_proto ::
    "('p, 'mc, 'm, 'att) write_env \<Rightarrow> 'mc \<Rightarrow> ('p, 'mc, 'm, 'att, unit) wact" where
  "forward_proto env command =
     (if w_can_into env command then
        bind (get_shad_msg env) (\<lambda>shad.
        bind (put env (WHeader shad)) (\<lambda>_.
        bind (lift (unwrap (w_opt_into env command))) (\<lambda>pmess.
        bind (put env (WMsg shad pmess)) (\<lambda>_.
        bind (if 0 < w_nb_attachments env pmess
              then for_each (\<lambda>att. put env (WAttach shad att)) (w_attachments env pmess)
              else ret ()) (\<lambda>_.
        bind (put env (WEnd shad)) (\<lambda>_.
        put env (WFlush shad)))))))
      else ret ())"

text \<open>What a step of the service may change: it writes more and may pick the message shadower.\<close>

definition wstep ::
    "('p, 'mc, 'm, 'att) write_service \<Rightarrow> ('p, 'mc, 'm, 'att) write_service \<Rightarrow> bool" where
  "wstep s t \<longleftrightarrow>
     (\<exists>ws. wstream t = wstream s @ ws) \<and> wfrom t = wfrom s \<and> wwith t = wwith s
     \<and> wread_token t = wread_token s \<and> wbuff_msgs t = wbuff_msgs s
     \<and> wshut_after_first t = wshut_after_first s \<and> wtoken t = wtoken s"

interpretation wst: state_rel wstep
  by unfold_locales (auto simp: wstep_def)

lemma keeps_put: "keeps wstep (put env w)"
  by (auto simp: keeps_def put_def wstep_def split: option.splits)

lemma keeps_get_shad_msg: "keeps wstep (get_shad_msg env)"
  by (auto simp: keeps_def get_shad_msg_def wstep_def split: option.splits)

lemma keeps_forward_proto: "keeps wstep (forward_proto env c)"
  unfolding forward_proto_def
  by (auto intro!: wst.keeps_intros keeps_put keeps_get_shad_msg)

lemma keeps_put_auth: "keeps wstep (put_auth env m)"
  unfolding put_auth_def
  by (auto intro!: wst.keeps_intros keeps_put split: option.splits)

lemma forward_proto_step: "forward_proto env c s = (t, r) \<Longrightarrow> wstep s t"
  using keeps_forward_proto [of env c] by (auto simp: keeps_def dest: spec [of _ s])

text \<open>\<open>while let Some(command) = self.buff_msgs.pop_back()\<close>.\<close>

function debuff_msgs ::
    "('p, 'mc, 'm, 'att) write_env \<Rightarrow> ('p, 'mc, 'm, 'att) write_service
      \<Rightarrow> ('p, 'mc, 'm, 'att) write_service \<times> unit loop_result" where
  "debuff_msgs env s =
     (if wbuff_msgs s = [] then (s, LOk ())
      else (case forward_proto env (last (wbuff_msgs s)) (s\<lparr>wbuff_msgs := butlast (wbuff_msgs s)\<rparr>) of
              (s', LOk _) \<Rightarrow> debuff_msgs env s'
            | (s', LErr e) \<Rightarrow> (s', LErr e)
            | (s', LPanic) \<Rightarrow> (s', LPanic)))"
  by pat_completeness auto
termination
  by (relation "measure (\<lambda>(env, s). length (wbuff_msgs s))")
     (auto dest!: forward_proto_step [OF sym] simp: wstep_def)

declare debuff_msgs.simps [simp del]

definition pong_inner ::
    "('p, 'mc, 'm, 'att) write_env \<Rightarrow> bytes option \<Rightarrow> bytes option \<Rightarrow> ('p, 'mc, 'm, 'att, unit) wact" where
  "pong_inner env chal option_chal2 =
     bind (gets wfrom) (\<lambda>from.
     bind (lift (unwrap chal)) (\<lambda>ch.
     bind (put_auth env (PONG from ch (w_signmsg env from ch) option_chal2)) (\<lambda>_.
     debuff_msgs env)))"

definition pong ::
    "('p, 'mc, 'm, 'att) write_env \<Rightarrow> 'p \<Rightarrow> bytes \<Rightarrow> usize \<Rightarrow> bytes option
      \<Rightarrow> ('p, 'mc, 'm, 'att, unit) wact" where
  "pong env rp chal read_token option_chal2 =
     bind (modify (\<lambda>s. s\<lparr>wread_token := Some read_token, wwith := Some rp\<rparr>)) (\<lambda>_.
     pong_inner env (Some chal) option_chal2)"

definition ping :: "('p, 'mc, 'm, 'att) write_env \<Rightarrow> bytes \<Rightarrow> ('p, 'mc, 'm, 'att, unit) wact" where
  "ping env chal =
     bind (gets wfrom) (\<lambda>from. put_auth env (PING from chal (w_signmsg env from chal)))"

definition service :: "('p, 'mc, 'm, 'att) write_env \<Rightarrow> 'mc \<Rightarrow> ('p, 'mc, 'm, 'att, unit) wact" where
  "service env command s =
     (if w_auth_mode env \<noteq> NoAuth \<and> wwith s = None
      then (s\<lparr>wbuff_msgs := command # wbuff_msgs s\<rparr>, LOk ())
      else bind (debuff_msgs env) (\<lambda>_.
           bind (forward_proto env command) (\<lambda>_.
           bind (gets wshut_after_first) (\<lambda>shut.
           if shut then fail EndService else ret ()))) s)"

text \<open>The reply of the service is always \<open>NoRep\<close>.\<close>

fun write_call ::
    "('p, 'mc, 'm, 'att) write_env \<Rightarrow> ('p, 'mc) write_command \<Rightarrow> ('p, 'mc, 'm, 'att, unit) wact" where
  "write_call env (WPong rp chal read_token option_chal2) = pong env rp chal read_token option_chal2"
| "write_call env (WPing chal) = ping env chal"
| "write_call env (WService command) = service env command"

text \<open>A spawned service handles its commands in turn and stops at the first error.\<close>

definition write_run ::
    "('p, 'mc, 'm, 'att) write_env \<Rightarrow> ('p, 'mc) write_command list \<Rightarrow> ('p, 'mc, 'm, 'att, unit) wact" where
  "write_run env cs = for_each (write_call env) cs"

section \<open>Messages on the stream\<close>

definition wop_msg :: "('p, 'm, 'att) wop \<Rightarrow> 'm option" where
  "wop_msg w = (case w of WMsg _ m \<Rightarrow> Some m | _ \<Rightarrow> None)"

definition sent :: "('p, 'mc, 'm, 'att) write_service \<Rightarrow> 'm list" where
  "sent s = List.map_filter wop_msg (wstream s)"

text \<open>The messages of a list of commands; a command without a message is not sent.\<close>

definition msgs :: "('p, 'mc, 'm, 'att) write_env \<Rightarrow> 'mc list \<Rightarrow> 'm list" where
  "msgs env = List.map_filter (\<lambda>c. if w_can_into env c then w_opt_into env c else None)"

fun service_commands :: "('p, 'mc) write_command list \<Rightarrow> 'mc list" where
  "service_commands [] = []"
| "service_commands (WService c # cs) = c # service_commands cs"
| "service_commands (_ # cs) = service_commands cs"

text \<open>The buffered messages, oldest first.\<close>

definition pending :: "('p, 'mc, 'm, 'att) write_env \<Rightarrow> ('p, 'mc, 'm, 'att) write_service \<Rightarrow> 'm list" where
  "pending env s = msgs env (rev (wbuff_msgs s))"

lemma map_filter_append: "List.map_filter f (xs @ ys) = List.map_filter f xs @ List.map_filter f ys"
  by (induction xs) (auto simp: map_filter_simps split: option.splits)

lemma msgs_simps [simp]:
  "msgs env [] = []"
  "msgs env (xs @ ys) = msgs env xs @ msgs env ys"
  by (simp_all add: msgs_def map_filter_append map_filter_simps)

lemma msgs_Cons: "msgs env (c # cs) = msgs env [c] @ msgs env cs"
  by (simp add: msgs_def map_filter_simps split: option.splits)

lemma service_commands_Cons:
  "service_commands (c # cs) = (case c of WService m \<Rightarrow> [m] | _ \<Rightarrow> []) @ service_commands cs"
  by (cases c) simp_all

text \<open>Steps that write no message.\<close>

definition wquiet ::
    "('p, 'mc, 'm, 'att) write_service \<Rightarrow> ('p, 'mc, 'm, 'att) write_service \<Rightarrow> bool" where
  "wquiet s t \<longleftrightarrow> wstep s t \<and> sent t = sent s"

interpretation wq: state_rel wquiet
  by unfold_locales (auto simp: wquiet_def wst.R_refl intro: wst.R_trans)

lemma put_quiet: "wop_msg w = None \<Longrightarrow> keeps wquiet (put env w)"
  by (auto simp: keeps_def put_def wquiet_def wstep_def sent_def map_filter_append map_filter_simps
           split: option.splits)

lemma get_shad_msg_quiet: "keeps wquiet (get_shad_msg env)"
  by (auto simp: keeps_def get_shad_msg_def wquiet_def wstep_def sent_def split: option.splits)

lemma put_auth_quiet: "keeps wquiet (put_auth env m)"
  unfolding put_auth_def
  by (auto intro!: wq.keeps_intros put_quiet simp: wop_msg_def split: option.splits)


text \<open>
  The effect of a call on the messages of the stream: it writes the messages \<open>ms\<close> in order, or
  only the first of them when it fails.
\<close>

definition emitted ::
    "('p, 'mc, 'm, 'att) write_service \<Rightarrow> ('p, 'mc, 'm, 'att) write_service \<times> 'r loop_result
      \<Rightarrow> 'm list \<Rightarrow> bool" where
  "emitted s tr ms \<longleftrightarrow>
     prefix (sent (fst tr)) (sent s @ ms) \<and> ((\<exists>a. snd tr = LOk a) \<longrightarrow> sent (fst tr) = sent s @ ms)"

lemma emitted_quiet: "keeps wquiet m \<Longrightarrow> emitted s (m s) []"
  by (simp add: emitted_def keeps_def wquiet_def)

lemma emitted_bind:
  assumes "emitted s (m s) xs" and "\<And>s1 a. m s = (s1, LOk a) \<Longrightarrow> emitted s1 (f a s1) ys"
  shows "emitted s (bind m f s) (xs @ ys)"
proof (cases "m s")
  case (Pair s1 r)
  show ?thesis
  proof (cases r)
    case (LOk a)
    with assms Pair have "sent s1 = sent s @ xs" and "emitted s1 (f a s1) ys"
      by (auto simp: emitted_def)
    then show ?thesis using Pair LOk by (simp add: emitted_def bind_def)
  next
    case (LErr e)
    from assms(1) Pair have "prefix (sent s1) (sent s @ xs @ ys)"
      by (metis append_assoc emitted_def fst_conv prefix_prefix)
    with Pair LErr show ?thesis by (simp add: emitted_def bind_def)
  next
    case LPanic
    from assms(1) Pair have "prefix (sent s1) (sent s @ xs @ ys)"
      by (metis append_assoc emitted_def fst_conv prefix_prefix)
    with Pair LPanic show ?thesis by (simp add: emitted_def bind_def)
  qed
qed

lemma emitted_bind_quiet:
  "keeps wquiet m \<Longrightarrow> (\<And>s1 a. m s = (s1, LOk a) \<Longrightarrow> emitted s1 (f a s1) ys) \<Longrightarrow> emitted s (bind m f s) ys"
  using emitted_bind [where xs = "[]" and ys = ys] emitted_quiet by (metis append_Nil)

lemma emitted_put_msg: "emitted s (put env (WMsg shad m) s) [m]"
  by (auto simp: emitted_def put_def sent_def map_filter_append map_filter_simps wop_msg_def
           split: option.splits)

lemma emitted_panic: "emitted s (panic s) ms"
  by (simp add: emitted_def panic_def)

lemma emitted_forward_proto: "emitted s (forward_proto env c s) (msgs env [c])"
proof (cases "w_can_into env c")
  case False
  then show ?thesis
    by (simp add: forward_proto_def msgs_def map_filter_simps emitted_quiet wq.keeps_ret)
next
  case True
  show ?thesis
    unfolding forward_proto_def if_P [OF True]
  proof (rule emitted_bind_quiet [OF get_shad_msg_quiet], rule emitted_bind_quiet)
    fix shad s2
    show "emitted s2 (bind (lift (unwrap (w_opt_into env c))) (\<lambda>pmess.
            bind (put env (WMsg shad pmess)) (\<lambda>_.
            bind (if 0 < w_nb_attachments env pmess
                  then for_each (\<lambda>att. put env (WAttach shad att)) (w_attachments env pmess) else ret ()) (\<lambda>_.
            bind (put env (WEnd shad)) (\<lambda>_. put env (WFlush shad))))) s2) (msgs env [c])"
    proof (cases "w_opt_into env c")
      case None
      then show ?thesis by (simp add: emitted_panic)
    next
      case (Some m)
      with True have "msgs env [c] = [m] @ []" by (simp add: msgs_def map_filter_simps)
      moreover have "keeps wquiet (bind (if 0 < w_nb_attachments env m
            then for_each (\<lambda>att. put env (WAttach shad att)) (w_attachments env m) else ret ()) (\<lambda>_.
            bind (put env (WEnd shad)) (\<lambda>_. put env (WFlush shad))))"
        by (auto intro!: wq.keeps_intros put_quiet simp: wop_msg_def)
      ultimately show ?thesis
        using Some by (simp only: unwrap_simps bind_lift_ok)
          (intro emitted_bind emitted_put_msg emitted_quiet)
    qed
  qed (simp add: put_quiet wop_msg_def)
qed

text \<open>Emptying the buffer writes the buffered messages, oldest first.\<close>

lemma debuff_msgs_emitted:
  "emitted s (debuff_msgs env s) (pending env s)
   \<and> (debuff_msgs env s = (t, LOk ()) \<longrightarrow> wbuff_msgs t = [])"
proof (induction env s rule: debuff_msgs.induct)
  case (1 env s)
  show ?case
  proof (cases "wbuff_msgs s = []")
    case True
    then show ?thesis
      by (auto simp add: debuff_msgs.simps [of env s] emitted_def pending_def)
  next
    case False
    let ?c = "last (wbuff_msgs s)" and ?s = "s\<lparr>wbuff_msgs := butlast (wbuff_msgs s)\<rparr>"
    have split: "pending env s = msgs env [?c] @ pending env ?s"
    proof -
      have "rev (wbuff_msgs s) = [?c] @ rev (butlast (wbuff_msgs s))"
        using False by (metis append_butlast_last_id rev_append rev_singleton_conv)
      then show ?thesis by (simp only: pending_def msgs_simps) simp
    qed
    have eq: "debuff_msgs env s = bind (forward_proto env ?c) (\<lambda>_. debuff_msgs env) ?s"
      using False by (subst debuff_msgs.simps) (simp add: bind_def)
    have rest: "emitted s1 (debuff_msgs env s1) (pending env ?s)
        \<and> (debuff_msgs env s1 = (t, LOk ()) \<longrightarrow> wbuff_msgs t = [])"
      if "forward_proto env ?c ?s = (s1, LOk u)" for s1 u
    proof -
      have "wbuff_msgs s1 = butlast (wbuff_msgs s)"
        using forward_proto_step [OF that] by (simp add: wstep_def)
      then show ?thesis
        using 1 [OF False that [symmetric] refl] by (simp add: pending_def)
    qed
    have "emitted ?s (bind (forward_proto env ?c) (\<lambda>_. debuff_msgs env) ?s) (msgs env [?c] @ pending env ?s)"
      by (rule emitted_bind [OF emitted_forward_proto]) (use rest in blast)
    moreover have "sent ?s = sent s" by (simp add: sent_def)
    ultimately have "emitted s (debuff_msgs env s) (pending env s)"
      unfolding eq split by (simp add: emitted_def)
    moreover have "wbuff_msgs t = []" if "debuff_msgs env s = (t, LOk ())"
      using that [unfolded eq bind_eq_ok] rest by blast
    ultimately show ?thesis by blast
  qed
qed

text \<open>
  Accounting of a call: what it writes and what it leaves in the buffer are, in order, what was
  in the buffer and what it was asked to send; a failing call writes a first part of it.
\<close>

definition accounted ::
    "('p, 'mc, 'm, 'att) write_env \<Rightarrow> ('p, 'mc, 'm, 'att) write_service
      \<Rightarrow> ('p, 'mc, 'm, 'att) write_service \<times> 'r loop_result \<Rightarrow> 'm list \<Rightarrow> bool" where
  "accounted env s tr ms \<longleftrightarrow>
     prefix (sent (fst tr)) (sent s @ pending env s @ ms)
     \<and> ((\<exists>a. snd tr = LOk a) \<longrightarrow> sent (fst tr) @ pending env (fst tr) = sent s @ pending env s @ ms)"

lemma debuff_msgs_cases:
  obtains (ok) t where "debuff_msgs env s = (t, LOk ())" "wbuff_msgs t = []"
      "sent t = sent s @ pending env s"
  | (other) t r where "debuff_msgs env s = (t, r)" "\<forall>a. r \<noteq> LOk a"
      "prefix (sent t) (sent s @ pending env s)"
proof (cases "debuff_msgs env s")
  case (Pair t r)
  note em = debuff_msgs_emitted [of s env t, THEN conjunct1] debuff_msgs_emitted [of s env t, THEN conjunct2]
  show ?thesis
  proof (cases "\<exists>a. r = LOk a")
    case True
    then have "r = LOk ()" by auto
    with Pair em ok show ?thesis by (auto simp: emitted_def)
  next
    case False
    with Pair em other show ?thesis by (auto simp: emitted_def)
  qed
qed

lemma accounted_debuff_then:
  assumes "keeps wquiet m"
  shows "accounted env s (bind (debuff_msgs env) (\<lambda>_. bind (forward_proto env c) (\<lambda>_. m)) s) (msgs env [c])"
proof (cases rule: debuff_msgs_cases [of env s])
  case (ok t)
  let ?r = "bind (forward_proto env c) (\<lambda>_. m) t"
  have em: "emitted t ?r (msgs env [c] @ [])"
    by (intro emitted_bind emitted_forward_proto emitted_quiet assms)
  have buf: "wbuff_msgs (fst ?r) = []"
  proof -
    have "keeps wstep m" using assms by (simp add: keeps_def wquiet_def)
    then have "keeps wstep (bind (forward_proto env c) (\<lambda>_. m))"
      by (intro wst.keeps_bind keeps_forward_proto)
    then show ?thesis using ok(2) by (simp add: keeps_def wstep_def)
  qed
  with em buf ok show ?thesis by (simp add: accounted_def bind_def emitted_def pending_def)
next
  case (other t r)
  then have "prefix (sent t) (sent s @ pending env s @ msgs env [c])"
    by (metis append_assoc prefix_prefix)
  with other show ?thesis by (cases r) (auto simp: accounted_def bind_def)
qed

lemma accounted_service: "accounted env s (service env c s) (msgs env [c])"
proof (cases "w_auth_mode env \<noteq> NoAuth \<and> wwith s = None")
  case True
  then show ?thesis
    by (simp add: accounted_def service_def pending_def sent_def)
next
  case False
  have "keeps wquiet (bind (gets wshut_after_first) (\<lambda>shut. if shut then fail EndService else ret ()))"
    by (auto intro!: wq.keeps_intros)
  from accounted_debuff_then [OF this] show ?thesis
    by (simp add: service_def if_not_P [OF False])
qed

lemma accounted_ping: "accounted env s (ping env chal s) []"
proof -
  have "keeps wquiet (ping env chal)"
    unfolding ping_def by (intro wq.keeps_bind wq.keeps_gets put_auth_quiet)
  then have "wquiet s (fst (ping env chal s))" by (simp add: keeps_def)
  then show ?thesis by (simp add: accounted_def wquiet_def wstep_def pending_def)
qed

lemma accounted_quiet_debuff:
  assumes "keeps wquiet m"
  shows "accounted env s (bind m (\<lambda>_. debuff_msgs env) s) []"
proof (cases "m s")
  case (Pair s1 r)
  from assms Pair have q: "sent s1 = sent s" "pending env s1 = pending env s"
    by (auto simp: keeps_def wquiet_def wstep_def pending_def dest: spec [of _ s])
  show ?thesis
  proof (cases r)
    case (LOk a)
    with Pair q show ?thesis
      by (cases rule: debuff_msgs_cases [of env s1])
        (auto simp: accounted_def bind_def pending_def split: loop_result.splits)
  qed (use Pair q in \<open>simp_all add: accounted_def bind_def\<close>)
qed

lemma pong_eq:
  "pong env rp chal rt ch2 s =
     bind (bind (gets wfrom) (\<lambda>from. put_auth env (PONG from chal (w_signmsg env from chal) ch2)))
       (\<lambda>_. debuff_msgs env) (s\<lparr>wread_token := Some rt, wwith := Some rp\<rparr>)"
  by (simp add: pong_def pong_inner_def bind_assoc bind_def [of "modify _"] modify_def)

lemma accounted_pong: "accounted env s (pong env rp chal rt ch2 s) []"
proof -
  have "keeps wquiet (bind (gets wfrom) (\<lambda>from. put_auth env (PONG from chal (w_signmsg env from chal) ch2)))"
    by (intro wq.keeps_bind wq.keeps_gets put_auth_quiet)
  from accounted_quiet_debuff [OF this, of env "s\<lparr>wread_token := Some rt, wwith := Some rp\<rparr>"]
  show ?thesis by (simp add: pong_eq accounted_def sent_def pending_def)
qed

lemma accounted_call: "accounted env s (write_call env c s) (msgs env (service_commands [c]))"
  by (cases c) (simp_all add: accounted_service accounted_ping accounted_pong)

lemma accounted_run: "accounted env s (write_run env cs s) (msgs env (service_commands cs))"
proof (induction cs arbitrary: s)
  case Nil
  show ?case by (simp add: write_run_def ret_def accounted_def)
next
  case (Cons c cs)
  have split: "msgs env (service_commands (c # cs))
      = msgs env (service_commands [c]) @ msgs env (service_commands cs)"
    by (simp add: service_commands_Cons split: write_command.splits)
  let ?a = "pending env s @ msgs env (service_commands [c])" and ?b = "msgs env (service_commands cs)"
  have eq: "write_run env (c # cs) s = bind (write_call env c) (\<lambda>_. write_run env cs) s"
    by (simp add: write_run_def)
  obtain s1 r where call: "write_call env c s = (s1, r)" by (cases "write_call env c s")
  note acc = accounted_call [of env s c, unfolded call accounted_def fst_conv snd_conv]
  show ?case
  proof (cases r)
    case (LOk u)
    with acc have s1: "sent s1 @ pending env s1 = sent s @ ?a" by auto
    then have s1': "sent s @ pending env s @ msgs env (service_commands [c]) @ ys
        = sent s1 @ pending env s1 @ ys" for ys by (metis append_assoc)
    have run: "write_run env (c # cs) s = write_run env cs s1"
      using call LOk by (simp add: eq bind_def)
    from Cons [of s1] show ?thesis unfolding accounted_def run split s1' append_assoc .
  next
    case (LErr e)
    have "prefix (sent s1) ((sent s @ ?a) @ ?b)" by (rule prefix_prefix) (use acc in simp)
    with call LErr show ?thesis unfolding eq split by (simp add: accounted_def bind_def)
  next
    case LPanic
    have "prefix (sent s1) ((sent s @ ?a) @ ?b)" by (rule prefix_prefix) (use acc in simp)
    with call LPanic show ?thesis unfolding eq split by (simp add: accounted_def bind_def)
  qed
qed

section \<open>What a call writes\<close>

definition auth_frame ::
    "('p, 'mc, 'm, 'att) write_env \<Rightarrow> 'p \<Rightarrow> 'p shadower_w \<Rightarrow> 'p proto_message \<Rightarrow> ('p, 'm, 'att) wop list" where
  "auth_frame env from shad pm =
     [WHeader shad, WProto shad pm]
     @ (case w_attachment env from of Some att \<Rightarrow> [WAttach shad att] | None \<Rightarrow> [])
     @ [WEnd shad, WFlush shad]"

definition msg_frame ::
    "('p, 'mc, 'm, 'att) write_env \<Rightarrow> 'p shadower_w \<Rightarrow> 'm \<Rightarrow> ('p, 'm, 'att) wop list" where
  "msg_frame env shad m =
     [WHeader shad, WMsg shad m]
     @ (if 0 < w_nb_attachments env m then map (WAttach shad) (w_attachments env m) else [])
     @ [WEnd shad, WFlush shad]"

text \<open>A transport that does not fail, and an encoder that has a message where it says so.\<close>

definition w_reliable :: "('p, 'mc, 'm, 'att) write_env \<Rightarrow> bool" where
  "w_reliable env \<longleftrightarrow>
     (\<forall>ws w. w_io env ws w = None) \<and> (\<forall>c. w_can_into env c \<longrightarrow> w_opt_into env c \<noteq> None)"

definition msg_shad :: "('p, 'mc, 'm, 'att) write_env \<Rightarrow> ('p, 'mc, 'm, 'att) write_service \<Rightarrow> 'p shadower_w option" where
  "msg_shad env s =
     (case wshad_msg s of
        Some shad \<Rightarrow> Some shad
      | None \<Rightarrow> if w_auth_mode env = NoAuth then Some (ShadWMsg (wfrom s)) else map_option ShadWMsg (wwith s))"

lemma put_reliable [simp]:
  "w_reliable env \<Longrightarrow> put env w s = (s\<lparr>wstream := wstream s @ [w]\<rparr>, LOk ())"
  by (simp add: put_def w_reliable_def)

lemma for_each_put_reliable:
  "w_reliable env \<Longrightarrow>
   for_each (\<lambda>a. put env (h a)) as s = (s\<lparr>wstream := wstream s @ map h as\<rparr>, LOk ())"
  by (induction "as" arbitrary: s) (simp_all add: act_simps)

lemma put_auth_reliable:
  assumes "w_reliable env" and "get_shad_auth env (wfrom s) (wwith s) = Ok shad"
  shows "put_auth env pm s = (s\<lparr>wstream := wstream s @ auth_frame env (wfrom s) shad pm\<rparr>, LOk ())"
  using assms
  by (cases "w_attachment env (wfrom s)")
     (simp_all add: put_auth_def auth_frame_def bind_def gets_def ret_def lift_def)

lemma forward_proto_reliable:
  assumes "w_reliable env" and "msg_shad env s = Some shad"
  shows "forward_proto env c s =
     (if msgs env [c] = [] then s
      else s\<lparr>wshad_msg := Some shad,
             wstream := wstream s @ concat (map (msg_frame env shad) (msgs env [c]))\<rparr>, LOk ())"
proof (cases "w_can_into env c")
  case False
  then show ?thesis by (simp add: forward_proto_def msgs_def map_filter_simps ret_def)
next
  case True
  with assms(1) obtain m where m: "w_opt_into env c = Some m" by (auto simp: w_reliable_def)
  have g: "get_shad_msg env s = (s\<lparr>wshad_msg := Some shad\<rparr>, LOk shad)"
    using assms(2) by (auto simp: get_shad_msg_def msg_shad_def split: option.splits if_splits)
  show ?thesis
    using True m assms(1)
    by (simp add: forward_proto_def msgs_def map_filter_simps bind_def g lift_def ret_def
        for_each_put_reliable msg_frame_def)
qed

lemma msg_shad_wshad: "wshad_msg s = Some shad \<Longrightarrow> msg_shad env s = Some shad"
  by (simp add: msg_shad_def)

lemma debuff_msgs_reliable:
  assumes "w_reliable env" and "msg_shad env s = Some shad"
  shows "debuff_msgs env s =
     (s\<lparr>wbuff_msgs := [],
        wshad_msg := if pending env s = [] then wshad_msg s else Some shad,
        wstream := wstream s @ concat (map (msg_frame env shad) (pending env s))\<rparr>, LOk ())"
  using assms
proof (induction "wbuff_msgs s" arbitrary: s rule: rev_induct)
  case Nil
  then show ?case by (simp add: debuff_msgs.simps [of env s] pending_def)
next
  case (snoc c cs)
  let ?s = "s\<lparr>wbuff_msgs := cs\<rparr>"
  have buf: "wbuff_msgs s = cs @ [c]" using snoc.hyps(2) by simp
  have "msg_shad env ?s = msg_shad env s" by (simp add: msg_shad_def split: option.split)
  with snoc.prems(2) have sh: "msg_shad env ?s = Some shad" by simp
  have pend: "pending env s = msgs env [c] @ pending env ?s"
    using msgs_simps(2) [of env "[c]" "rev cs"] by (simp add: pending_def buf)
  let ?s1 = "if msgs env [c] = [] then ?s
             else ?s\<lparr>wshad_msg := Some shad,
                     wstream := wstream s @ concat (map (msg_frame env shad) (msgs env [c]))\<rparr>"
  have "debuff_msgs env s = debuff_msgs env ?s1"
    using buf forward_proto_reliable [OF snoc.prems(1) sh, of c]
    by (subst debuff_msgs.simps) simp
  also have "\<dots> = (?s1\<lparr>wbuff_msgs := [],
        wshad_msg := if pending env ?s1 = [] then wshad_msg ?s1 else Some shad,
        wstream := wstream ?s1 @ concat (map (msg_frame env shad) (pending env ?s1))\<rparr>, LOk ())"
    by (rule snoc.hyps(1)) (use sh snoc.prems(1) in \<open>simp_all add: msg_shad_wshad\<close>)
  finally have eq: "debuff_msgs env s = \<dots>" .
  have p1: "pending env ?s1 = pending env ?s" by (simp add: pending_def)
  show ?case unfolding eq p1 pend by simp
qed

section \<open>Properties\<close>

text \<open>
  C23. A write service sends the messages it was given in the order in which they came, each
  once: at any point what it has written is a first part of what it was asked to send, also when
  a write fails, and when all its commands succeed, what it has written followed by what it
  still holds back, oldest first, is exactly what it was asked to send.
\<close>

theorem messages_written_in_order:
  assumes "write_run env cs (write_service_new tok me with1 shut) = (t, r)"
  shows "prefix (sent t) (msgs env (service_commands cs))
     \<and> (r = LOk () \<longrightarrow> sent t @ pending env t = msgs env (service_commands cs))"
  using accounted_run [of env "write_service_new tok me with1 shut" cs] assms
  by (auto simp: accounted_def write_service_new_def sent_def pending_def map_filter_simps)

theorem messages_written_in_order_witness:
  "let env = \<lparr>w_auth_mode = Public, w_io = \<lambda>ws w. if length ws < 10 then None else Some ExpectedError,
              w_signmsg = \<lambda>p c. c, w_attachment = \<lambda>p. None, w_can_into = \<lambda>c. c \<noteq> 0,
              w_opt_into = \<lambda>c. if c = 0 then None else Some (c + 100), w_nb_attachments = \<lambda>m. 0,
              w_attachments = \<lambda>m. []\<rparr> :: (nat, nat, nat, nat) write_env;
       s = write_service_new 4 7 None False;
       cs = [WService 1, WService 0, WPing [9], WService 2, WPong 8 [1] 5 None, WService 3]
   in sent (fst (write_run env cs s)) = [101]
      \<and> prefix (sent (fst (write_run env cs s))) [101, 102, 103]"
proof -
  let ?env = "\<lparr>w_auth_mode = Public, w_io = \<lambda>ws w. if length ws < 10 then None else Some ExpectedError,
              w_signmsg = \<lambda>p c. c, w_attachment = \<lambda>p. None, w_can_into = \<lambda>c. c \<noteq> 0,
              w_opt_into = \<lambda>c. if c = 0 then None else Some (c + 100), w_nb_attachments = \<lambda>m. 0,
              w_attachments = \<lambda>m. []\<rparr> :: (nat, nat, nat, nat) write_env"
  let ?s = "write_service_new 4 7 None False :: (nat, nat, nat, nat) write_service"
  let ?cs = "[WService 1, WService 0, WPing [9], WService 2, WPong 8 [1] 5 None, WService 3]
    :: (nat, nat) write_command list"
  have m: "msgs ?env (service_commands ?cs) = [101, 102, 103]"
    by (simp add: msgs_def map_filter_simps)
  have "prefix (sent (fst (write_run ?env ?cs ?s))) (msgs ?env (service_commands ?cs))"
    by (rule conjunct1 [OF messages_written_in_order [where r = "snd (write_run ?env ?cs ?s)"]])
       (rule surjective_pairing)
  moreover have "sent (fst (write_run ?env ?cs ?s)) = [101]"
    by (simp add: write_run_def write_service_new_def bind_def ping_def pong_def pong_inner_def service_def
        put_auth_def gets_def lift_def get_shad_auth_def put_def ret_def modify_def debuff_msgs.simps
        forward_proto_def get_shad_msg_def sent_def wop_msg_def map_filter_simps)
  ultimately show ?thesis unfolding m Let_def by simp
qed

text \<open>
  C24. Unless the configuration skips authentication, a write service sends no message before it
  is told which peer it talks to: whatever happens, commands without a pong put no message on
  the stream, and when they succeed all of them wait in the buffer.
\<close>

theorem nothing_sent_before_pong:
  assumes "w_auth_mode env \<noteq> NoAuth"
    and "wwith s = None"
    and "\<forall>c\<in>set cs. \<forall>p ch rt ch2. c \<noteq> WPong p ch rt ch2"
    and "write_run env cs s = (t, r)"
  shows "sent t = sent s \<and> wwith t = None
     \<and> (r = LOk () \<longrightarrow> wbuff_msgs t = rev (service_commands cs) @ wbuff_msgs s)"
  using assms(2,3,4)
proof (induction cs arbitrary: s)
  case Nil
  then show ?case by (simp add: write_run_def ret_def)
next
  case (Cons c cs)
  obtain s1 r1 where call: "write_call env c s = (s1, r1)" by (cases "write_call env c s")
  have step: "sent s1 = sent s \<and> wwith s1 = None \<and>
      (r1 = LOk () \<longrightarrow> wbuff_msgs s1 = rev (service_commands [c]) @ wbuff_msgs s)"
  proof (cases c)
    case (WService m)
    with call assms(1) Cons.prems(1) show ?thesis by (auto simp: service_def sent_def)
  next
    case (WPing ch)
    have "keeps wquiet (ping env ch)"
      unfolding ping_def by (intro wq.keeps_bind wq.keeps_gets put_auth_quiet)
    from keepsD [OF this, of s s1 r1] call WPing Cons.prems(1) show ?thesis
      by (simp add: wquiet_def wstep_def)
  qed (use Cons.prems(2) in simp)
  have "write_run env (c # cs) s = bind (write_call env c) (\<lambda>_. write_run env cs) s"
    by (simp add: write_run_def)
  with Cons.prems(3) call have run:
    "(case r1 of LOk _ \<Rightarrow> write_run env cs s1 | LErr e \<Rightarrow> (s1, LErr e) | LPanic \<Rightarrow> (s1, LPanic)) = (t, r)"
    by (simp add: bind_def)
  show ?case
  proof (cases r1)
    case (LOk u)
    with run step Cons.IH [of s1] Cons.prems(2) show ?thesis
      by (simp add: service_commands_Cons split: write_command.splits)
  qed (use run step in auto)
qed

theorem nothing_sent_before_pong_witness:
  "let env = \<lparr>w_auth_mode = Public, w_io = \<lambda>ws w. None,
              w_signmsg = \<lambda>p c. c, w_attachment = \<lambda>p. None, w_can_into = \<lambda>c. True,
              w_opt_into = \<lambda>c. Some (c + 100), w_nb_attachments = \<lambda>m. 0,
              w_attachments = \<lambda>m. []\<rparr> :: (nat, nat, nat, nat) write_env;
       s = write_service_new 4 7 None False;
       cs = [WService 1, WPing [9], WService 2]
   in sent (fst (write_run env cs s)) = [] \<and> wstream (fst (write_run env cs s)) \<noteq> []"
proof -
  let ?env = "\<lparr>w_auth_mode = Public, w_io = \<lambda>ws w. None,
              w_signmsg = \<lambda>p c. c, w_attachment = \<lambda>p. None, w_can_into = \<lambda>c. True,
              w_opt_into = \<lambda>c. Some (c + 100), w_nb_attachments = \<lambda>m. 0,
              w_attachments = \<lambda>m. []\<rparr> :: (nat, nat, nat, nat) write_env"
  let ?s = "write_service_new 4 7 None False :: (nat, nat, nat, nat) write_service"
  let ?cs = "[WService 1, WPing [9], WService 2] :: (nat, nat) write_command list"
  have "sent (fst (write_run ?env ?cs ?s)) = sent ?s"
    by (rule conjunct1 [OF nothing_sent_before_pong
          [where env = ?env and cs = ?cs and r = "snd (write_run ?env ?cs ?s)"]])
       (simp_all add: write_service_new_def)
  moreover have "wstream (fst (write_run ?env ?cs ?s)) \<noteq> []"
    by (simp add: write_run_def write_service_new_def bind_def ping_def service_def put_auth_def gets_def
        lift_def get_shad_auth_def put_def ret_def)
  ultimately show ?thesis
    unfolding Let_def by (simp add: write_service_new_def sent_def map_filter_simps)
qed

text \<open>
  C25. On a stream that does not fail, a pong always succeeds: it writes the pong in one frame of
  the authentication shadower, then every message held back, oldest first, each in a complete
  frame of the message shadower of the peer; nothing is held back any more.
\<close>

theorem pong_flushes_buffer:
  assumes "w_reliable env" and "w_auth_mode env \<noteq> NoAuth"
  shows "write_call env (WPong p chal rt ch2) s =
     (let auth = ShadWAuth (if w_auth_mode env = Public then wfrom s else p);
          shad = (case wshad_msg s of Some sh \<Rightarrow> sh | None \<Rightarrow> ShadWMsg p);
          pm = PONG (wfrom s) chal (w_signmsg env (wfrom s) chal) ch2
      in (s\<lparr>wread_token := Some rt, wwith := Some p, wbuff_msgs := [],
            wshad_msg := if pending env s = [] then wshad_msg s else Some shad,
            wstream := wstream s @ auth_frame env (wfrom s) auth pm
                        @ concat (map (msg_frame env shad) (pending env s))\<rparr>, LOk ()))"
proof -
  let ?s = "s\<lparr>wread_token := Some rt, wwith := Some p\<rparr>"
  let ?auth = "ShadWAuth (if w_auth_mode env = Public then wfrom s else p)"
  let ?pm = "PONG (wfrom s) chal (w_signmsg env (wfrom s) chal) ch2"
  let ?shad = "case wshad_msg s of Some sh \<Rightarrow> sh | None \<Rightarrow> ShadWMsg p"
  let ?s1 = "?s\<lparr>wstream := wstream ?s @ auth_frame env (wfrom ?s) ?auth ?pm\<rparr>"
  have a: "get_shad_auth env (wfrom ?s) (wwith ?s) = Ok ?auth"
    using assms(2) by (cases "w_auth_mode env") (simp_all add: get_shad_auth_def)
  have sh: "msg_shad env ?s1 = Some ?shad"
    using assms(2) by (simp add: msg_shad_def split: option.split)
  have "pong env p chal rt ch2 s = debuff_msgs env ?s1"
    by (simp add: pong_eq bind_def [of "bind _ _"] bind_def [of "gets _"] gets_def
        put_auth_reliable [OF assms(1) a])
  also note debuff_msgs_reliable [OF assms(1) sh]
  finally show ?thesis by (simp add: pending_def Let_def)
qed

theorem pong_flushes_buffer_witness:
  "let env = \<lparr>w_auth_mode = Public, w_io = \<lambda>ws w. None,
              w_signmsg = \<lambda>p c. c, w_attachment = \<lambda>p. None, w_can_into = \<lambda>c. True,
              w_opt_into = \<lambda>c. Some (c + 100), w_nb_attachments = \<lambda>m. 1,
              w_attachments = \<lambda>m. [m]\<rparr> :: (nat, nat, nat, nat) write_env;
       s = (write_service_new 4 7 None False)\<lparr>wbuff_msgs := [2, 1]\<rparr>
   in w_reliable env
      \<and> wstream (fst (write_call env (WPong 8 [1] 5 None) s))
        = [WHeader (ShadWAuth 7), WProto (ShadWAuth 7) (PONG 7 [1] [1] None), WEnd (ShadWAuth 7), WFlush (ShadWAuth 7),
           WHeader (ShadWMsg 8), WMsg (ShadWMsg 8) 101, WAttach (ShadWMsg 8) 101, WEnd (ShadWMsg 8), WFlush (ShadWMsg 8),
           WHeader (ShadWMsg 8), WMsg (ShadWMsg 8) 102, WAttach (ShadWMsg 8) 102, WEnd (ShadWMsg 8), WFlush (ShadWMsg 8)]"
  unfolding Let_def
  by (subst pong_flushes_buffer)
     (simp_all add: w_reliable_def pending_def msgs_def map_filter_simps auth_frame_def msg_frame_def
        write_service_new_def Let_def)

text \<open>
  In a private network a write service that was not told its peer cannot ping: the call
  panics, before anything is written, instead of returning a failure.
\<close>

theorem private_ping_panics:
  assumes "w_auth_mode env = Private" and "wwith s = None"
  shows "write_call env (WPing chal) s = (s, LPanic)"
  using assms by (simp add: ping_def put_auth_def bind_def gets_def lift_def get_shad_auth_def)

theorem private_ping_panics_witness:
  "snd (write_call (\<lparr>w_auth_mode = Private, w_io = \<lambda>ws w. None,
              w_signmsg = \<lambda>p c. c, w_attachment = \<lambda>p. None, w_can_into = \<lambda>c. True,
              w_opt_into = \<lambda>c. Some (c + 100), w_nb_attachments = \<lambda>m. 1,
              w_attachments = \<lambda>m. [m]\<rparr> :: (nat, nat, nat, nat) write_env)
      (WPing [1]) (write_service_new 4 7 None False)) = LPanic"
  by (subst private_ping_panics) (simp_all add: write_service_new_def)

end
