(* ===== verification/Readservice.thy ===== *)
theory Readservice
  imports Procs
begin

text \<open>
  The read service of a connection (\<open>mydht/src/procs/server2.rs\<close>): it runs the handshake and
  then hands the messages of the peer to the services.  The stream, together with the state of
  the encoder and of the shadowers that read from it, is a value \<open>'st\<close>; what a read returns, the
  checks of the peer management and the spawner of the local service are arguments.
\<close>

section \<open>State\<close>

datatype 'p shadower_r = ShadRAuth 'p | ShadRMsg 'p

type_synonym ('k, 'a, 'c, 'mc, 'pc, 'mr, 'ret, 'rs, 'ws) ml_command =
  "('k, 'a, ('k, 'a) peer, 'c, 'mc, 'pc, 'mr, 'ret, 'rs, 'ws) main_loop_command"

type_synonym ('k, 'a, 'c, 'mc, 'pc, 'mr, 'ret, 'rs, 'ws) rd_reply =
  "(('k, 'a) peer, 'c, 'mc, ('k, 'a, 'c, 'mc, 'pc, 'mr, 'ret, 'rs, 'ws) ml_command) read_reply"

datatype ('p, 'st) read_command = RRun | RBorrowReturn 'st "'p shadower_r option"

record ('k, 'a, 'st, 'h) read_service =
  rstream :: "'st option"
  ris_auth :: bool
  rfrom :: "('k, 'a) peer"
  rwith :: "('k, 'a) peer option"
  rtoken :: usize
  rprio :: "peer_priority option"
  rshad_msg :: "('k, 'a) peer shadower_r option"
  rlocal_sp :: "'h option"

record ('k, 'a, 'st, 'h, 'm, 'att, 'l, 'c, 'pc, 'srv) read_env =
  r_auth_mode :: shadow_auth_type
  r_yield_return :: bool
  r_header :: "('k, 'a) peer shadower_r \<Rightarrow> 'st \<Rightarrow> 'st \<times> unit outcome"
  r_decode :: "('k, 'a) peer shadower_r \<Rightarrow> 'st \<Rightarrow> 'st \<times> ('k, 'a) peer proto_message outcome"
  r_decode_msg :: "('k, 'a) peer shadower_r \<Rightarrow> 'st \<Rightarrow> 'st \<times> 'm outcome"
  r_attach :: "('k, 'a) peer shadower_r \<Rightarrow> nat \<Rightarrow> 'st \<Rightarrow> 'st \<times> 'att outcome"
  r_end :: "('k, 'a) peer shadower_r \<Rightarrow> 'st \<Rightarrow> 'st \<times> unit outcome"
  r_att_size :: "('k, 'a) peer \<Rightarrow> nat"
  r_set_att :: "'att \<Rightarrow> ('k, 'a) peer \<Rightarrow> ('k, 'a) peer"
  r_att_sizes :: "'m \<Rightarrow> nat list"
  r_set_atts :: "'att list \<Rightarrow> 'm \<Rightarrow> 'm"
  r_checkmsg :: "('k, 'a) peer \<Rightarrow> bytes \<Rightarrow> bytes \<Rightarrow> bool"
  r_accept :: "('k, 'a) peer \<Rightarrow> peer_priority option"
  r_into :: "'m \<Rightarrow> ('l, 'c, 'pc, 'a) mc_command outcome"
  r_is_borrow :: "'l \<Rightarrow> bool"
  r_is_borrow_end :: "'l \<Rightarrow> bool"
  r_put_read :: "'st \<Rightarrow> ('k, 'a) peer shadower_r \<Rightarrow> usize \<Rightarrow> 'l \<Rightarrow> 'l"
  r_init_local :: "('k, 'a) peer \<Rightarrow> ('k, 'a) peer option \<Rightarrow> usize \<Rightarrow> 'srv outcome"
  r_spawn_local :: "'srv \<Rightarrow> 'l \<Rightarrow> 'h outcome"
  r_send_local :: "'h \<Rightarrow> 'l \<Rightarrow> ('h \<times> 'l option) outcome"
  r_unwrap_state :: "'h \<Rightarrow> ('srv \<times> unit outcome) outcome"
  r_respawn_local :: "'srv \<Rightarrow> 'h \<Rightarrow> 'l \<Rightarrow> 'h outcome"

section \<open>Operations\<close>

definition read_service_new ::
    "shadow_auth_type \<Rightarrow> usize \<Rightarrow> 'st \<Rightarrow> ('k, 'a) peer \<Rightarrow> ('k, 'a) peer option
      \<Rightarrow> ('k, 'a, 'st, 'h) read_service" where
  "read_service_new md tok rs me with1 =
     \<lparr>rstream = Some rs, ris_auth = (md = NoAuth), rfrom = me, rwith = with1, rtoken = tok,
      rprio = None, rshad_msg = None, rlocal_sp = None\<rparr>"

text \<open>An operation on the stream, \<open>self.stream.as_mut().unwrap()\<close>.\<close>

definition rd :: "('st \<Rightarrow> 'st \<times> 'x outcome) \<Rightarrow> (('k, 'a, 'st, 'h) read_service, 'x) act" where
  "rd f s =
     (case rstream s of
        Some st \<Rightarrow> (case f st of (st', r) \<Rightarrow> (s\<lparr>rstream := Some st'\<rparr>, of_outcome r))
      | None \<Rightarrow> (s, LPanic))"

definition read_attachment ::
    "('k, 'a, 'st, 'h, 'm, 'att, 'l, 'c, 'pc, 'srv) read_env \<Rightarrow> ('k, 'a) peer shadower_r \<Rightarrow> ('k, 'a) peer
      \<Rightarrow> (('k, 'a, 'st, 'h) read_service, ('k, 'a) peer) act" where
  "read_attachment env shad p =
     (if 0 < r_att_size env p
      then bind (rd (r_attach env shad (r_att_size env p))) (\<lambda>att. ret (r_set_att env att p))
      else ret p)"

definition on_ping ::
    "('k, 'a, 'st, 'h, 'm, 'att, 'l, 'c, 'pc, 'srv) read_env \<Rightarrow> ('k, 'a) peer shadower_r
      \<Rightarrow> ('k, 'a) peer \<Rightarrow> bytes \<Rightarrow> bytes
      \<Rightarrow> (('k, 'a, 'st, 'h) read_service, ('k, 'a, 'c, 'mc, 'pc, 'mr, 'ret, 'rs, 'ws) rd_reply) act" where
  "on_ping env shad p0 chal sig =
     bind (read_attachment env shad p0) (\<lambda>p.
     bind (rd (r_end env shad)) (\<lambda>_.
     bind (gets rtoken) (\<lambda>tok.
     if \<not> r_checkmsg env p chal sig then ret (RRMainLoop (MLRejectReadSpawn tok))
     else (case r_accept env p of
             Some peer_prio \<Rightarrow>
               bind (modify (\<lambda>s. s\<lparr>rprio := Some peer_prio\<rparr>)) (\<lambda>_.
               if peer_prio = Unchecked
               then ret (RRPeerMgmt (PMAccept p (MLNewPeerChallenge p tok chal)))
               else ret (RRMainLoop (MLNewPeerChallenge p tok chal)))
           | None \<Rightarrow> ret (RRMainLoop (MLRejectPeer (get_key p) None (Some tok)))))))"

text \<open>The end of a successful pong: the connection counts as authenticated from here on.\<close>

definition switch_auth :: "('k, 'a) peer \<Rightarrow> (('k, 'a, 'st, 'h) read_service, unit) act" where
  "switch_auth p = modify (\<lambda>s. s\<lparr>ris_auth := True, rwith := Some p\<rparr>)"

definition on_pong ::
    "('k, 'a, 'st, 'h, 'm, 'att, 'l, 'c, 'pc, 'srv) read_env \<Rightarrow> ('k, 'a) peer shadower_r
      \<Rightarrow> ('k, 'a) peer \<Rightarrow> bytes \<Rightarrow> bytes \<Rightarrow> bytes option
      \<Rightarrow> (('k, 'a, 'st, 'h) read_service, ('k, 'a, 'c, 'mc, 'pc, 'mr, 'ret, 'rs, 'ws) rd_reply) act" where
  "on_pong env shad p0 initial_chal sig next_chal =
     bind (read_attachment env shad p0) (\<lambda>withpeer.
     bind (rd (r_end env shad)) (\<lambda>_.
     bind (gets rtoken) (\<lambda>tok.
     bind (gets rprio) (\<lambda>oprio.
     if \<not> r_checkmsg env withpeer initial_chal sig then ret (RRMainLoop (MLRejectReadSpawn tok))
     else (case oprio of
             Some prio1 \<Rightarrow>
               bind (switch_auth withpeer) (\<lambda>_.
               ret (RRMainLoop (MLNewPeerUncheckedChallenge withpeer prio1 tok initial_chal next_chal)))
           | None \<Rightarrow>
               (case r_accept env withpeer of
                  Some peer_prio \<Rightarrow>
                    bind (modify (\<lambda>s. s\<lparr>rprio := Some peer_prio\<rparr>)) (\<lambda>_.
                    bind (switch_auth withpeer) (\<lambda>_.
                    if peer_prio = Unchecked
                    then ret (RRPeerMgmt (PMAccept withpeer
                           (MLNewPeerUncheckedChallenge withpeer peer_prio tok initial_chal next_chal)))
                    else ret (RRMainLoop
                           (MLNewPeerUncheckedChallenge withpeer peer_prio tok initial_chal next_chal))))
                | None \<Rightarrow> ret (RRMainLoop (MLRejectPeer (get_key withpeer) None (Some tok)))))))))"

definition read_auth ::
    "('k, 'a, 'st, 'h, 'm, 'att, 'l, 'c, 'pc, 'srv) read_env
      \<Rightarrow> (('k, 'a, 'st, 'h) read_service, ('k, 'a, 'c, 'mc, 'pc, 'mr, 'ret, 'rs, 'ws) rd_reply) act" where
  "read_auth env =
     bind (gets rfrom) (\<lambda>from.
     bind (if r_auth_mode env = NoAuth then panic else ret (ShadRAuth from)) (\<lambda>shad.
     bind (rd (r_header env shad)) (\<lambda>_.
     bind (rd (r_decode env shad)) (\<lambda>msg.
     case msg of
       PING p chal sig \<Rightarrow> on_ping env shad p chal sig
     | PONG withpeer initial_chal sig next_chal \<Rightarrow> on_pong env shad withpeer initial_chal sig next_chal))))"

fun read_attachments ::
    "('k, 'a, 'st, 'h, 'm, 'att, 'l, 'c, 'pc, 'srv) read_env \<Rightarrow> ('k, 'a) peer shadower_r \<Rightarrow> nat list
      \<Rightarrow> (('k, 'a, 'st, 'h) read_service, 'att list) act" where
  "read_attachments env shad [] = ret []"
| "read_attachments env shad (n # ns) =
     bind (rd (r_attach env shad n)) (\<lambda>att.
     bind (read_attachments env shad ns) (\<lambda>atts. ret (att # atts)))"

definition read_msg ::
    "('k, 'a, 'st, 'h, 'm, 'att, 'l, 'c, 'pc, 'srv) read_env \<Rightarrow> (('k, 'a, 'st, 'h) read_service, 'm) act" where
  "read_msg env =
     bind (modify (\<lambda>s. if rshad_msg s = None then s\<lparr>rshad_msg := Some (ShadRMsg (rfrom s))\<rparr> else s)) (\<lambda>_.
     bind (gets rshad_msg) (\<lambda>oshad.
     bind (lift (unwrap oshad)) (\<lambda>shad.
     bind (rd (r_header env shad)) (\<lambda>_.
     bind (rd (r_decode_msg env shad)) (\<lambda>pmess.
     bind (read_attachments env shad (r_att_sizes env pmess)) (\<lambda>atts.
     bind (rd (r_end env shad)) (\<lambda>_.
     ret (if 0 < length (r_att_sizes env pmess) then r_set_atts env atts pmess else pmess))))))))"

text \<open>A local message that borrows the stream takes it, with the shadower, out of the service.\<close>

definition borrow_read ::
    "('k, 'a, 'st, 'h, 'm, 'att, 'l, 'c, 'pc, 'srv) read_env \<Rightarrow> 'l \<Rightarrow> (('k, 'a, 'st, 'h) read_service, 'l) act" where
  "borrow_read env mess =
     (if r_is_borrow env mess
      then bind (gets (\<lambda>s. s)) (\<lambda>s.
           bind (lift (unwrap (rshad_msg s))) (\<lambda>shad.
           bind (lift (unwrap (rstream s))) (\<lambda>st.
           bind (modify (\<lambda>s. s\<lparr>rshad_msg := None, rstream := None\<rparr>)) (\<lambda>_.
           ret (r_put_read env st shad (rtoken s) mess)))))
      else ret mess)"

definition local_send ::
    "('k, 'a, 'st, 'h, 'm, 'att, 'l, 'c, 'pc, 'srv) read_env \<Rightarrow> 'l
      \<Rightarrow> (('k, 'a, 'st, 'h) read_service, 'l option) act" where
  "local_send env mess =
     bind (gets (\<lambda>s. s)) (\<lambda>s.
     case rlocal_sp s of
       Some h \<Rightarrow>
         bind (lift (r_send_local env h mess)) (\<lambda>(h', om).
         bind (modify (\<lambda>s. s\<lparr>rlocal_sp := Some h'\<rparr>)) (\<lambda>_. ret om))
     | None \<Rightarrow>
         bind (lift (r_init_local env (rfrom s) (rwith s) (rtoken s))) (\<lambda>srv.
         bind (lift (r_spawn_local env srv mess)) (\<lambda>h.
         bind (modify (\<lambda>s. s\<lparr>rlocal_sp := Some h\<rparr>)) (\<lambda>_. ret None))))"

definition local_restart ::
    "('k, 'a, 'st, 'h, 'm, 'att, 'l, 'c, 'pc, 'srv) read_env \<Rightarrow> 'l \<Rightarrow> (('k, 'a, 'st, 'h) read_service, unit) act" where
  "local_restart env mess =
     bind (gets (\<lambda>s. s)) (\<lambda>s.
     bind (modify (\<lambda>s. s\<lparr>rlocal_sp := None\<rparr>)) (\<lambda>_.
     case rlocal_sp s of
       Some h \<Rightarrow>
         bind (lift (r_unwrap_state env h)) (\<lambda>(srv, res).
         bind (case res of
                 Ok _ \<Rightarrow> ret srv
               | _ \<Rightarrow> lift (r_init_local env (rfrom s) (rwith s) (rtoken s))) (\<lambda>srv'.
         bind (lift (r_respawn_local env srv' h mess)) (\<lambda>h'.
         modify (\<lambda>s. s\<lparr>rlocal_sp := Some h'\<rparr>))))
     | None \<Rightarrow> ret ()))"

definition on_local ::
    "('k, 'a, 'st, 'h, 'm, 'att, 'l, 'c, 'pc, 'srv) read_env \<Rightarrow> 'l
      \<Rightarrow> (('k, 'a, 'st, 'h) read_service, ('k, 'a, 'c, 'mc, 'pc, 'mr, 'ret, 'rs, 'ws) rd_reply) act" where
  "on_local env mess0 =
     bind (borrow_read env mess0) (\<lambda>mess.
     bind (local_send env mess) (\<lambda>s_replace.
     bind (case s_replace of Some m \<Rightarrow> local_restart env m | None \<Rightarrow> ret ()) (\<lambda>_.
     if r_is_borrow env mess0 \<and> r_is_borrow_end env mess0 then fail EndService else ret RRNoReply)))"

definition dispatch ::
    "('k, 'a, 'st, 'h, 'm, 'att, 'l, 'c, 'pc, 'srv) read_env \<Rightarrow> 'm
      \<Rightarrow> (('k, 'a, 'st, 'h) read_service, ('k, 'a, 'c, 'mc, 'pc, 'mr, 'ret, 'rs, 'ws) rd_reply) act" where
  "dispatch env pmess =
     bind (gets rwith) (\<lambda>with1.
     bind (lift (r_into env pmess)) (\<lambda>com.
     case com of
       MCTryConnect _ _ \<Rightarrow> panic
     | MCPeerStore mess \<Rightarrow> ret (RRMainLoop (MLPeerStore (GDistant with1 mess)))
     | MCGlobal mess \<Rightarrow> ret (RRGlobal (GDistant with1 mess))
     | MCLocal mess \<Rightarrow> on_local env mess))"

fun read_call ::
    "('k, 'a, 'st, 'h, 'm, 'att, 'l, 'c, 'pc, 'srv) read_env \<Rightarrow> (('k, 'a) peer, 'st) read_command
      \<Rightarrow> (('k, 'a, 'st, 'h) read_service, ('k, 'a, 'c, 'mc, 'pc, 'mr, 'ret, 'rs, 'ws) rd_reply) act" where
  "read_call env (RBorrowReturn st osh) =
     bind (modify (\<lambda>s. s\<lparr>rstream := Some st, rshad_msg := osh\<rparr>)) (\<lambda>_. ret RRNoReply)"
| "read_call env RRun =
     bind (gets (\<lambda>s. s)) (\<lambda>s.
     if rstream s = None then (if r_yield_return env then fail LoopYield else ret RRNoReply)
     else if \<not> ris_auth s then read_auth env
     else bind (read_msg env) (dispatch env))"

text \<open>A spawned read service runs until a call fails.\<close>

fun read_run ::
    "('k, 'a, 'st, 'h, 'm, 'att, 'l, 'c, 'pc, 'srv) read_env \<Rightarrow> (('k, 'a) peer, 'st) read_command list
      \<Rightarrow> ('k, 'a, 'st, 'h) read_service
      \<Rightarrow> ('k, 'a, 'st, 'h) read_service \<times> ('k, 'a, 'c, 'mc, 'pc, 'mr, 'ret, 'rs, 'ws) rd_reply list" where
  "read_run env [] s = (s, [])"
| "read_run env (c # cs) s =
     (case read_call env c s of
        (s', LOk rep) \<Rightarrow> (case read_run env cs s' of (t, reps) \<Rightarrow> (t, rep # reps))
      | (s', _) \<Rightarrow> (s', []))"

section \<open>Frame of the operations\<close>

text \<open>All operations but the end of a pong leave the authentication and the peer alone.\<close>

definition rkeep :: "('k, 'a, 'st, 'h) read_service \<Rightarrow> ('k, 'a, 'st, 'h) read_service \<Rightarrow> bool" where
  "rkeep s t \<longleftrightarrow> ris_auth t = ris_auth s \<and> rwith t = rwith s \<and> rtoken t = rtoken s \<and> rfrom t = rfrom s"

interpretation rk: state_rel rkeep
  by unfold_locales (auto simp: rkeep_def)

lemma keeps_rd [intro!]: "keeps rkeep (rd f)"
  by (auto simp: keeps_def rd_def rkeep_def split: option.splits prod.splits)

lemma keeps_read_attachment [intro!]: "keeps rkeep (read_attachment env shad p)"
  by (auto simp: read_attachment_def intro!: rk.keeps_intros)

lemma keeps_read_attachments [intro!]: "keeps rkeep (read_attachments env shad ns)"
  by (induction ns) (auto intro!: rk.keeps_intros)

lemma keeps_read_msg: "keeps rkeep (read_msg env)"
  by (auto simp: read_msg_def rkeep_def intro!: rk.keeps_intros)

lemma keeps_on_ping: "keeps rkeep (on_ping env shad p chal sig)"
  by (auto simp: on_ping_def rkeep_def split: option.splits intro!: rk.keeps_intros)

lemma keeps_on_local: "keeps rkeep (on_local env mess)"
  unfolding on_local_def borrow_read_def local_send_def local_restart_def
  by (auto simp: rkeep_def split: option.splits outcome.splits intro!: rk.keeps_intros)

lemma keeps_dispatch: "keeps rkeep (dispatch env m)"
  unfolding dispatch_def
  by (auto split: mc_command.splits intro!: rk.keeps_intros keeps_on_local)

section \<open>Replies\<close>

text \<open>Whatever the state, a reply of the call satisfies \<open>Q\<close>.\<close>

definition returns :: "('b \<Rightarrow> bool) \<Rightarrow> ('s, 'b) act \<Rightarrow> bool" where
  "returns Q m \<longleftrightarrow> (\<forall>s t a. m s = (t, LOk a) \<longrightarrow> Q a)"

lemma returns_intros:
  "Q a \<Longrightarrow> returns Q (ret a)" "returns Q (fail e)" "returns Q panic"
  "(\<And>a. returns Q (f a)) \<Longrightarrow> returns Q (bind m f)"
  by (auto simp: returns_def ret_def fail_def panic_def bind_eq_ok)

text \<open>The peer a message was received from, and the announcement of an authenticated peer.\<close>

fun from_peer ::
    "('k, 'a, 'c, 'mc, 'pc, 'mr, 'ret, 'rs, 'ws) rd_reply \<Rightarrow> ('k, 'a) peer option option" where
  "from_peer (RRGlobal (GDistant w _)) = Some w"
| "from_peer (RRMainLoop (MLPeerStore (GDistant w _))) = Some w"
| "from_peer _ = None"

fun announces ::
    "('k, 'a, 'c, 'mc, 'pc, 'mr, 'ret, 'rs, 'ws) rd_reply \<Rightarrow> ('k, 'a) peer \<Rightarrow> bytes \<Rightarrow> bool" where
  "announces (RRMainLoop (MLNewPeerUncheckedChallenge q _ _ ch _)) p chal = (q = p \<and> ch = chal)"
| "announces (RRPeerMgmt (PMAccept _ (MLNewPeerUncheckedChallenge q _ _ ch _))) p chal = (q = p \<and> ch = chal)"
| "announces _ p chal = False"

lemma on_ping_returns: "returns (\<lambda>r. from_peer r = None) (on_ping env shad p chal sig)"
  unfolding on_ping_def by (auto intro!: returns_intros split: option.splits)

lemma on_local_returns: "returns (\<lambda>r. from_peer r = None) (on_local env mess)"
  unfolding on_local_def by (auto intro!: returns_intros)

lemma dispatch_from:
  assumes "dispatch env m s = (t, LOk rep)"
  shows "from_peer rep = None \<or> from_peer rep = Some (rwith s)"
proof (cases "r_into env m")
  case (Ok com)
  show ?thesis
  proof (cases com)
    case (MCLocal l)
    with assms Ok have "on_local env l s = (t, LOk rep)"
      by (simp add: dispatch_def bind_def [of "gets _"] gets_def)
    with on_local_returns [of env l] show ?thesis by (auto simp: returns_def)
  qed (use assms Ok in \<open>auto simp: dispatch_def bind_def gets_def ret_def panic_def\<close>)
qed (use assms in \<open>simp_all add: dispatch_def bind_def gets_def lift_def panic_def\<close>)

text \<open>Only a pong whose signature is right authenticates the connection, and it is announced.\<close>

lemma on_pong_cases:
  assumes "on_pong env shad p0 chal sig nc s = (t, LOk rep)"
  obtains (rejected) "rkeep s t" "from_peer rep = None"
  | (accepted) p where "r_checkmsg env p chal sig" "ris_auth t" "rwith t = Some p" "announces rep p chal"
      "from_peer rep = None"
proof -
  from assms obtain s1 p s2 where 1: "read_attachment env shad p0 s = (s1, LOk p)"
    and 2: "rd (r_end env shad) s1 = (s2, LOk ())"
    and 3: "(if \<not> r_checkmsg env p chal sig then ret (RRMainLoop (MLRejectReadSpawn (rtoken s2)))
       else (case rprio s2 of
             Some prio1 \<Rightarrow>
               bind (switch_auth p) (\<lambda>_.
               ret (RRMainLoop (MLNewPeerUncheckedChallenge p prio1 (rtoken s2) chal nc)))
           | None \<Rightarrow>
               (case r_accept env p of
                  Some peer_prio \<Rightarrow>
                    bind (modify (\<lambda>s. s\<lparr>rprio := Some peer_prio\<rparr>)) (\<lambda>_.
                    bind (switch_auth p) (\<lambda>_.
                    if peer_prio = Unchecked
                    then ret (RRPeerMgmt (PMAccept p
                           (MLNewPeerUncheckedChallenge p peer_prio (rtoken s2) chal nc)))
                    else ret (RRMainLoop
                           (MLNewPeerUncheckedChallenge p peer_prio (rtoken s2) chal nc))))
                | None \<Rightarrow> ret (RRMainLoop (MLRejectPeer (get_key p) None (Some (rtoken s2))))))) s2
       = (t, LOk rep)"
    unfolding on_pong_def bind_eq_ok gets_def by auto
  have k: "rkeep s s2"
    using keepsD [OF keeps_read_attachment 1] keepsD [OF keeps_rd 2] rk.R_trans by blast
  show thesis
  proof (cases "r_checkmsg env p chal sig \<and> (rprio s2 \<noteq> None \<or> r_accept env p \<noteq> None)")
    case True
    with 3 show thesis
      by (intro accepted [of p])
         (auto simp: bind_def switch_auth_def modify_def ret_def split: option.splits if_splits)
  next
    case False
    with 3 k show thesis
      by (intro rejected) (auto simp: ret_def split: if_splits)
  qed
qed

text \<open>The peer is vouched for: its signature was checked on a challenge that was announced.\<close>

definition vouched ::
    "('k, 'a, 'st, 'h, 'm, 'att, 'l, 'c, 'pc, 'srv) read_env
      \<Rightarrow> ('k, 'a, 'c, 'mc, 'pc, 'mr, 'ret, 'rs, 'ws) rd_reply list \<Rightarrow> ('k, 'a) peer option \<Rightarrow> bool" where
  "vouched env pre w \<longleftrightarrow>
     (\<exists>p chal sig. w = Some p \<and> r_checkmsg env p chal sig \<and> (\<exists>r\<in>set pre. announces r p chal))"

lemma vouched_append: "vouched env pre w \<Longrightarrow> vouched env (pre @ post) w"
  by (auto simp: vouched_def)

lemma vouched_last: "r_checkmsg env p chal sig \<Longrightarrow> announces r p chal \<Longrightarrow> vouched env (pre @ [r]) (Some p)"
  by (auto simp: vouched_def)

lemma read_call_step:
  assumes md: "r_auth_mode env \<noteq> NoAuth"
    and inv: "ris_auth s \<longrightarrow> vouched env pre (rwith s)"
    and call: "read_call env c s = (t, LOk rep)"
  shows "(ris_auth t \<longrightarrow> vouched env (pre @ [rep]) (rwith t))
     \<and> (from_peer rep = None \<or> ris_auth s \<and> from_peer rep = Some (rwith s))"
proof (cases c)
  case (RBorrowReturn st osh)
  with call inv show ?thesis by (auto simp: bind_def modify_def ret_def vouched_append)
next
  case RRun
  consider (borrowed) "rstream s = None" | (auth) "rstream s \<noteq> None" "\<not> ris_auth s"
    | (msg) "rstream s \<noteq> None" "ris_auth s" by blast
  then show ?thesis
  proof cases
    case borrowed
    with RRun call inv show ?thesis by (auto simp: bind_def gets_def ret_def fail_def vouched_append split: if_splits)
  next
    case auth
    with RRun call have "read_auth env s = (t, LOk rep)" by (simp add: bind_def [of "gets _"] gets_def)
    with md obtain s2 msg where k: "rkeep s s2"
      and m: "(case msg of
           PING p chal sig \<Rightarrow> on_ping env (ShadRAuth (rfrom s)) p chal sig
         | PONG w ch sig nc \<Rightarrow> on_pong env (ShadRAuth (rfrom s)) w ch sig nc) s2 = (t, LOk rep)"
      unfolding read_auth_def bind_eq_ok gets_def
      by simp (metis keepsD keeps_rd rk.R_trans ret_apply prod.inject loop_result.inject(1))
    show ?thesis
    proof (cases msg)
      case (PING p chal sig)
      with m have "rkeep s2 t" "from_peer rep = None"
        using keepsD [OF keeps_on_ping] on_ping_returns by (fastforce simp: returns_def)+
      with k auth show ?thesis by (simp add: rkeep_def)
    next
      case (PONG w ch sig nc)
      with m have "on_pong env (ShadRAuth (rfrom s)) w ch sig nc s2 = (t, LOk rep)" by simp
      then show ?thesis
        by (cases rule: on_pong_cases) (use k auth in \<open>auto simp: rkeep_def vouched_last\<close>)
    qed
  next
    case msg
    with RRun call obtain s1 m where 1: "read_msg env s = (s1, LOk m)" and 2: "dispatch env m s1 = (t, LOk rep)"
      by (auto simp: bind_eq_ok gets_def)
    have "rkeep s s1" "rkeep s1 t" using keepsD [OF keeps_read_msg 1] keepsD [OF keeps_dispatch 2] .
    with dispatch_from [OF 2] inv msg show ?thesis by (auto simp: rkeep_def vouched_append)
  qed
qed

lemma read_run_authentic:
  assumes "r_auth_mode env \<noteq> NoAuth" and "ris_auth s \<longrightarrow> vouched env before (rwith s)"
    and "read_run env cs s = (t, pre @ rep # post)" and "from_peer rep = Some w"
  shows "vouched env (before @ pre) w"
  using assms(2-4)
proof (induction cs arbitrary: s pre before)
  case Nil
  then show ?case by simp
next
  case (Cons c cs)
  from Cons.prems(2) obtain s1 rep1 reps where call: "read_call env c s = (s1, LOk rep1)"
    and run: "read_run env cs s1 = (t, reps)" and split: "pre @ rep # post = rep1 # reps"
    by (auto split: prod.splits loop_result.splits)
  note step = read_call_step [OF assms(1) Cons.prems(1) call]
  show ?case
  proof (cases pre)
    case Nil
    with split step Cons.prems(1,3) show ?thesis by auto
  next
    case (Cons r1 pre')
    with split run have "read_run env cs s1 = (t, pre' @ rep # post)" and "r1 = rep1" by auto
    from Cons.IH [OF step [THEN conjunct1] this(1) Cons.prems(3)] Cons this(2) show ?thesis by simp
  qed
qed

section \<open>Properties\<close>

text \<open>
  A concrete environment for the witnesses: the stream is the list of the handshake messages and
  of the application messages to come, a signature is right when it repeats the challenge, and
  the peer with key 6 is refused.
\<close>

type_synonym demo_stream = "(nat, nat) peer proto_message list \<times> nat list"

definition demo_read_env :: "(nat, nat, demo_stream, unit, nat, nat, nat, nat, nat, unit) read_env" where
  "demo_read_env =
     \<lparr>r_auth_mode = Public, r_yield_return = False, r_header = \<lambda>sh st. (st, Ok ()),
      r_decode = \<lambda>sh st. (case fst st of [] \<Rightarrow> (st, Err ExpectedError) | m # ms \<Rightarrow> ((ms, snd st), Ok m)),
      r_decode_msg = \<lambda>sh st. (case snd st of [] \<Rightarrow> (st, Err ExpectedError) | m # ms \<Rightarrow> ((fst st, ms), Ok m)),
      r_attach = \<lambda>sh n st. (st, Ok n), r_end = \<lambda>sh st. (st, Ok ()), r_att_size = \<lambda>p. 0,
      r_set_att = \<lambda>a p. p, r_att_sizes = \<lambda>m. [], r_set_atts = \<lambda>as m. m,
      r_checkmsg = \<lambda>p ch sig. ch = sig,
      r_accept = \<lambda>p. (if get_key p = 6 then None else Some Normal),
      r_into = \<lambda>m. Ok (MCGlobal m), r_is_borrow = \<lambda>l. False, r_is_borrow_end = \<lambda>l. True,
      r_put_read = \<lambda>st sh t l. l, r_init_local = \<lambda>p w t. Ok (), r_spawn_local = \<lambda>srv l. Ok (),
      r_send_local = \<lambda>h l. Ok ((), None), r_unwrap_state = \<lambda>h. Ok ((), Ok ()),
      r_respawn_local = \<lambda>srv h l. Ok ()\<rparr>"

definition demo_peer :: "nat \<Rightarrow> (nat, nat) peer" where
  "demo_peer n = \<lparr>get_key = n, get_address = n\<rparr>"

lemmas read_eval = demo_read_env_def demo_peer_def read_service_new_def read_auth_def on_ping_def on_pong_def
  read_attachment_def read_msg_def dispatch_def switch_auth_def rd_def bind_def gets_def ret_def modify_def lift_def

text \<open>
  C3. Unless the configuration skips authentication, every message a read service hands to the
  services as coming from a peer comes after the announcement of that very peer to the main
  loop, with a challenge whose signature by that peer was checked: no message is taken before
  the pong, and none is attributed to another peer.
\<close>

theorem messages_only_from_authenticated_peer:
  assumes "r_auth_mode env \<noteq> NoAuth"
    and "read_run env cs (read_service_new (r_auth_mode env) tok st me w0) = (t, pre @ rep # post)"
    and "from_peer rep = Some w"
  shows "\<exists>p chal sig. w = Some p \<and> r_checkmsg env p chal sig \<and> (\<exists>r\<in>set pre. announces r p chal)"
  using read_run_authentic [of env _ "[]", OF assms(1) _ assms(2,3)] assms(1)
  by (simp add: read_service_new_def vouched_def)

theorem messages_only_from_authenticated_peer_witness:
  "let s = read_service_new Public 4 ([PING (demo_peer 5) [1] [1], PONG (demo_peer 5) [2] [2] None], [7]) (demo_peer 1) None;
       reps = snd (read_run demo_read_env [RRun, RRun, RRun] s)
         :: (nat, nat, nat, nat, nat, nat, unit, nat, nat) rd_reply list
   in reps ! 2 = RRGlobal (GDistant (Some (demo_peer 5)) 7)
      \<and> (\<exists>chal sig. r_checkmsg demo_read_env (demo_peer 5) chal sig
          \<and> (\<exists>r\<in>set (take 2 reps). announces r (demo_peer 5) chal))"
proof -
  let ?s = "read_service_new Public 4 ([PING (demo_peer 5) [1] [1], PONG (demo_peer 5) [2] [2] None], [7]) (demo_peer 1) None"
  let ?run = "read_run demo_read_env [RRun, RRun, RRun] ?s
     :: (nat, nat, demo_stream, unit) read_service \<times> (nat, nat, nat, nat, nat, nat, unit, nat, nat) rd_reply list"
  let ?pre = "[RRMainLoop (MLNewPeerChallenge (demo_peer 5) 4 [1]),
     RRMainLoop (MLNewPeerUncheckedChallenge (demo_peer 5) Normal 4 [2] None)]
     :: (nat, nat, nat, nat, nat, nat, unit, nat, nat) rd_reply list"
  let ?rep = "RRGlobal (GDistant (Some (demo_peer 5)) 7)"
  have run: "?run = (fst ?run, ?pre @ ?rep # [])"
    by (simp add: read_eval)
  have md: "r_auth_mode demo_read_env = Public" by (simp add: demo_read_env_def)
  have "\<exists>p chal sig. Some (demo_peer 5) = Some p \<and> r_checkmsg demo_read_env p chal sig
      \<and> (\<exists>r\<in>set ?pre. announces r p chal)"
    by (rule messages_only_from_authenticated_peer [OF _ run [folded md]]) (simp_all add: md)
  moreover from run have "snd ?run = ?pre @ ?rep # []" by (metis snd_conv)
  ultimately show ?thesis by (simp add: Let_def)
qed

text \<open>
  The pong is not compared with the ping before it: once a ping of an acceptable peer came in
  on a connection, a correctly signed pong of any other peer authenticates the connection as
  that peer, with the priority of the first, even when the peer management refuses it.
\<close>

theorem pong_after_ping_skips_accept:
  assumes "r_auth_mode env \<noteq> NoAuth" and "\<not> ris_auth s" and "rstream s = Some st"
    and "r_header env (ShadRAuth (rfrom s)) st = (sta, Ok ())"
    and "r_decode env (ShadRAuth (rfrom s)) sta = (stb, Ok (PONG p chal sig nc))"
    and "r_att_size env p = 0" and "r_end env (ShadRAuth (rfrom s)) stb = (stc, Ok ())"
    and "r_checkmsg env p chal sig" and "rprio s = Some prio1" and "r_accept env p = None"
  shows "read_call env RRun s =
     (s\<lparr>rstream := Some stc, ris_auth := True, rwith := Some p\<rparr>,
      LOk (RRMainLoop (MLNewPeerUncheckedChallenge p prio1 (rtoken s) chal nc)))"
  using assms
  by (simp add: read_auth_def on_pong_def read_attachment_def switch_auth_def rd_def bind_def gets_def
      ret_def modify_def)

theorem pong_after_ping_skips_accept_witness:
  "let s = read_service_new Public 4 ([PING (demo_peer 5) [1] [1], PONG (demo_peer 6) [2] [2] None], [7]) (demo_peer 1) None;
       s1 = fst (read_call demo_read_env RRun s
          :: _ \<times> (nat, nat, nat, nat, nat, nat, unit, nat, nat) rd_reply loop_result)
   in r_accept demo_read_env (demo_peer 6) = None
      \<and> snd (read_call demo_read_env RRun s1) =
        LOk (RRMainLoop (MLNewPeerUncheckedChallenge (demo_peer 6) Normal 4 [2] None)
          :: (nat, nat, nat, nat, nat, nat, unit, nat, nat) rd_reply)"
proof -
  let ?s = "read_service_new Public 4 ([PING (demo_peer 5) [1] [1], PONG (demo_peer 6) [2] [2] None], [7]) (demo_peer 1) None"
  let ?s1 = "fst (read_call demo_read_env RRun ?s
          :: _ \<times> (nat, nat, nat, nat, nat, nat, unit, nat, nat) rd_reply loop_result)"
  have "read_call demo_read_env RRun ?s1 =
     (?s1\<lparr>rstream := Some ([], [7]), ris_auth := True, rwith := Some (demo_peer 6)\<rparr>,
      LOk (RRMainLoop (MLNewPeerUncheckedChallenge (demo_peer 6) Normal (rtoken ?s1) [2] None)))"
    by (rule pong_after_ping_skips_accept
          [where st = "([PONG (demo_peer 6) [2] [2] None], [7])" and sta = "([PONG (demo_peer 6) [2] [2] None], [7])"
             and stb = "([], [7])" and sig = "[2]"])
       (simp_all add: read_eval)
  then show ?thesis by (simp add: Let_def) (simp add: read_eval)
qed

end
