(* ===== verification/Api.thy ===== *)
theory Api
  imports Readservice
begin

text \<open>
  The api service (\<open>mydht/src/procs/api.rs\<close>): it gives an identifier to every query that expects
  a reply, remembers where its results go and counts them.  An \<open>ApiReturn\<close> is a handle on a
  \<open>OneResult\<close> shared with the caller, kept in the store of the service; the counters are machine
  integers, whose underflow panics when overflow checks are on and poisons the mutex.
\<close>

section \<open>Results shared with the caller\<close>

record 'x one_result =
  or_results :: "'x list"
  or_nb_res :: usize
  or_nb_err :: usize
  or_done :: bool
  or_notified :: nat
  or_poisoned :: bool

definition one_result_new :: "usize \<Rightarrow> usize \<Rightarrow> 'x one_result" where
  "one_result_new nb_res1 nb_err1 =
     \<lparr>or_results = [], or_nb_res = nb_res1, or_nb_err = nb_err1, or_done = False, or_notified = 0,
      or_poisoned = False\<rparr>"

text \<open>The body of \<open>api_return\<close> under the lock; \<open>cv\<close> is \<open>get_sendable\<close> or the identity.\<close>

definition count_result ::
    "bool \<Rightarrow> ('mr api_result \<Rightarrow> 'x) \<Rightarrow> 'mr api_result \<Rightarrow> ('x one_result, unit) act" where
  "count_result ck cv rep =
     (case rep of
        ResNoResult \<Rightarrow>
          bind (gets or_nb_err) (\<lambda>e.
          bind (lift (checked_sub ck e 1)) (\<lambda>e'.
          modify (\<lambda>o1. o1\<lparr>or_nb_err := e'\<rparr>)))
      | ResServiceReply _ \<Rightarrow>
          bind (modify (\<lambda>o1. o1\<lparr>or_results := or_results o1 @ [cv rep]\<rparr>)) (\<lambda>_.
          bind (gets or_nb_res) (\<lambda>n.
          bind (lift (checked_sub ck n 1)) (\<lambda>n'.
          bind (modify (\<lambda>o1. o1\<lparr>or_nb_res := n'\<rparr>)) (\<lambda>_.
          bind (gets or_nb_err) (\<lambda>e.
          bind (lift (checked_sub ck e 1)) (\<lambda>e'.
          modify (\<lambda>o1. o1\<lparr>or_nb_err := e'\<rparr>))))))))"

definition api_return ::
    "bool \<Rightarrow> ('mr api_result \<Rightarrow> 'x) \<Rightarrow> 'mr api_result \<Rightarrow> 'x one_result \<Rightarrow> 'x one_result \<times> bool outcome" where
  "api_return ck cv rep o1 =
     (if or_poisoned o1 then (o1, Ok False)
      else (case count_result ck cv rep o1 of
              (o2, LOk _) \<Rightarrow>
                if or_nb_res o2 = 0 \<or> or_nb_err o2 = 0
                then (o2\<lparr>or_done := True, or_nb_res := 1, or_nb_err := 1, or_notified := or_notified o2 + 1\<rparr>, Ok True)
                else (o2, Ok False)
            | (o2, _) \<Rightarrow> (o2\<lparr>or_poisoned := True\<rparr>, Panic)))"

fun result_get_sendable :: "('mr \<Rightarrow> 'ms) \<Rightarrow> 'mr api_result \<Rightarrow> 'ms api_result" where
  "result_get_sendable h (ResServiceReply rep) = ResServiceReply (h rep)"
| "result_get_sendable h ResNoResult = ResNoResult"

fun result_to_ref :: "('ms \<Rightarrow> 'mr) \<Rightarrow> 'ms api_result \<Rightarrow> 'mr api_result" where
  "result_to_ref h (ResServiceReply rep) = ResServiceReply (h rep)"
| "result_to_ref h ResNoResult = ResNoResult"

text \<open>The two implementations of the trait: the results as they are, and in sendable form.\<close>

definition api_return_plain ::
    "bool \<Rightarrow> 'mr api_result \<Rightarrow> 'mr api_result one_result \<Rightarrow> 'mr api_result one_result \<times> bool outcome" where
  "api_return_plain ck = api_return ck (\<lambda>r. r)"

definition api_return_send ::
    "('mr \<Rightarrow> 'ms) \<Rightarrow> bool \<Rightarrow> 'mr api_result \<Rightarrow> 'ms api_result one_result \<Rightarrow> 'ms api_result one_result \<times> bool outcome" where
  "api_return_send h ck = api_return ck (result_get_sendable h)"

section \<open>The service\<close>

record 'x api =
  api_queries :: "(usize, nat \<times> nat) hashmap"
  api_duration :: nat
  api_last_id :: usize
  api_returns :: "nat \<Rightarrow> 'x one_result"

record ('k, 'a, 'l, 'c, 'lr, 'gr, 'x) api_env =
  ae_ck :: bool
  ae_now :: nat
  ae_local_is :: "'l \<Rightarrow> bool"
  ae_global_is :: "'c \<Rightarrow> bool"
  ae_local_set :: "usize \<Rightarrow> 'l \<Rightarrow> 'l"
  ae_global_set :: "usize \<Rightarrow> 'c \<Rightarrow> 'c"
  ae_local_rep :: "'lr \<Rightarrow> usize option"
  ae_global_rep :: "'gr \<Rightarrow> usize option"
  ae_conv :: "('lr, 'gr, ('k, 'a) peer kv_reply) mc_reply api_result \<Rightarrow> 'x"

type_synonym ('k, 'a, 'lr, 'gr) mc_rep = "('lr, 'gr, ('k, 'a) peer kv_reply) mc_reply"

type_synonym ('k, 'a, 'l, 'c, 'f, 'g) mc_cmd = "('l, 'c, ('k, 'a, 'f, 'g) peer_command, 'a) mc_command"

type_synonym ('k, 'a, 'l, 'c, 'f, 'g, 'lr, 'gr, 'rs, 'ws) mlc =
  "('k, 'a, 'c, ('k, 'a, 'l, 'c, 'f, 'g) mc_cmd, ('k, 'a, 'f, 'g) peer_command, ('k, 'a, 'lr, 'gr) mc_rep, nat, 'rs, 'ws) ml_command"

text \<open>A result for the query \<open>qid\<close>; the query is forgotten when the return says it is complete.\<close>

definition api_result_for ::
    "('k, 'a, 'l, 'c, 'lr, 'gr, 'x) api_env \<Rightarrow> usize \<Rightarrow> ('k, 'a, 'lr, 'gr) mc_rep api_result \<Rightarrow> ('x api, bool) act" where
  "api_result_for env qid rep s =
     (case hashmap_get_val_c (api_queries s) qid of
        Some (rt, expire) \<Rightarrow>
          (case api_return (ae_ck env) (ae_conv env) rep (api_returns s rt) of
             (o2, r) \<Rightarrow> (s\<lparr>api_returns := (api_returns s)(rt := o2)\<rparr>, of_outcome r))
      | None \<Rightarrow> (s, LOk False))"

definition api_forget :: "usize \<Rightarrow> ('x api, unit) act" where
  "api_forget qid = modify (\<lambda>s. s\<lparr>api_queries := fst (hashmap_remove_val_c qid (api_queries s))\<rparr>)"

text \<open>The loop of \<open>Adjust\<close>: \<open>nb\<close> times no result, the last answer counts.\<close>

fun api_adjust ::
    "('k, 'a, 'l, 'c, 'lr, 'gr, 'x) api_env \<Rightarrow> usize \<Rightarrow> nat \<Rightarrow> bool \<Rightarrow> ('x api, bool) act" where
  "api_adjust env qid 0 r = ret r"
| "api_adjust env qid (Suc nb) r = bind (api_result_for env qid ResNoResult) (api_adjust env qid nb)"

definition api_register ::
    "('k, 'a, 'l, 'c, 'lr, 'gr, 'x) api_env \<Rightarrow> ('k, 'a, 'l, 'c, 'f, 'g) mc_cmd \<Rightarrow> nat
      \<Rightarrow> ('x api, ('k, 'a, 'l, 'c, 'f, 'g) mc_cmd) act" where
  "api_register env lsc rt =
     (if mc_is_api_reply (ae_local_is env) (ae_global_is env) lsc
      then bind (gets api_last_id) (\<lambda>i.
           bind (lift (checked_add (ae_ck env) i 1)) (\<lambda>qid.
           bind (modify (\<lambda>s. s\<lparr>api_last_id := qid,
                   api_queries := hashmap_add_val_c qid (rt, ae_now env + api_duration s) (api_queries s)\<rparr>)) (\<lambda>_.
           ret (mc_set_api_reply (ae_local_set env) (ae_global_set env) qid lsc))))
      else ret lsc)"

fun api_proxy ::
    "nat \<Rightarrow> ('k, 'a, 'l, 'c, 'f, 'g) mc_cmd \<Rightarrow> ('k, 'a, 'l, 'c, 'f, 'g, 'lr, 'gr, 'rs, 'ws) mlc" where
  "api_proxy nbf (MCLocal c) = MLForwardService None None \<lparr>nb_for = nbf, discover = False\<rparr> (MCLocal c)"
| "api_proxy nbf (MCGlobal gsc) = MLProxyGlobal (GLocal gsc)"
| "api_proxy nbf (MCPeerStore gsc) = MLPeerStore (GLocal gsc)"
| "api_proxy nbf (MCTryConnect ad oaid) = MLTryConnect ad oaid"

fun api_call ::
    "('k, 'a, 'l, 'c, 'lr, 'gr, 'x) api_env
      \<Rightarrow> (('k, 'a, 'l, 'c, 'f, 'g, 'lr, 'gr, 'rs, 'ws) mlc, ('k, 'a, 'l, 'c, 'f, 'g) mc_cmd, ('k, 'a, 'lr, 'gr) mc_rep, nat) api_command
      \<Rightarrow> ('x api, (('k, 'a, 'l, 'c, 'f, 'g, 'lr, 'gr, 'rs, 'ws) mlc, 'lr, 'gr) api_reply) act" where
  "api_call env (ApiMainLoop mlc) = ret (ApiProxyMainloop mlc)"
| "api_call env (ApiFailure qid) =
     bind (api_result_for env qid ResNoResult) (\<lambda>rem.
     bind (if rem then api_forget qid else ret ()) (\<lambda>_. ret ApiDone))"
| "api_call env (ApiAdjust qid nb) =
     bind (api_adjust env qid nb False) (\<lambda>rem.
     bind (if rem then api_forget qid else ret ()) (\<lambda>_. ret ApiDone))"
| "api_call env (ApiServiceCommand lsc nbf rt) =
     bind (api_register env lsc rt) (\<lambda>lsc'. ret (ApiProxyMainloop (api_proxy nbf lsc')))"
| "api_call env (ApiServiceReply lsr) =
     (case mc_reply_api_reply (ae_local_rep env) (ae_global_rep env) lsr of
        Some qid \<Rightarrow>
          bind (api_result_for env qid (ResServiceReply lsr)) (\<lambda>rem.
          bind (if rem then api_forget qid else ret ()) (\<lambda>_. ret ApiDone))
      | None \<Rightarrow> ret ApiDone)"

section \<open>Commands of the caller\<close>

type_synonym ('k, 'a, 'l, 'c, 'f, 'g, 'lr, 'gr, 'rs, 'ws) api_cmd =
  "(('k, 'a, 'l, 'c, 'f, 'g, 'lr, 'gr, 'rs, 'ws) mlc, ('k, 'a, 'l, 'c, 'f, 'g) mc_cmd, ('k, 'a, 'lr, 'gr) mc_rep, nat) api_command"

definition try_connect :: "'a \<Rightarrow> ('k, 'a, 'l, 'c, 'f, 'g, 'lr, 'gr, 'rs, 'ws) api_cmd" where
  "try_connect ad = ApiMainLoop (MLTryConnect ad None)"

definition try_connect_reply :: "'a \<Rightarrow> nat \<Rightarrow> ('k, 'a, 'l, 'c, 'f, 'g, 'lr, 'gr, 'rs, 'ws) api_cmd" where
  "try_connect_reply ad rt = ApiServiceCommand (MCTryConnect ad None) 0 rt"

text \<open>\<open>ping_code\<close> is the pointer to \<open>peer_ping\<close> that the command carries.\<close>

definition refresh_peer :: "'f \<Rightarrow> nat \<Rightarrow> ('k, 'a, 'l, 'c, 'f, 'g, 'lr, 'gr, 'rs, 'ws) api_cmd" where
  "refresh_peer ping_code nb = ApiMainLoop (MLPeerStore (GLocal (Subset nb ping_code)))"

definition call_peer_reply ::
    "('k, 'a, 'f, 'g) peer_command \<Rightarrow> nat \<Rightarrow> ('k, 'a, 'l, 'c, 'f, 'g, 'lr, 'gr, 'rs, 'ws) api_cmd" where
  "call_peer_reply c rt = ApiServiceCommand (MCPeerStore c) 0 rt"

definition call_service_reply :: "'c \<Rightarrow> nat \<Rightarrow> ('k, 'a, 'l, 'c, 'f, 'g, 'lr, 'gr, 'rs, 'ws) api_cmd" where
  "call_service_reply c rt = ApiServiceCommand (MCGlobal c) 0 rt"

definition call_service :: "'c \<Rightarrow> ('k, 'a, 'l, 'c, 'f, 'g, 'lr, 'gr, 'rs, 'ws) api_cmd" where
  "call_service c = ApiMainLoop (MLProxyGlobal (GLocal c))"

definition call_service_local :: "'l \<Rightarrow> nat \<Rightarrow> ('k, 'a, 'l, 'c, 'f, 'g, 'lr, 'gr, 'rs, 'ws) api_cmd" where
  "call_service_local c nbf =
     ApiMainLoop (MLForwardService None None \<lparr>nb_for = nbf, discover = False\<rparr> (MCLocal c))"

definition call_service_local_reply ::
    "'l \<Rightarrow> nat \<Rightarrow> nat \<Rightarrow> ('k, 'a, 'l, 'c, 'f, 'g, 'lr, 'gr, 'rs, 'ws) api_cmd" where
  "call_service_local_reply c nbf rt = ApiServiceCommand (MCLocal c) nbf rt"

text \<open>\<open>DHTIn::send\<close> and \<open>ApiDest::send\<close>: what reaches the main loop.\<close>

fun dhtin_send ::
    "('k, 'a, 'l, 'c, 'f, 'g, 'lr, 'gr, 'rs, 'ws) api_cmd \<Rightarrow> ('k, 'a, 'l, 'c, 'f, 'g, 'lr, 'gr, 'rs, 'ws) mlc outcome" where
  "dhtin_send (ApiMainLoop ic) = Ok ic"
| "dhtin_send (ApiFailure _) = Panic"
| "dhtin_send (ApiAdjust _ _) = Panic"
| "dhtin_send (ApiServiceCommand cmd nb_f rt) = Ok (MLForwardApi cmd nb_f rt)"
| "dhtin_send (ApiServiceReply _) = Panic"

fun apidest_send :: "('mlc, 'lr, 'gr) api_reply \<Rightarrow> 'mlc list outcome" where
  "apidest_send ApiDone = Ok []"
| "apidest_send (ApiProxyMainloop cmd) = Ok [cmd]"
| "apidest_send (ApiLocalServiceReply _) = Panic"
| "apidest_send (ApiGlobalServiceReply _) = Panic"

section \<open>Counting the results\<close>

fun is_reply :: "'mr api_result \<Rightarrow> bool" where
  "is_reply (ResServiceReply _) = True"
| "is_reply ResNoResult = False"

definition replies :: "'mr api_result list \<Rightarrow> 'mr api_result list" where
  "replies rs = filter is_reply rs"

text \<open>
  The results \<open>rs\<close> are what a caller waits for that wants \<open>n\<close> replies or \<open>e\<close> results in all:
  no first part of them is enough, the whole is.
\<close>

definition just_enough :: "nat \<Rightarrow> nat \<Rightarrow> 'mr api_result list \<Rightarrow> bool" where
  "just_enough n e rs \<longleftrightarrow>
     (length (replies rs) = n \<or> length rs = e)
     \<and> (\<forall>k<length rs. length (replies (take k rs)) < n \<and> k < e)"

lemma replies_simps [simp]: "replies [] = []" "replies (r # rs) = (if is_reply r then r # replies rs else replies rs)"
  by (simp_all add: replies_def)

lemma just_enough_Cons:
  "just_enough n e (r # rs) \<longleftrightarrow>
     0 < n \<and> 0 < e
     \<and> (if rs = [] then (is_reply r \<and> n = 1) \<or> e = 1
        else just_enough (if is_reply r then n - 1 else n) (e - 1) rs)"
proof (cases "rs = []")
  case True
  then show ?thesis by (auto simp: just_enough_def)
next
  case False
  then have "0 < length rs" by simp
  have "(\<forall>k<length (r # rs). length (replies (take k (r # rs))) < n \<and> k < e) \<longleftrightarrow>
      0 < n \<and> 0 < e \<and> (\<forall>k<length rs. length (replies (r # take k rs)) < n \<and> Suc k < e)"
    unfolding list.size(4) add_Suc_right add_0_right All_less_Suc2 by simp
  moreover have "(\<forall>k<length rs. length (replies (r # take k rs)) < n \<and> Suc k < e) \<longleftrightarrow>
      (\<forall>k<length rs. length (replies (take k rs)) < (if is_reply r then n - 1 else n) \<and> k < e - 1)"
    by (intro all_cong) auto
  moreover have "0 < (if is_reply r then n - 1 else n)" "0 < e - 1"
    if "\<forall>k<length rs. length (replies (take k rs)) < (if is_reply r then n - 1 else n) \<and> k < e - 1"
    using that \<open>0 < length rs\<close> by (force dest: spec [of _ 0])+
  ultimately show ?thesis
    using False by (auto simp: just_enough_def)
qed

lemma just_enough_pos: "just_enough n e rs \<Longrightarrow> rs \<noteq> [] \<Longrightarrow> 0 < n \<and> 0 < e"
  by (cases rs) (simp_all add: just_enough_Cons)

text \<open>The state of a return after results that were not enough.\<close>

definition counted :: "('mr api_result \<Rightarrow> 'x) \<Rightarrow> 'mr api_result \<Rightarrow> 'x one_result \<Rightarrow> 'x one_result" where
  "counted cv r o1 =
     (if is_reply r
      then o1\<lparr>or_results := or_results o1 @ [cv r], or_nb_res := or_nb_res o1 - 1, or_nb_err := or_nb_err o1 - 1\<rparr>
      else o1\<lparr>or_nb_err := or_nb_err o1 - 1\<rparr>)"

definition completed :: "('mr api_result \<Rightarrow> 'x) \<Rightarrow> 'mr api_result \<Rightarrow> 'x one_result \<Rightarrow> 'x one_result" where
  "completed cv r o1 =
     (counted cv r o1)\<lparr>or_done := True, or_nb_res := 1, or_nb_err := 1, or_notified := or_notified o1 + 1\<rparr>"

lemma count_result_counted:
  "or_nb_res o1 \<noteq> 0 \<Longrightarrow> or_nb_err o1 \<noteq> 0 \<Longrightarrow> count_result ck cv r o1 = (counted cv r o1, LOk ())"
  by (cases r) (simp_all add: count_result_def counted_def checked_sub_def unat_gt_0 act_simps)

lemma api_return_counted:
  assumes "\<not> or_poisoned o1" and "or_nb_res o1 \<noteq> 0" and "or_nb_err o1 \<noteq> 0"
  shows "api_return ck cv r o1 =
     (if is_reply r \<and> or_nb_res o1 = 1 \<or> or_nb_err o1 = 1 then (completed cv r o1, Ok True)
      else (counted cv r o1, Ok False))"
  using assms
  by (cases r) (auto simp: api_return_def count_result_counted counted_def completed_def)

section \<open>Properties\<close>

definition api_run ::
    "('k, 'a, 'l, 'c, 'lr, 'gr, 'x) api_env \<Rightarrow> ('k, 'a, 'l, 'c, 'f, 'g, 'lr, 'gr, 'rs, 'ws) api_cmd list \<Rightarrow> ('x api, unit) act" where
  "api_run env cs = for_each (\<lambda>c. bind (api_call env c) (\<lambda>_. ret ())) cs"

text \<open>The command brings the result \<open>r\<close> to the query \<open>qid\<close>.\<close>

fun brings ::
    "('k, 'a, 'l, 'c, 'lr, 'gr, 'x) api_env \<Rightarrow> usize \<Rightarrow> ('k, 'a, 'l, 'c, 'f, 'g, 'lr, 'gr, 'rs, 'ws) api_cmd
      \<Rightarrow> ('k, 'a, 'lr, 'gr) mc_rep api_result \<Rightarrow> bool" where
  "brings env qid (ApiFailure q) r \<longleftrightarrow> q = qid \<and> r = ResNoResult"
| "brings env qid (ApiServiceReply l) r \<longleftrightarrow> mc_reply_api_reply (ae_local_rep env) (ae_global_rep env) l = Some qid \<and> r = ResServiceReply l"
| "brings env qid _ r \<longleftrightarrow> False"

lemma brings_call:
  assumes "brings env qid c r"
  shows "bind (api_call env c) (\<lambda>_. ret ()) =
     bind (api_result_for env qid r) (\<lambda>rem. if rem then api_forget qid else ret ())"
  by (rule ext, use assms in \<open>cases c\<close>) (auto simp: bind_def ret_def split: prod.splits loop_result.splits)

lemma result_for_counted:
  assumes "hashmap_get_val_c (api_queries s) qid = Some (rt, x)" and "api_returns s rt = o1"
    and "\<not> or_poisoned o1" and "or_nb_res o1 \<noteq> 0" and "or_nb_err o1 \<noteq> 0"
  shows "bind (api_result_for env qid r) (\<lambda>rem. if rem then api_forget qid else ret ()) s =
     (if is_reply r \<and> or_nb_res o1 = 1 \<or> or_nb_err o1 = 1
      then (s\<lparr>api_returns := (api_returns s)(rt := completed (ae_conv env) r o1),
              api_queries := fst (hashmap_remove_val_c qid (api_queries s))\<rparr>, LOk ())
      else (s\<lparr>api_returns := (api_returns s)(rt := counted (ae_conv env) r o1)\<rparr>, LOk ()))"
  using assms
  by (simp add: bind_def api_result_for_def api_return_counted api_forget_def modify_def ret_def)

lemma counted_fields:
  "or_nb_err (counted cv r o1) = or_nb_err o1 - 1"
  "or_nb_res (counted cv r o1) = (if is_reply r then or_nb_res o1 - 1 else or_nb_res o1)"
  "or_results (counted cv r o1) = or_results o1 @ (if is_reply r then [cv r] else [])"
  "or_poisoned (counted cv r o1) = or_poisoned o1"
  by (simp_all add: counted_def)

lemma completed_fields:
  "or_done (completed cv r o1)" "or_notified (completed cv r o1) = or_notified o1 + 1"
  "or_results (completed cv r o1) = or_results o1 @ (if is_reply r then [cv r] else [])"
  by (simp_all add: completed_def counted_def)

lemma unat_eq_1_iff: "unat (a :: 'a::len word) = Suc 0 \<longleftrightarrow> a = 1"
  by (metis One_nat_def unat_1 word_unat_eq_iff)

lemma api_run_completes:
  assumes "list_all2 (brings env qid) cs rs"
    and "just_enough (unat (or_nb_res o1)) (unat (or_nb_err o1)) rs" and "rs \<noteq> []"
    and "hashmap_get_val_c (api_queries s) qid = Some (rt, x)" and "api_returns s rt = o1"
    and "\<not> or_poisoned o1"
  shows "\<exists>o2. api_run env cs s =
       (s\<lparr>api_returns := (api_returns s)(rt := o2),
          api_queries := fst (hashmap_remove_val_c qid (api_queries s))\<rparr>, LOk ())
     \<and> or_done o2 \<and> or_results o2 = or_results o1 @ map (ae_conv env) (replies rs)"
  using assms
proof (induction rs arbitrary: s o1 cs rule: list.induct)
  case Nil
  then show ?case by simp
next
  case (Cons r rs)
  from Cons.prems(1) obtain c cs' where cs: "cs = c # cs'" and c: "brings env qid c r"
    and cs': "list_all2 (brings env qid) cs' rs" by (auto simp: list_all2_Cons2)
  from Cons.prems(2) have pos: "or_nb_res o1 \<noteq> 0" "or_nb_err o1 \<noteq> 0"
    by (auto simp: just_enough_Cons unat_gt_0)
  note step = result_for_counted [OF Cons.prems(4,5,6) pos, of env r]
  have run: "api_run env cs s =
      bind (bind (api_result_for env qid r) (\<lambda>rem. if rem then api_forget qid else ret ())) (\<lambda>_. api_run env cs') s"
    by (simp add: api_run_def cs brings_call [OF c])
  show ?case
  proof (cases "rs = []")
    case True
    with cs' have "cs' = []" by simp
    have fin: "is_reply r \<and> or_nb_res o1 = 1 \<or> or_nb_err o1 = 1"
      using Cons.prems(2) True by (simp add: just_enough_Cons unat_eq_1_iff)
    have "api_run env cs s =
       (s\<lparr>api_returns := (api_returns s)(rt := completed (ae_conv env) r o1),
          api_queries := fst (hashmap_remove_val_c qid (api_queries s))\<rparr>, LOk ())"
      unfolding run by (simp add: bind_def [of "bind _ _"] step fin \<open>cs' = []\<close> api_run_def ret_def)
    with True show ?thesis
      by (intro exI [of _ "completed (ae_conv env) r o1"] conjI) (simp_all add: completed_fields fun_upd_def)
  next
    case False
    let ?o = "counted (ae_conv env) r o1"
    let ?s = "s\<lparr>api_returns := (api_returns s)(rt := ?o)\<rparr>"
    have je: "just_enough (if is_reply r then unat (or_nb_res o1) - 1 else unat (or_nb_res o1)) (unat (or_nb_err o1) - 1) rs"
      using Cons.prems(2) False by (simp add: just_enough_Cons)
    then have je': "just_enough (unat (or_nb_res ?o)) (unat (or_nb_err ?o)) rs"
      using pos by (simp add: counted_fields unat_dec split: if_splits)
    have "\<not> (is_reply r \<and> or_nb_res o1 = 1 \<or> or_nb_err o1 = 1)"
      using just_enough_pos [OF je False] by (auto split: if_splits)
    with step have first: "api_run env cs s = api_run env cs' ?s"
      by (simp add: run bind_def [of "bind _ _"])
    have "\<exists>o2. api_run env cs' ?s =
       (?s\<lparr>api_returns := (api_returns ?s)(rt := o2),
          api_queries := fst (hashmap_remove_val_c qid (api_queries ?s))\<rparr>, LOk ())
       \<and> or_done o2 \<and> or_results o2 = or_results ?o @ map (ae_conv env) (replies rs)"
      by (rule Cons.IH [OF cs' je' False]) (use Cons.prems(4-6) in \<open>simp_all add: counted_fields\<close>)
    then obtain o2 where o2: "api_run env cs' ?s =
       (?s\<lparr>api_returns := (api_returns ?s)(rt := o2),
          api_queries := fst (hashmap_remove_val_c qid (api_queries ?s))\<rparr>, LOk ())"
       "or_done o2" "or_results o2 = or_results ?o @ map (ae_conv env) (replies rs)" by blast
    have "api_run env cs s =
       (s\<lparr>api_returns := (api_returns s)(rt := o2),
          api_queries := fst (hashmap_remove_val_c qid (api_queries s))\<rparr>, LOk ())"
      unfolding first o2(1) by simp
    then show ?thesis
      using o2(2,3) by (intro exI [of _ o2] conjI) (assumption | simp add: counted_fields)+
  qed
qed


definition demo_api_env :: "(nat, nat, nat, nat, nat, usize, ((nat, nat, nat, usize) mc_rep) api_result) api_env" where
  "demo_api_env =
     \<lparr>ae_ck = True, ae_now = 10, ae_local_is = \<lambda>l. False, ae_global_is = \<lambda>c. True, ae_local_set = \<lambda>i l. l,
      ae_global_set = \<lambda>i c. unat i, ae_local_rep = \<lambda>l. None, ae_global_rep = Some, ae_conv = \<lambda>r. r\<rparr>"


definition api_keys :: "'x api \<Rightarrow> usize set" where
  "api_keys s = set (map fst (api_queries s))"

text \<open>No identifier above the last one given is in use.\<close>

definition api_fresh :: "'x api \<Rightarrow> bool" where
  "api_fresh s \<longleftrightarrow> (\<forall>q\<in>api_keys s. unat q \<le> unat (api_last_id s))"

definition fewer :: "'x api \<Rightarrow> 'x api \<Rightarrow> bool" where
  "fewer s t \<longleftrightarrow> api_keys t \<subseteq> api_keys s \<and> api_last_id t = api_last_id s"

interpretation fw: state_rel fewer
  by unfold_locales (auto simp: fewer_def)

lemma fewer_result_for [intro!]: "keeps fewer (api_result_for env qid r)"
  by (auto simp: keeps_def fewer_def api_keys_def api_result_for_def split: option.splits prod.splits)

lemma fewer_forget [intro!]: "keeps fewer (api_forget qid)"
  by (auto simp: keeps_def fewer_def api_keys_def api_forget_def modify_def hashmap_remove_val_c_def delete_keys)

lemma fewer_adjust [intro!]: "keeps fewer (api_adjust env qid nb r)"
  by (induction nb arbitrary: r) (auto intro!: fw.keeps_intros)

lemma fewer_call: "\<forall>lsc nbf rt. c \<noteq> ApiServiceCommand lsc nbf rt \<Longrightarrow> keeps fewer (api_call env c)"
  by (cases c) (auto intro!: fw.keeps_intros split: option.splits)

lemma api_register_cases:
  obtains (same) "fst (api_register env lsc rt s) = s"
  | (new) qid where "checked_add (ae_ck env) (api_last_id s) 1 = Ok qid"
      "fst (api_register env lsc rt s) =
        s\<lparr>api_last_id := qid,
          api_queries := hashmap_add_val_c qid (rt, ae_now env + api_duration s) (api_queries s)\<rparr>"
proof (cases "mc_is_api_reply (ae_local_is env) (ae_global_is env) lsc")
  case True
  then show ?thesis
    using same new
    by (cases "checked_add (ae_ck env) (api_last_id s) 1")
       (auto simp: api_register_def bind_def gets_def modify_def ret_def lift_def)
qed (use same in \<open>simp add: api_register_def ret_def\<close>)

lemma checked_add_one: "checked_add True (i :: usize) 1 = Ok q \<Longrightarrow> unat q = unat i + 1"
  by (auto simp: checked_add_def unat_word_ariths split: if_splits)

text \<open>
  C31. With overflow checks on, the api service never gives the identifier of a query that still
  waits to another query: in every state it reaches, the identifiers in use are at most the last
  one given, so that a new query displaces none of those that wait.
\<close>

theorem api_ids_never_reused:
  assumes "ae_ck env" and "api_fresh s" and "api_call env c s = (t, r)"
  shows "api_fresh t
     \<and> (\<forall>lsc nbf rt. c = ApiServiceCommand lsc nbf rt \<longrightarrow>
          (\<forall>q v. hashmap_get_val_c (api_queries s) q = Some v \<longrightarrow> hashmap_get_val_c (api_queries t) q = Some v))"
proof (cases "\<exists>lsc nbf rt. c = ApiServiceCommand lsc nbf rt")
  case False
  then have "keeps fewer (api_call env c)" by (intro fewer_call) blast
  from keepsD [OF this assms(3)] assms(2) False show ?thesis by (auto simp: fewer_def api_fresh_def)
next
  case True
  then obtain lsc nbf rt where c: "c = ApiServiceCommand lsc nbf rt" by blast
  from assms(3) c have t: "t = fst (api_register env lsc rt s)"
    by (auto simp: bind_def ret_def split: prod.splits loop_result.splits)
  show ?thesis
  proof (cases rule: api_register_cases [of env lsc rt s])
    case same
    with t assms(2) show ?thesis by simp
  next
    case (new qid)
    with assms(1) have q: "unat qid = unat (api_last_id s) + 1" by (simp add: checked_add_one)
    with assms(2) have "qid \<notin> api_keys s" by (fastforce simp: api_fresh_def)
    then have "hashmap_get_val_c (api_queries s) qid = None"
      by (simp add: hashmap_get_val_c_def map_of_eq_None_iff api_keys_def)
    with t new(2) q assms(2) show ?thesis
      by (force simp: api_fresh_def api_keys_def hashmap_add_val_c_def hashmap_get_val_c_def update_conv dom_update)
  qed
qed

theorem api_ids_never_reused_witness:
  "let s = \<lparr>api_queries = [(3, (8, 15)), (4, (9, 15))], api_duration = 5, api_last_id = 4,
            api_returns = \<lambda>h. one_result_new 2 3\<rparr>;
       t = fst (api_call demo_api_env (call_service_reply 7 2
          :: (nat, nat, nat, nat, unit, unit, nat, usize, nat, nat) api_cmd) s)
   in map fst (api_queries t) = [3, 4, 5] \<and> hashmap_get_val_c (api_queries t) 4 = Some (9, 15)"
proof -
  let ?s = "\<lparr>api_queries = [(3, (8, 15)), (4, (9, 15))], api_duration = 5, api_last_id = 4,
            api_returns = \<lambda>h. one_result_new 2 3\<rparr> :: ((nat, nat, nat, usize) mc_rep) api_result api"
  let ?c = "call_service_reply 7 2 :: (nat, nat, nat, nat, unit, unit, nat, usize, nat, nat) api_cmd"
  have "hashmap_get_val_c (api_queries (fst (api_call demo_api_env ?c ?s))) 4 = Some (9, 15)"
    using api_ids_never_reused [of demo_api_env ?s ?c "fst (api_call demo_api_env ?c ?s)"
        "snd (api_call demo_api_env ?c ?s)"]
    by (simp add: demo_api_env_def api_fresh_def api_keys_def call_service_reply_def hashmap_get_val_c_def)
  then show ?thesis
    by (simp add: Let_def) (simp add: demo_api_env_def call_service_reply_def api_register_def bind_def gets_def lift_def
        modify_def ret_def checked_add_def hashmap_add_val_c_def)
qed

end
