(* ===== verification/Mainloop.thy ===== *)
theory Mainloop
  imports Api
begin

text \<open>
  The main loop (\<open>mydht/src/procs/mainloop.rs\<close>): connections and their streams in a slab, the
  caches of peers, addresses and challenges, and the handling of every \<open>MainLoopCommand\<close>.

  What the loop does to the world is a log of events; the channels, spawners, the transport, the
  clock and the random challenges answer as functions of that log, so that they may answer
  differently at every call.  The caches are the \<open>HashMap\<close> of \<open>Kvcache\<close>.
\<close>

section \<open>State\<close>

type_synonym ('k, 'a, 'l, 'c, 'f, 'g) wcmd =
  "(('k, 'a) peer, ('k, 'a, 'l, 'c, 'f, 'g) mc_cmd) write_command"

text \<open>\<open>SlabEntryState\<close>: a write stream has a queue of commands and is connected or not yet.\<close>

datatype ('k, 'a, 'l, 'c, 'f, 'g, 'rs, 'ws) slab_state =
    SReadStream 'rs "('k, 'a) peer option"
  | SWriteStream 'ws "('k, 'a, 'l, 'c, 'f, 'g) wcmd list" bool
  | SWriteConnectSynch "('k, 'a, 'l, 'c, 'f, 'g) wcmd list" bool "('k, 'a) peer option"
  | SReadSpawned
  | SWriteSpawned
  | SEmpty

record ('k, 'a, 'l, 'c, 'f, 'g, 'rs, 'ws) slab_entry =
  se_state :: "('k, 'a, 'l, 'c, 'f, 'g, 'rs, 'ws) slab_state"
  se_os :: "usize option"
  se_peer :: "('k, 'a) peer option"

record address_cache_entry =
  ac_read :: "usize option"
  ac_write :: usize

record ('k, 'a) peer_cache_entry =
  pe_peer :: "('k, 'a) peer"
  pe_read :: "usize option"
  pe_write :: "usize option"
  pe_prio :: peer_priority

record ('k, 'a, 'l, 'c, 'f, 'g) challenge_entry =
  ch_write_tok :: usize
  ch_read_tok :: "usize option"
  ch_next_msg :: "('k, 'a, 'l, 'c, 'f, 'g) wcmd option"
  ch_next_qid :: "usize option"
  ch_api_qid :: "usize option"

datatype ('k, 'a, 'l, 'c, 'f, 'g, 'lr, 'gr, 'rs, 'ws) event =
    EvGlobal "(('k, 'a) peer, 'c) global_command"
  | EvPeerstore "(('k, 'a) peer, ('k, 'a, 'f, 'g) peer_command) global_command"
  | EvApi "('k, 'a, 'l, 'c, 'f, 'g, 'lr, 'gr, 'rs, 'ws) api_cmd"
  | EvOut "('k, 'a, 'lr, 'gr) mc_rep main_loop_reply"
  | EvChallenge bytes
  | EvConnect 'a
  | EvRegister usize
  | EvReregister usize
  | EvSpawnRead usize bool
  | EvSpawnWrite usize "('k, 'a) peer option" bool "('k, 'a, 'l, 'c, 'f, 'g) wcmd list"
  | EvWrite usize "('k, 'a, 'l, 'c, 'f, 'g) wcmd"
  | EvUnwrapWrite usize
  | EvRespawnWrite usize "('k, 'a, 'l, 'c, 'f, 'g) wcmd"
  | EvSynchSpawn nat usize 'a
  | EvSynchSend nat usize 'a
  | EvUnyield usize

type_synonym ('k, 'a, 'l, 'c, 'f, 'g, 'lr, 'gr, 'rs, 'ws) log =
  "('k, 'a, 'l, 'c, 'f, 'g, 'lr, 'gr, 'rs, 'ws) event list"

record ('k, 'a, 'l, 'c, 'f, 'g, 'lr, 'gr, 'rs, 'ws) mdht_state =
  me :: "('k, 'a) peer"
  transport_asynch :: bool
  slab :: "(usize \<times> ('k, 'a, 'l, 'c, 'f, 'g, 'rs, 'ws) slab_entry) list"
  peer_cache :: "('k, ('k, 'a) peer_cache_entry) hashmap"
  address_cache :: "('a, address_cache_entry) hashmap"
  challenge_cache :: "(bytes, ('k, 'a, 'l, 'c, 'f, 'g) challenge_entry) hashmap"
  discover_wait_route :: "(('k, 'a, 'l, 'c, 'f, 'g) mc_cmd \<times> nat \<times> nat) list"
  peer_find_address :: "(('k, 'a, 'l, 'c, 'f, 'g) mc_cmd \<times> 'k \<times> fw_conf) list"
  peer_pool_maintain :: nat
  peer_next_query :: nat
  synch_connect_ix :: nat
  synch_connect_len :: nat
  events :: "('k, 'a, 'l, 'c, 'f, 'g, 'lr, 'gr, 'rs, 'ws) log"

datatype send_res = Sent | Finished | SendErr error_kind

record ('k, 'a, 'l, 'c, 'f, 'g, 'lr, 'gr, 'rs, 'ws) ml_env =
  e_auth_mode :: shadow_auth_type
  e_use_api_service :: bool
  e_max_nb_discover_call :: nat
  e_nb_synch_connect :: nat
  e_send :: "('k, 'a, 'l, 'c, 'f, 'g, 'lr, 'gr, 'rs, 'ws) log \<Rightarrow> ('k, 'a, 'l, 'c, 'f, 'g, 'lr, 'gr, 'rs, 'ws) event \<Rightarrow> send_res"
  e_io :: "('k, 'a, 'l, 'c, 'f, 'g, 'lr, 'gr, 'rs, 'ws) log \<Rightarrow> ('k, 'a, 'l, 'c, 'f, 'g, 'lr, 'gr, 'rs, 'ws) event \<Rightarrow> error_kind option"
  e_connectwith :: "('k, 'a, 'l, 'c, 'f, 'g, 'lr, 'gr, 'rs, 'ws) log \<Rightarrow> 'a \<Rightarrow> ('ws \<times> 'rs option) outcome"
  e_register :: "('k, 'a, 'l, 'c, 'f, 'g, 'lr, 'gr, 'rs, 'ws) log \<Rightarrow> usize \<Rightarrow> bool outcome"
  e_challenge :: "('k, 'a, 'l, 'c, 'f, 'g, 'lr, 'gr, 'rs, 'ws) log \<Rightarrow> ('k, 'a) peer \<Rightarrow> bytes"
  e_unwrap :: "('k, 'a, 'l, 'c, 'f, 'g, 'lr, 'gr, 'rs, 'ws) log \<Rightarrow> usize \<Rightarrow> bool outcome"
  e_synch_finished :: "('k, 'a, 'l, 'c, 'f, 'g, 'lr, 'gr, 'rs, 'ws) log \<Rightarrow> nat \<Rightarrow> bool"
  e_now :: "('k, 'a, 'l, 'c, 'f, 'g, 'lr, 'gr, 'rs, 'ws) log \<Rightarrow> nat"
  e_vacant :: "usize list \<Rightarrow> usize"
  e_route :: "nat \<Rightarrow> ('k, 'a, 'l, 'c, 'f, 'g) mc_cmd \<Rightarrow> ('k, ('k, 'a) peer_cache_entry) hashmap
               \<Rightarrow> (('k, 'a, 'l, 'c, 'f, 'g) mc_cmd \<times> usize list) outcome"
  e_do_listen :: bool
  e_build_command :: "('k, 'a) peer peer_status_command \<Rightarrow> 'c option"
  e_get_read :: "'c \<Rightarrow> bool"
  e_extra_pool :: "nat \<Rightarrow> nat"
  e_pool_delay :: nat
  e_local_is :: "'l \<Rightarrow> bool"
  e_global_is :: "'c \<Rightarrow> bool"
  e_local_id :: "'l \<Rightarrow> usize option"
  e_global_id :: "'c \<Rightarrow> usize option"
  e_discover_fn :: 'f
  e_ping_fn :: 'f
  e_trusted_ping_fn :: 'f
  e_forward_ka_fn :: 'g

type_synonym ('k, 'a, 'l, 'c, 'f, 'g, 'lr, 'gr, 'rs, 'ws, 'r) mact =
  "(('k, 'a, 'l, 'c, 'f, 'g, 'lr, 'gr, 'rs, 'ws) mdht_state, 'r) act"

section \<open>Effects\<close>

definition record_event ::
    "('k, 'a, 'l, 'c, 'f, 'g, 'lr, 'gr, 'rs, 'ws) event \<Rightarrow> ('k, 'a, 'l, 'c, 'f, 'g, 'lr, 'gr, 'rs, 'ws, unit) mact" where
  "record_event ev = modify (\<lambda>s. s\<lparr>events := events s @ [ev]\<rparr>)"

text \<open>\<open>send_with_handle_panic!\<close>: a finished service is a panic.\<close>

definition send_or_panic ::
    "('k, 'a, 'l, 'c, 'f, 'g, 'lr, 'gr, 'rs, 'ws) ml_env \<Rightarrow> ('k, 'a, 'l, 'c, 'f, 'g, 'lr, 'gr, 'rs, 'ws) event
      \<Rightarrow> ('k, 'a, 'l, 'c, 'f, 'g, 'lr, 'gr, 'rs, 'ws, unit) mact" where
  "send_or_panic env ev =
     bind (gets (\<lambda>s. e_send env (events s) ev)) (\<lambda>r.
     case r of
       Sent \<Rightarrow> record_event ev
     | Finished \<Rightarrow> panic
     | SendErr e \<Rightarrow> fail (LoopErr e))"

text \<open>An effect that may fail with an error: a spawn, a send without handle.\<close>

definition do_io ::
    "('k, 'a, 'l, 'c, 'f, 'g, 'lr, 'gr, 'rs, 'ws) ml_env \<Rightarrow> ('k, 'a, 'l, 'c, 'f, 'g, 'lr, 'gr, 'rs, 'ws) event
      \<Rightarrow> ('k, 'a, 'l, 'c, 'f, 'g, 'lr, 'gr, 'rs, 'ws, unit) mact" where
  "do_io env ev =
     bind (gets (\<lambda>s. e_io env (events s) ev)) (\<lambda>r.
     case r of None \<Rightarrow> record_event ev | Some e \<Rightarrow> fail (LoopErr e))"

text \<open>A question to the environment, recorded with its event whatever the answer.\<close>

definition ask ::
    "(('k, 'a, 'l, 'c, 'f, 'g, 'lr, 'gr, 'rs, 'ws) log \<Rightarrow> 'r outcome)
      \<Rightarrow> ('k, 'a, 'l, 'c, 'f, 'g, 'lr, 'gr, 'rs, 'ws) event \<Rightarrow> ('k, 'a, 'l, 'c, 'f, 'g, 'lr, 'gr, 'rs, 'ws, 'r) mact" where
  "ask q ev =
     bind (gets (\<lambda>s. q (events s))) (\<lambda>r.
     bind (record_event ev) (\<lambda>_. lift r))"

text \<open>A fresh challenge, remembered with what follows when it is answered.\<close>

definition issue_challenge ::
    "('k, 'a, 'l, 'c, 'f, 'g, 'lr, 'gr, 'rs, 'ws) ml_env \<Rightarrow> ('k, 'a, 'l, 'c, 'f, 'g) challenge_entry
      \<Rightarrow> ('k, 'a, 'l, 'c, 'f, 'g, 'lr, 'gr, 'rs, 'ws, bytes) mact" where
  "issue_challenge env entry s =
     (let chal = e_challenge env (events s) (me s)
      in (s\<lparr>events := events s @ [EvChallenge chal],
            challenge_cache := hashmap_add_val_c chal entry (challenge_cache s)\<rparr>, LOk chal))"

definition take_challenge ::
    "bytes \<Rightarrow> ('k, 'a, 'l, 'c, 'f, 'g, 'lr, 'gr, 'rs, 'ws, ('k, 'a, 'l, 'c, 'f, 'g) challenge_entry option) mact" where
  "take_challenge chal s =
     (case hashmap_remove_val_c chal (challenge_cache s) of
        (cc, oentry) \<Rightarrow> (s\<lparr>challenge_cache := cc\<rparr>, LOk oentry))"

text \<open>The slab (\<open>mydht-slab/src/lib.rs\<close>): the \<open>slab\<close> crate chooses a vacant key.
  No vector holds \<open>2 ^ 64\<close> entries, so that an insertion into such a slab panics.\<close>

definition slab_insert ::
    "('k, 'a, 'l, 'c, 'f, 'g, 'lr, 'gr, 'rs, 'ws) ml_env \<Rightarrow> ('k, 'a, 'l, 'c, 'f, 'g, 'rs, 'ws) slab_entry
      \<Rightarrow> ('k, 'a, 'l, 'c, 'f, 'g, 'lr, 'gr, 'rs, 'ws, usize) mact" where
  "slab_insert env e s =
     (if int (length (slab s)) < 2 ^ 64
      then let tok = e_vacant env (map fst (slab s)) in (s\<lparr>slab := (tok, e) # slab s\<rparr>, LOk tok)
      else (s, LPanic))"

definition slab_get ::
    "('k, 'a, 'l, 'c, 'f, 'g, 'lr, 'gr, 'rs, 'ws) mdht_state \<Rightarrow> usize
      \<Rightarrow> ('k, 'a, 'l, 'c, 'f, 'g, 'rs, 'ws) slab_entry option" where
  "slab_get s tok = map_of (slab s) tok"

definition slab_modify ::
    "usize \<Rightarrow> (('k, 'a, 'l, 'c, 'f, 'g, 'rs, 'ws) slab_entry \<Rightarrow> ('k, 'a, 'l, 'c, 'f, 'g, 'rs, 'ws) slab_entry)
      \<Rightarrow> ('k, 'a, 'l, 'c, 'f, 'g, 'lr, 'gr, 'rs, 'ws, unit) mact" where
  "slab_modify tok h =
     modify (\<lambda>s. s\<lparr>slab := map (\<lambda>(t, e). (t, if t = tok then h e else e)) (slab s)\<rparr>)"

definition slab_set ::
    "usize \<Rightarrow> ('k, 'a, 'l, 'c, 'f, 'g, 'rs, 'ws) slab_state \<Rightarrow> ('k, 'a, 'l, 'c, 'f, 'g, 'lr, 'gr, 'rs, 'ws, unit) mact" where
  "slab_set tok st = slab_modify tok (\<lambda>e. e\<lparr>se_state := st\<rparr>)"

definition slab_remove ::
    "usize \<Rightarrow> ('k, 'a, 'l, 'c, 'f, 'g, 'lr, 'gr, 'rs, 'ws,
               ('k, 'a, 'l, 'c, 'f, 'g, 'rs, 'ws) slab_entry option) mact" where
  "slab_remove tok s = (s\<lparr>slab := AList.delete tok (slab s)\<rparr>, LOk (map_of (slab s) tok))"

section \<open>Connections\<close>

definition start_read_stream_listener ::
    "('k, 'a, 'l, 'c, 'f, 'g, 'lr, 'gr, 'rs, 'ws) ml_env \<Rightarrow> usize \<Rightarrow> usize option
      \<Rightarrow> ('k, 'a, 'l, 'c, 'f, 'g, 'lr, 'gr, 'rs, 'ws, unit) mact" where
  "start_read_stream_listener env read_token os =
     bind (gets (\<lambda>s. s)) (\<lambda>s.
     let write_spawned = (case os of
           Some w \<Rightarrow> (case slab_get s w of Some e \<Rightarrow> se_state e = SWriteSpawned | None \<Rightarrow> False)
         | None \<Rightarrow> False)
     in case map_option se_state (slab_get s read_token) of
          Some (SReadStream rs with1) \<Rightarrow>
            bind (slab_set read_token SEmpty) (\<lambda>_.
            bind (do_io env (EvSpawnRead read_token write_spawned)) (\<lambda>_.
            slab_set read_token SReadSpawned))
        | Some SReadSpawned \<Rightarrow> ret ()
        | _ \<Rightarrow> fail (LoopErr (Bug ''Call of read listener on wrong state'')))"

text \<open>The macros \<open>register_state_r!\<close> and \<open>register_state_w!\<close>.\<close>

definition register_state_r ::
    "('k, 'a, 'l, 'c, 'f, 'g, 'lr, 'gr, 'rs, 'ws) ml_env \<Rightarrow> 'rs \<Rightarrow> usize option
      \<Rightarrow> ('k, 'a, 'l, 'c, 'f, 'g, 'lr, 'gr, 'rs, 'ws, usize) mact" where
  "register_state_r env rs os =
     bind (slab_insert env \<lparr>se_state = SReadStream rs None, se_os = os, se_peer = None\<rparr>) (\<lambda>token.
     bind (ask (\<lambda>lg. e_register env lg token) (EvRegister token)) (\<lambda>registered.
     bind (if registered then ret () else start_read_stream_listener env token os) (\<lambda>_.
     ret token)))"

definition register_state_w ::
    "('k, 'a, 'l, 'c, 'f, 'g, 'lr, 'gr, 'rs, 'ws) ml_env \<Rightarrow> 'ws \<Rightarrow> bool \<Rightarrow> usize option
      \<Rightarrow> ('k, 'a, 'l, 'c, 'f, 'g, 'lr, 'gr, 'rs, 'ws, usize) mact" where
  "register_state_w env ws connected os =
     bind (slab_insert env \<lparr>se_state = SWriteStream ws [] connected, se_os = os, se_peer = None\<rparr>) (\<lambda>token.
     bind (ask (\<lambda>lg. e_register env lg token) (EvRegister token)) (\<lambda>registered.
     bind (if registered then ret () else slab_set token (SWriteStream ws [] True)) (\<lambda>_.
     ret token)))"

definition peer_online ::
    "('k, 'a, 'l, 'c, 'f, 'g, 'lr, 'gr, 'rs, 'ws) ml_env \<Rightarrow> ('k, 'a) peer \<Rightarrow> peer_priority
      \<Rightarrow> ('k, 'a, 'l, 'c, 'f, 'g, 'lr, 'gr, 'rs, 'ws, unit) mact" where
  "peer_online env p pp =
     (if e_do_listen env
      then (case e_build_command env (PeerOnline p pp) of
              Some c \<Rightarrow> send_or_panic env (EvGlobal (GLocal c))
            | None \<Rightarrow> ret ())
      else ret ())"

text \<open>The pool of threads that connect for a transport without polling.\<close>

definition synch_connect ::
    "('k, 'a, 'l, 'c, 'f, 'g, 'lr, 'gr, 'rs, 'ws) ml_env \<Rightarrow> usize \<Rightarrow> 'a
      \<Rightarrow> ('k, 'a, 'l, 'c, 'f, 'g, 'lr, 'gr, 'rs, 'ws, unit) mact" where
  "synch_connect env tok ad =
     bind (gets (\<lambda>s. s)) (\<lambda>s.
     let full = (synch_connect_ix s = synch_connect_len s);
         grow = (full \<and> synch_connect_len s < e_nb_synch_connect env);
         ix = (if full \<and> \<not> grow then 0 else synch_connect_ix s)
     in if \<not> grow \<and> synch_connect_len s \<le> ix then panic
        else bind (modify (\<lambda>s. s\<lparr>synch_connect_ix := ix\<rparr>)) (\<lambda>_.
          bind (if grow \<or> e_synch_finished env (events s) ix
                then bind (do_io env (EvSynchSpawn ix tok ad)) (\<lambda>_.
                     modify (\<lambda>s. if ix < synch_connect_len s then s
                                 else s\<lparr>synch_connect_len := synch_connect_len s + 1\<rparr>))
                else do_io env (EvSynchSend ix tok ad)) (\<lambda>_.
          modify (\<lambda>s. s\<lparr>synch_connect_ix := ix + 1\<rparr>))))"

definition connect_with2 ::
    "('k, 'a, 'l, 'c, 'f, 'g, 'lr, 'gr, 'rs, 'ws) ml_env \<Rightarrow> 'a \<Rightarrow> bool \<Rightarrow> ('k, 'a) peer option
      \<Rightarrow> ('k, 'a, 'l, 'c, 'f, 'g, 'lr, 'gr, 'rs, 'ws, usize \<times> usize option) mact" where
  "connect_with2 env dest_address not_once trusted_peer =
     bind (gets transport_asynch) (\<lambda>asynch.
     if asynch then
       bind (ask (\<lambda>lg. e_connectwith env lg dest_address) (EvConnect dest_address)) (\<lambda>(ws, ors0).
       let ors = (if not_once then ors0 else None) in
       bind (register_state_w env ws False None) (\<lambda>write_token.
       bind (case ors of
               Some rs \<Rightarrow>
                 bind (register_state_r env rs (Some write_token)) (\<lambda>read_token.
                 bind (slab_modify write_token (\<lambda>e. e\<lparr>se_os := Some read_token\<rparr>)) (\<lambda>_.
                 ret (Some read_token)))
             | None \<Rightarrow> ret None) (\<lambda>ort.
       bind (if not_once
             then modify (\<lambda>s. s\<lparr>address_cache := hashmap_add_val_c dest_address
                    \<lparr>ac_read = ort, ac_write = write_token\<rparr> (address_cache s)\<rparr>)
             else ret ()) (\<lambda>_.
       bind (case trusted_peer of Some pr \<Rightarrow> peer_online env pr Unchecked | None \<Rightarrow> ret ()) (\<lambda>_.
       ret (write_token, ort))))))
     else
       bind (slab_insert env
         \<lparr>se_state = SWriteConnectSynch [] False trusted_peer, se_os = None, se_peer = None\<rparr>) (\<lambda>connect_token.
       bind (if not_once
             then modify (\<lambda>s. s\<lparr>address_cache := hashmap_add_val_c dest_address
                    \<lparr>ac_read = None, ac_write = connect_token\<rparr> (address_cache s)\<rparr>)
             else ret ()) (\<lambda>_.
       bind (synch_connect env connect_token dest_address) (\<lambda>_.
       ret (connect_token, None)))))"

definition connect_with ::
    "('k, 'a, 'l, 'c, 'f, 'g, 'lr, 'gr, 'rs, 'ws) ml_env \<Rightarrow> 'a
      \<Rightarrow> ('k, 'a, 'l, 'c, 'f, 'g, 'lr, 'gr, 'rs, 'ws, usize \<times> usize option) mact" where
  "connect_with env dest_address = connect_with2 env dest_address True None"

definition update_peer ::
    "('k, 'a, 'l, 'c, 'f, 'g, 'lr, 'gr, 'rs, 'ws) ml_env \<Rightarrow> ('k, 'a) peer \<Rightarrow> peer_priority \<Rightarrow> usize option
      \<Rightarrow> usize option \<Rightarrow> ('k, 'a, 'l, 'c, 'f, 'g, 'lr, 'gr, 'rs, 'ws, unit) mact" where
  "update_peer env pr pp owtok owread =
     bind (gets (\<lambda>s. case hashmap_get_val_c (peer_cache s) (get_key pr) of
                       Some p_entry \<Rightarrow> pe_write p_entry | None \<Rightarrow> None)) (\<lambda>o_slab_remove.
     bind (peer_online env pr pp) (\<lambda>_.
     bind (modify (\<lambda>s. s\<lparr>peer_cache := hashmap_add_val_c (get_key pr)
             \<lparr>pe_peer = pr, pe_read = owread, pe_write = owtok, pe_prio = pp\<rparr> (peer_cache s)\<rparr>)) (\<lambda>_.
     bind (send_or_panic env (EvPeerstore (GLocal (StoreLocally pr 0 None)))) (\<lambda>_.
     case o_slab_remove of
       Some t \<Rightarrow> bind (slab_remove t) (\<lambda>_. ret ())
     | None \<Rightarrow> ret ()))))"

section \<open>Writing to a peer\<close>

text \<open>
  The queue of a stream that is not connected yet belongs to its slab entry: sending into it
  does not fail.  \<open>remove_writestream\<close> is not implemented and panics.
\<close>

definition write_stream_send2 ::
    "('k, 'a, 'l, 'c, 'f, 'g, 'lr, 'gr, 'rs, 'ws) ml_env \<Rightarrow> usize \<Rightarrow> ('k, 'a, 'l, 'c, 'f, 'g) wcmd
      \<Rightarrow> ('k, 'a) peer option \<Rightarrow> bool \<Rightarrow> ('k, 'a, 'l, 'c, 'f, 'g, 'lr, 'gr, 'rs, 'ws, unit) mact" where
  "write_stream_send2 env write_token command with1 not_write_once =
     bind (gets (\<lambda>s. s)) (\<lambda>s.
     case map_option se_state (slab_get s write_token) of
       Some (SWriteStream ws q True) \<Rightarrow>
         bind (slab_set write_token SEmpty) (\<lambda>_.
         bind (do_io env (EvSpawnWrite write_token with1 (\<not> not_write_once) (q @ [command]))) (\<lambda>_.
         slab_set write_token SWriteSpawned))
     | Some (SWriteConnectSynch q b tp) \<Rightarrow> slab_set write_token (SWriteConnectSynch (q @ [command]) b tp)
     | Some (SWriteStream ws q False) \<Rightarrow> slab_set write_token (SWriteStream ws (q @ [command]) False)
     | Some SWriteSpawned \<Rightarrow>
         (case e_send env (events s) (EvWrite write_token command) of
            Sent \<Rightarrow> record_event (EvWrite write_token command)
          | SendErr e \<Rightarrow> fail (LoopErr e)
          | Finished \<Rightarrow>
              bind (slab_set write_token SEmpty) (\<lambda>_.
              bind (ask (\<lambda>lg. e_unwrap env lg write_token) (EvUnwrapWrite write_token)) (\<lambda>is_ok.
              if is_ok
              then bind (do_io env (EvRespawnWrite write_token command)) (\<lambda>_.
                   slab_set write_token SWriteSpawned)
              else bind (case w_get_api_reply (mc_get_api_reply (e_local_id env) (e_global_id env)) command of
                           Some qid \<Rightarrow> send_or_panic env (EvApi (ApiFailure qid))
                         | None \<Rightarrow> ret ()) (\<lambda>_. panic))))
     | Some _ \<Rightarrow> fail (LoopErr (Bug ''Call of write listener on wrong state''))
     | None \<Rightarrow> fail (LoopErr (Bug ''Call of write listener on no state'')))"

definition write_stream_send ::
    "('k, 'a, 'l, 'c, 'f, 'g, 'lr, 'gr, 'rs, 'ws) ml_env \<Rightarrow> usize \<Rightarrow> ('k, 'a, 'l, 'c, 'f, 'g) wcmd
      \<Rightarrow> ('k, 'a, 'l, 'c, 'f, 'g, 'lr, 'gr, 'rs, 'ws, unit) mact" where
  "write_stream_send env write_token command = write_stream_send2 env write_token command None True"

text \<open>A ping with a fresh challenge.\<close>

definition send_ping ::
    "('k, 'a, 'l, 'c, 'f, 'g, 'lr, 'gr, 'rs, 'ws) ml_env \<Rightarrow> ('k, 'a, 'l, 'c, 'f, 'g) challenge_entry \<Rightarrow> bool
      \<Rightarrow> ('k, 'a, 'l, 'c, 'f, 'g, 'lr, 'gr, 'rs, 'ws, unit) mact" where
  "send_ping env entry not_once =
     bind (issue_challenge env entry) (\<lambda>chal.
     write_stream_send2 env (ch_write_tok entry) (WPing chal) None not_once)"

section \<open>Commands\<close>

definition ml_try_connect ::
    "('k, 'a, 'l, 'c, 'f, 'g, 'lr, 'gr, 'rs, 'ws) ml_env \<Rightarrow> 'a \<Rightarrow> usize option
      \<Rightarrow> ('k, 'a, 'l, 'c, 'f, 'g, 'lr, 'gr, 'rs, 'ws, unit) mact" where
  "ml_try_connect env dest_address oapi =
     bind (gets (\<lambda>s. hashmap_has_val_c (address_cache s) dest_address)) (\<lambda>add_incache.
     if add_incache then ret ()
     else bind (connect_with env dest_address) (\<lambda>(write_token, ort).
          if e_auth_mode env = NoAuth then ret ()
          else send_ping env \<lparr>ch_write_tok = write_token, ch_read_tok = ort, ch_next_msg = None,
                              ch_next_qid = None, ch_api_qid = oapi\<rparr> True))"

definition ml_trusted_try_connect ::
    "('k, 'a, 'l, 'c, 'f, 'g, 'lr, 'gr, 'rs, 'ws) ml_env \<Rightarrow> ('k, 'a) peer \<Rightarrow> usize option
      \<Rightarrow> ('k, 'a, 'l, 'c, 'f, 'g, 'lr, 'gr, 'rs, 'ws, unit) mact" where
  "ml_trusted_try_connect env p oapi =
     bind (gets (\<lambda>s. hashmap_has_val_c (address_cache s) (get_address p))) (\<lambda>add_incache.
     if e_auth_mode env = NoAuth
     then bind (connect_with2 env (get_address p) True (Some p)) (\<lambda>_. ret ())
     else if add_incache then ret ()
     else bind (connect_with2 env (get_address p) True None) (\<lambda>(write_token, ort).
          send_ping env \<lparr>ch_write_tok = write_token, ch_read_tok = ort, ch_next_msg = None,
                         ch_next_qid = None, ch_api_qid = oapi\<rparr> True))"

text \<open>
  A connection to an address for a message: the cached one, or a new one with a ping behind which
  the message waits.  The result is the token to write to, or none when the message waits.
\<close>

definition connect_for ::
    "('k, 'a, 'l, 'c, 'f, 'g, 'lr, 'gr, 'rs, 'ws) ml_env \<Rightarrow> 'a \<Rightarrow> ('k, 'a, 'l, 'c, 'f, 'g) mc_cmd
      \<Rightarrow> ('k, 'a, 'l, 'c, 'f, 'g, 'lr, 'gr, 'rs, 'ws, usize option) mact" where
  "connect_for env ad sg =
     bind (gets (\<lambda>s. hashmap_get_val_c (address_cache s) ad)) (\<lambda>ocache.
     bind (case ocache of
             Some c \<Rightarrow> ret (False, ac_write c, ac_read c)
           | None \<Rightarrow> bind (connect_with env ad) (\<lambda>(w, r). ret (True, w, r))) (\<lambda>(need_ping, write_token, ort).
     if e_auth_mode env = NoAuth \<or> \<not> need_ping then ret (Some write_token)
     else bind (send_ping env \<lparr>ch_write_tok = write_token, ch_read_tok = ort,
                  ch_next_msg = Some (WService sg),
                  ch_next_qid = mc_get_api_reply (e_local_id env) (e_global_id env) sg,
                  ch_api_qid = None\<rparr> True) (\<lambda>_. ret None)))"

text \<open>The loop over the discovered peers; the result is the number of sends.\<close>

fun discover_loop ::
    "('k, 'a, 'l, 'c, 'f, 'g, 'lr, 'gr, 'rs, 'ws) ml_env \<Rightarrow> ('k, 'a, 'l, 'c, 'f, 'g) mc_cmd \<Rightarrow> nat
      \<Rightarrow> nat \<Rightarrow> ('k \<times> 'a) list \<Rightarrow> ('k, 'a, 'l, 'c, 'f, 'g, 'lr, 'gr, 'rs, 'ws, nat) mact" where
  "discover_loop env command nb_for1 nb_send [] = ret nb_send"
| "discover_loop env command nb_for1 nb_send (ka # kas) =
     bind (gets (\<lambda>s. hashmap_has_val_c (peer_cache s) (fst ka))) (\<lambda>known.
     bind (if known then ret nb_send
           else bind (connect_for env (snd ka) command) (\<lambda>otok.
                bind (case otok of
                        Some tok \<Rightarrow> write_stream_send env tok (WService command)
                      | None \<Rightarrow> ret ()) (\<lambda>_. ret (nb_send + 1)))) (\<lambda>nb.
     if nb = nb_for1 then ret nb else discover_loop env command nb_for1 nb kas))"

definition ask_subset ::
    "('k, 'a, 'l, 'c, 'f, 'g, 'lr, 'gr, 'rs, 'ws) ml_env \<Rightarrow> ('k, 'a, 'l, 'c, 'f, 'g) mc_cmd \<Rightarrow> nat \<Rightarrow> nat
      \<Rightarrow> ('k, 'a, 'l, 'c, 'f, 'g, 'lr, 'gr, 'rs, 'ws, unit) mact" where
  "ask_subset env sg nb_disco rem_call =
     bind (modify (\<lambda>s. s\<lparr>discover_wait_route := (sg, nb_disco, rem_call) # discover_wait_route s\<rparr>)) (\<lambda>_.
     send_or_panic env (EvPeerstore (GLocal (Subset nb_disco (e_discover_fn env)))))"

definition ml_discover ::
    "('k, 'a, 'l, 'c, 'f, 'g, 'lr, 'gr, 'rs, 'ws) ml_env \<Rightarrow> ('k \<times> 'a) list
      \<Rightarrow> ('k, 'a, 'l, 'c, 'f, 'g, 'lr, 'gr, 'rs, 'ws, unit) mact" where
  "ml_discover env lkad =
     bind (gets discover_wait_route) (\<lambda>waiting.
     if waiting = [] then ret ()
     else (case last waiting of (command, nb_for1, rem_call) \<Rightarrow>
       bind (modify (\<lambda>s. s\<lparr>discover_wait_route := butlast waiting\<rparr>)) (\<lambda>_.
       if \<not> length lkad \<le> nb_for1 then panic
       else bind (discover_loop env command nb_for1 0 lkad) (\<lambda>nb_send.
            if nb_send < nb_for1 \<and> 0 < rem_call
            then ask_subset env command (nb_for1 - nb_send) (rem_call - 1)
            else ret ()))))"

text \<open>The destinations given by key and address: the tokens found and the number under way.\<close>

fun forward_kad ::
    "('k, 'a, 'l, 'c, 'f, 'g, 'lr, 'gr, 'rs, 'ws) ml_env \<Rightarrow> fw_conf \<Rightarrow> ('k, 'a, 'l, 'c, 'f, 'g) mc_cmd
      \<Rightarrow> ('k option \<times> 'a option) list \<Rightarrow> usize list \<times> nat
      \<Rightarrow> ('k, 'a, 'l, 'c, 'f, 'g, 'lr, 'gr, 'rs, 'ws, usize list \<times> nat) mact" where
  "forward_kad env fwconf sg [] acc = ret acc"
| "forward_kad env fwconf sg ((okey, oad) # kad) (ws_res, nb_disco) =
     bind (gets (\<lambda>s. case okey of
             Some key \<Rightarrow> (case hashmap_get_val_c (peer_cache s) key of Some p \<Rightarrow> pe_write p | None \<Rightarrow> None)
           | None \<Rightarrow> None)) (\<lambda>owrite.
     bind (case owrite of
             Some w \<Rightarrow> ret (ws_res @ [w], nb_disco)
           | None \<Rightarrow>
               if \<not> discover fwconf then ret (ws_res, nb_disco)
               else (case oad of
                       Some ad \<Rightarrow>
                         bind (connect_for env ad sg) (\<lambda>otok.
                         ret (case otok of Some tok \<Rightarrow> (ws_res @ [tok], nb_disco) | None \<Rightarrow> (ws_res, nb_disco + 1)))
                     | None \<Rightarrow>
                         bind (lift (unwrap okey)) (\<lambda>key.
                         bind (modify (\<lambda>s. s\<lparr>peer_find_address := (sg, key, fwconf) # peer_find_address s\<rparr>)) (\<lambda>_.
                         bind (send_or_panic env (EvPeerstore (GLocal (WithLocalValue key (e_forward_ka_fn env))))) (\<lambda>_.
                         ret (ws_res, nb_disco + 1)))))) (\<lambda>acc.
     forward_kad env fwconf sg kad acc))"

definition ml_forward_service ::
    "('k, 'a, 'l, 'c, 'f, 'g, 'lr, 'gr, 'rs, 'ws) ml_env \<Rightarrow> ('k, 'a) peer list option \<Rightarrow> ('k, 'a) dests \<Rightarrow> fw_conf
      \<Rightarrow> ('k, 'a, 'l, 'c, 'f, 'g) mc_cmd \<Rightarrow> ('k, 'a, 'l, 'c, 'f, 'g, 'lr, 'gr, 'rs, 'ws, unit) mact" where
  "ml_forward_service env ovp okad fwconf sg =
     (let ol = (case ovp of Some v \<Rightarrow> length v | None \<Rightarrow> 0);
          olka = (case okad of Some v \<Rightarrow> length v | None \<Rightarrow> 0);
          nb_exp_for = ol + nb_for fwconf + olka
      in
      bind (gets (\<lambda>s. case ovp of
              Some vp \<Rightarrow> List.map_filter (\<lambda>p. Option.bind (hashmap_get_val_c (peer_cache s) (get_key p)) pe_write) vp
            | None \<Rightarrow> [])) (\<lambda>ws1.
      bind (case okad of Some kad \<Rightarrow> forward_kad env fwconf sg kad (ws1, 0) | None \<Rightarrow> ret (ws1, 0)) (\<lambda>(ws2, nb_disco).
      bind (if 0 < nb_for fwconf
            then bind (gets peer_cache) (\<lambda>pc.
                 bind (lift (e_route env (nb_for fwconf) sg pc)) (\<lambda>(sg', dests1). ret (sg', ws2 @ dests1)))
            else ret (sg, ws2)) (\<lambda>(sg', ws_res).
      let nb_ok = length ws_res + nb_disco in
      bind (if nb_ok < nb_exp_for
            then if discover fwconf
                 then ask_subset env sg' (nb_exp_for - nb_ok) (e_max_nb_discover_call env)
                 else (case mc_get_api_reply (e_local_id env) (e_global_id env) sg' of
                         Some qid \<Rightarrow> send_or_panic env (EvApi (ApiAdjust qid (nb_exp_for - nb_ok)))
                       | None \<Rightarrow> ret ())
            else ret ()) (\<lambda>_.
      for_each (\<lambda>d. write_stream_send env d (WService sg')) ws_res)))))"

definition ml_forward_service_once ::
    "('k, 'a, 'l, 'c, 'f, 'g, 'lr, 'gr, 'rs, 'ws) ml_env \<Rightarrow> 'k option \<Rightarrow> 'a option
      \<Rightarrow> 'c \<Rightarrow> ('k, 'a, 'l, 'c, 'f, 'g, 'lr, 'gr, 'rs, 'ws, unit) mact" where
  "ml_forward_service_once env ok oad sg =
     bind (gets peer_cache) (\<lambda>pc.
     case (case oad of
             Some ad \<Rightarrow> Some ad
           | None \<Rightarrow> map_option (\<lambda>pe. get_address (pe_peer pe)) (Option.bind ok (hashmap_get_val_c pc))) of
       None \<Rightarrow> ret ()
     | Some address \<Rightarrow>
         bind (connect_with2 env address False None) (\<lambda>(write_token, _).
         bind (if e_get_read env sg
               then bind (gets (\<lambda>s. e_io env (events s) (EvReregister write_token))) (\<lambda>r.
                    case r of None \<Rightarrow> record_event (EvReregister write_token) | Some e \<Rightarrow> panic)
               else ret ()) (\<lambda>_.
         if e_auth_mode env \<noteq> NoAuth
         then send_ping env \<lparr>ch_write_tok = write_token, ch_read_tok = None,
                ch_next_msg = Some (WService (MCGlobal sg)), ch_next_qid = e_global_id env sg,
                ch_api_qid = None\<rparr> False
         else write_stream_send2 env write_token (WService (MCGlobal sg)) None False)))"

definition ml_proxy_api_reply ::
    "('k, 'a, 'l, 'c, 'f, 'g, 'lr, 'gr, 'rs, 'ws) ml_env \<Rightarrow> ('k, 'a, 'lr, 'gr) mc_rep
      \<Rightarrow> ('k, 'a, 'l, 'c, 'f, 'g, 'lr, 'gr, 'rs, 'ws, unit) mact" where
  "ml_proxy_api_reply env sc =
     (if e_use_api_service env then send_or_panic env (EvApi (ApiServiceReply sc))
      else do_io env (EvOut (MLRServiceReply sc)))"

text \<open>The short cut for a query on a peer that is connected.\<close>

fun peerstore_shortcut ::
    "('k, ('k, 'a) peer_cache_entry) hashmap \<Rightarrow> ('k, 'a, 'l, 'c, 'f, 'g) mc_cmd
      \<Rightarrow> (('k, 'a) peer \<times> usize) option" where
  "peerstore_shortcut pc (MCPeerStore (Find qm key (Some aqid))) =
     (if nb_res qm = 1 then map_option (\<lambda>v. (pe_peer v, aqid)) (hashmap_get_val_c pc key) else None)"
| "peerstore_shortcut pc (MCPeerStore (FindLocally key aqid)) =
     map_option (\<lambda>v. (pe_peer v, aqid)) (hashmap_get_val_c pc key)"
| "peerstore_shortcut pc _ = None"

definition ml_forward_api ::
    "('k, 'a, 'l, 'c, 'f, 'g, 'lr, 'gr, 'rs, 'ws) ml_env \<Rightarrow> ('k, 'a, 'l, 'c, 'f, 'g) mc_cmd \<Rightarrow> nat \<Rightarrow> nat
      \<Rightarrow> ('k, 'a, 'l, 'c, 'f, 'g, 'lr, 'gr, 'rs, 'ws, unit) mact" where
  "ml_forward_api env sc nbf rt =
     (if e_use_api_service env \<and> mc_is_api_reply (e_local_is env) (e_global_is env) sc
      then bind (gets peer_cache) (\<lambda>pc.
           case peerstore_shortcut pc sc of
             Some (p, aqid) \<Rightarrow> ml_proxy_api_reply env (MRPeerStore (FoundApi (Some p) aqid))
           | None \<Rightarrow> send_or_panic env (EvApi (ApiServiceCommand sc nbf rt)))
      else (case sc of
              MCLocal c \<Rightarrow> ml_forward_service env None None \<lparr>nb_for = nbf, discover = False\<rparr> sc
            | MCGlobal c \<Rightarrow> send_or_panic env (EvGlobal (GLocal c))
            | MCPeerStore c \<Rightarrow> send_or_panic env (EvPeerstore (GLocal c))
            | MCTryConnect ad aid \<Rightarrow> ml_try_connect env ad aid))"

definition ml_new_peer_challenge ::
    "('k, 'a, 'l, 'c, 'f, 'g, 'lr, 'gr, 'rs, 'ws) ml_env \<Rightarrow> ('k, 'a) peer \<Rightarrow> usize \<Rightarrow> bytes
      \<Rightarrow> ('k, 'a, 'l, 'c, 'f, 'g, 'lr, 'gr, 'rs, 'ws, unit) mact" where
  "ml_new_peer_challenge env pr rtok chal =
     bind (gets (\<lambda>s. map_option se_os (slab_get s rtok))) (\<lambda>owtok.
     case owtok of
       None \<Rightarrow> ret ()
     | Some ow \<Rightarrow>
         bind (case ow of
                 Some tok \<Rightarrow> ret tok
               | None \<Rightarrow> bind (connect_with env (get_address pr)) (\<lambda>(write_token, ort).
                           if ort = None then ret write_token else panic)) (\<lambda>wtok.
         bind (issue_challenge env \<lparr>ch_write_tok = wtok, ch_read_tok = Some rtok, ch_next_msg = None,
                 ch_next_qid = None, ch_api_qid = None\<rparr>) (\<lambda>chal2.
         write_stream_send env wtok (WPong pr chal rtok (Some chal2)))))"

text \<open>What follows the answer to a challenge.\<close>

definition ml_authenticated ::
    "('k, 'a, 'l, 'c, 'f, 'g, 'lr, 'gr, 'rs, 'ws) ml_env \<Rightarrow> ('k, 'a) peer \<Rightarrow> peer_priority \<Rightarrow> usize
      \<Rightarrow> bytes option \<Rightarrow> ('k, 'a, 'l, 'c, 'f, 'g) challenge_entry
      \<Rightarrow> ('k, 'a, 'l, 'c, 'f, 'g, 'lr, 'gr, 'rs, 'ws, unit) mact" where
  "ml_authenticated env pr pp rtok nextchal chal_entry =
     bind (update_peer env pr pp (Some (ch_write_tok chal_entry)) (Some rtok)) (\<lambda>_.
     bind (case nextchal of
             Some nchal \<Rightarrow> write_stream_send env (ch_write_tok chal_entry) (WPong pr nchal rtok None)
           | None \<Rightarrow> ret ()) (\<lambda>_.
     bind (case ch_next_msg chal_entry of
             Some next_msg \<Rightarrow> write_stream_send env (ch_write_tok chal_entry) next_msg
           | None \<Rightarrow> ret ()) (\<lambda>_.
     case ch_api_qid chal_entry of
       Some qid \<Rightarrow> send_or_panic env (EvApi (ApiServiceReply (MRDone qid)))
     | None \<Rightarrow> ret ())))"

definition ml_new_peer_unchecked_challenge ::
    "('k, 'a, 'l, 'c, 'f, 'g, 'lr, 'gr, 'rs, 'ws) ml_env \<Rightarrow> ('k, 'a) peer \<Rightarrow> peer_priority \<Rightarrow> usize \<Rightarrow> bytes
      \<Rightarrow> bytes option \<Rightarrow> ('k, 'a, 'l, 'c, 'f, 'g, 'lr, 'gr, 'rs, 'ws, unit) mact" where
  "ml_new_peer_unchecked_challenge env pr pp rtok chal nextchal =
     bind (take_challenge chal) (\<lambda>oentry.
     case oentry of
       Some chal_entry \<Rightarrow> ml_authenticated env pr pp rtok nextchal chal_entry
     | None \<Rightarrow> panic)"

definition ml_connected_r ::
    "('k, 'a, 'l, 'c, 'f, 'g, 'lr, 'gr, 'rs, 'ws) ml_env \<Rightarrow> 'rs \<Rightarrow> 'ws option
      \<Rightarrow> ('k, 'a, 'l, 'c, 'f, 'g, 'lr, 'gr, 'rs, 'ws, unit) mact" where
  "ml_connected_r env rs ows =
     bind (register_state_r env rs None) (\<lambda>read_token.
     case ows of
       Some ws \<Rightarrow>
         bind (register_state_w env ws True (Some read_token)) (\<lambda>write_token.
         slab_modify read_token (\<lambda>e. e\<lparr>se_os := Some write_token\<rparr>))
     | None \<Rightarrow> ret ())"

text \<open>
  The stream of a connection made in another thread replaces the entry that waits for it; the
  first command of the queue is taken out and sent again.
\<close>

definition connected_entry ::
    "('k, 'a, 'l, 'c, 'f, 'g, 'lr, 'gr, 'rs, 'ws) ml_env \<Rightarrow> usize \<Rightarrow> 'ws
      \<Rightarrow> ('k, 'a, 'l, 'c, 'f, 'g, 'lr, 'gr, 'rs, 'ws, ('k, 'a, 'l, 'c, 'f, 'g) wcmd option) mact" where
  "connected_entry env write_token ws =
     bind (gets (\<lambda>s. map_option se_state (slab_get s write_token))) (\<lambda>ost.
     case ost of
       Some (SWriteConnectSynch q b trusted_peer) \<Rightarrow>
         bind (slab_set write_token (SWriteStream ws (tl q) True)) (\<lambda>_.
         bind (case trusted_peer of Some pr \<Rightarrow> peer_online env pr Unchecked | None \<Rightarrow> ret ()) (\<lambda>_.
         ret (case q of [] \<Rightarrow> None | c # _ \<Rightarrow> Some c)))
     | _ \<Rightarrow> ret None)"

definition ml_connected_w ::
    "('k, 'a, 'l, 'c, 'f, 'g, 'lr, 'gr, 'rs, 'ws) ml_env \<Rightarrow> usize \<Rightarrow> 'ws \<Rightarrow> 'rs option
      \<Rightarrow> ('k, 'a, 'l, 'c, 'f, 'g, 'lr, 'gr, 'rs, 'ws, unit) mact" where
  "ml_connected_w env write_token ws ors =
     bind (case ors of
             Some rs \<Rightarrow>
               bind (register_state_r env rs (Some write_token)) (\<lambda>read_token.
               slab_modify write_token (\<lambda>e. e\<lparr>se_os := Some read_token\<rparr>))
           | None \<Rightarrow> ret ()) (\<lambda>_.
     bind (connected_entry env write_token ws) (\<lambda>oc.
     case oc of
       Some command \<Rightarrow> write_stream_send env write_token command
     | None \<Rightarrow> ret ()))"

definition ml_fail_connect ::
    "usize \<Rightarrow> ('k, 'a, 'l, 'c, 'f, 'g, 'lr, 'gr, 'rs, 'ws, unit) mact" where
  "ml_fail_connect write_token =
     bind (slab_remove write_token) (\<lambda>oe.
     case oe of
       Some e \<Rightarrow>
         bind (case se_os e of Some t \<Rightarrow> bind (slab_remove t) (\<lambda>_. ret ()) | None \<Rightarrow> ret ()) (\<lambda>_.
         case se_peer e of
           Some p \<Rightarrow> modify (\<lambda>s. s\<lparr>peer_cache := fst (hashmap_remove_val_c (get_key p) (peer_cache s))\<rparr>)
         | None \<Rightarrow> ret ())
     | None \<Rightarrow> ret ())"

definition cache_len ::
    "('k, 'a, 'l, 'c, 'f, 'g, 'lr, 'gr, 'rs, 'ws) ml_env \<Rightarrow> ('k, 'a, 'l, 'c, 'f, 'g, 'lr, 'gr, 'rs, 'ws) mdht_state \<Rightarrow> nat" where
  "cache_len env s =
     (if e_auth_mode env = NoAuth then hashmap_len_c (address_cache s) else hashmap_len_c (peer_cache s))"

fun ml_sub_command ::
    "('k, 'a, 'l, 'c, 'f, 'g, 'lr, 'gr, 'rs, 'ws) ml_env \<Rightarrow> ('k, 'a) main_loop_sub_command
      \<Rightarrow> ('k, 'a, 'l, 'c, 'f, 'g, 'lr, 'gr, 'rs, 'ws, unit) mact" where
  "ml_sub_command env (SubTrustedTryConnect p) =
     bind (gets (\<lambda>s. hashmap_has_val_c (peer_cache s) (get_key p)
                     \<or> hashmap_has_val_c (address_cache s) (get_address p))) (\<lambda>known.
     if known then ret () else ml_trusted_try_connect env p None)"
| "ml_sub_command env (SubTryConnect key add) =
     bind (gets (\<lambda>s. hashmap_has_val_c (peer_cache s) key \<or> hashmap_has_val_c (address_cache s) add)) (\<lambda>known.
     if known then ret () else ml_try_connect env add None)"
| "ml_sub_command env (SubPoolSize min_no_repeat) =
     modify (\<lambda>s. if peer_pool_maintain s < min_no_repeat
                 then let s' = s\<lparr>peer_pool_maintain := min_no_repeat\<rparr> in
                      if cache_len env s' < min_no_repeat
                      then s'\<lparr>peer_next_query := e_now env (events s')\<rparr> else s'
                 else s)"
| "ml_sub_command env (SubFoundAddressForKey oad) =
     bind (gets peer_find_address) (\<lambda>waiting.
     if waiting = [] then ret ()
     else (case last waiting of (sg, key, fwconf) \<Rightarrow>
       bind (modify (\<lambda>s. s\<lparr>peer_find_address := butlast waiting\<rparr>)) (\<lambda>_.
       case oad of
         Some ad \<Rightarrow> ml_forward_service env None (Some [(Some key, Some ad)]) fwconf sg
       | None \<Rightarrow> ret ())))"
| "ml_sub_command env (SubDiscover lkad) = ml_discover env lkad"

type_synonym ('k, 'a, 'l, 'c, 'f, 'g, 'lr, 'gr, 'rs, 'ws) ml_cmd =
  "('k, 'a, 'l, 'c, 'f, 'g, 'lr, 'gr, 'rs, 'ws) mlc"

fun call_inner_loop ::
    "('k, 'a, 'l, 'c, 'f, 'g, 'lr, 'gr, 'rs, 'ws) ml_env \<Rightarrow> ('k, 'a, 'l, 'c, 'f, 'g, 'lr, 'gr, 'rs, 'ws) ml_cmd
      \<Rightarrow> ('k, 'a, 'l, 'c, 'f, 'g, 'lr, 'gr, 'rs, 'ws, unit) mact" where
  "call_inner_loop env MLStart = ret ()"
| "call_inner_loop env (MLSubCommand sc) = ml_sub_command env sc"
| "call_inner_loop env (MLPeerStore kvcmd) = send_or_panic env (EvPeerstore kvcmd)"
| "call_inner_loop env (MLProxyApiReply sc) = ml_proxy_api_reply env sc"
| "call_inner_loop env (MLProxyGlobal sc) = send_or_panic env (EvGlobal sc)"
| "call_inner_loop env (MLForwardServiceOnce ok oad fwconf sg) = ml_forward_service_once env ok oad sg"
| "call_inner_loop env (MLForwardService ovp okad fwconf sg) = ml_forward_service env ovp okad fwconf sg"
| "call_inner_loop env (MLForwardApi sc nbf rt) = ml_forward_api env sc nbf rt"
| "call_inner_loop env (MLTryConnect dest_address oapi) = ml_try_connect env dest_address oapi"
| "call_inner_loop env (MLTrustedTryConnect p oapi) = ml_trusted_try_connect env p oapi"
| "call_inner_loop env (MLNewPeerChallenge pr rtok chal) = ml_new_peer_challenge env pr rtok chal"
| "call_inner_loop env (MLNewPeerUncheckedChallenge pr pp rtok chal nextchal) =
     ml_new_peer_unchecked_challenge env pr pp rtok chal nextchal"
| "call_inner_loop env (MLRejectPeer _ _ _) = panic"
| "call_inner_loop env (MLRejectReadSpawn _) = panic"
| "call_inner_loop env (MLProxyWrite _ _) = panic"
| "call_inner_loop env (MLNewPeer _ _ _) = panic"
| "call_inner_loop env (MLConnectedR rs ows) = ml_connected_r env rs ows"
| "call_inner_loop env (MLConnectedW write_token ws ors) = ml_connected_w env write_token ws ors"
| "call_inner_loop env (MLFailConnect write_token) = ml_fail_connect write_token"

section \<open>The loop\<close>

text \<open>
  One turn of \<open>inner_main_loop\<close>: the maintenance of the pool of connections, and the events of
  the poll: commands received, a connection accepted, a stream that is ready.
\<close>

definition pool_maintain ::
    "('k, 'a, 'l, 'c, 'f, 'g, 'lr, 'gr, 'rs, 'ws) ml_env \<Rightarrow> ('k, 'a, 'l, 'c, 'f, 'g, 'lr, 'gr, 'rs, 'ws, unit) mact" where
  "pool_maintain env =
     bind (gets (\<lambda>s. s)) (\<lambda>s.
     if cache_len env s < peer_pool_maintain s
     then bind (if peer_next_query s < e_now env (events s)
                then let nb_disco = e_extra_pool env (peer_pool_maintain s - cache_len env s) in
                     send_or_panic env (EvPeerstore (GLocal (Subset nb_disco
                       (if e_auth_mode env = NoAuth then e_trusted_ping_fn env else e_ping_fn env))))
                else ret ()) (\<lambda>_.
          modify (\<lambda>s. s\<lparr>peer_next_query := e_now env (events s) + e_pool_delay env\<rparr>))
     else ret ())"

datatype ('k, 'a, 'l, 'c, 'f, 'g, 'lr, 'gr, 'rs, 'ws) poll_event =
    PollCommands "('k, 'a, 'l, 'c, 'f, 'g, 'lr, 'gr, 'rs, 'ws) ml_cmd list"
  | PollListener 'rs "'ws option"
  | PollStream usize

definition stream_event ::
    "('k, 'a, 'l, 'c, 'f, 'g, 'lr, 'gr, 'rs, 'ws) ml_env \<Rightarrow> usize \<Rightarrow> ('k, 'a, 'l, 'c, 'f, 'g, 'lr, 'gr, 'rs, 'ws, unit) mact" where
  "stream_event env tok =
     bind (gets (\<lambda>s. slab_get s tok)) (\<lambda>oe.
     case oe of
       None \<Rightarrow> panic
     | Some e \<Rightarrow>
         (case se_state e of
            SReadStream _ _ \<Rightarrow> start_read_stream_listener env tok (se_os e)
          | SWriteConnectSynch _ _ _ \<Rightarrow> panic
          | SWriteStream ws q _ \<Rightarrow>
              bind (slab_set tok (SWriteStream ws (tl q) True)) (\<lambda>_.
              case q of
                [] \<Rightarrow> ret ()
              | c # _ \<Rightarrow> write_stream_send env tok c)
          | SReadSpawned \<Rightarrow> do_io env (EvUnyield tok)
          | SWriteSpawned \<Rightarrow> do_io env (EvUnyield tok)
          | SEmpty \<Rightarrow> panic))"

fun poll_step ::
    "('k, 'a, 'l, 'c, 'f, 'g, 'lr, 'gr, 'rs, 'ws) ml_env \<Rightarrow> ('k, 'a, 'l, 'c, 'f, 'g, 'lr, 'gr, 'rs, 'ws) poll_event
      \<Rightarrow> ('k, 'a, 'l, 'c, 'f, 'g, 'lr, 'gr, 'rs, 'ws, unit) mact" where
  "poll_step env (PollCommands cs) = for_each (call_inner_loop env) cs"
| "poll_step env (PollListener rs ows) = ml_connected_r env rs ows"
| "poll_step env (PollStream tok) = stream_event env tok"

definition main_turn ::
    "('k, 'a, 'l, 'c, 'f, 'g, 'lr, 'gr, 'rs, 'ws) ml_env \<Rightarrow> ('k, 'a, 'l, 'c, 'f, 'g, 'lr, 'gr, 'rs, 'ws) poll_event list
      \<Rightarrow> ('k, 'a, 'l, 'c, 'f, 'g, 'lr, 'gr, 'rs, 'ws, unit) mact" where
  "main_turn env evs = bind (pool_maintain env) (\<lambda>_. for_each (poll_step env) evs)"

definition mdht_init ::
    "('k, 'a) peer \<Rightarrow> bool \<Rightarrow> nat \<Rightarrow> nat \<Rightarrow> ('k, 'a, 'l, 'c, 'f, 'g, 'lr, 'gr, 'rs, 'ws) mdht_state" where
  "mdht_init me1 asynch pool_size now =
     \<lparr>me = me1, transport_asynch = asynch, slab = [], peer_cache = hashmap_new, address_cache = hashmap_new,
      challenge_cache = hashmap_new, discover_wait_route = [], peer_find_address = [],
      peer_pool_maintain = pool_size, peer_next_query = now, synch_connect_ix = 0, synch_connect_len = 0,
      events = []\<rparr>"

end
