(* ===== verification/Mainframe.thy ===== *)
theory Mainframe
  imports Mainloop
begin

text \<open>
  What every step of the main loop keeps.  The locale \<open>ml_frame\<close> says which elementary changes of
  the state a relation has to allow; its lemmas show that the relation then holds between the
  states before and after any command, poll event or turn of the loop, whatever its outcome.
\<close>

section \<open>The elementary changes\<close>

type_synonym ('k, 'a, 'l, 'c, 'f, 'g, 'lr, 'gr, 'rs, 'ws) ml_rel =
  "('k, 'a, 'l, 'c, 'f, 'g, 'lr, 'gr, 'rs, 'ws) mdht_state \<Rightarrow> ('k, 'a, 'l, 'c, 'f, 'g, 'lr, 'gr, 'rs, 'ws) mdht_state \<Rightarrow> bool"

text \<open>A change of the queues, of the counters or of an address, and of nothing else.\<close>

definition minor_change :: "('k, 'a, 'l, 'c, 'f, 'g, 'lr, 'gr, 'rs, 'ws) ml_rel" where
  "minor_change s t \<longleftrightarrow>
     slab t = slab s \<and> peer_cache t = peer_cache s \<and> challenge_cache t = challenge_cache s \<and>
     events t = events s \<and> me t = me s \<and>
     (address_cache t = address_cache s \<or>
      (\<exists>ad e. address_cache t = hashmap_add_val_c ad e (address_cache s)))"

fun is_challenge :: "('k, 'a, 'l, 'c, 'f, 'g, 'lr, 'gr, 'rs, 'ws) event \<Rightarrow> bool" where
  "is_challenge (EvChallenge c) = True"
| "is_challenge _ = False"

locale ml_frame = state_rel R
  for R :: "('k, 'a, 'l, 'c, 'f, 'g, 'lr, 'gr, 'rs, 'ws) ml_rel" +
  fixes env :: "('k, 'a, 'l, 'c, 'f, 'g, 'lr, 'gr, 'rs, 'ws) ml_env"
    and okp :: "'k \<Rightarrow> ('k, 'a) peer_cache_entry \<Rightarrow> bool"
  assumes k_event: "\<not> is_challenge ev \<Longrightarrow> R s (s\<lparr>events := events s @ [ev]\<rparr>)"
    and k_issue: "R s (s\<lparr>events := events s @ [EvChallenge chal],
                        challenge_cache := hashmap_add_val_c chal entry (challenge_cache s)\<rparr>)"
    and k_take: "R s (s\<lparr>challenge_cache := fst (hashmap_remove_val_c chal (challenge_cache s))\<rparr>)"
    and k_insert: "int (length (slab s)) < 2 ^ 64 \<Longrightarrow> R s (s\<lparr>slab := (e_vacant env (map fst (slab s)), e) # slab s\<rparr>)"
    and k_slab_modify: "R s (s\<lparr>slab := map (\<lambda>(t, e). (t, if t = tok then h e else e)) (slab s)\<rparr>)"
    and k_slab_remove: "R s (s\<lparr>slab := AList.delete tok (slab s)\<rparr>)"
    and k_minor: "minor_change s t \<Longrightarrow> R s t"
    and k_forget: "R s (s\<lparr>peer_cache := fst (hashmap_remove_val_c key (peer_cache s))\<rparr>)"
    and k_peer: "okp key pe \<Longrightarrow> R s (s\<lparr>peer_cache := hashmap_add_val_c key pe (peer_cache s)\<rparr>)"
begin

lemma keeps_record_event [intro!]: "\<not> is_challenge ev \<Longrightarrow> keeps R (record_event ev)"
  by (auto simp: record_event_def intro!: keeps_modify k_event)

lemma keeps_send_or_panic [intro!]: "\<not> is_challenge ev \<Longrightarrow> keeps R (send_or_panic env ev)"
  by (auto simp: send_or_panic_def split: send_res.split intro!: keeps_intros)

lemma keeps_do_io [intro!]: "\<not> is_challenge ev \<Longrightarrow> keeps R (do_io env ev)"
  by (auto simp: do_io_def split: option.split intro!: keeps_intros)

lemma keeps_ask [intro!]: "\<not> is_challenge ev \<Longrightarrow> keeps R (ask q ev)"
  by (auto simp: ask_def intro!: keeps_intros)

lemma keeps_issue [intro!]: "keeps R (issue_challenge env entry)"
  by (auto simp: keeps_def issue_challenge_def Let_def k_issue)

lemma keeps_take [intro!]: "keeps R (take_challenge chal)"
  by (simp add: keeps_def take_challenge_def case_prod_unfold k_take)

lemma keeps_slab_insert [intro!]: "keeps R (slab_insert env e)"
  by (auto simp: keeps_def slab_insert_def Let_def k_insert R_refl)

lemma keeps_slab_modify [intro!]: "keeps R (slab_modify tok h)"
  by (auto simp: slab_modify_def intro!: keeps_modify k_slab_modify)

lemma keeps_slab_set [intro!]: "keeps R (slab_set tok st)"
  by (auto simp: slab_set_def)

lemma keeps_slab_remove [intro!]: "keeps R (slab_remove tok)"
  by (auto simp: keeps_def slab_remove_def k_slab_remove)

lemma keeps_minor: "(\<And>s. minor_change s (h s)) \<Longrightarrow> keeps R (modify h)"
  by (auto intro!: keeps_modify k_minor)

section \<open>Connections and writes\<close>

lemma keeps_start_read [intro!]: "keeps R (start_read_stream_listener env tok os)"
  unfolding start_read_stream_listener_def Let_def
  by (auto split: option.split slab_state.split intro!: keeps_intros)

lemma keeps_register_r [intro!]: "keeps R (register_state_r env rs os)"
  unfolding register_state_r_def by (auto intro!: keeps_intros)

lemma keeps_register_w [intro!]: "keeps R (register_state_w env ws connected os)"
  unfolding register_state_w_def by (auto intro!: keeps_intros)

lemma keeps_peer_online [intro!]: "keeps R (peer_online env p pp)"
  unfolding peer_online_def by (auto split: option.split intro!: keeps_intros)

lemma keeps_synch_connect [intro!]: "keeps R (synch_connect env tok ad)"
  unfolding synch_connect_def Let_def
  by (auto simp: minor_change_def intro!: keeps_gets keeps_panic keeps_bind keeps_minor)

lemma keeps_connect_with2 [intro!]: "keeps R (connect_with2 env ad not_once tp)"
proof -
  have add: "keeps R (modify (\<lambda>s. s\<lparr>address_cache := hashmap_add_val_c ad e (address_cache s)\<rparr>))" for e
    by (rule keeps_minor) (auto simp: minor_change_def)
  show ?thesis
    unfolding connect_with2_def Let_def
    by (auto split: option.split prod.split intro!: keeps_gets keeps_ret keeps_bind add)
qed

lemma keeps_connect_with [intro!]: "keeps R (connect_with env ad)"
  by (auto simp: connect_with_def)

lemma keeps_write_stream_send2 [intro!]: "keeps R (write_stream_send2 env tok c w once)"
  unfolding write_stream_send2_def
  by (auto split: option.split slab_state.split send_res.split bool.split intro!: keeps_intros)

lemma keeps_write_stream_send [intro!]: "keeps R (write_stream_send env tok c)"
  by (auto simp: write_stream_send_def)

lemma keeps_send_ping [intro!]: "keeps R (send_ping env entry once)"
  by (auto simp: send_ping_def intro!: keeps_bind)

lemma keeps_update_peer:
  assumes "okp (get_key pr) \<lparr>pe_peer = pr, pe_read = owread, pe_write = owtok, pe_prio = pp\<rparr>"
  shows "keeps R (update_peer env pr pp owtok owread)"
  unfolding update_peer_def
  by (auto split: option.split intro!: keeps_intros k_peer assms)

lemma keeps_authenticated:
  assumes "\<And>w. okp (get_key pr) \<lparr>pe_peer = pr, pe_read = Some rtok, pe_write = Some w, pe_prio = pp\<rparr>"
  shows "keeps R (ml_authenticated env pr pp rtok nextchal chal_entry)"
  unfolding ml_authenticated_def
  by (auto split: option.split intro!: keeps_bind keeps_ret keeps_update_peer assms)

lemma keeps_unchecked:
  assumes "\<And>w. okp (get_key pr) \<lparr>pe_peer = pr, pe_read = Some rtok, pe_write = Some w, pe_prio = pp\<rparr>"
  shows "keeps R (ml_new_peer_unchecked_challenge env pr pp rtok chal nextchal)"
  unfolding ml_new_peer_unchecked_challenge_def
  by (auto split: option.split intro!: keeps_bind keeps_panic keeps_authenticated assms)

section \<open>Commands\<close>

lemma keeps_try_connect [intro!]: "keeps R (ml_try_connect env ad oapi)"
  unfolding ml_try_connect_def by (auto split: prod.split intro!: keeps_intros)

lemma keeps_trusted_try_connect [intro!]: "keeps R (ml_trusted_try_connect env p oapi)"
  unfolding ml_trusted_try_connect_def by (auto split: prod.split intro!: keeps_intros)

lemma keeps_connect_for [intro!]: "keeps R (connect_for env ad sg)"
  unfolding connect_for_def by (auto split: prod.split option.split intro!: keeps_intros)

lemma keeps_discover_loop [intro!]: "keeps R (discover_loop env c n nb kas)"
  by (induction kas arbitrary: nb) (auto split: option.split intro!: keeps_intros)

lemma keeps_ask_subset [intro!]: "keeps R (ask_subset env sg nb rem_call)"
  unfolding ask_subset_def by (auto simp: minor_change_def intro!: keeps_bind keeps_minor)

lemma keeps_discover [intro!]: "keeps R (ml_discover env lkad)"
  unfolding ml_discover_def
  by (auto simp: minor_change_def split: prod.split
      intro!: keeps_bind keeps_gets keeps_ret keeps_panic keeps_minor)

lemma keeps_forward_kad [intro!]: "keeps R (forward_kad env fwconf sg kad acc)"
proof (induction kad arbitrary: acc)
  case Nil
  show ?case by (simp add: keeps_ret)
next
  case (Cons ka kad)
  obtain okey oad where ka: "ka = (okey, oad)" by (cases ka)
  obtain ws nb where acc: "acc = (ws, nb)" by (cases acc)
  show ?case
    unfolding ka acc forward_kad.simps
    by (auto simp: minor_change_def split: option.split
        intro!: keeps_bind keeps_gets keeps_ret keeps_lift keeps_minor Cons.IH)
qed

lemma keeps_forward_service [intro!]: "keeps R (ml_forward_service env ovp okad fwconf sg)"
  unfolding ml_forward_service_def Let_def
  by (auto split: option.split prod.split intro!: keeps_bind keeps_gets keeps_ret keeps_lift keeps_for_each)

lemma keeps_forward_service_once [intro!]: "keeps R (ml_forward_service_once env ok oad sg)"
  unfolding ml_forward_service_once_def
  by (auto split: option.split prod.split intro!: keeps_bind keeps_gets keeps_ret keeps_panic)

lemma keeps_proxy_api_reply [intro!]: "keeps R (ml_proxy_api_reply env sc)"
  unfolding ml_proxy_api_reply_def by auto

lemma keeps_forward_api [intro!]: "keeps R (ml_forward_api env sc nbf rt)"
  unfolding ml_forward_api_def
  by (auto split: option.split prod.split mc_command.split intro!: keeps_bind keeps_gets)

lemma keeps_new_peer_challenge [intro!]: "keeps R (ml_new_peer_challenge env pr rtok chal)"
  unfolding ml_new_peer_challenge_def
  by (auto split: option.split prod.split intro!: keeps_bind keeps_gets keeps_ret keeps_panic)

lemma keeps_connected_r [intro!]: "keeps R (ml_connected_r env rs ows)"
  unfolding ml_connected_r_def by (auto split: option.split intro!: keeps_bind keeps_ret)

lemma keeps_connected_w [intro!]: "keeps R (ml_connected_w env tok ws ors)"
  unfolding ml_connected_w_def connected_entry_def
  by (auto split: option.split slab_state.split intro!: keeps_bind keeps_ret keeps_gets)

lemma keeps_fail_connect [intro!]: "keeps R (ml_fail_connect tok)"
  unfolding ml_fail_connect_def
  by (auto split: option.split intro!: keeps_bind keeps_ret keeps_modify k_forget)

lemma keeps_sub_command [intro!]: "keeps R (ml_sub_command env sc)"
  by (cases sc) (auto simp: minor_change_def Let_def split: option.split prod.split
      intro!: keeps_bind keeps_ret keeps_gets keeps_minor)

end

text \<open>The peers that a command may enter into the cache.\<close>

definition announced :: "('k, 'a, 'l, 'c, 'f, 'g, 'lr, 'gr, 'rs, 'ws) ml_cmd \<Rightarrow> ('k \<times> ('k, 'a) peer_cache_entry) set" where
  "announced c =
     {(get_key pr, \<lparr>pe_peer = pr, pe_read = Some rtok, pe_write = Some w, pe_prio = pp\<rparr>) | pr rtok w pp.
        \<exists>chal nextchal. c = MLNewPeerUncheckedChallenge pr pp rtok chal nextchal}"

fun commands_of ::
    "('k, 'a, 'l, 'c, 'f, 'g, 'lr, 'gr, 'rs, 'ws) poll_event \<Rightarrow> ('k, 'a, 'l, 'c, 'f, 'g, 'lr, 'gr, 'rs, 'ws) ml_cmd list" where
  "commands_of (PollCommands cs) = cs"
| "commands_of _ = []"

context ml_frame
begin

lemma keeps_command:
  assumes "\<And>k e. (k, e) \<in> announced c \<Longrightarrow> okp k e"
  shows "keeps R (call_inner_loop env c)"
  using assms
  by (cases c) (auto simp: announced_def intro!: keeps_ret keeps_panic keeps_unchecked)

lemma keeps_pool_maintain [intro!]: "keeps R (pool_maintain env)"
  unfolding pool_maintain_def Let_def
  by (auto simp: minor_change_def intro!: keeps_bind keeps_ret keeps_gets keeps_minor)

lemma keeps_stream_event [intro!]: "keeps R (stream_event env tok)"
  unfolding stream_event_def
  by (auto split: option.split slab_state.split list.split intro!: keeps_bind keeps_gets keeps_ret keeps_panic)

end

section \<open>Runs\<close>

text \<open>A run of the loop: for each turn, the events the poll returned.\<close>

definition ml_run ::
    "('k, 'a, 'l, 'c, 'f, 'g, 'lr, 'gr, 'rs, 'ws) ml_env \<Rightarrow> ('k, 'a, 'l, 'c, 'f, 'g, 'lr, 'gr, 'rs, 'ws) poll_event list list
      \<Rightarrow> ('k, 'a, 'l, 'c, 'f, 'g, 'lr, 'gr, 'rs, 'ws, unit) mact" where
  "ml_run env = for_each (main_turn env)"

definition run_commands ::
    "('k, 'a, 'l, 'c, 'f, 'g, 'lr, 'gr, 'rs, 'ws) poll_event list list
      \<Rightarrow> ('k, 'a, 'l, 'c, 'f, 'g, 'lr, 'gr, 'rs, 'ws) ml_cmd list" where
  "run_commands turns = concat (map commands_of (concat turns))"

lemma run_commands_simps [simp]:
  "run_commands [] = []"
  "run_commands (turn # turns) = concat (map commands_of turn) @ run_commands turns"
  by (simp_all add: run_commands_def)

context ml_frame
begin

lemma keeps_for_each_set: "(\<And>x. x \<in> set xs \<Longrightarrow> keeps R (f x)) \<Longrightarrow> keeps R (for_each f xs)"
  by (induction xs) (auto intro!: keeps_ret keeps_bind)

lemma keeps_poll_step:
  assumes "\<And>c k e. c \<in> set (commands_of ev) \<Longrightarrow> (k, e) \<in> announced c \<Longrightarrow> okp k e"
  shows "keeps R (poll_step env ev)"
  using assms by (cases ev) (auto intro!: keeps_for_each_set keeps_command)

lemma keeps_run:
  assumes "\<And>c k e. c \<in> set (run_commands turns) \<Longrightarrow> (k, e) \<in> announced c \<Longrightarrow> okp k e"
  shows "keeps R (ml_run env turns)"
  unfolding ml_run_def main_turn_def
  using assms by (intro keeps_for_each_set keeps_bind keeps_pool_maintain keeps_poll_step)
                 (fastforce simp: run_commands_def)

end

text \<open>
  A quantity bounded over the outcome of a run: if the loop did not fail, every command was
  executed, so that what each successful command gains adds up.
\<close>

lemma for_each_gain:
  assumes "for_each f xs s = (t, LOk ())"
    and "\<And>x s t. x \<in> set xs \<Longrightarrow> f x s = (t, LOk ()) \<Longrightarrow> gain x + \<Phi> t + \<Psi> s \<le> \<Phi> s + (\<Psi> t :: nat)"
  shows "sum_list (map gain xs) + \<Phi> t + \<Psi> s \<le> \<Phi> s + \<Psi> t"
  using assms
proof (induction xs arbitrary: s)
  case Nil
  then show ?case by (simp add: ret_def)
next
  case (Cons x xs)
  from Cons.prems(1) obtain u where u: "f x s = (u, LOk ())" "for_each f xs u = (t, LOk ())"
    by (auto simp: bind_eq_ok)
  have "gain x + \<Phi> u + \<Psi> s \<le> \<Phi> s + \<Psi> u" by (rule Cons.prems(2) [OF _ u(1)]) simp
  moreover have "sum_list (map gain xs) + \<Phi> t + \<Psi> u \<le> \<Phi> u + \<Psi> t"
    by (rule Cons.IH [OF u(2)]) (use Cons.prems(2) in auto)
  ultimately show ?case by simp
qed

end
