(* ===== verification/Mainsafety.thy ===== *)
theory Mainsafety
  imports Mainframe
begin

text \<open>
  Safety of the main loop: the challenges it issues and answers, the peers it accepts into its
  cache, and the well-formedness of its state.  Each is an instance of the frame of \<open>Mainframe\<close>.
\<close>

section \<open>Reachable states\<close>

text \<open>
  The states between the steps of the loop, with the commands executed so far.  A step may have
  failed: the loop then ends, and a state that it left is a state like the others here.
\<close>

inductive ml_reach ::
    "('k, 'a, 'l, 'c, 'f, 'g, 'lr, 'gr, 'rs, 'ws) ml_env \<Rightarrow> ('k, 'a, 'l, 'c, 'f, 'g, 'lr, 'gr, 'rs, 'ws) mdht_state
      \<Rightarrow> ('k, 'a, 'l, 'c, 'f, 'g, 'lr, 'gr, 'rs, 'ws) ml_cmd list
      \<Rightarrow> ('k, 'a, 'l, 'c, 'f, 'g, 'lr, 'gr, 'rs, 'ws) mdht_state \<Rightarrow> bool"
  for env s0 where
  start: "ml_reach env s0 [] s0"
| pool: "ml_reach env s0 cs s \<Longrightarrow> pool_maintain env s = (t, r) \<Longrightarrow> ml_reach env s0 cs t"
| command: "ml_reach env s0 cs s \<Longrightarrow> call_inner_loop env c s = (t, r) \<Longrightarrow> ml_reach env s0 (cs @ [c]) t"
| accept: "ml_reach env s0 cs s \<Longrightarrow> ml_connected_r env rs ows s = (t, r) \<Longrightarrow> ml_reach env s0 cs t"
| stream: "ml_reach env s0 cs s \<Longrightarrow> stream_event env tok s = (t, r) \<Longrightarrow> ml_reach env s0 cs t"

lemma reach_commands:
  assumes "for_each (call_inner_loop env) ds s = (t, r)" and "ml_reach env s0 cs s"
  shows "\<exists>es fs. ds = es @ fs \<and> ml_reach env s0 (cs @ es) t \<and> (r = LOk () \<longrightarrow> fs = [])"
  using assms
proof (induction ds arbitrary: s cs)
  case Nil
  then show ?case by (auto simp: ret_def)
next
  case (Cons d ds)
  from Cons.prems(1) have "bind (call_inner_loop env d) (\<lambda>_. for_each (call_inner_loop env) ds) s = (t, r)"
    by simp
  then show ?case
  proof (cases rule: bind_cases)
    case (ok u a)
    have "ml_reach env s0 (cs @ [d]) u" by (rule command [OF Cons.prems(2) ok(1)])
    from Cons.IH [OF ok(2) this] obtain es fs
      where "ds = es @ fs" "ml_reach env s0 ((cs @ [d]) @ es) t" "r = LOk () \<longrightarrow> fs = []" by blast
    then show ?thesis by (intro exI [of _ "d # es"] exI [of _ fs]) simp
  next
    case (err e)
    with Cons.prems(2) have "ml_reach env s0 (cs @ [d]) t" by (blast intro: command)
    with err show ?thesis by (intro exI [of _ "[d]"] exI [of _ ds]) simp
  next
    case panicked
    with Cons.prems(2) have "ml_reach env s0 (cs @ [d]) t" by (blast intro: command)
    with panicked show ?thesis by (intro exI [of _ "[d]"] exI [of _ ds]) simp
  qed
qed

lemma reach_poll_step:
  assumes "poll_step env ev s = (t, r)" and "ml_reach env s0 cs s"
  shows "\<exists>es fs. commands_of ev = es @ fs \<and> ml_reach env s0 (cs @ es) t \<and> (r = LOk () \<longrightarrow> fs = [])"
proof (cases ev)
  case (PollCommands ds)
  with assms reach_commands show ?thesis by fastforce
next
  case (PollListener rs ows)
  with assms show ?thesis by (auto intro: accept)
next
  case (PollStream tok)
  with assms show ?thesis by (auto intro: stream)
qed

text \<open>Steps in sequence, each over its own list of commands.\<close>

lemma reach_for_each:
  assumes "\<And>x s t r cs. f x s = (t, r) \<Longrightarrow> ml_reach env s0 cs s \<Longrightarrow>
      \<exists>es fs. g x = es @ fs \<and> ml_reach env s0 (cs @ es) t \<and> (r = LOk () \<longrightarrow> fs = [])"
    and "for_each f xs s = (t, r)" and "ml_reach env s0 cs s"
  shows "\<exists>es fs. concat (map g xs) = es @ fs \<and> ml_reach env s0 (cs @ es) t \<and> (r = LOk () \<longrightarrow> fs = [])"
  using assms(2,3)
proof (induction xs arbitrary: s cs)
  case Nil
  then show ?case by (auto simp: ret_def)
next
  case (Cons x xs)
  from Cons.prems(1) have "bind (f x) (\<lambda>_. for_each f xs) s = (t, r)" by simp
  then show ?case
  proof (cases rule: bind_cases)
    case (ok u a)
    from assms(1) [OF ok(1) Cons.prems(2)] have "ml_reach env s0 (cs @ g x) u" by auto
    from Cons.IH [OF ok(2) this] obtain es fs
      where "concat (map g xs) = es @ fs" "ml_reach env s0 ((cs @ g x) @ es) t" "r = LOk () \<longrightarrow> fs = []"
      by blast
    then show ?thesis by (intro exI [of _ "g x @ es"] exI [of _ fs]) simp
  qed (use assms(1) [OF _ Cons.prems(2)] in fastforce)+
qed

lemma reach_turn:
  assumes "main_turn env evs s = (t, r)" and "ml_reach env s0 cs s"
  shows "\<exists>es fs. concat (map commands_of evs) = es @ fs \<and> ml_reach env s0 (cs @ es) t \<and> (r = LOk () \<longrightarrow> fs = [])"
proof -
  from assms(1) have "bind (pool_maintain env) (\<lambda>_. for_each (poll_step env) evs) s = (t, r)"
    by (simp add: main_turn_def)
  then show ?thesis
  proof (cases rule: bind_cases)
    case (ok u a)
    show ?thesis
      by (rule reach_for_each [OF reach_poll_step ok(2) pool [OF assms(2) ok(1)]])
  qed (use pool [OF assms(2)] in \<open>fastforce intro: exI [of _ "[]"]\<close>)+
qed

lemma run_commands_turns: "run_commands turns = concat (map (\<lambda>evs. concat (map commands_of evs)) turns)"
  by (induction turns) simp_all

lemma reach_run:
  assumes "ml_run env turns s0 = (t, r)"
  shows "\<exists>es fs. run_commands turns = es @ fs \<and> ml_reach env s0 es t \<and> (r = LOk () \<longrightarrow> fs = [])"
  using reach_for_each [OF reach_turn assms [unfolded ml_run_def] start]
  by (simp add: run_commands_turns)

context ml_frame
begin

lemma keeps_reach:
  assumes "ml_reach env s0 cs t" and "\<And>c k e. c \<in> set cs \<Longrightarrow> (k, e) \<in> announced c \<Longrightarrow> okp k e"
  shows "R s0 t"
  using assms
proof (induction rule: ml_reach.induct)
  case start
  show ?case by (rule R_refl)
next
  case (command cs s c t r)
  have "R s t" by (rule keepsD [OF keeps_command command.hyps(2)]) (auto intro: command.prems)
  moreover have "R s0 s" by (rule command.IH) (auto intro: command.prems)
  ultimately show ?case by (blast intro: R_trans)
next
  case (pool cs s t r)
  then show ?case by (blast intro: R_trans keepsD [OF keeps_pool_maintain pool.hyps(2)])
next
  case (accept cs s rs ows t r)
  then show ?case by (blast intro: R_trans keepsD [OF keeps_connected_r accept.hyps(2)])
next
  case (stream cs s tok t r)
  then show ?case by (blast intro: R_trans keepsD [OF keeps_stream_event stream.hyps(2)])
qed

end

section \<open>Challenges\<close>

definition issued :: "bytes \<Rightarrow> ('k, 'a, 'l, 'c, 'f, 'g, 'lr, 'gr, 'rs, 'ws) mdht_state \<Rightarrow> nat" where
  "issued c s = count_list (events s) (EvChallenge c)"

definition outstanding :: "bytes \<Rightarrow> ('k, 'a, 'l, 'c, 'f, 'g, 'lr, 'gr, 'rs, 'ws) mdht_state \<Rightarrow> nat" where
  "outstanding c s = (if hashmap_has_val_c (challenge_cache s) c then 1 else 0)"

definition chal_rel :: "bytes \<Rightarrow> ('k, 'a, 'l, 'c, 'f, 'g, 'lr, 'gr, 'rs, 'ws) ml_rel" where
  "chal_rel c s t \<longleftrightarrow> outstanding c t + issued c s \<le> outstanding c s + issued c t"

lemma count_list_other: "\<not> is_challenge ev \<Longrightarrow> count_list (evs @ [ev]) (EvChallenge c) = count_list evs (EvChallenge c)"
  by (cases ev) simp_all

lemma has_val_add [simp]: "hashmap_has_val_c (hashmap_add_val_c k v m) c \<longleftrightarrow> c = k \<or> hashmap_has_val_c m c"
  by (auto simp: hashmap_has_val_c_def hashmap_add_val_c_def dom_update)

lemma has_val_remove [simp]: "hashmap_has_val_c (fst (hashmap_remove_val_c k m)) c \<longleftrightarrow> c \<noteq> k \<and> hashmap_has_val_c m c"
  by (auto simp: hashmap_has_val_c_def hashmap_remove_val_c_def AList.delete_eq)

interpretation ch: ml_frame "chal_rel c" env "\<lambda>_ _. True" for c env
  by unfold_locales
     (auto simp: chal_rel_def outstanding_def issued_def count_list_other minor_change_def)

text \<open>An answer that succeeds uses its challenge up.\<close>

lemma unchecked_uses_challenge:
  assumes "ml_new_peer_unchecked_challenge env pr pp rtok c nextchal s = (t, LOk ())"
  shows "1 + outstanding c t + issued c s \<le> outstanding c s + issued c t"
proof -
  from assms obtain u oe where u: "take_challenge c s = (u, LOk oe)"
    and rest: "(case oe of Some ce \<Rightarrow> ml_authenticated env pr pp rtok nextchal ce | None \<Rightarrow> panic) u = (t, LOk ())"
    by (auto simp: ml_new_peer_unchecked_challenge_def bind_eq_ok)
  from rest obtain ce where ce: "oe = Some ce" "ml_authenticated env pr pp rtok nextchal ce u = (t, LOk ())"
    by (auto simp: panic_def split: option.splits)
  from u ce(1) have "outstanding c s = 1" "outstanding c u = 0" "issued c u = issued c s"
    by (auto simp: take_challenge_def hashmap_remove_val_c_def outstanding_def issued_def
        hashmap_has_val_c_def AList.delete_eq split: if_splits dest: map_of_SomeD intro: rev_image_eqI)
  moreover have "chal_rel c u t" by (rule keepsD [OF ch.keeps_authenticated ce(2)]) simp
  ultimately show ?thesis by (simp add: chal_rel_def)
qed

fun answers :: "bytes \<Rightarrow> ('k, 'a, 'l, 'c, 'f, 'g, 'lr, 'gr, 'rs, 'ws) ml_cmd \<Rightarrow> nat" where
  "answers c (MLNewPeerUncheckedChallenge pr pp rtok chal nextchal) = (if chal = c then 1 else 0)"
| "answers c _ = 0"

lemma command_uses_challenge:
  assumes "call_inner_loop env cmd s = (t, LOk ())"
  shows "answers c cmd + outstanding c t + issued c s \<le> outstanding c s + issued c t"
proof -
  have "answers c cmd = 0 \<Longrightarrow> ?thesis"
    using keepsD [OF ch.keeps_command assms, of c] by (simp add: chal_rel_def)
  moreover have ?thesis if "answers c cmd \<noteq> 0"
  proof (cases cmd)
    case (MLNewPeerUncheckedChallenge pr pp rtok chal nextchal)
    with that have "chal = c" by (simp split: if_splits)
    with assms MLNewPeerUncheckedChallenge show ?thesis
      using unchecked_uses_challenge [of env pr pp rtok c nextchal s t] by simp
  qed (use that in simp_all)
  ultimately show ?thesis by blast
qed

lemma poll_uses_challenge:
  assumes "poll_step env ev s = (t, LOk ())"
  shows "sum_list (map (answers c) (commands_of ev)) + outstanding c t + issued c s \<le> outstanding c s + issued c t"
proof (cases ev)
  case (PollCommands cs)
  with assms have "for_each (call_inner_loop env) cs s = (t, LOk ())" by simp
  then have "sum_list (map (answers c) cs) + outstanding c t + issued c s \<le> outstanding c s + issued c t"
    by (rule for_each_gain) (rule command_uses_challenge)
  with PollCommands show ?thesis by simp
qed (use assms keepsD [OF ch.keeps_connected_r, of env _ _ s t _ c]
        keepsD [OF ch.keeps_stream_event, of env _ s t _ c] in \<open>auto simp: chal_rel_def\<close>)

lemma turn_uses_challenge:
  assumes "main_turn env evs s = (t, LOk ())"
  shows "sum_list (map (answers c) (concat (map commands_of evs))) + outstanding c t + issued c s
           \<le> outstanding c s + issued c t"
proof -
  from assms obtain u where u: "pool_maintain env s = (u, LOk ())" "for_each (poll_step env) evs u = (t, LOk ())"
    by (auto simp: main_turn_def bind_eq_ok)
  have "chal_rel c s u" by (rule keepsD [OF ch.keeps_pool_maintain u(1)])
  moreover have "sum_list (map (\<lambda>ev. sum_list (map (answers c) (commands_of ev))) evs)
      + outstanding c t + issued c u \<le> outstanding c u + issued c t"
    by (rule for_each_gain [OF u(2)]) (rule poll_uses_challenge)
  moreover have "sum_list (map (answers c) (concat (map commands_of evs)))
      = sum_list (map (\<lambda>ev. sum_list (map (answers c) (commands_of ev))) evs)"
    by (induction evs) simp_all
  ultimately show ?thesis by (simp add: chal_rel_def)
qed

lemma run_uses_challenge:
  assumes "ml_run env turns s = (t, LOk ())"
  shows "sum_list (map (answers c) (run_commands turns)) + outstanding c t + issued c s
           \<le> outstanding c s + issued c t"
proof -
  have "sum_list (map (\<lambda>evs. sum_list (map (answers c) (concat (map commands_of evs)))) turns)
      + outstanding c t + issued c s \<le> outstanding c s + issued c t"
    by (rule for_each_gain [OF assms [unfolded ml_run_def]]) (rule turn_uses_challenge)
  moreover have "sum_list (map (answers c) (run_commands turns))
      = sum_list (map (\<lambda>evs. sum_list (map (answers c) (concat (map commands_of evs)))) turns)"
    by (induction turns) (simp_all del: map_concat)
  ultimately show ?thesis by simp
qed

section \<open>Peers\<close>

definition peers_rel :: "('k \<times> ('k, 'a) peer_cache_entry) set \<Rightarrow> ('k, 'a, 'l, 'c, 'f, 'g, 'lr, 'gr, 'rs, 'ws) ml_rel" where
  "peers_rel D s t \<longleftrightarrow> set (peer_cache t) \<subseteq> set (peer_cache s) \<union> D"

lemma set_add_val_subset: "set (hashmap_add_val_c k v m) \<subseteq> insert (k, v) (set m)"
  by (induction m) (auto simp: hashmap_add_val_c_def)

lemma set_remove_val_subset: "set (fst (hashmap_remove_val_c k m)) \<subseteq> set m"
  by (auto simp: hashmap_remove_val_c_def AList.delete_eq)

interpretation pe: ml_frame "peers_rel D" env "\<lambda>k e. (k, e) \<in> D" for D env
proof
  show "peers_rel D s t" if "minor_change s t" for s t
    using that by (simp add: peers_rel_def minor_change_def)
  show "peers_rel D s (s\<lparr>peer_cache := hashmap_add_val_c k e (peer_cache s)\<rparr>)" if "(k, e) \<in> D" for k e s
    using that set_add_val_subset [of k e "peer_cache s"] by (auto simp: peers_rel_def)
  show "peers_rel D s (s\<lparr>peer_cache := fst (hashmap_remove_val_c k (peer_cache s))\<rparr>)" for k s
    using set_remove_val_subset [of k "peer_cache s"] by (auto simp: peers_rel_def)
qed (auto simp: peers_rel_def)

lemma unknown_challenge_panics:
  assumes "hashmap_get_val_c (challenge_cache s) chal = None"
  shows "\<exists>t. call_inner_loop env (MLNewPeerUncheckedChallenge pr pp rtok chal nextchal) s = (t, LPanic)
             \<and> peer_cache t = peer_cache s"
  using assms
  by (auto simp: ml_new_peer_unchecked_challenge_def take_challenge_def hashmap_remove_val_c_def
      hashmap_get_val_c_def bind_def panic_def)

lemma command_peers:
  assumes "call_inner_loop env c s = (t, r)" and "(k, e) \<in> set (peer_cache t)" and "(k, e) \<notin> set (peer_cache s)"
  obtains pr pp rtok chal nextchal w where "c = MLNewPeerUncheckedChallenge pr pp rtok chal nextchal"
    and "hashmap_get_val_c (challenge_cache s) chal \<noteq> None"
    and "k = get_key pr" and "e = \<lparr>pe_peer = pr, pe_read = Some rtok, pe_write = Some w, pe_prio = pp\<rparr>"
proof -
  have "peers_rel (announced c) s t"
    by (rule keepsD [OF pe.keeps_command assms(1)]) simp
  with assms(2,3) have "(k, e) \<in> announced c" by (auto simp: peers_rel_def)
  then obtain pr pp rtok chal nextchal w where c: "c = MLNewPeerUncheckedChallenge pr pp rtok chal nextchal"
    and ke: "k = get_key pr" "e = \<lparr>pe_peer = pr, pe_read = Some rtok, pe_write = Some w, pe_prio = pp\<rparr>"
    by (auto simp: announced_def)
  have "hashmap_get_val_c (challenge_cache s) chal \<noteq> None"
  proof
    assume "hashmap_get_val_c (challenge_cache s) chal = None"
    from unknown_challenge_panics [OF this, of env pr pp rtok nextchal] assms c show False by auto
  qed
  then show thesis by (rule that [OF c _ ke])
qed

lemma outstanding_issued:
  assumes "ml_reach env s0 cs s" and "challenge_cache s0 = hashmap_new"
    and "hashmap_get_val_c (challenge_cache s) chal \<noteq> None"
  shows "EvChallenge chal \<in> set (events s)"
proof -
  have "chal_rel chal s0 s" by (rule ch.keeps_reach [OF assms(1)]) simp
  moreover have "outstanding chal s0 = 0"
    by (simp add: outstanding_def assms(2) hashmap_has_val_c_def hashmap_new_def)
  moreover have "outstanding chal s = 1"
    using assms(3) by (simp add: outstanding_def hashmap_has_val_c_def hashmap_get_val_c_def map_of_eq_None_iff del: not_None_eq)
  ultimately have "0 < issued chal s" by (simp add: chal_rel_def)
  then show ?thesis by (simp add: issued_def) (metis count_notin less_nat_zero_code)
qed

lemma reach_peers:
  assumes "ml_reach env s0 cs t" and "challenge_cache s0 = hashmap_new" and "peer_cache s0 = hashmap_new"
    and "(k, e) \<in> set (peer_cache t)"
  shows "k = get_key (pe_peer e) \<and>
    (\<exists>before rtok chal nextchal after s.
       cs = before @ MLNewPeerUncheckedChallenge (pe_peer e) (pe_prio e) rtok chal nextchal # after
       \<and> pe_read e = Some rtok \<and> ml_reach env s0 before s \<and> EvChallenge chal \<in> set (events s))"
  using assms
proof (induction rule: ml_reach.induct)
  case start
  then show ?case by (simp add: hashmap_new_def)
next
  case (command cs s c t r)
  show ?case
  proof (cases "(k, e) \<in> set (peer_cache s)")
    case True
    from command.IH [OF command.prems(1,2) True] show ?thesis by fastforce
  next
    case False
    from command_peers [OF command.hyps(2) command.prems(3) False] obtain pr pp rtok chal nextchal w
      where "c = MLNewPeerUncheckedChallenge pr pp rtok chal nextchal"
        "hashmap_get_val_c (challenge_cache s) chal \<noteq> None" "k = get_key pr"
        "e = \<lparr>pe_peer = pr, pe_read = Some rtok, pe_write = Some w, pe_prio = pp\<rparr>" .
    with outstanding_issued [OF command.hyps(1) command.prems(1)] command.hyps(1) show ?thesis by force
  qed
next
  case (pool cs s t r)
  then show ?case using keepsD [OF pe.keeps_pool_maintain pool.hyps(2), of "{}"] by (auto simp: peers_rel_def)
next
  case (accept cs s rs ows t r)
  then show ?case using keepsD [OF pe.keeps_connected_r accept.hyps(2), of "{}"] by (auto simp: peers_rel_def)
next
  case (stream cs s tok t r)
  then show ?case using keepsD [OF pe.keeps_stream_event stream.hyps(2), of "{}"] by (auto simp: peers_rel_def)
qed

section \<open>Well-formed states\<close>

definition ml_ok :: "('k, 'a, 'l, 'c, 'f, 'g, 'lr, 'gr, 'rs, 'ws) mdht_state \<Rightarrow> bool" where
  "ml_ok s \<longleftrightarrow>
     distinct (map fst (slab s)) \<and> hashmap_ok (peer_cache s) \<and> hashmap_ok (address_cache s)
     \<and> hashmap_ok (challenge_cache s) \<and> (\<forall>(k, e) \<in> set (peer_cache s). get_key (pe_peer e) = k)"

text \<open>What the \<open>slab\<close> crate documents: the key of an insertion was vacant.\<close>

definition vacant_key :: "(usize list \<Rightarrow> usize) \<Rightarrow> bool" where
  "vacant_key v \<longleftrightarrow> (\<forall>ks. int (length ks) < 2 ^ 64 \<longrightarrow> v ks \<notin> set ks)"

definition ok_rel :: "('k, 'a, 'l, 'c, 'f, 'g, 'lr, 'gr, 'rs, 'ws) ml_env \<Rightarrow> ('k, 'a, 'l, 'c, 'f, 'g, 'lr, 'gr, 'rs, 'ws) ml_rel" where
  "ok_rel env s t \<longleftrightarrow> vacant_key (e_vacant env) \<longrightarrow> ml_ok s \<longrightarrow> ml_ok t"

lemma map_fst_modify: "map fst (map (\<lambda>(t, e). (t, h t e)) xs) = map fst xs"
  by (induction xs) auto

interpretation ok: ml_frame "ok_rel env" env "\<lambda>k e. get_key (pe_peer e) = k" for env
proof
  show "ok_rel env s u" if "ok_rel env s t" "ok_rel env t u" for s t u
    using that unfolding ok_rel_def by blast
  show "ok_rel env s (s\<lparr>slab := (e_vacant env (map fst (slab s)), e) # slab s\<rparr>)" if "int (length (slab s)) < 2 ^ 64" for s e
    using that by (auto simp: ok_rel_def ml_ok_def vacant_key_def simp flip: set_map)
  show "ok_rel env s (s\<lparr>slab := map (\<lambda>(t, e). (t, if t = tok then h e else e)) (slab s)\<rparr>)" for s tok h
    by (simp add: ok_rel_def ml_ok_def map_fst_modify del: map_map)
  show "ok_rel env s (s\<lparr>slab := AList.delete tok (slab s)\<rparr>)" for s tok
    by (simp add: ok_rel_def ml_ok_def distinct_delete)
  show "ok_rel env s t" if "minor_change s t" for s t
    using that by (auto simp: ok_rel_def ml_ok_def minor_change_def)
  show "ok_rel env s (s\<lparr>peer_cache := fst (hashmap_remove_val_c k (peer_cache s))\<rparr>)" for k s
    using set_remove_val_subset [of k "peer_cache s"] by (auto simp: ok_rel_def ml_ok_def)
  show "ok_rel env s (s\<lparr>peer_cache := hashmap_add_val_c k e (peer_cache s)\<rparr>)" if "get_key (pe_peer e) = k" for k e s
    using that set_add_val_subset [of k e "peer_cache s"] by (fastforce simp: ok_rel_def ml_ok_def)
qed (simp_all add: ok_rel_def ml_ok_def)

section \<open>Properties\<close>

definition first_vacant :: "usize list \<Rightarrow> usize" where
  "first_vacant ks = hd (filter (\<lambda>w. w \<notin> set ks) (map word_of_nat [0..<Suc (length ks)]))"

lemma first_vacant_vacant: "vacant_key first_vacant"
  unfolding vacant_key_def
proof (intro allI impI)
  fix ks :: "usize list"
  assume len: "int (length ks) < 2 ^ 64"
  let ?ws = "map (word_of_nat :: nat \<Rightarrow> usize) [0..<Suc (length ks)]"
  have "inj_on (word_of_nat :: nat \<Rightarrow> usize) {0..<Suc (length ks)}"
    using len by (auto simp: inj_on_def word_of_nat_eq_iff take_bit_nat_eq_self)
  then have "card (set ?ws) = Suc (length ks)" by (simp add: card_image del: upt_Suc)
  moreover have "card (set ks) < Suc (length ks)" by (simp add: card_length le_imp_less_Suc)
  ultimately have "\<not> set ?ws \<subseteq> set ks" by (metis List.finite_set card_mono leD)
  then have "filter (\<lambda>w. w \<notin> set ks) ?ws \<noteq> []" by (auto simp: filter_empty_conv simp del: upt_Suc)
  then have "first_vacant ks \<in> set (filter (\<lambda>w. w \<notin> set ks) ?ws)"
    unfolding first_vacant_def by (rule hd_in_set)
  then show "first_vacant ks \<notin> set ks" by (simp only: set_filter mem_Collect_eq simp_thms)
qed

lemma mdht_init_ok: "ml_ok (mdht_init p asynch n now)"
  by (simp add: ml_ok_def mdht_init_def hashmap_ok_def hashmap_new_def)

text \<open>A network with authentication whose channels and streams do not fail.\<close>

definition demo_ml_env :: "(nat, nat, unit, unit, unit, unit, unit, unit, unit, unit) ml_env" where
  "demo_ml_env =
     \<lparr>e_auth_mode = Public, e_use_api_service = True, e_max_nb_discover_call = 1, e_nb_synch_connect = 1,
      e_send = (\<lambda>_ _. Sent), e_io = (\<lambda>_ _. None), e_connectwith = (\<lambda>_ _. Ok ((), Some ())),
      e_register = (\<lambda>_ _. Ok True), e_challenge = (\<lambda>lg _. [word_of_nat (length lg)]),
      e_unwrap = (\<lambda>_ _. Ok True), e_synch_finished = (\<lambda>_ _. False), e_now = (\<lambda>_. 0),
      e_vacant = first_vacant, e_route = (\<lambda>_ c _. Ok (c, [])), e_do_listen = False,
      e_build_command = (\<lambda>_. None), e_get_read = (\<lambda>_. False), e_extra_pool = (\<lambda>n. n), e_pool_delay = 0,
      e_local_is = (\<lambda>_. False), e_global_is = (\<lambda>_. False), e_local_id = (\<lambda>_. None),
      e_global_id = (\<lambda>_. None), e_discover_fn = (), e_ping_fn = (), e_trusted_ping_fn = (),
      e_forward_ka_fn = ()\<rparr>"

definition demo_init :: "(nat, nat, unit, unit, unit, unit, unit, unit, unit, unit) mdht_state" where
  "demo_init = mdht_init (demo_peer 1) True 0 0"

text \<open>A connection, its stream ready, and the answer of the peer to the challenge.\<close>

definition demo_turns :: "(nat, nat, unit, unit, unit, unit, unit, unit, unit, unit) poll_event list list" where
  "demo_turns =
     [[PollCommands [MLTryConnect 7 None]], [PollStream 0],
      [PollCommands [MLNewPeerUncheckedChallenge (demo_peer 7) Normal 1 [3] None]]]"

text \<open>
  C1. As long as the main loop does not fail, a challenge is answered successfully at most as often
  as the loop issued it, and an answer still outstanding counts as well: with challenges that do
  not repeat, no answer is accepted twice.
\<close>

theorem challenge_answered_once:
  assumes "ml_run env turns (mdht_init p asynch n now) = (t, LOk ())"
  shows "sum_list (map (answers c) (run_commands turns)) + outstanding c t \<le> issued c t"
  using run_uses_challenge [OF assms, of c]
  by (simp add: mdht_init_def outstanding_def issued_def hashmap_has_val_c_def hashmap_new_def)

theorem challenge_answered_once_witness:
  "snd (ml_run demo_ml_env demo_turns demo_init) = LOk ()
   \<and> sum_list (map (answers [3]) (run_commands demo_turns)) = 1
   \<and> 1 + outstanding [3] (fst (ml_run demo_ml_env demo_turns demo_init))
       \<le> issued [3] (fst (ml_run demo_ml_env demo_turns demo_init))"
proof -
  have "snd (ml_run demo_ml_env demo_turns demo_init) = LOk ()" by code_simp
  moreover have a: "sum_list (map (answers [3]) (run_commands demo_turns)) = 1" by code_simp
  ultimately show ?thesis
    using challenge_answered_once [of demo_ml_env demo_turns "demo_peer 1" True 0 0 _ "[3]"]
    unfolding demo_init_def by (metis prod.collapse)
qed

text \<open>
  C2. Whatever happens, every peer in the cache of the main loop is there under its own key, and
  came with a command that answers a challenge which the loop had issued before that command.
\<close>

theorem peers_answered_a_challenge:
  assumes "ml_run env turns (mdht_init p asynch n now) = (t, r)" and "(k, e) \<in> set (peer_cache t)"
  shows "k = get_key (pe_peer e) \<and>
    (\<exists>before rtok chal nextchal after s.
       run_commands turns = before @ MLNewPeerUncheckedChallenge (pe_peer e) (pe_prio e) rtok chal nextchal # after
       \<and> pe_read e = Some rtok \<and> ml_reach env (mdht_init p asynch n now) before s
       \<and> EvChallenge chal \<in> set (events s))"
proof -
  from reach_run [OF assms(1)] obtain es fs
    where run: "run_commands turns = es @ fs" and es: "ml_reach env (mdht_init p asynch n now) es t" by blast
  from reach_peers [OF es _ _ assms(2)] run show ?thesis by (force simp: mdht_init_def)
qed

theorem peers_answered_a_challenge_witness:
  "\<exists>before rtok chal nextchal after s.
     run_commands demo_turns = before @ MLNewPeerUncheckedChallenge (demo_peer 7) Normal rtok chal nextchal # after
     \<and> ml_reach demo_ml_env demo_init before s \<and> EvChallenge chal \<in> set (events s)"
proof -
  have "(7, \<lparr>pe_peer = demo_peer 7, pe_read = Some 1, pe_write = Some 0, pe_prio = Normal\<rparr>)
      \<in> set (peer_cache (fst (ml_run demo_ml_env demo_turns demo_init)))" by code_simp
  note in_cache = this [unfolded demo_init_def]
  show ?thesis
    using peers_answered_a_challenge [OF prod.collapse [symmetric] in_cache]
    unfolding demo_init_def peer_cache_entry.simps by (elim conjE exE) (intro exI conjI)
qed



end
