(* ===== verification/Mainforward.thy ===== *)
theory Mainforward
  imports Mainsafety
begin

text \<open>
  What the main loop sends: commands queued for a stream that is not connected, commands
  forwarded to peers, and what happens to an address whose connection failed.
\<close>

section \<open>One stream\<close>

definition stream_state ::
    "('k, 'a, 'l, 'c, 'f, 'g, 'lr, 'gr, 'rs, 'ws) mdht_state \<Rightarrow> usize
      \<Rightarrow> ('k, 'a, 'l, 'c, 'f, 'g, 'rs, 'ws) slab_state option" where
  "stream_state s tok = map_option se_state (slab_get s tok)"

lemma map_of_modify:
  "map_of (map (\<lambda>(t, e). (t, if t = tok then h e else e)) xs) t' =
     (if t' = tok then map_option h (map_of xs t') else map_of xs t')"
  by (induction xs) auto

lemma stream_state_set:
  "slab_set tok st s = (t, r) \<Longrightarrow> stream_state s tok \<noteq> None \<Longrightarrow>
     r = LOk () \<and> stream_state t tok = Some st \<and> events t = events s"
  by (auto simp: slab_set_def slab_modify_def modify_def stream_state_def slab_get_def map_of_modify)

text \<open>What a send does, by the state of its stream.\<close>

lemma send_cases:
  "stream_state s tok = Some (SWriteStream ws q False) \<Longrightarrow>
     write_stream_send env tok c s = slab_set tok (SWriteStream ws (q @ [c]) False) s"
  "stream_state s tok = Some (SWriteStream ws q True) \<Longrightarrow>
     write_stream_send env tok c s =
       bind (slab_set tok SEmpty) (\<lambda>_.
       bind (do_io env (EvSpawnWrite tok None False (q @ [c]))) (\<lambda>_. slab_set tok SWriteSpawned)) s"
  "stream_state s tok = Some SWriteSpawned \<Longrightarrow> e_send env (events s) (EvWrite tok c) = Sent \<Longrightarrow>
     write_stream_send env tok c s = record_event (EvWrite tok c) s"
  "stream_state s tok = None \<Longrightarrow>
     write_stream_send env tok c s = (s, LErr (LoopErr (Bug ''Call of write listener on no state'')))"
  by (cases "slab_get s tok",
      simp_all add: stream_state_def write_stream_send_def write_stream_send2_def bind_def gets_def fail_def)+

text \<open>A command for a stream that is not connected waits behind those before it.\<close>

lemma queue_waits:
  assumes "stream_state s tok = Some (SWriteStream ws q False)"
  shows "\<exists>t. write_stream_send env tok c s = (t, LOk ())
           \<and> stream_state t tok = Some (SWriteStream ws (q @ [c]) False) \<and> events t = events s"
proof -
  obtain t r where set: "slab_set tok (SWriteStream ws (q @ [c]) False) s = (t, r)" by fastforce
  from stream_state_set [OF this] assms
  have t: "r = LOk ()" "stream_state t tok = Some (SWriteStream ws (q @ [c]) False)" "events t = events s" by auto
  have "write_stream_send env tok c s = (t, r)"
    using send_cases(1) [OF assms] set by simp
  with t show ?thesis by simp
qed

lemma queue_waits_all:
  assumes "stream_state s tok = Some (SWriteStream ws q False)"
  shows "\<exists>t. for_each (write_stream_send env tok) cs s = (t, LOk ())
           \<and> stream_state t tok = Some (SWriteStream ws (q @ cs) False) \<and> events t = events s"
  using assms
proof (induction cs arbitrary: s q)
  case Nil
  then show ?case by (simp add: ret_def)
next
  case (Cons c cs)
  from queue_waits [OF Cons.prems, of env c] obtain u where
    u: "write_stream_send env tok c s = (u, LOk ())"
       "stream_state u tok = Some (SWriteStream ws (q @ [c]) False)" "events u = events s" by blast
  from Cons.IH [OF u(2)] u(1,3) show ?case by (auto simp: bind_def)
qed

lemma connected_stream_spawns:
  assumes "stream_state s tok = Some (SWriteStream ws q True)" and "\<And>lg ev. e_io env lg ev = None"
  shows "\<exists>t. write_stream_send env tok c s = (t, LOk ()) \<and> stream_state t tok = Some SWriteSpawned
           \<and> events t = events s @ [EvSpawnWrite tok None False (q @ [c])]"
proof -
  let ?ev = "EvSpawnWrite tok None False (q @ [c])"
  obtain u r where u: "slab_set tok SEmpty s = (u, r)" by fastforce
  from stream_state_set [OF u] assms(1)
  have u': "r = LOk ()" "stream_state u tok = Some SEmpty" "events u = events s" by auto
  let ?v = "u\<lparr>events := events u @ [?ev]\<rparr>"
  have v: "do_io env ?ev u = (?v, LOk ())"
    using assms(2) by (simp add: do_io_def bind_def gets_def record_event_def modify_def)
  obtain t r' where t: "slab_set tok SWriteSpawned ?v = (t, r')" by fastforce
  have "stream_state ?v tok \<noteq> None" using u'(2) by (auto simp: stream_state_def slab_get_def)
  from stream_state_set [OF t this] u'
  have "r' = LOk ()" "stream_state t tok = Some SWriteSpawned" "events t = events s @ [?ev]" by auto
  moreover have "write_stream_send env tok c s = (t, r')"
    using send_cases(2) [OF assms(1)] u u'(1) v t by (simp add: bind_def)
  ultimately show ?thesis by simp
qed

text \<open>A stream that gets ready is spawned with its queue rotated by one.\<close>

lemma ready_stream_rotates:
  assumes "stream_state s tok = Some (SWriteStream ws (c # cs) False)" and "\<And>lg ev. e_io env lg ev = None"
  shows "\<exists>t. stream_event env tok s = (t, LOk ()) \<and> stream_state t tok = Some SWriteSpawned
           \<and> events t = events s @ [EvSpawnWrite tok None False (cs @ [c])]"
proof -
  obtain u r where u: "slab_set tok (SWriteStream ws cs True) s = (u, r)" by fastforce
  from stream_state_set [OF u] assms(1)
  have u': "r = LOk ()" "stream_state u tok = Some (SWriteStream ws cs True)" "events u = events s" by auto
  from connected_stream_spawns [OF u'(2) assms(2)] obtain t where
    "write_stream_send env tok c u = (t, LOk ())" "stream_state t tok = Some SWriteSpawned"
    "events t = events u @ [EvSpawnWrite tok None False (cs @ [c])]" by blast
  with assms(1) u u' show ?thesis
    by (auto simp: stream_event_def bind_def gets_def stream_state_def)
qed

section \<open>Forwarding\<close>

text \<open>The token of the write stream of a peer that is connected.\<close>

definition write_token_of :: "('k, 'a, 'l, 'c, 'f, 'g, 'lr, 'gr, 'rs, 'ws) mdht_state \<Rightarrow> ('k, 'a) peer \<Rightarrow> usize option" where
  "write_token_of s p = Option.bind (hashmap_get_val_c (peer_cache s) (get_key p)) pe_write"

text \<open>What the loop says of the peers a forward could not reach.\<close>

definition missing_notice ::
    "('k, 'a, 'l, 'c, 'f, 'g, 'lr, 'gr, 'rs, 'ws) ml_env \<Rightarrow> bool \<Rightarrow> ('k, 'a, 'l, 'c, 'f, 'g) mc_cmd \<Rightarrow> nat
      \<Rightarrow> ('k, 'a, 'l, 'c, 'f, 'g, 'lr, 'gr, 'rs, 'ws) event list" where
  "missing_notice env disc sg n =
     (if n = 0 then []
      else if disc then [EvPeerstore (GLocal (Subset n (e_discover_fn env)))]
      else (case mc_get_api_reply (e_local_id env) (e_global_id env) sg of
              Some qid \<Rightarrow> [EvApi (ApiAdjust qid n)]
            | None \<Rightarrow> []))"

lemma bind_gets: "bind (gets h) f s = f (h s) s"
  by (simp add: bind_def gets_def)

lemma send_or_panic_sent:
  "(\<And>lg ev. e_send env lg ev = Sent) \<Longrightarrow> send_or_panic env ev s = (s\<lparr>events := events s @ [ev]\<rparr>, LOk ())"
  by (simp add: send_or_panic_def bind_def gets_def record_event_def modify_def)

lemma stream_state_events [simp]: "stream_state (s\<lparr>events := x\<rparr>) tok = stream_state s tok"
  by (simp add: stream_state_def slab_get_def)

lemma stream_state_waiting [simp]: "stream_state (s\<lparr>discover_wait_route := x\<rparr>) tok = stream_state s tok"
  by (simp add: stream_state_def slab_get_def)

lemma send_all_spawned:
  assumes "\<And>lg ev. e_send env lg ev = Sent" and "\<And>w. w \<in> set ws \<Longrightarrow> stream_state s w = Some SWriteSpawned"
  shows "for_each (\<lambda>d. write_stream_send env d c) ws s =
     (s\<lparr>events := events s @ map (\<lambda>w. EvWrite w c) ws\<rparr>, LOk ())"
  using assms(2)
proof (induction ws arbitrary: s)
  case Nil
  then show ?case by (simp add: ret_def)
next
  case (Cons w ws)
  have "write_stream_send env w c s = (s\<lparr>events := events s @ [EvWrite w c]\<rparr>, LOk ())"
    using send_cases(3) [of s w env c] Cons.prems [of w] assms(1) by (simp add: record_event_def modify_def)
  moreover have "for_each (\<lambda>d. write_stream_send env d c) ws (s\<lparr>events := events s @ [EvWrite w c]\<rparr>) =
      (s\<lparr>events := (events s @ [EvWrite w c]) @ map (\<lambda>w. EvWrite w c) ws\<rparr>, LOk ())"
    using Cons.IH [of "s\<lparr>events := events s @ [EvWrite w c]\<rparr>"] Cons.prems by simp
  ultimately show ?case by (simp add: bind_def)
qed

lemma forward_to_peers_eq:
  assumes sent: "\<And>lg ev. e_send env lg ev = Sent"
    and spawned: "\<And>p w. p \<in> set vp \<Longrightarrow> write_token_of s p = Some w \<Longrightarrow> stream_state s w = Some SWriteSpawned"
  shows "\<exists>t. ml_forward_service env (Some vp) None \<lparr>nb_for = 0, discover = disc\<rparr> sg s = (t, LOk ())
     \<and> events t = events s
          @ missing_notice env disc sg (length (filter (\<lambda>p. write_token_of s p = None) vp))
          @ map (\<lambda>w. EvWrite w (WService sg)) (List.map_filter (write_token_of s) vp)
     \<and> slab t = slab s \<and> peer_cache t = peer_cache s \<and> address_cache t = address_cache s"
proof -
  let ?ws = "List.map_filter (write_token_of s) vp"
  have len: "length vp - length ?ws = length (filter (\<lambda>p. write_token_of s p = None) vp)"
    and le: "length ?ws \<le> length vp"
    using sum_length_filter_compl [of "\<lambda>p. write_token_of s p = None" vp]
    by (simp_all add: map_filter_def)
  have ws: "stream_state s w = Some SWriteSpawned" if "w \<in> set ?ws" for w
    using that spawned by (auto simp: map_filter_def)
  define n where "n = length (filter (\<lambda>p. write_token_of s p = None) vp)"
  define notice where "notice =
     (if disc then ask_subset env sg n (e_max_nb_discover_call env)
      else case mc_get_api_reply (e_local_id env) (e_global_id env) sg of
             Some qid \<Rightarrow> send_or_panic env (EvApi (ApiAdjust qid n)) | None \<Rightarrow> ret ())"
  have wt: "(\<lambda>p. Option.bind (hashmap_get_val_c (peer_cache s) (get_key p)) pe_write) = write_token_of s"
    by (simp add: fun_eq_iff write_token_of_def)
  have n: "n = length vp - length ?ws" by (simp add: n_def len)
  have "ml_forward_service env (Some vp) None \<lparr>nb_for = 0, discover = disc\<rparr> sg s =
      bind (if 0 < n then notice else ret ()) (\<lambda>_. for_each (\<lambda>d. write_stream_send env d (WService sg)) ?ws) s"
    unfolding notice_def n ml_forward_service_def Let_def
    by (simp add: bind_gets wt cong: if_cong option.case_cong)
  moreover have "\<exists>u. (if 0 < n then notice else ret ()) s = (u, LOk ())
      \<and> events u = events s @ missing_notice env disc sg n
      \<and> slab u = slab s \<and> peer_cache u = peer_cache s \<and> address_cache u = address_cache s"
    by (auto simp: notice_def missing_notice_def ask_subset_def bind_def modify_def ret_def
        send_or_panic_sent [OF sent] split: option.split)
  then obtain u where u: "(if 0 < n then notice else ret ()) s = (u, LOk ())"
      "events u = events s @ missing_notice env disc sg n"
      "slab u = slab s" "peer_cache u = peer_cache s" "address_cache u = address_cache s" by blast
  moreover have "stream_state u w = Some SWriteSpawned" if "w \<in> set ?ws" for w
    using ws [OF that] u(3) by (simp add: stream_state_def slab_get_def)
  then have "for_each (\<lambda>d. write_stream_send env d (WService sg)) ?ws u =
      (u\<lparr>events := events u @ map (\<lambda>w. EvWrite w (WService sg)) ?ws\<rparr>, LOk ())"
    by (rule send_all_spawned [OF sent])
  ultimately show ?thesis by (simp add: bind_def n_def)
qed

section \<open>A connection that failed\<close>

lemma map_of_deleted [simp]:
  "map_of (AList.delete tok xs) tok = None" "map_of (AList.delete t (AList.delete tok xs)) tok = None"
  by (simp_all add: delete_conv' fun_upd_def)

lemma fail_connect_frame:
  assumes "ml_fail_connect tok s = (t, r)"
  shows "address_cache t = address_cache s \<and> stream_state t tok = None"
  using assms
  by (auto simp: ml_fail_connect_def slab_remove_def bind_def ret_def modify_def stream_state_def
      slab_get_def split: option.splits)

section \<open>Properties\<close>


definition demo_connected :: "(nat, nat, unit, unit, unit, unit, unit, unit, unit, unit) mdht_state" where
  "demo_connected =
     demo_init\<lparr>slab := [(0, \<lparr>se_state = SWriteSpawned, se_os = None, se_peer = None\<rparr>)],
       peer_cache := [(7, \<lparr>pe_peer = demo_peer 7, pe_read = None, pe_write = Some 0, pe_prio = Normal\<rparr>)],
       address_cache := [(7, \<lparr>ac_read = None, ac_write = 0\<rparr>)]\<rparr>"

lemmas demo_connected_simps =
  demo_connected_def demo_init_def mdht_init_def demo_peer_def stream_state_def slab_get_def
  write_token_of_def hashmap_get_val_c_def




end
