(* ===== verification/Inefficientmap.thy ===== *)
theory Inefficientmap
  imports Mainloop
begin

text \<open>
  The peer cache that also routes (\<open>mydht-inefficientmap/src/inefficientmap.rs\<close>), over a
  \<open>HashMap\<close>: a vector of the peers with their write tokens, walked backwards from where the last
  query stopped.  Its queries refine a round robin over the peers in cyclic order.
\<close>

section \<open>Model\<close>

record ('k, 'gp) inefficientmap =
  peers_nbquery :: "('k \<times> usize option) list"
  next_ix :: nat
  im_peers :: "('k, 'gp) hashmap"

definition im_new :: "('k, 'gp) hashmap \<Rightarrow> ('k, 'gp) inefficientmap" where
  "im_new c = \<lparr>peers_nbquery = [], next_ix = 0, im_peers = c\<rparr>"

definition im_get_at :: "('k, 'gp) inefficientmap \<Rightarrow> nat \<Rightarrow> usize option" where
  "im_get_at s ix = Option.bind (vec_get (peers_nbquery s) ix) snd"

text \<open>\<open>GetPeerRef\<close>: the key and the write token of a cache entry.\<close>

definition peer_entry_ref :: "('k, 'a) peer_cache_entry \<Rightarrow> 'k \<times> usize option" where
  "peer_entry_ref e = (get_key (pe_peer e), pe_write e)"

text \<open>
  The loop of \<open>get_closest\<close>: the results so far, how many they are, and the filter, which grows
  with the peers chosen.
\<close>

partial_function (option) closest_loop ::
    "('k \<times> usize option) list \<Rightarrow> nat \<Rightarrow> nat \<Rightarrow> nat \<Rightarrow> nat \<Rightarrow> usize list \<Rightarrow> 'k list option
      \<Rightarrow> (nat \<times> (usize list \<times> 'k list option) outcome) option" where
  "closest_loop pn st_ix nbnode nxt i r filt =
     (case vec_get pn nxt of
        None \<Rightarrow> Some (nxt, Panic)
      | Some nid \<Rightarrow>
          (let filtered = (case filt of Some f \<Rightarrow> fst nid \<in> set f | None \<Rightarrow> False);
               chosen = (if filtered then None else snd nid);
               r' = (case chosen of Some ws \<Rightarrow> r @ [ws] | None \<Rightarrow> r);
               filt' = (case chosen of Some ws \<Rightarrow> map_option (\<lambda>f. f @ [fst nid]) filt | None \<Rightarrow> filt);
               i' = (case chosen of Some ws \<Rightarrow> i + 1 | None \<Rightarrow> i);
               nxt' = (if nxt = 0 then length pn - 1 else nxt - 1)
           in if nxt' = st_ix then Some (nxt', Ok (r', filt'))
              else if i' = nbnode then Some (nxt', Ok (r', filt'))
              else closest_loop pn st_ix nbnode nxt' i' r' filt'))"

definition im_get_closest ::
    "nat \<Rightarrow> 'k list option \<Rightarrow> ('k, 'gp) inefficientmap
      \<Rightarrow> (('k, 'gp) inefficientmap \<times> (usize list \<times> 'k list option) outcome) option" where
  "im_get_closest nbnode filt s =
     (if peers_nbquery s = [] then Some (s, Ok ([], filt))
      else (case closest_loop (peers_nbquery s) (next_ix s) nbnode (next_ix s) 0 [] filt of
              Some (nxt, r) \<Rightarrow> Some (s\<lparr>next_ix := nxt\<rparr>, r)
            | None \<Rightarrow> None))"

text \<open>
  \<open>route_base\<close>, for a message with its filter (\<open>getf\<close>, \<open>setf\<close>) and the adjustment of its
  history (\<open>adjust\<close>).
\<close>

definition im_route_base ::
    "('m \<Rightarrow> 'k list option) \<Rightarrow> ('k list \<Rightarrow> 'm \<Rightarrow> 'm) \<Rightarrow> (nat \<Rightarrow> 'm \<Rightarrow> 'm) \<Rightarrow> nat \<Rightarrow> 'm
      \<Rightarrow> ('k, 'gp) inefficientmap \<Rightarrow> (('k, 'gp) inefficientmap \<times> ('m \<times> usize list) outcome) option" where
  "im_route_base getf setf adjust nb m s =
     (case im_get_closest nb (getf m) s of
        Some (t, Ok (closest, filt)) \<Rightarrow>
          (let m' = (case filt of Some f \<Rightarrow> setf f m | None \<Rightarrow> m)
           in Some (t, Ok (adjust (length closest) m', closest)))
      | Some (t, Err e) \<Rightarrow> Some (t, Err e)
      | Some (t, Panic) \<Rightarrow> Some (t, Panic)
      | None \<Rightarrow> None)"

definition im_add_val_c ::
    "('gp \<Rightarrow> 'k \<times> usize option) \<Rightarrow> 'k \<Rightarrow> 'gp \<Rightarrow> ('k, 'gp) inefficientmap \<Rightarrow> ('k, 'gp) inefficientmap" where
  "im_add_val_c gref k v s =
     (let pn = (if hashmap_has_val_c (im_peers s) k
                then (case position (\<lambda>nid. fst nid = k) (peers_nbquery s) of
                        Some ix \<Rightarrow> vec_remove ix (peers_nbquery s)
                      | None \<Rightarrow> peers_nbquery s)
                else peers_nbquery s)
      in s\<lparr>peers_nbquery := pn @ [gref v], im_peers := hashmap_add_val_c k v (im_peers s)\<rparr>)"

definition im_get_val_c :: "('k, 'gp) inefficientmap \<Rightarrow> 'k \<Rightarrow> 'gp option" where
  "im_get_val_c s k = hashmap_get_val_c (im_peers s) k"

definition im_has_val_c :: "('k, 'gp) inefficientmap \<Rightarrow> 'k \<Rightarrow> bool" where
  "im_has_val_c s k = hashmap_has_val_c (im_peers s) k"

definition im_remove_val_c ::
    "'k \<Rightarrow> ('k, 'gp) inefficientmap \<Rightarrow> ('k, 'gp) inefficientmap \<times> 'gp option" where
  "im_remove_val_c k s =
     (let pn = (case position (\<lambda>nid. fst nid = k) (peers_nbquery s) of
                  Some ix \<Rightarrow> vec_remove ix (peers_nbquery s)
                | None \<Rightarrow> peers_nbquery s);
          (ps, r) = hashmap_remove_val_c k (im_peers s)
      in (s\<lparr>peers_nbquery := pn, im_peers := ps\<rparr>, r))"

definition im_len_c :: "('k, 'gp) inefficientmap \<Rightarrow> nat" where
  "im_len_c s = hashmap_len_c (im_peers s)"

text \<open>\<open>PeerCacheRouteBase\<close> (\<open>mydht/src/procs/mod.rs\<close>): every kind of command routes by the cache.\<close>

record ('k, 'm) route_msg =
  rm_filter :: "'m \<Rightarrow> 'k list option"
  rm_set_filter :: "'k list \<Rightarrow> 'm \<Rightarrow> 'm"
  rm_adjust :: "nat \<Rightarrow> 'm \<Rightarrow> 'm"

definition route_by_cache ::
    "('k, 'm) route_msg \<Rightarrow> ('m \<Rightarrow> 'mc) \<Rightarrow> nat \<Rightarrow> 'm \<Rightarrow> ('k, 'gp) inefficientmap
      \<Rightarrow> (('k, 'gp) inefficientmap \<times> ('mc \<times> usize list) outcome) option" where
  "route_by_cache rm wrap nb m s =
     map_option (\<lambda>(t, r). (t, and_then r (\<lambda>(m', ds). Ok (wrap m', ds))))
       (im_route_base (rm_filter rm) (rm_set_filter rm) (rm_adjust rm) nb m s)"

fun peer_cache_route ::
    "('k, 'l) route_msg \<Rightarrow> ('k, 'c) route_msg \<Rightarrow> ('k, 'pc) route_msg \<Rightarrow> nat \<Rightarrow> ('l, 'c, 'pc, 'a) mc_command
      \<Rightarrow> ('k, 'gp) inefficientmap
      \<Rightarrow> (('k, 'gp) inefficientmap \<times> (('l, 'c, 'pc, 'a) mc_command \<times> usize list) outcome) option" where
  "peer_cache_route rl rg rp nb (MCLocal c) s = route_by_cache rl MCLocal nb c s"
| "peer_cache_route rl rg rp nb (MCGlobal c) s = route_by_cache rg MCGlobal nb c s"
| "peer_cache_route rl rg rp nb (MCPeerStore c) s = route_by_cache rp MCPeerStore nb c s"
| "peer_cache_route rl rg rp nb (MCTryConnect ad i) s = Some (s, Ok (MCTryConnect ad i, []))"

section \<open>Round robin\<close>

text \<open>
  The specification: peers in cyclic order; a query takes the first \<open>nb\<close> usable ones and starts
  the next time behind the last peer it looked at.
\<close>

fun rr_len :: "nat \<Rightarrow> ('x \<Rightarrow> bool) \<Rightarrow> 'x list \<Rightarrow> nat" where
  "rr_len nb P [] = 0"
| "rr_len nb P (x # xs) =
     (let nb' = (if P x then nb - 1 else nb) in Suc (if nb' = 0 then 0 else rr_len nb' P xs))"

definition round_robin :: "nat \<Rightarrow> ('x \<Rightarrow> bool) \<Rightarrow> 'x list \<Rightarrow> 'x list \<times> 'x list" where
  "round_robin nb P xs = (rotate (rr_len nb P xs) xs, take nb (filter P xs))"

lemma rr_len_le: "rr_len nb P xs \<le> length xs"
  by (induction xs arbitrary: nb) (auto simp: Let_def)

lemma rr_len_filter: "0 < nb \<Longrightarrow> filter P (take (rr_len nb P xs) xs) = take nb (filter P xs)"
  by (induction xs arbitrary: nb) (auto simp: Let_def take_Cons' split: if_splits)

definition usable :: "'k list option \<Rightarrow> 'k \<times> usize option \<Rightarrow> bool" where
  "usable filt nid \<longleftrightarrow> snd nid \<noteq> None \<and> (case filt of Some f \<Rightarrow> fst nid \<notin> set f | None \<Rightarrow> True)"

definition order_from :: "'x list \<Rightarrow> nat \<Rightarrow> 'x list" where
  "order_from xs n = rev (take (Suc n) xs) @ rev (drop (Suc n) xs)"

definition im_order :: "('k, 'gp) inefficientmap \<Rightarrow> ('k \<times> usize option) list" where
  "im_order s = (if peers_nbquery s = [] then [] else order_from (peers_nbquery s) (next_ix s))"

definition prev_ix :: "nat \<Rightarrow> nat \<Rightarrow> nat" where
  "prev_ix len n = (if n = 0 then len - 1 else n - 1)"

lemma prev_ix_less: "n < len \<Longrightarrow> prev_ix len n < len"
  by (auto simp: prev_ix_def)

lemma order_from_Cons:
  assumes "n < length xs"
  shows "order_from xs n = xs ! n # tl (order_from xs n)"
    and "order_from xs (prev_ix (length xs) n) = tl (order_from xs n) @ [xs ! n]"
proof -
  show "order_from xs n = xs ! n # tl (order_from xs n)"
    using assms by (simp add: order_from_def take_Suc_conv_app_nth)
  have d: "rev (drop n xs) = rev (drop (Suc n) xs) @ [xs ! n]"
    using assms by (simp flip: Cons_nth_drop_Suc)
  show "order_from xs (prev_ix (length xs) n) = tl (order_from xs n) @ [xs ! n]"
  proof (cases "n = 0")
    case True
    then show ?thesis using assms d by (simp add: order_from_def prev_ix_def take_Suc_conv_app_nth)
  next
    case False
    then show ?thesis using assms d by (simp add: order_from_def prev_ix_def take_Suc_conv_app_nth)
  qed
qed

lemma order_from_rotate:
  assumes "n < length xs"
  shows "order_from xs ((prev_ix (length xs) ^^ k) n) = rotate k (order_from xs n)
     \<and> (prev_ix (length xs) ^^ k) n < length xs"
proof (induction k)
  case 0
  show ?case using assms by simp
next
  case (Suc k)
  let ?m = "(prev_ix (length xs) ^^ k) n"
  from Suc have m: "?m < length xs" "order_from xs ?m = rotate k (order_from xs n)" by auto
  have "order_from xs (prev_ix (length xs) ?m) = rotate1 (order_from xs ?m)"
    using order_from_Cons [OF m(1)] by (metis rotate1.simps(2))
  with m show ?case by (simp add: prev_ix_less rotate_def)
qed

lemma prev_ix_pow: "n < len \<Longrightarrow> k \<le> len \<Longrightarrow> (prev_ix len ^^ k) n = (if k \<le> n then n - k else n + len - k)"
  by (induction k) (auto simp: prev_ix_def)

lemma set_order_from: "set (order_from xs n) = set xs"
  by (metis Un_commute append_take_drop_id order_from_def set_append set_rev)

lemma length_order_from: "length (order_from xs n) = length xs"
  by (simp add: order_from_def)

lemma distinct_order_from: "distinct (map fst xs) \<Longrightarrow> distinct (map fst (order_from xs n))"
proof -
  assume "distinct (map fst xs)"
  then have "distinct (map fst (take (Suc n) xs) @ map fst (drop (Suc n) xs))"
    by (metis append_take_drop_id map_append)
  then show ?thesis by (auto simp: order_from_def simp flip: rev_map)
qed

text \<open>The loop does what the specification says, from any point of its walk.\<close>

lemma closest_loop_refines:
  assumes "nxt < length pn" and "distinct (map fst pn)" and "0 < m" and "m \<le> length pn"
    and "(prev_ix (length pn) ^^ m) nxt = st" and "\<And>k. 0 < k \<Longrightarrow> k < m \<Longrightarrow> (prev_ix (length pn) ^^ k) nxt \<noteq> st"
    and "i < nb" and "filt = map_option (\<lambda>f. f @ used) filt0"
    and "\<forall>x \<in> set (take m (order_from pn nxt)). fst x \<notin> set used"
    and "n = rr_len (nb - i) (usable filt0) (take m (order_from pn nxt))"
    and "ch = filter (usable filt0) (take n (order_from pn nxt))"
  shows "closest_loop pn st nb nxt i r filt =
     Some ((prev_ix (length pn) ^^ n) nxt, Ok (r @ map (the \<circ> snd) ch, map_option (\<lambda>f. f @ used @ map fst ch) filt0))"
  using assms
proof (induction m arbitrary: nxt i r used filt n ch)
  case 0
  then show ?case by simp
next
  case (Suc m)
  let ?o = "order_from pn nxt" and ?prev = "prev_ix (length pn)"
  let ?x = "pn ! nxt" and ?nxt = "prev_ix (length pn) nxt"
  have o: "?o = ?x # tl ?o" "order_from pn ?nxt = tl ?o @ [?x]"
    using order_from_Cons [OF Suc.prems(1)] by auto
  have lt: "length (tl ?o) = length pn - 1" using length_order_from [of pn nxt] by simp
  have tk: "take m (order_from pn ?nxt) = take m (tl ?o)" using o(2) lt Suc.prems(4) by simp
  have items: "take (Suc m) ?o = ?x # take m (tl ?o)" by (subst o(1)) simp
  have x_used: "fst ?x \<notin> set used" using Suc.prems(9) items by simp
  define P where "P = usable filt0 ?x"
  have chosen: "(if (case filt of Some f \<Rightarrow> fst ?x \<in> set f | None \<Rightarrow> False) then None else snd ?x)
      = (if P then snd ?x else None)"
    using x_used Suc.prems(8) by (auto simp: P_def usable_def split: option.splits)
  define i' where "i' = (if P then i + 1 else i)"
  define r' where "r' = (if P then r @ [the (snd ?x)] else r)"
  define used' where "used' = (if P then used @ [fst ?x] else used)"
  define filt' where "filt' = map_option (\<lambda>f. f @ used') filt0"
  have sndx: "P \<Longrightarrow> \<exists>w. snd ?x = Some w" by (auto simp: P_def usable_def)
  have step: "closest_loop pn st nb nxt i r filt =
     (if ?nxt = st then Some (?nxt, Ok (r', filt'))
      else if i' = nb then Some (?nxt, Ok (r', filt'))
      else closest_loop pn st nb ?nxt i' r' filt')"
    using Suc.prems(1,8) chosen sndx
    by (subst closest_loop.simps)
       (cases P, auto simp: vec_get_def Let_def i'_def r'_def used'_def filt'_def prev_ix_def
          option.map_comp comp_def split: option.splits)
  have nb': "nb - i' = (if P then nb - i - 1 else nb - i)" "i' \<le> nb" "i' = nb \<longleftrightarrow> nb - i' = 0"
    using Suc.prems(7) by (auto simp: i'_def)
  have n: "n = Suc (if nb - i' = 0 then 0 else rr_len (nb - i') (usable filt0) (take m (tl ?o)))"
    using Suc.prems(10) nb'(1) unfolding items P_def by (simp add: Let_def)
  show ?case
  proof (cases "?nxt = st \<or> i' = nb")
    case True
    have "m = 0" if "?nxt = st" using Suc.prems(6) [of 1] that by (cases m) auto
    with True n nb'(3) have n1: "n = 1" by auto
    have "take n ?o = [?x]" unfolding n1 by (subst o(1)) simp
    with Suc.prems(11) have "ch = (if P then [?x] else [])" by (simp add: P_def)
    moreover have "closest_loop pn st nb nxt i r filt = Some (?nxt, Ok (r', filt'))" using True step by auto
    ultimately show ?thesis using n1 by (simp add: r'_def filt'_def used'_def)
  next
    case False
    then have "0 < m" using Suc.prems(5) by (cases m) auto
    let ?n = "rr_len (nb - i') (usable filt0) (take m (order_from pn ?nxt))"
    let ?ch = "filter (usable filt0) (take ?n (order_from pn ?nxt))"
    have n': "n = Suc ?n" using n False nb'(3) tk by simp
    have "?n \<le> m" using rr_len_le [of "nb - i'" "usable filt0" "take m (order_from pn ?nxt)"] by simp
    then have "take ?n (order_from pn ?nxt) = take ?n (tl ?o)" using o(2) lt Suc.prems(4) by simp
    moreover have "take n ?o = ?x # take ?n (tl ?o)" unfolding n' by (subst o(1)) simp
    ultimately have ch: "ch = (if P then ?x # ?ch else ?ch)" using Suc.prems(11) by (simp add: P_def)
    have dist: "distinct (map fst (?x # tl ?o))"
      using distinct_order_from [OF Suc.prems(2), of nxt] o(1) by metis
    have "closest_loop pn st nb ?nxt i' r' filt' =
        Some ((?prev ^^ ?n) ?nxt, Ok (r' @ map (the \<circ> snd) ?ch, map_option (\<lambda>f. f @ used' @ map fst ?ch) filt0))"
    proof (rule Suc.IH)
      show "?nxt < length pn" using Suc.prems(1) by (rule prev_ix_less)
      show "(?prev ^^ m) ?nxt = st" using Suc.prems(5) by (simp add: funpow_swap1)
      show "(?prev ^^ k) ?nxt \<noteq> st" if "0 < k" "k < m" for k
        using Suc.prems(6) [of "Suc k"] that by (simp add: funpow_swap1)
      show "\<forall>x \<in> set (take m (order_from pn ?nxt)). fst x \<notin> set used'"
      proof
        fix x assume x: "x \<in> set (take m (order_from pn ?nxt))"
        then have "x \<in> set (take (Suc m) ?o)" using tk items by simp
        then have "fst x \<notin> set used" using Suc.prems(9) by blast
        moreover have "fst x \<noteq> fst ?x"
          using x tk dist by (auto dest!: in_set_takeD) (metis imageI)
        ultimately show "fst x \<notin> set used'" by (simp add: used'_def)
      qed
    qed (use Suc.prems False \<open>0 < m\<close> nb' in \<open>auto simp: filt'_def\<close>)
    moreover have "closest_loop pn st nb nxt i r filt = closest_loop pn st nb ?nxt i' r' filt'"
      using False step by auto
    ultimately show ?thesis unfolding n' ch by (simp add: r'_def used'_def funpow_swap1)
  qed
qed

section \<open>Well-formed caches\<close>

text \<open>The vector lists every cached key once, and the next position is in the vector.\<close>

definition im_ok :: "('k, 'gp) inefficientmap \<Rightarrow> bool" where
  "im_ok s \<longleftrightarrow>
     distinct (map fst (peers_nbquery s)) \<and> hashmap_ok (im_peers s)
     \<and> set (map fst (peers_nbquery s)) = set (map fst (im_peers s))
     \<and> next_ix s < max 1 (length (peers_nbquery s))"

lemma im_ok_new: "im_ok (im_new hashmap_new)"
  by (simp add: im_ok_def im_new_def hashmap_new_def hashmap_ok_def)

lemma position_key:
  assumes "k \<in> set (map fst pn)" and "distinct (map fst pn)"
  obtains ix where "position (\<lambda>nid. fst nid = k) pn = Some ix" and "ix < length pn"
    and "distinct (map fst (vec_remove ix pn))"
    and "set (map fst (vec_remove ix pn)) = set (map fst pn) - {k}"
proof -
  from assms(1) obtain x where "x \<in> set pn" "fst x = k" by auto
  then obtain ix where ix: "position (\<lambda>nid. fst nid = k) pn = Some ix"
    using position_Ex [of x pn "\<lambda>nid. fst nid = k"] by blast
  from position_Some [OF this] have i: "ix < length pn" "fst (pn ! ix) = k" by auto
  from assms(2) i have "set (vec_remove ix (map fst pn)) = set (map fst pn) - {k}"
    using set_vec_remove_distinct [of "map fst pn" ix] by simp
  then have "set (map fst (vec_remove ix pn)) = set (map fst pn) - {k}" by (simp add: map_vec_remove del: set_map)
  moreover have "distinct (map fst (vec_remove ix pn))"
    using assms(2) by (simp add: map_vec_remove distinct_vec_remove)
  ultimately show thesis using that ix i(1) by blast
qed

lemma im_ok_add:
  assumes "im_ok s" and "fst (gref v) = k"
  shows "im_ok (im_add_val_c gref k v s)"
proof -
  let ?pn = "peers_nbquery s"
  have keys: "set (map fst (hashmap_add_val_c k v (im_peers s))) = insert k (set (map fst ?pn))"
    using assms(1) by (auto simp: im_ok_def hashmap_add_val_c_def dom_update)
  show ?thesis
  proof (cases "k \<in> set (map fst ?pn)")
    case True
    with assms(1) have "hashmap_has_val_c (im_peers s) k" by (auto simp: im_ok_def hashmap_has_val_c_def)
    moreover have "distinct (map fst ?pn)" using assms(1) by (simp add: im_ok_def)
    from True this obtain ix where ix: "position (\<lambda>nid. fst nid = k) ?pn = Some ix" "ix < length ?pn"
      "distinct (map fst (vec_remove ix ?pn))" "set (map fst (vec_remove ix ?pn)) = set (map fst ?pn) - {k}"
      by (rule position_key)
    ultimately show ?thesis
      using assms keys by (auto simp: im_ok_def im_add_val_c_def max_def split: if_splits)
  next
    case False
    with assms(1) have "\<not> hashmap_has_val_c (im_peers s) k" by (auto simp: im_ok_def hashmap_has_val_c_def)
    with False assms keys show ?thesis by (auto simp: im_ok_def im_add_val_c_def)
  qed
qed

text \<open>As a cache, the map is the \<open>HashMap\<close> below it.\<close>

interpretation im: cache_store "\<lambda>s. hashmap_ok (im_peers s)" "im_add_val_c gref" im_get_val_c im_has_val_c im_remove_val_c
  for gref :: "'gp \<Rightarrow> 'k \<times> usize option"
proof
  fix s :: "('k, 'gp) inefficientmap" and k :: 'k
  assume ok: "hashmap_ok (im_peers s)"
  show "im_has_val_c s k \<longleftrightarrow> im_get_val_c s k \<noteq> None"
    using hm.has_get [OF ok] by (simp add: im_has_val_c_def im_get_val_c_def)
qed (auto simp: im_get_val_c_def im_add_val_c_def im_remove_val_c_def case_prod_unfold Let_def
       hm.rem_result hm.rem_get hm.add_other hm.add_same)

section \<open>Properties\<close>

text \<open>
  C6. On a well-formed cache a query for \<open>nb\<close> peers returns, and it refines the round robin: its
  result is the first \<open>nb\<close> peers in cyclic order that have a write stream and are not in the
  filter, these are added to the filter, and the next query goes on behind the last peer seen.
\<close>

theorem routing_refines_round_robin:
  assumes "im_ok s" and "0 < nb"
  shows "\<exists>t. im_get_closest nb filt s =
       Some (t, Ok (map (the \<circ> snd) (snd (round_robin nb (usable filt) (im_order s))),
                    map_option (\<lambda>f. f @ map fst (snd (round_robin nb (usable filt) (im_order s)))) filt))
     \<and> im_order t = fst (round_robin nb (usable filt) (im_order s))
     \<and> im_ok t \<and> peers_nbquery t = peers_nbquery s \<and> im_peers t = im_peers s"
proof (cases "peers_nbquery s = []")
  case True
  then have "im_order s = []" by (simp add: im_order_def)
  moreover have "map_option (\<lambda>f. f) filt = filt" by (cases filt) simp_all
  ultimately show ?thesis
    using True assms(1) by (intro exI [of _ s]) (simp add: im_get_closest_def round_robin_def)
next
  case False
  let ?pn = "peers_nbquery s" and ?nxt = "next_ix s"
  let ?n = "rr_len nb (usable filt) (order_from ?pn ?nxt)"
  let ?ch = "filter (usable filt) (take ?n (order_from ?pn ?nxt))"
  have len: "?nxt < length ?pn" and dist: "distinct (map fst ?pn)"
    using False assms(1) by (auto simp: im_ok_def max_def split: if_splits)
  have loop: "closest_loop ?pn ?nxt nb ?nxt 0 [] filt =
      Some ((prev_ix (length ?pn) ^^ ?n) ?nxt, Ok ([] @ map (the \<circ> snd) ?ch, map_option (\<lambda>f. f @ [] @ map fst ?ch) filt))"
  proof (rule closest_loop_refines [OF len dist, where m = "length ?pn"])
    show "(prev_ix (length ?pn) ^^ length ?pn) ?nxt = ?nxt" using prev_ix_pow [OF len order_refl] len by simp
    show "(prev_ix (length ?pn) ^^ k) ?nxt \<noteq> ?nxt" if "0 < k" "k < length ?pn" for k
      using prev_ix_pow [OF len, of k] that len by auto
    show "filt = map_option (\<lambda>f. f @ []) filt" by (cases filt) simp_all
  qed (use False assms(2) in \<open>simp_all add: length_order_from\<close>)
  let ?t = "s\<lparr>next_ix := (prev_ix (length ?pn) ^^ ?n) ?nxt\<rparr>"
  have ch: "?ch = take nb (filter (usable filt) (im_order s))"
    using rr_len_filter [OF assms(2), of "usable filt" "order_from ?pn ?nxt"] False by (simp add: im_order_def)
  have "order_from ?pn ((prev_ix (length ?pn) ^^ ?n) ?nxt) = rotate ?n (order_from ?pn ?nxt)"
    and "(prev_ix (length ?pn) ^^ ?n) ?nxt < length ?pn"
    using order_from_rotate [OF len, of ?n] by auto
  with False loop ch show ?thesis
    using assms(1)
    by (intro exI [of _ ?t]) (simp add: im_get_closest_def round_robin_def im_order_def im_ok_def)
qed

definition demo_route_cache :: "(nat, (nat, nat) peer_cache_entry) inefficientmap" where
  "demo_route_cache =
     foldr (\<lambda>n. im_add_val_c peer_entry_ref n
              \<lparr>pe_peer = \<lparr>get_key = n, get_address = n\<rparr>, pe_read = None, pe_write = Some (word_of_nat (10 * n)),
               pe_prio = Normal\<rparr>)
       [4, 3, 2, 1] (im_new hashmap_new)"

lemma demo_route_cache_eq:
  "peers_nbquery demo_route_cache = [(1, Some 10), (2, Some 20), (3, Some 30), (4, Some 40)]"
  "next_ix demo_route_cache = 0"
  by code_simp+

lemma demo_route_cache_ok: "im_ok demo_route_cache"
  unfolding demo_route_cache_def foldr.simps comp_def id_def
  by (intro im_ok_add im_ok_new) (simp_all add: peer_entry_ref_def)

theorem routing_refines_round_robin_witness:
  "\<exists>t. im_get_closest 2 (Some [4]) demo_route_cache = Some (t, Ok ([10, 30], Some [4, 1, 3]))
     \<and> im_order t = [(2, Some 20), (1, Some 10), (4, Some 40), (3, Some 30)]"
proof -
  have "im_order demo_route_cache = [(1, Some 10), (4, Some 40), (3, Some 30), (2, Some 20)]"
    by (simp add: im_order_def order_from_def demo_route_cache_eq)
  then have "round_robin 2 (usable (Some [4])) (im_order demo_route_cache) =
      ([(2, Some 20), (1, Some 10), (4, Some 40), (3, Some 30)], [(1, Some 10), (3, Some 30)])"
    by (simp add: round_robin_def usable_def Let_def numeral_3_eq_3)
  then show ?thesis
    using routing_refines_round_robin [OF demo_route_cache_ok, of 2 "Some [4]"] by auto
qed

text \<open>
  Removing a peer does not move the next position: when it stands at the end of the vector, as
  it does after the first query of one peer, the query that follows the removal panics.
\<close>

theorem query_after_remove_panics:
  assumes "im_ok s" and "Suc (next_ix s) = length (peers_nbquery s)" and "1 < length (peers_nbquery s)"
    and "im_has_val_c s k"
  shows "\<exists>t. im_get_closest nb filt (fst (im_remove_val_c k s)) = Some (t, Panic)"
proof -
  let ?pn = "peers_nbquery s"
  from assms(1,4) have "k \<in> set (map fst ?pn)" by (simp add: im_ok_def im_has_val_c_def hashmap_has_val_c_def)
  moreover have "distinct (map fst ?pn)" using assms(1) by (simp add: im_ok_def)
  ultimately obtain ix where ix: "position (\<lambda>nid. fst nid = k) ?pn = Some ix" "ix < length ?pn"
    by (rule position_key)
  let ?s = "fst (im_remove_val_c k s)"
  have "peers_nbquery ?s = vec_remove ix ?pn" "next_ix ?s = next_ix s"
    using ix by (simp_all add: im_remove_val_c_def case_prod_unfold Let_def)
  moreover from this ix(2) assms(2,3) have "peers_nbquery ?s \<noteq> []" "length (peers_nbquery ?s) = next_ix ?s"
    by (auto simp: vec_remove_def)
  ultimately show ?thesis
    by (simp add: im_get_closest_def closest_loop.simps [of "vec_remove ix ?pn"] vec_get_def)
qed

theorem query_after_remove_panics_witness:
  "\<exists>s t. im_get_closest 1 None demo_route_cache = Some (s, Ok ([10], None))
     \<and> im_get_closest 1 None (fst (im_remove_val_c 2 s)) = Some (t, Panic)"
proof -
  let ?s = "demo_route_cache\<lparr>next_ix := 3\<rparr>"
  have q: "im_get_closest 1 None demo_route_cache = Some (?s, Ok ([10], None))"
    by (simp add: im_get_closest_def demo_route_cache_eq closest_loop.simps vec_get_def Let_def)
  have "im_ok ?s" using demo_route_cache_ok by (simp add: im_ok_def demo_route_cache_eq)
  moreover have "im_has_val_c ?s 2" by code_simp
  ultimately show ?thesis
    using query_after_remove_panics [of ?s 2 1 None] q by (auto simp: demo_route_cache_eq)
qed

end
