(* ===== verification/Knodetable.thy ===== *)
theory Knodetable
  imports Prelude
begin

text \<open>
  The Kademlia table (\<open>mydht-btkad/src/knodetable.rs\<close>): buckets of peers in a binary tree over the
  bits of their distance to us.  The tree is stored in two vectors: the entry \<open>ix\<close> of the buckets
  is a leaf when it holds a bucket, and otherwise an inner node whose children are the entries
  \<open>2 * ix\<close> and \<open>2 * ix + 1\<close> of \<open>bintree\<close>.

  A \<open>BitVec\<close> is the list of its bits; what the \<open>bit-vec\<close> crate computes of two of them (the
  exclusive or in place, the comparison) and the trait \<open>DHTElem\<close> of the elements are arguments.
\<close>

section \<open>Model\<close>

record 'e kops =
  ex_union :: "bool list \<Rightarrow> bool list \<Rightarrow> bool list outcome"
  bv_gt :: "bool list \<Rightarrow> bool list \<Rightarrow> bool"
  bits_ref :: "'e \<Rightarrow> bool list"
  kelem_eq :: "'e \<Rightarrow> 'e \<Rightarrow> bool"

record 'e kbucket =
  kdata :: "'e list"
  ksize :: nat

record 'e knode_table =
  kus :: "bool list"
  khash_size :: nat
  kbucket_size :: nat
  bintree :: "nat list"
  kbuckets :: "'e kbucket option list"
  rem_ix :: "nat list"

definition bitxor :: "'e kops \<Rightarrow> bool list \<Rightarrow> bool list \<Rightarrow> bool list outcome" where
  "bitxor ops a b = ex_union ops a b"

text \<open>Reading and writing a vector at an index.\<close>

definition vec_at :: "'x list \<Rightarrow> nat \<Rightarrow> 'x outcome" where
  [rust_simps]: "vec_at xs i = (if i < length xs then Ok (xs ! i) else Panic)"

definition vec_set :: "'x list \<Rightarrow> nat \<Rightarrow> 'x \<Rightarrow> 'x list outcome" where
  [rust_simps]: "vec_set xs i x = (if i < length xs then Ok (xs[i := x]) else Panic)"

subsection \<open>Buckets\<close>

definition kb_new :: "'e kbucket" where
  "kb_new = \<lparr>kdata = [], ksize = 0\<rparr>"

definition kb_add :: "'e kops \<Rightarrow> 'e \<Rightarrow> 'e kbucket \<Rightarrow> 'e kbucket \<times> nat" where
  "kb_add ops elem b =
     (let b' = (case position (kelem_eq ops elem) (kdata b) of
                  Some ix \<Rightarrow> b\<lparr>kdata := vec_remove ix (kdata b) @ [elem]\<rparr>
                | None \<Rightarrow> b\<lparr>kdata := kdata b @ [elem], ksize := ksize b + 1\<rparr>)
      in (b', ksize b'))"

text \<open>The scan for the greatest exclusive or of two distances: the distance it kept and the result.\<close>

fun split_scan :: "'e kops \<Rightarrow> bool list \<Rightarrow> bool list \<Rightarrow> bool list list \<Rightarrow> (bool list \<times> bool list) outcome" where
  "split_scan ops v max_xor [] = Ok (v, max_xor)"
| "split_scan ops v max_xor (d # ds) =
     and_then (bitxor ops v d) (\<lambda>xor.
     if bv_gt ops xor max_xor then split_scan ops d xor ds else split_scan ops v max_xor ds)"

fun all_dists :: "'e kops \<Rightarrow> bool list \<Rightarrow> 'e list \<Rightarrow> bool list list outcome" where
  "all_dists ops us1 [] = Ok []"
| "all_dists ops us1 (e # es) =
     and_then (bitxor ops us1 (bits_ref ops e)) (\<lambda>d.
     and_then (all_dists ops us1 es) (\<lambda>ds. Ok (d # ds)))"

fun split_fill :: "nat \<Rightarrow> ('e \<times> bool list) list \<Rightarrow> 'e list \<Rightarrow> 'e list \<Rightarrow> ('e list \<times> 'e list) outcome" where
  "split_fill six [] left right = Ok (left, right)"
| "split_fill six ((elem, dist) # eds) left right =
     and_then (vec_at dist six) (\<lambda>bit.
     if bit then split_fill six eds left (right @ [elem]) else split_fill six eds (left @ [elem]) right)"

definition kb_split ::
    "'e kops \<Rightarrow> bool list \<Rightarrow> 'e kbucket \<Rightarrow> ('e kbucket \<times> 'e kbucket \<times> nat) outcome" where
  "kb_split ops us1 b =
     (let ilen = ksize b in
      if ilen < 2 then Panic
      else and_then (all_dists ops us1 (kdata b)) (\<lambda>dists.
           if length dists < ilen then Panic
           else and_then (split_scan ops (hd dists) [] (tl (take ilen dists))) (\<lambda>(v, max_xor).
           let six = (case position (\<lambda>b. b) max_xor of Some i \<Rightarrow> i | None \<Rightarrow> length v) in
           and_then (split_fill six (zip (kdata b) dists) [] []) (\<lambda>(left, right).
           Ok (\<lparr>kdata = left, ksize = length left\<rparr>, \<lparr>kdata = right, ksize = length right\<rparr>, six)))))"

definition kb_get_closest :: "nat \<Rightarrow> 'e kbucket \<Rightarrow> 'e list outcome" where
  "kb_get_closest nb b =
     (if nb > ksize b then Ok (kdata b)
      else if ksize b - nb \<le> length (kdata b) then Ok (drop (ksize b - nb) (kdata b))
      else Panic)"

definition kb_remove :: "'e kops \<Rightarrow> 'e \<Rightarrow> 'e kbucket \<Rightarrow> ('e kbucket \<times> bool) outcome" where
  "kb_remove ops elem b =
     (case position (kelem_eq ops elem) (kdata b) of
        Some ix \<Rightarrow>
          if ksize b = 0 then Panic
          else Ok (b\<lparr>kdata := vec_remove ix (kdata b), ksize := ksize b - 1\<rparr>, True)
      | None \<Rightarrow> Ok (b, False))"

subsection \<open>The table\<close>

definition kn_new :: "bool list \<Rightarrow> nat \<Rightarrow> nat \<Rightarrow> 'e knode_table outcome" where
  "kn_new us1 bucket_size1 hash_size1 =
     (if bucket_size1 > 1
      then Ok \<lparr>kus = us1, khash_size = hash_size1, kbucket_size = bucket_size1, bintree = [0, 0],
               kbuckets = [Some kb_new], rem_ix = []\<rparr>
      else Panic)"

text \<open>
  The walk from the root: over the bits of the distance that are left, the parent, the index in
  the distance and the index of the node.  The three functions of the source that resolve a
  bucket do this walk and return a part of its result.
\<close>

fun resolve_walk ::
    "'e knode_table \<Rightarrow> bool list \<Rightarrow> nat \<Rightarrow> nat \<Rightarrow> nat \<Rightarrow> (nat \<times> nat \<times> nat \<times> 'e kbucket) outcome" where
  "resolve_walk t dist parix distix ix =
     (case vec_get (kbuckets t) ix of
        Some (Some bucket) \<Rightarrow> Ok (parix, distix, ix, bucket)
      | _ \<Rightarrow>
          (case dist of
             [] \<Rightarrow> Panic
           | d # ds \<Rightarrow>
               and_then (vec_at (bintree t) (if d then ix * 2 + 1 else ix * 2)) (\<lambda>ix'.
               resolve_walk t ds ix (distix + 1) ix')))"

declare resolve_walk.simps [simp del]

definition resolve_bucket ::
    "'e kops \<Rightarrow> 'e knode_table \<Rightarrow> bool list \<Rightarrow> (nat \<times> nat \<times> 'e kbucket) outcome" where
  "resolve_bucket ops t key =
     and_then (bitxor ops (kus t) key) (\<lambda>dist.
     and_then (resolve_walk t dist 0 0 0) (\<lambda>(parix, distix, ix, bucket). Ok (distix, ix, bucket)))"

definition resolve_bucket_parent :: "'e kops \<Rightarrow> 'e knode_table \<Rightarrow> bool list \<Rightarrow> (nat \<times> nat) outcome" where
  "resolve_bucket_parent ops t key =
     and_then (bitxor ops (kus t) key) (\<lambda>dist.
     and_then (resolve_walk t dist 0 0 0) (\<lambda>(parix, distix, ix, bucket). Ok (parix, ix)))"

text \<open>A node for a child of \<open>i\<close>: a recycled entry or a new one.\<close>

definition alloc_child ::
    "bool \<Rightarrow> nat \<Rightarrow> 'e kbucket option \<Rightarrow> 'e knode_table \<Rightarrow> ('e knode_table \<times> nat) outcome" where
  "alloc_child is_right i ob t =
     (let child = (if is_right then i * 2 + 1 else i * 2) in
      if rem_ix t \<noteq> []
      then (let newix = last (rem_ix t) in
            and_then (vec_set (kbuckets t) newix ob) (\<lambda>bs.
            and_then (vec_set (bintree t) child newix) (\<lambda>bt.
            Ok (t\<lparr>rem_ix := butlast (rem_ix t), kbuckets := bs, bintree := bt\<rparr>, newix))))
      else (let newix = length (kbuckets t) in
            and_then (vec_set (bintree t @ [0, 0]) child newix) (\<lambda>bt.
            Ok (t\<lparr>kbuckets := kbuckets t @ [ob], bintree := bt\<rparr>, newix))))"

text \<open>
  The new inner nodes from the depth of the split bucket to the bit where its elements differ;
  \<open>dist\<close> are the bits between, and the result is the last pair of children.
\<close>

fun split_chain :: "bool list \<Rightarrow> nat \<Rightarrow> 'e knode_table \<Rightarrow> ('e knode_table \<times> nat \<times> nat) outcome" where
  "split_chain [] i t =
     and_then (alloc_child False i None t) (\<lambda>(t1, leftix).
     and_then (alloc_child True i None t1) (\<lambda>(t2, rightix). Ok (t2, leftix, rightix)))"
| "split_chain (d # ds) i t =
     and_then (alloc_child False i (if d then Some kb_new else None) t) (\<lambda>(t1, leftix).
     and_then (alloc_child True i (if d then None else Some kb_new) t1) (\<lambda>(t2, rightix).
     and_then (vec_at (bintree t2) (if d then i * 2 + 1 else i * 2)) (\<lambda>i'.
     split_chain ds i' t2)))"

definition kn_add :: "'e kops \<Rightarrow> 'e \<Rightarrow> 'e knode_table \<Rightarrow> 'e knode_table outcome" where
  "kn_add ops elem t =
     and_then (resolve_bucket ops t (bits_ref ops elem)) (\<lambda>(distix, ix, bucket).
     let (b', newsize) = kb_add ops elem bucket;
         t0 = t\<lparr>kbuckets := (kbuckets t)[ix := Some b']\<rparr>
     in if newsize > kbucket_size t
        then and_then (kb_split ops (kus t) b') (\<lambda>(left, right, ixsplit).
             and_then (if ixsplit > distix
                       then and_then (kb_get_closest 1 left) (\<lambda>cl.
                            and_then (vec_at cl 0) (\<lambda>e. bitxor ops (bits_ref ops e) (kus t)))
                       else Ok []) (\<lambda>dist.
             if ixsplit < distix then
               and_then (vec_set ((kbuckets t0)[ix := None]) 0 (Some left)) (\<lambda>bs.
               and_then (vec_set bs 0 (Some right)) (\<lambda>bs'. Ok (t0\<lparr>kbuckets := bs'\<rparr>)))
             else if ixsplit > length dist \<and> ixsplit > distix then Panic
             else and_then (split_chain (drop distix (take ixsplit dist)) ix
                    (t0\<lparr>kbuckets := (kbuckets t0)[ix := None]\<rparr>)) (\<lambda>(t1, leftix, rightix).
                  and_then (vec_set (kbuckets t1) leftix (Some left)) (\<lambda>bs.
                  and_then (vec_set bs rightix (Some right)) (\<lambda>bs'. Ok (t1\<lparr>kbuckets := bs'\<rparr>))))))
        else Ok t0)"

definition get_closest_one_bucket :: "'e kops \<Rightarrow> bool list \<Rightarrow> nat \<Rightarrow> 'e knode_table \<Rightarrow> 'e list outcome" where
  "get_closest_one_bucket ops id1 nb t =
     and_then (resolve_bucket ops t id1) (\<lambda>(_, _, bucket). kb_get_closest nb bucket)"

text \<open>The loops that complete a result with the elements of other buckets.\<close>

fun closest_others :: "'e kbucket option list \<Rightarrow> nat \<Rightarrow> 'e list \<Rightarrow> ('e list \<times> nat) outcome" where
  "closest_others [] nb res = Ok (res, nb)"
| "closest_others (None # bs) nb res = closest_others bs nb res"
| "closest_others (Some b # bs) nb res =
     and_then (kb_get_closest nb b) (\<lambda>r.
     let nb' = nb - length r in
     if nb' < 1 then Ok (res @ r, nb') else closest_others bs nb' (res @ r))"

definition kn_get_closest :: "'e kops \<Rightarrow> bool list \<Rightarrow> nat \<Rightarrow> 'e knode_table \<Rightarrow> 'e list outcome" where
  "kn_get_closest ops id1 nb t =
     and_then (resolve_bucket ops t id1) (\<lambda>(_, ix, bucket).
     and_then (kb_get_closest nb bucket) (\<lambda>res.
     let nb1 = nb - length res in
     if nb1 > 0
     then and_then (closest_others (drop (ix + 1) (kbuckets t)) nb1 res) (\<lambda>(res1, nb2).
          if nb2 > 0 \<and> ix > 0
          then and_then (closest_others (take ix (kbuckets t)) nb2 res1) (\<lambda>(res2, nb3). Ok res2)
          else Ok res1)
     else Ok res))"

definition has_content :: "'e knode_table \<Rightarrow> nat \<Rightarrow> bool outcome" where
  "has_content t ix =
     (case vec_get (kbuckets t) ix of
        Some (Some bucket) \<Rightarrow> Ok (ksize bucket \<noteq> 0)
      | Some None \<Rightarrow>
          and_then (vec_at (bintree t) (ix * 2)) (\<lambda>l.
          and_then (vec_at (bintree t) (ix * 2 + 1)) (\<lambda>r. Ok (l \<noteq> 0 \<or> r \<noteq> 0)))
      | None \<Rightarrow> Ok False)"

text \<open>An entry becomes free: its bucket, if it had one, is returned and its children cleared.\<close>

definition clear_children :: "nat \<Rightarrow> 'e knode_table \<Rightarrow> 'e knode_table outcome" where
  "clear_children ix t =
     and_then (vec_set (bintree t) (ix * 2) 0) (\<lambda>bt.
     and_then (vec_set bt (ix * 2 + 1) 0) (\<lambda>bt'. Ok (t\<lparr>bintree := bt'\<rparr>)))"

definition take_bucket :: "nat \<Rightarrow> 'e knode_table \<Rightarrow> ('e knode_table \<times> 'e kbucket option) outcome" where
  "take_bucket ix t =
     and_then (vec_at (kbuckets t) ix) (\<lambda>ob.
     and_then (clear_children ix (t\<lparr>rem_ix := rem_ix t @ [ix], kbuckets := (kbuckets t)[ix := None]\<rparr>)) (\<lambda>t'.
     Ok (t', ob)))"

definition put_bucket :: "nat \<Rightarrow> 'e kbucket option \<Rightarrow> 'e knode_table \<Rightarrow> 'e knode_table outcome" where
  "put_bucket ix ob t =
     and_then (vec_set (kbuckets t) ix ob) (\<lambda>bs. clear_children ix (t\<lparr>kbuckets := bs\<rparr>))"

text \<open>The loop of \<open>remove\<close>, from the bit \<open>ixdst\<close> upwards.\<close>

fun remove_loop :: "'e kops \<Rightarrow> bool list \<Rightarrow> nat \<Rightarrow> nat \<Rightarrow> bool \<Rightarrow> 'e knode_table \<Rightarrow> 'e knode_table outcome" where
  "remove_loop ops bits 0 ix first t = Ok t"
| "remove_loop ops bits (Suc ixdst) ix first t =
     and_then (vec_at bits ixdst) (\<lambda>bit.
     and_then (resolve_bucket_parent ops t (bits[ixdst := \<not> bit])) (\<lambda>(parix, ixbro).
     and_then (has_content t ixbro) (\<lambda>content.
     if \<not> content
     then and_then (vec_at (kbuckets t) ixbro) (\<lambda>obro.
          and_then (let ta = t\<lparr>rem_ix := rem_ix t @ [ixbro]\<rparr> in
                    if obro \<noteq> None then Ok (ta\<lparr>kbuckets := (kbuckets ta)[ixbro := None]\<rparr>)
                    else clear_children ixbro ta) (\<lambda>tb.
          and_then (take_bucket ix tb) (\<lambda>(tc, bro).
          and_then (put_bucket parix bro tc) (\<lambda>td.
          remove_loop ops bits ixdst parix False td))))
     else if \<not> first then Ok t
     else and_then (take_bucket ixbro t) (\<lambda>(tb, bro).
          and_then (put_bucket parix bro tb) (\<lambda>tc.
          and_then (vec_set (kbuckets tc) ix None) (\<lambda>bs.
          and_then (clear_children ix (tc\<lparr>rem_ix := rem_ix tc @ [ix], kbuckets := bs\<rparr>)) (\<lambda>td.
          remove_loop ops bits ixdst parix False td)))))))"

definition kn_remove :: "'e kops \<Rightarrow> 'e \<Rightarrow> 'e knode_table \<Rightarrow> ('e knode_table \<times> bool) outcome" where
  "kn_remove ops elem t =
     and_then (resolve_bucket ops t (bits_ref ops elem)) (\<lambda>(distix, ix, bucket).
     and_then (kb_remove ops elem bucket) (\<lambda>(b', res).
     let t0 = t\<lparr>kbuckets := (kbuckets t)[ix := Some b']\<rparr> in
     if ksize b' = 0 \<and> ix \<noteq> 0
     then and_then (remove_loop ops (bits_ref ops elem) distix ix True t0) (\<lambda>t1. Ok (t1, res))
     else Ok (t0, res)))"

section \<open>Bits\<close>

text \<open>What the \<open>bit-vec\<close> crate documents, for vectors of the same length: the bitwise exclusive or,
  and a comparison bit by bit.\<close>

fun bv_less :: "bool list \<Rightarrow> bool list \<Rightarrow> bool" where
  "bv_less [] ys \<longleftrightarrow> ys \<noteq> []"
| "bv_less (x # xs) [] \<longleftrightarrow> False"
| "bv_less (x # xs) (y # ys) \<longleftrightarrow> (if x = y then bv_less xs ys else y)"

definition bits_xor :: "bool list \<Rightarrow> bool list \<Rightarrow> bool list" where
  "bits_xor a b = map2 (\<noteq>) a b"

lemma length_bits_xor [simp]: "length (bits_xor a b) = min (length a) (length b)"
  by (simp add: bits_xor_def)

lemma bits_xor_nth: "i < length a \<Longrightarrow> i < length b \<Longrightarrow> bits_xor a b ! i \<longleftrightarrow> a ! i \<noteq> b ! i"
  by (simp add: bits_xor_def)

lemma bits_xor_inj: "length a = length u \<Longrightarrow> length b = length u \<Longrightarrow> bits_xor u a = bits_xor u b \<Longrightarrow> a = b"
proof (rule nth_equalityI)
  fix i assume "length a = length u" "length b = length u" "bits_xor u a = bits_xor u b" "i < length a"
  then show "a ! i = b ! i" using bits_xor_nth [of i u a] bits_xor_nth [of i u b] by auto
qed simp

lemma bits_xor_commute: "length a = length b \<Longrightarrow> bits_xor a b = bits_xor b a"
  by (rule nth_equalityI) (auto simp: bits_xor_nth)

text \<open>The first bit set.\<close>

definition first_one :: "bool list \<Rightarrow> nat \<Rightarrow> bool" where
  "first_one a p \<longleftrightarrow> p < length a \<and> a ! p \<and> (\<forall>i<p. \<not> a ! i)"

lemma first_one_Cons [simp]:
  "first_one (x # xs) 0 \<longleftrightarrow> x"
  "first_one (x # xs) (Suc p) \<longleftrightarrow> \<not> x \<and> first_one xs p"
  by (auto simp: first_one_def All_less_Suc2)

lemma position_first_one: "first_one a p \<Longrightarrow> position (\<lambda>b. b) a = Some p"
proof (induction a arbitrary: p)
  case Nil
  then show ?case by (simp add: first_one_def)
next
  case (Cons x xs)
  then show ?case by (cases p) auto
qed

lemma bv_less_first:
  "first_one a q \<Longrightarrow> first_one b p \<Longrightarrow> (q < p \<longrightarrow> bv_less b a) \<and> (p < q \<longrightarrow> \<not> bv_less b a)"
proof (induction b a arbitrary: p q rule: bv_less.induct)
  case (3 x xs y ys)
  then show ?case by (cases p; cases q) auto
qed (auto simp: first_one_def)

text \<open>The bit from which on the vectors of a set differ.\<close>

definition differ_at :: "bool list set \<Rightarrow> nat \<Rightarrow> bool" where
  "differ_at D p \<longleftrightarrow>
     (\<forall>x\<in>D. \<forall>y\<in>D. take p x = take p y) \<and> (\<exists>x\<in>D. \<exists>y\<in>D. x ! p \<noteq> y ! p) \<and> (\<forall>x\<in>D. p < length x)"

lemma take_eq_nth: "length x = length y \<Longrightarrow> take p x = take p y \<longleftrightarrow> (\<forall>i<p. i < length x \<longrightarrow> x ! i = y ! i)"
  by (auto simp: list_eq_iff_nth_eq)

lemma first_one_xor:
  assumes "length x = length y" and "x \<noteq> y"
  obtains q where "first_one (bits_xor x y) q" and "take q x = take q y" and "x ! q \<noteq> y ! q" and "q < length x"
proof -
  have "\<exists>q. q < length x \<and> x ! q \<noteq> y ! q" using assms by (auto simp: list_eq_iff_nth_eq)
  then obtain q where q: "q < length x" "x ! q \<noteq> y ! q" and least: "\<And>i. i < q \<Longrightarrow> \<not> (i < length x \<and> x ! i \<noteq> y ! i)"
    using exists_least_iff [of "\<lambda>q. q < length x \<and> x ! q \<noteq> y ! q"] by metis
  have "first_one (bits_xor x y) q"
    using q least assms(1) by (auto simp: first_one_def bits_xor_nth)
  moreover have "take q x = take q y" using least assms(1) q(1) by (auto simp: take_eq_nth)
  ultimately show thesis using that q by blast
qed


section \<open>Splitting a bucket\<close>

definition kops_ok :: "'e kops \<Rightarrow> nat \<Rightarrow> bool" where
  "kops_ok ops H \<longleftrightarrow>
     0 < H \<and> (\<forall>a b. length a = H \<and> length b = H \<longrightarrow> ex_union ops a b = Ok (bits_xor a b)) \<and>
     (\<forall>a b. bv_gt ops a b = bv_less b a) \<and>
     (\<forall>e. length (bits_ref ops e) = H) \<and>
     (\<forall>x y. kelem_eq ops x y \<longleftrightarrow> bits_ref ops x = bits_ref ops y)"

definition kdist :: "'e kops \<Rightarrow> bool list \<Rightarrow> 'e \<Rightarrow> bool list" where
  "kdist ops u e = bits_xor u (bits_ref ops e)"

lemma kops_okD:
  assumes "kops_ok ops H"
  shows "length a = H \<Longrightarrow> length b = H \<Longrightarrow> bitxor ops a b = Ok (bits_xor a b)"
    and "bv_gt ops a b = bv_less b a" and "length (bits_ref ops e) = H"
    and "kelem_eq ops x y \<longleftrightarrow> bits_ref ops x = bits_ref ops y"
    and "length u = H \<Longrightarrow> length (kdist ops u e) = H"
    and "length u = H \<Longrightarrow> kdist ops u x = kdist ops u y \<longleftrightarrow> bits_ref ops x = bits_ref ops y"
  using assms bits_xor_inj [of "bits_ref ops x" u "bits_ref ops y"]
  by (auto simp: kops_ok_def bitxor_def kdist_def)

lemma differ_atI:
  assumes "\<And>x. x \<in> D \<Longrightarrow> take p x = c \<and> p < length x" and "a \<in> D" and "b \<in> D" and "a ! p \<noteq> b ! p"
  shows "differ_at D p"
  using assms(2-4) unfolding differ_at_def by (auto dest: assms(1))

lemma differ_at_less:
  assumes "differ_at D p" and "v \<in> D" and "q < p" and "take q v = take q d" and "v ! q \<noteq> d ! q" and "q < length d"
  shows "differ_at (insert d D) q"
proof -
  have tk: "take q x = take q v" and len: "q < length x" if "x \<in> D" for x
  proof -
    have eq: "take p x = take p v" using that assms(1,2) unfolding differ_at_def by blast
    show "take q x = take q v" using arg_cong [OF eq, of "take q"] assms(3) by (simp add: min_def)
    have "p < length x" using that assms(1) unfolding differ_at_def by blast
    then show "q < length x" using assms(3) by simp
  qed
  show ?thesis
  proof (rule differ_atI [of _ _ "take q d" v d])
    fix x assume "x \<in> insert d D"
    then show "take q x = take q d \<and> q < length x"
      using tk [of x] len [of x] assms(4,6) by (cases "x = d") simp_all
  qed (simp_all add: assms)
qed

lemma differ_at_more:
  assumes "differ_at D p" and "v \<in> D" and "take p v = take p d" and "p < length d"
  shows "differ_at (insert d D) p"
proof -
  obtain x y where xy: "x \<in> D" "y \<in> D" "x ! p \<noteq> y ! p"
    using assms(1) by (auto simp: differ_at_def)
  have eq: "take p z = take p d \<and> p < length z" if "z \<in> D" for z
    using that assms unfolding differ_at_def by metis
  show ?thesis
  proof (rule differ_atI [of _ _ "take p d" x y])
    fix z assume "z \<in> insert d D"
    then show "take p z = take p d \<and> p < length z" using eq [of z] assms(4) by (cases "z = d") simp_all
  qed (simp_all add: xy)
qed

definition scan_inv :: "bool list set \<Rightarrow> bool list \<Rightarrow> bool list \<Rightarrow> bool" where
  "scan_inv D v m \<longleftrightarrow> v \<in> D \<and> ((m = [] \<and> D = {v}) \<or> (\<exists>p. first_one m p \<and> differ_at D p))"

lemma scan_inv_step:
  assumes inv: "scan_inv D v m" and len: "length v = length d" and new: "d \<notin> D"
  shows "if bv_less m (bits_xor v d) then scan_inv (insert d D) d (bits_xor v d) else scan_inv (insert d D) v m"
proof -
  have v: "v \<in> D" and "v \<noteq> d" using inv new by (auto simp: scan_inv_def)
  then obtain q where q: "first_one (bits_xor v d) q" "take q v = take q d" "v ! q \<noteq> d ! q" "q < length v"
    using first_one_xor [OF len] by metis
  show ?thesis
  proof (cases "m = []")
    case True
    then have "D = {v}" using inv by (auto simp: scan_inv_def first_one_def)
    moreover have "differ_at {d, v} q" using q len unfolding differ_at_def by auto
    moreover have "bits_xor v d \<noteq> []" using q(1) unfolding first_one_def by (metis list.size(3) not_less_zero)
    ultimately show ?thesis using True q(1) by (auto simp: scan_inv_def)
  next
    case False
    then obtain p where p: "first_one m p" "differ_at D p" using inv by (auto simp: scan_inv_def)
    have cmp: "(q < p \<longrightarrow> bv_less m (bits_xor v d)) \<and> (p < q \<longrightarrow> \<not> bv_less m (bits_xor v d))"
      using bv_less_first [OF q(1) p(1)] .
    have pl: "p < length d" using p(2) v len by (auto simp: differ_at_def)
    have le: "differ_at (insert d D) p" if "p \<le> q"
    proof (rule differ_at_more [OF p(2) v _ pl])
      show "take p v = take p d" using arg_cong [OF q(2), of "take p"] that by (simp add: min_def)
    qed
    have gt: "differ_at (insert d D) q" if "q < p"
      using differ_at_less [OF p(2) v that q(2,3)] q(4) len by simp
    show ?thesis using cmp le gt p(1) q(1) v unfolding scan_inv_def
      by (metis insert_iff linorder_cases nle_le not_le)
  qed
qed

lemma split_scan_ok:
  assumes ops: "kops_ok ops H"
  shows "\<lbrakk>scan_inv D v m; \<forall>x\<in>D \<union> set ds. length x = H; distinct ds; D \<inter> set ds = {}\<rbrakk> \<Longrightarrow>
    \<exists>v' m'. split_scan ops v m ds = Ok (v', m') \<and> scan_inv (D \<union> set ds) v' m'"
proof (induction ds arbitrary: D v m)
  case (Cons d ds)
  have len: "length v = H" "length d = H" using Cons.prems by (auto simp: scan_inv_def)
  have xor: "bitxor ops v d = Ok (bits_xor v d)" using kops_okD(1) [OF ops len] .
  have sets: "D \<union> set (d # ds) = insert d D \<union> set ds" by auto
  have step: "if bv_less m (bits_xor v d) then scan_inv (insert d D) d (bits_xor v d) else scan_inv (insert d D) v m"
    using Cons.prems(1,4) len by (intro scan_inv_step) auto
  show ?case
    using step Cons.IH [of "insert d D"] Cons.prems(2-4) unfolding sets
    by (auto simp: xor kops_okD(2) [OF ops] split: if_splits)
qed auto

lemma all_dists_ok:
  "kops_ok ops H \<Longrightarrow> length u = H \<Longrightarrow> all_dists ops u es = Ok (map (kdist ops u) es)"
  by (induction es) (simp_all add: kops_okD kdist_def)

lemma split_fill_ok:
  "\<forall>e\<in>set es. p < length (f e) \<Longrightarrow>
   split_fill p (zip es (map f es)) left right =
     Ok (left @ filter (\<lambda>e. \<not> f e ! p) es, right @ filter (\<lambda>e. f e ! p) es)"
  by (induction es arbitrary: left right) (simp_all add: vec_at_def)

definition kbucket_of :: "'e list \<Rightarrow> 'e kbucket" where
  "kbucket_of es = \<lparr>kdata = es, ksize = length es\<rparr>"

lemma kbucket_of_simps [simp]: "kdata (kbucket_of es) = es" "ksize (kbucket_of es) = length es"
  by (simp_all add: kbucket_of_def)

lemma kb_new_eq: "kb_new = kbucket_of []"
  by (simp add: kb_new_def kbucket_of_def)

theorem kb_split_ok:
  assumes ops: "kops_ok ops H" and u: "length u = H" and two: "2 \<le> length es"
    and dist: "distinct (map (bits_ref ops) es)"
  shows "\<exists>p. differ_at (kdist ops u ` set es) p \<and>
    kb_split ops u (kbucket_of es) =
      Ok (kbucket_of (filter (\<lambda>e. \<not> kdist ops u e ! p) es), kbucket_of (filter (\<lambda>e. kdist ops u e ! p) es), p)"
proof -
  let ?f = "kdist ops u"
  obtain e1 rest where es: "es = e1 # rest" "rest \<noteq> []" using two by (cases es; cases "tl es") auto
  have dd: "distinct (map ?f es)" using dist by (simp add: distinct_map inj_on_def kops_okD(6) [OF ops u])
  have "scan_inv {?f e1} (?f e1) []" by (simp add: scan_inv_def)
  moreover have "\<forall>x\<in>{?f e1} \<union> set (map ?f rest). length x = H" using kops_okD(5) [OF ops u] by auto
  moreover have "distinct (map ?f rest)" "{?f e1} \<inter> set (map ?f rest) = {}" using dd es by auto
  ultimately obtain v m where scan: "split_scan ops (?f e1) [] (map ?f rest) = Ok (v, m)"
    and inv: "scan_inv ({?f e1} \<union> set (map ?f rest)) v m"
    using split_scan_ok [OF ops, of "{?f e1}" "?f e1" "[]" "map ?f rest"] by blast
  have scan': "split_scan ops (hd (map ?f es)) [] (tl (map ?f es)) = Ok (v, m)" using scan es(1) by simp
  have all: "{?f e1} \<union> set (map ?f rest) = ?f ` set es" using es by auto
  obtain e2 where e2: "e2 \<in> set rest" using es(2) by (cases rest) auto
  have "?f e2 \<noteq> ?f e1" using dd es(1) e2 by (metis distinct.simps(2) image_eqI list.set_map list.simps(9))
  then have "?f ` set es \<noteq> {v}" using es e2 by auto
  then obtain p where p: "first_one m p" "differ_at (?f ` set es) p"
    using inv unfolding all scan_inv_def by auto
  have "\<forall>e\<in>set es. p < length (?f e)" using p(2) by (auto simp: differ_at_def)
  then have "split_fill p (zip es (map ?f es)) [] [] = Ok (filter (\<lambda>e. \<not> ?f e ! p) es, filter (\<lambda>e. ?f e ! p) es)"
    using split_fill_ok [of es p ?f "[]" "[]"] by simp
  then have "kb_split ops u (kbucket_of es) =
      Ok (kbucket_of (filter (\<lambda>e. \<not> ?f e ! p) es), kbucket_of (filter (\<lambda>e. ?f e ! p) es), p)"
    using two scan' position_first_one [OF p(1)]
    by (simp add: kb_split_def all_dists_ok [OF ops u] kbucket_of_def)
  then show ?thesis using p(2) by blast
qed

lemma differ_at_filters:
  assumes "differ_at (f ` set es) p"
  shows "filter (\<lambda>e. \<not> f e ! p) es \<noteq> []" and "filter (\<lambda>e. f e ! p) es \<noteq> []"
proof -
  obtain a b where "a \<in> set es" "b \<in> set es" "f a ! p" "\<not> f b ! p"
    using assms by (auto simp: differ_at_def)
  then show "filter (\<lambda>e. \<not> f e ! p) es \<noteq> []" and "filter (\<lambda>e. f e ! p) es \<noteq> []"
    by (auto simp: filter_empty_conv)
qed

end
