(* ===== verification/Knodetree.thy ===== *)
theory Knodetree
  imports Knodetable
begin

text \<open>
  What the vectors of the Kademlia table mean: the tree they represent, that adding an element
  replaces one leaf of it by a leaf or by a chain of new nodes that ends in the two halves of the
  split bucket, what the lookups return, and where removing an element goes wrong.
\<close>

section \<open>The tree the vectors represent\<close>

text \<open>A leaf is the index of its bucket and its elements, an inner node has the index of its entry.\<close>

datatype 'e ktrie = KLeaf nat "'e list" | KNode nat "'e ktrie" "'e ktrie"

fun kroot :: "'e ktrie \<Rightarrow> nat" where
  "kroot (KLeaf ix es) = ix"
| "kroot (KNode ix l r) = ix"

fun tix :: "'e ktrie \<Rightarrow> nat list" where
  "tix (KLeaf ix es) = [ix]"
| "tix (KNode ix l r) = ix # tix l @ tix r"

fun telems :: "'e ktrie \<Rightarrow> 'e list" where
  "telems (KLeaf ix es) = es"
| "telems (KNode ix l r) = telems l @ telems r"

fun rep :: "'e knode_table \<Rightarrow> 'e ktrie \<Rightarrow> bool" where
  "rep t (KLeaf ix es) \<longleftrightarrow> ix < length (kbuckets t) \<and> kbuckets t ! ix = Some (kbucket_of es)"
| "rep t (KNode ix l r) \<longleftrightarrow>
     ix < length (kbuckets t) \<and> kbuckets t ! ix = None \<and>
     bintree t ! (ix * 2) = kroot l \<and> bintree t ! (ix * 2 + 1) = kroot r \<and> rep t l \<and> rep t r"

text \<open>The leaf a distance leads to: its depth, its index and its elements.\<close>

fun tleaf :: "'e ktrie \<Rightarrow> bool list \<Rightarrow> nat \<times> nat \<times> 'e list" where
  "tleaf (KLeaf ix es) key = (0, ix, es)"
| "tleaf (KNode ix l r) [] = (0, ix, [])"
| "tleaf (KNode ix l r) (d # ds) = (case tleaf (if d then r else l) ds of (n, j, es) \<Rightarrow> (Suc n, j, es))"

fun tput :: "'e ktrie \<Rightarrow> bool list \<Rightarrow> 'e ktrie \<Rightarrow> 'e ktrie" where
  "tput (KLeaf ix es) key new = new"
| "tput (KNode ix l r) [] new = KNode ix l r"
| "tput (KNode ix l r) (d # ds) new =
     (if d then KNode ix l (tput r ds new) else KNode ix (tput l ds new) r)"

fun theight :: "'e ktrie \<Rightarrow> nat" where
  "theight (KLeaf ix es) = 0"
| "theight (KNode ix l r) = Suc (max (theight l) (theight r))"

text \<open>Every element is in the leaf its distance leads to.\<close>

fun tgood :: "('e \<Rightarrow> bool list) \<Rightarrow> nat \<Rightarrow> bool list \<Rightarrow> 'e ktrie \<Rightarrow> bool" where
  "tgood f bs pre (KLeaf ix es) \<longleftrightarrow>
     (\<forall>e\<in>set es. take (length pre) (f e) = pre) \<and> distinct (map f es) \<and> length es \<le> bs"
| "tgood f bs pre (KNode ix l r) \<longleftrightarrow> tgood f bs (pre @ [False]) l \<and> tgood f bs (pre @ [True]) r"

lemma kroot_in [simp]: "kroot T \<in> set (tix T)"
  by (cases T) auto

lemma rep_index: "rep t T \<Longrightarrow> i \<in> set (tix T) \<Longrightarrow> i < length (kbuckets t)"
  by (induction T) auto

lemma rep_cong:
  "rep t T \<Longrightarrow> length (kbuckets t) \<le> length (kbuckets t') \<Longrightarrow>
   (\<And>i. i \<in> set (tix T) \<Longrightarrow> kbuckets t' ! i = kbuckets t ! i \<and>
      bintree t' ! (i * 2) = bintree t ! (i * 2) \<and> bintree t' ! (i * 2 + 1) = bintree t ! (i * 2 + 1)) \<Longrightarrow>
   rep t' T"
  by (induction T) auto

lemma tleaf_in: "theight T \<le> length key \<Longrightarrow> tleaf T key = (n, i, es) \<Longrightarrow> i \<in> set (tix T) \<and> n \<le> length key"
  by (induction T key arbitrary: n i es rule: tleaf.induct) (auto split: prod.splits if_splits)

lemma walk_rep:
  "\<lbrakk>rep t T; theight T \<le> length key; length (bintree t) = 2 * length (kbuckets t); tleaf T key = (n, i, es)\<rbrakk> \<Longrightarrow>
   \<exists>p. resolve_walk t key par dix (kroot T) = Ok (p, dix + n, i, kbucket_of es)"
proof (induction T key arbitrary: par dix n i es rule: tleaf.induct)
  case (1 ix es key)
  then show ?case by (subst resolve_walk.simps) (simp add: vec_get_def)
next
  case (3 ix l r d ds)
  obtain m j es' where sub: "tleaf (if d then r else l) ds = (m, j, es')" by (cases "tleaf (if d then r else l) ds")
  then have eq: "n = Suc m" "i = j" "es = es'" using "3.prems"(4) by auto
  have "rep t (if d then r else l)" "theight (if d then r else l) \<le> length ds" using "3.prems"(1,2) by auto
  then obtain p where "resolve_walk t ds ix (Suc dix) (kroot (if d then r else l)) = Ok (p, Suc dix + m, j, kbucket_of es')"
    using "3.IH" [OF _ _ "3.prems"(3) sub] by blast
  then show ?case using "3.prems"(1,3) eq
    by (subst resolve_walk.simps) (auto simp: vec_get_def vec_at_def)
qed auto

lemma tput_ix:
  "theight T \<le> length key \<Longrightarrow> tleaf T key = (n, i, es) \<Longrightarrow> kroot new = i \<Longrightarrow>
   mset (tix (tput T key new)) + {#i#} = mset (tix T) + mset (tix new) \<and> kroot (tput T key new) = kroot T"
  by (induction T key new arbitrary: n i es rule: tput.induct) (auto split: prod.splits if_splits)

lemma tput_elems:
  "theight T \<le> length key \<Longrightarrow> tleaf T key = (n, i, es) \<Longrightarrow>
   mset (telems (tput T key new)) + mset es = mset (telems T) + mset (telems new)"
  by (induction T key new arbitrary: n i es rule: tput.induct) (auto split: prod.splits if_splits)

lemma tput_height:
  "theight T \<le> length key \<Longrightarrow> tleaf T key = (n, i, es) \<Longrightarrow> theight new \<le> length key - n \<Longrightarrow>
   theight (tput T key new) \<le> length key"
  by (induction T key new arbitrary: n i es rule: tput.induct) (auto split: prod.splits if_splits)

lemma tput_good:
  "\<lbrakk>theight T \<le> length key; tleaf T key = (n, i, es); tgood f bs pre T; tgood f bs (pre @ take n key) new\<rbrakk> \<Longrightarrow>
   tgood f bs pre (tput T key new)"
  by (induction T key new arbitrary: n i es pre rule: tput.induct) (auto split: prod.splits if_splits)

lemma tput_rep:
  "\<lbrakk>rep t T; theight T \<le> length key; tleaf T key = (n, i, es); distinct (tix T); rep t' new; kroot new = i;
    length (kbuckets t) \<le> length (kbuckets t');
    \<And>j. j \<in> set (tix T) \<Longrightarrow> j \<noteq> i \<Longrightarrow> kbuckets t' ! j = kbuckets t ! j \<and>
      bintree t' ! (j * 2) = bintree t ! (j * 2) \<and> bintree t' ! (j * 2 + 1) = bintree t ! (j * 2 + 1)\<rbrakk> \<Longrightarrow>
   rep t' (tput T key new)"
proof (induction T key new arbitrary: n i es rule: tput.induct)
  case (3 ix l r d ds new)
  obtain m j es' where sub: "tleaf (if d then r else l) ds = (m, j, es')" by (cases "tleaf (if d then r else l) ds")
  then have eq: "i = j" using "3.prems"(3) by auto
  have hl: "theight (if d then r else l) \<le> length ds" using "3.prems"(2) by auto
  have inside: "i \<in> set (tix (if d then r else l))" using tleaf_in [OF hl sub] eq by simp
  then have out: "i \<noteq> ix" "i \<notin> set (tix (if d then l else r))" using "3.prems"(4) by (auto split: if_splits)
  have keep: "rep t' (if d then l else r)"
  proof (rule rep_cong [of t])
    fix j assume j: "j \<in> set (tix (if d then l else r))"
    then have "j \<noteq> i" "j \<in> set (tix (KNode ix l r))" using out by (auto split: if_splits)
    then show "kbuckets t' ! j = kbuckets t ! j \<and> bintree t' ! (j * 2) = bintree t ! (j * 2) \<and>
        bintree t' ! (j * 2 + 1) = bintree t ! (j * 2 + 1)"
      using "3.prems"(8) by blast
  qed (use "3.prems"(1,7) in auto)
  have "rep t' (tput (if d then r else l) ds new)"
  proof (cases d)
    case True
    then show ?thesis using "3.IH"(1) [of m j es'] "3.prems" sub hl eq by simp
  next
    case False
    then show ?thesis using "3.IH"(2) [of m j es'] "3.prems" sub hl eq by simp
  qed
  moreover have "kroot (tput (if d then r else l) ds new) = kroot (if d then r else l)"
    using tput_ix [OF hl sub, of new] "3.prems"(6) eq by simp
  ultimately show ?case using keep "3.prems"(1,7) "3.prems"(8) [of ix] out by (cases d) auto
qed auto


subsection \<open>The chain of new nodes\<close>

fun tchain :: "bool list \<Rightarrow> nat \<Rightarrow> nat \<Rightarrow> 'e list \<Rightarrow> 'e list \<Rightarrow> 'e ktrie" where
  "tchain [] i k L R = KNode i (KLeaf k L) (KLeaf (k + 1) R)"
| "tchain (d # ds) i k L R =
     (if d then KNode i (KLeaf k []) (tchain ds (k + 1) (k + 2) L R)
      else KNode i (tchain ds k (k + 2) L R) (KLeaf (k + 1) []))"

lemma tchain_root [simp]: "kroot (tchain ds i k L R) = i"
  by (cases ds) auto

lemma tchain_ix: "i < k \<Longrightarrow> set (tix (tchain ds i k L R)) = insert i {k..<k + 2 * length ds + 2} \<and> distinct (tix (tchain ds i k L R))"
  by (induction ds arbitrary: i k) auto

lemma tchain_elems [simp]: "mset (telems (tchain ds i k L R)) = mset L + mset R"
  by (induction ds arbitrary: i k) auto

lemma tchain_height [simp]: "theight (tchain ds i k L R) = Suc (length ds)"
  by (induction ds arbitrary: i k) auto

lemma tchain_good:
  "tgood f bs pre (tchain ds i k L R) \<longleftrightarrow>
   tgood f bs (pre @ ds @ [False]) (KLeaf 0 L) \<and> tgood f bs (pre @ ds @ [True]) (KLeaf 0 R)"
  by (induction ds arbitrary: i k pre) auto

text \<open>A table whose freed entries are all in use, with a pair of children for every bucket.\<close>

definition ktable_sized :: "'e knode_table \<Rightarrow> bool" where
  "ktable_sized t \<longleftrightarrow> rem_ix t = [] \<and> length (bintree t) = 2 * length (kbuckets t)"

definition with_children :: "nat \<Rightarrow> 'e kbucket option \<Rightarrow> 'e kbucket option \<Rightarrow> 'e knode_table \<Rightarrow> 'e knode_table" where
  "with_children i a b t =
     t\<lparr>kbuckets := kbuckets t @ [a, b],
       bintree := (bintree t @ [0, 0, 0, 0])[i * 2 := length (kbuckets t), i * 2 + 1 := length (kbuckets t) + 1]\<rparr>"

lemma alloc_pair:
  assumes "ktable_sized t" and "i < length (kbuckets t)"
  shows "and_then (alloc_child False i a t) (\<lambda>(t1, l). and_then (alloc_child True i b t1) (\<lambda>(t2, r). g t2 l r)) =
    g (with_children i a b t) (length (kbuckets t)) (length (kbuckets t) + 1)"
proof -
  have "(bintree t @ [0, 0])[i * 2 := k] @ [0, 0] = (bintree t @ [0, 0, 0, 0])[i * 2 := k]" for k
    using assms by (simp add: ktable_sized_def list_update_append)
  then show ?thesis using assms
    by (simp add: alloc_child_def vec_set_def ktable_sized_def with_children_def Let_def)
qed

lemma with_children_simps [simp]:
  "kus (with_children i a b t) = kus t" "kbucket_size (with_children i a b t) = kbucket_size t"
  "kbuckets (with_children i a b t) = kbuckets t @ [a, b]"
  "rem_ix (with_children i a b t) = rem_ix t"
  by (simp_all add: with_children_def)

lemma with_children_bintree:
  assumes "ktable_sized t" and "i < length (kbuckets t)"
  shows "j < 2 * length (kbuckets t) \<Longrightarrow> bintree (with_children i a b t) ! j =
      (if j = i * 2 then length (kbuckets t) else if j = i * 2 + 1 then length (kbuckets t) + 1 else bintree t ! j)"
    and "ktable_sized (with_children i a b t)"
  using assms by (auto simp: with_children_def ktable_sized_def nth_append nth_list_update)

definition set_pair :: "nat \<Rightarrow> nat \<Rightarrow> 'e list \<Rightarrow> 'e list \<Rightarrow> 'e knode_table \<Rightarrow> 'e knode_table" where
  "set_pair l r L R t = t\<lparr>kbuckets := (kbuckets t)[l := Some (kbucket_of L), r := Some (kbucket_of R)]\<rparr>"

lemma set_pair_simps [simp]:
  "kus (set_pair l r L R t) = kus t" "kbucket_size (set_pair l r L R t) = kbucket_size t"
  "kbuckets (set_pair l r L R t) = (kbuckets t)[l := Some (kbucket_of L), r := Some (kbucket_of R)]"
  "rem_ix (set_pair l r L R t) = rem_ix t" "bintree (set_pair l r L R t) = bintree t"
  by (simp_all add: set_pair_def)

definition chain_result :: "bool list \<Rightarrow> nat \<Rightarrow> 'e knode_table \<Rightarrow> 'e knode_table \<Rightarrow> nat \<Rightarrow> nat \<Rightarrow> bool" where
  "chain_result ds i t t' l r \<longleftrightarrow>
     ktable_sized t' \<and> kus t' = kus t \<and> kbucket_size t' = kbucket_size t \<and>
     length (kbuckets t') = length (kbuckets t) + 2 * length ds + 2 \<and>
     length (kbuckets t) \<le> l \<and> l < r \<and> r < length (kbuckets t') \<and>
     (\<forall>j < length (kbuckets t). kbuckets t' ! j = kbuckets t ! j) \<and>
     (\<forall>j < 2 * length (kbuckets t). j \<noteq> i * 2 \<and> j \<noteq> i * 2 + 1 \<longrightarrow> bintree t' ! j = bintree t ! j) \<and>
     (\<forall>L R. rep (set_pair l r L R t') (tchain ds i (length (kbuckets t)) L R))"

lemma chain_result_Cons:
  assumes "ktable_sized t" and i: "i < length (kbuckets t)" and none: "kbuckets t ! i = None"
    and res: "chain_result ds (if d then length (kbuckets t) + 1 else length (kbuckets t))
      (with_children i (if d then Some kb_new else None) (if d then None else Some kb_new) t) t' l r"
  shows "chain_result (d # ds) i t t' l r"
proof -
  let ?k = "length (kbuckets t)"
  let ?t = "with_children i (if d then Some kb_new else None) (if d then None else Some kb_new) t"
  have bt: "bintree ?t ! j = (if j = i * 2 then ?k else if j = i * 2 + 1 then ?k + 1 else bintree t ! j)"
    if "j < 2 * ?k" for j using with_children_bintree(1) [OF assms(1) i that] .
  have keep: "kbuckets t' ! j = (kbuckets t @ [if d then Some kb_new else None, if d then None else Some kb_new]) ! j"
    if "j < ?k + 2" for j using res that by (simp add: chain_result_def)
  have bt': "bintree t' ! j = (if j = i * 2 then ?k else if j = i * 2 + 1 then ?k + 1 else bintree t ! j)"
    if "j < 2 * ?k" for j using res that bt [OF that] by (auto simp: chain_result_def)
  have lr: "?k + 2 \<le> l" "l < r" "r < length (kbuckets t')" using res by (auto simp: chain_result_def)
  have "rep (set_pair l r L R t') (tchain (d # ds) i ?k L R)" for L R
  proof -
    have sub: "rep (set_pair l r L R t') (tchain ds (if d then ?k + 1 else ?k) (?k + 2) L R)"
      using res by (simp add: chain_result_def)
    have "kbuckets (set_pair l r L R t') ! i = None" using keep [of i] i none lr by (simp add: nth_append)
    moreover have "kbuckets (set_pair l r L R t') ! (if d then ?k else ?k + 1) = Some (kbucket_of [])"
      using keep [of "if d then ?k else ?k + 1"] lr by (simp add: nth_append kb_new_eq)
    ultimately show ?thesis using sub lr i bt' [of "i * 2"] bt' [of "i * 2 + 1"] by (cases d) simp_all
  qed
  moreover have "kbuckets t' ! j = kbuckets t ! j" if "j < ?k" for j using keep [of j] that by (simp add: nth_append)
  ultimately show ?thesis using res bt' lr by (simp add: chain_result_def)
qed

lemma split_chain_ok:
  "ktable_sized t \<Longrightarrow> i < length (kbuckets t) \<Longrightarrow> kbuckets t ! i = None \<Longrightarrow>
   \<exists>t' l r. split_chain ds i t = Ok (t', l, r) \<and> chain_result ds i t t' l r"
proof (induction ds arbitrary: i t)
  case Nil
  let ?k = "length (kbuckets t)" and ?t = "with_children i None None t"
  have "split_chain [] i t = Ok (?t, ?k, ?k + 1)"
    using Nil.prems by (simp add: alloc_pair)
  moreover have "chain_result [] i t ?t ?k (?k + 1)"
    using Nil.prems with_children_bintree [OF Nil.prems(1,2)]
    by (auto simp: chain_result_def nth_append)
  ultimately show ?case by blast
next
  case (Cons d ds)
  let ?k = "length (kbuckets t)"
  let ?t = "with_children i (if d then Some kb_new else None) (if d then None else Some kb_new) t"
  let ?i = "if d then ?k + 1 else ?k"
  have sz: "ktable_sized ?t" and bt: "\<And>j. j < 2 * ?k \<Longrightarrow> bintree ?t ! j =
      (if j = i * 2 then ?k else if j = i * 2 + 1 then ?k + 1 else bintree t ! j)"
    using with_children_bintree [OF Cons.prems(1,2)] by auto
  have at: "vec_at (bintree ?t) (if d then i * 2 + 1 else i * 2) = Ok ?i"
    using bt [of "if d then i * 2 + 1 else i * 2"] sz Cons.prems(2) by (auto simp: vec_at_def ktable_sized_def)
  have step: "split_chain (d # ds) i t = split_chain ds ?i ?t"
    using at by (cases d) (simp_all add: alloc_pair [OF Cons.prems(1,2)])
  obtain t' l r where IH: "split_chain ds ?i ?t = Ok (t', l, r)" "chain_result ds ?i ?t t' l r"
  proof -
    have "?i < length (kbuckets ?t)" "kbuckets ?t ! ?i = None" by (simp_all add: nth_append)
    then show thesis using Cons.IH [OF sz] that by blast
  qed
  have "chain_result (d # ds) i t t' l r" by (rule chain_result_Cons [OF Cons.prems(1,2,3) IH(2)])
  then show ?case using step IH(1) by auto
qed

section \<open>The table and its contents\<close>

definition bucket_elems :: "'e kbucket option \<Rightarrow> 'e list" where
  "bucket_elems ob = (case ob of None \<Rightarrow> [] | Some b \<Rightarrow> kdata b)"

lemma bucket_elems_simps [simp]: "bucket_elems None = []" "bucket_elems (Some b) = kdata b"
  by (simp_all add: bucket_elems_def)

definition kelems :: "'e knode_table \<Rightarrow> 'e list" where
  "kelems t = concat (map bucket_elems (kbuckets t))"

definition ktable_rep :: "'e kops \<Rightarrow> nat \<Rightarrow> 'e knode_table \<Rightarrow> 'e ktrie \<Rightarrow> bool" where
  "ktable_rep ops H t T \<longleftrightarrow>
     ktable_sized t \<and> length (kus t) = H \<and> 1 < kbucket_size t \<and> rep t T \<and> kroot T = 0 \<and> distinct (tix T) \<and>
     set (tix T) = {..<length (kbuckets t)} \<and> theight T \<le> H \<and> tgood (kdist ops (kus t)) (kbucket_size t) [] T"

definition ktable_ok :: "'e kops \<Rightarrow> nat \<Rightarrow> 'e knode_table \<Rightarrow> bool" where
  "ktable_ok ops H t \<longleftrightarrow> (\<exists>T. ktable_rep ops H t T)"

lemma telems_rep: "rep t T \<Longrightarrow> telems T = concat (map (\<lambda>i. bucket_elems (kbuckets t ! i)) (tix T))"
  by (induction T) auto

lemma mset_concat_map: "mset (concat (map f xs)) = (\<Sum>x\<in>#mset xs. mset (f x))"
  by (induction xs) auto

lemma kelems_rep: assumes "ktable_rep ops H t T" shows "mset (kelems t) = mset (telems T)"
proof -
  let ?f = "\<lambda>i. bucket_elems (kbuckets t ! i)"
  have "mset (tix T) = mset [0..<length (kbuckets t)]"
  proof -
    have "distinct (tix T)" "set (tix T) = set [0..<length (kbuckets t)]"
      using assms unfolding ktable_rep_def by (simp_all add: lessThan_atLeast0)
    then show ?thesis using set_eq_iff_mset_eq_distinct [of "tix T" "[0..<length (kbuckets t)]"] by simp
  qed
  then have "mset (concat (map ?f (tix T))) = mset (concat (map ?f [0..<length (kbuckets t)]))"
    unfolding mset_concat_map by simp
  moreover have "map ?f [0..<length (kbuckets t)] = map bucket_elems (kbuckets t)"
    by (rule nth_equalityI) auto
  ultimately show ?thesis using telems_rep [of t T] assms by (simp add: kelems_def ktable_rep_def)
qed

lemma resolve_bucket_rep:
  assumes ops: "kops_ok ops H" and ok: "ktable_rep ops H t T" and len: "length key = H"
    and leaf: "tleaf T (bits_xor (kus t) key) = (n, i, es)"
  shows "resolve_bucket ops t key = Ok (n, i, kbucket_of es)"
proof -
  have "length (kus t) = H" using ok by (simp add: ktable_rep_def)
  then have xor: "bitxor ops (kus t) key = Ok (bits_xor (kus t) key)" and l: "length (bits_xor (kus t) key) = H"
    using kops_okD(1) [OF ops _ len] len by auto
  have "rep t T" "theight T \<le> length (bits_xor (kus t) key)" "length (bintree t) = 2 * length (kbuckets t)" "kroot T = 0"
    using ok l by (auto simp: ktable_rep_def ktable_sized_def)
  then obtain p where "resolve_walk t (bits_xor (kus t) key) 0 0 0 = Ok (p, 0 + n, i, kbucket_of es)"
    using walk_rep [of t T "bits_xor (kus t) key" n i es 0 0] leaf by auto
  then show ?thesis by (simp add: resolve_bucket_def xor)
qed

text \<open>The bucket an element leads to is the only one that can hold an element with its bits.\<close>

lemma tgood_path:
  "tgood f bs pre T \<Longrightarrow> e \<in> set (telems T) \<Longrightarrow> take (length pre) (f e) = pre"
proof (induction T arbitrary: pre)
  case (KNode ix l r)
  then have "take (length pre + 1) (f e) = pre @ [False] \<or> take (length pre + 1) (f e) = pre @ [True]" by fastforce
  then have "take (length pre) (take (length pre + 1) (f e)) = pre" by (elim disjE) (metis append_eq_conv_conj)+
  then show ?case by (simp add: min_def)
qed auto

lemma tgood_leaf:
  assumes "tgood f bs pre T" and "theight T \<le> length key" and "tleaf T key = (n, i, es)"
    and "e \<in> set (telems T)" and "f e = pre @ key"
  shows "e \<in> set es"
  using assms
proof (induction T key arbitrary: n i es pre rule: tleaf.induct)
  case (3 ix l r d ds)
  obtain m j es' where sub: "tleaf (if d then r else l) ds = (m, j, es')" by (cases "tleaf (if d then r else l) ds")
  then have eq: "es = es'" using "3.prems"(3) by auto
  have side: "e \<in> set (telems (if d then r else l))"
    using tgood_path [of f bs "pre @ [False]" l e] tgood_path [of f bs "pre @ [True]" r e] "3.prems"(1,4,5)
    by (cases d) auto
  have "e \<in> set es'"
    by (rule "3.IH" [of "pre @ [d]" m j es']) (use "3.prems" side sub in \<open>auto split: if_splits\<close>)
  then show ?case using eq by simp
qed auto

lemma tgood_leaf_path:
  assumes "tgood f bs pre T" and "theight T \<le> length key" and "tleaf T key = (n, i, es)"
  shows "tgood f bs (pre @ take n key) (KLeaf i es) \<and> set es \<subseteq> set (telems T)"
  using assms
proof (induction T key arbitrary: n i es pre rule: tleaf.induct)
  case (3 ix l r d ds)
  obtain m j es' where sub: "tleaf (if d then r else l) ds = (m, j, es')" by (cases "tleaf (if d then r else l) ds")
  then have eq: "n = Suc m" "i = j" "es = es'" using "3.prems"(3) by auto
  have "tgood f bs ((pre @ [d]) @ take m ds) (KLeaf j es') \<and> set es' \<subseteq> set (telems (if d then r else l))"
    by (rule "3.IH" [OF _ _ sub]) (use "3.prems" in auto)
  then show ?case using eq by (auto split: if_splits)
qed auto


section \<open>Adding an element\<close>

definition kadd_list :: "'e kops \<Rightarrow> 'e \<Rightarrow> 'e list \<Rightarrow> 'e list" where
  "kadd_list ops e es = filter (\<lambda>x. bits_ref ops x \<noteq> bits_ref ops e) es @ [e]"

lemma vec_remove_filter:
  "distinct (map f xs) \<Longrightarrow> position (\<lambda>x. k = f x) xs = Some i \<Longrightarrow> vec_remove i xs = filter (\<lambda>x. f x \<noteq> k) xs"
proof (induction xs arbitrary: i)
  case (Cons x xs)
  have "filter (\<lambda>y. f y \<noteq> k) xs = xs" if "k = f x"
    using Cons.prems(1) that by (auto simp: filter_id_conv) (metis imageI)
  then show ?case using Cons by (auto split: if_splits)
qed simp

lemma kb_add_of:
  assumes ops: "kops_ok ops H" and "distinct (map (bits_ref ops) es)"
  shows "kb_add ops e (kbucket_of es) = (kbucket_of (kadd_list ops e es), length (kadd_list ops e es))"
proof -
  have eq: "kelem_eq ops e = (\<lambda>x. bits_ref ops e = bits_ref ops x)" using kops_okD(4) [OF ops] by blast
  show ?thesis
  proof (cases "position (\<lambda>x. bits_ref ops e = bits_ref ops x) es")
    case None
    then have "filter (\<lambda>x. bits_ref ops x \<noteq> bits_ref ops e) es = es" by (auto simp: position_None filter_id_conv)
    then show ?thesis using None by (simp add: kb_add_def eq Let_def kadd_list_def kbucket_of_def)
  next
    case (Some i)
    have "vec_remove i es = filter (\<lambda>x. bits_ref ops x \<noteq> bits_ref ops e) es"
      by (rule vec_remove_filter [OF assms(2) Some])
    moreover have "length (vec_remove i es) = length es - 1" "i < length es" using position_Some [OF Some] by auto
    ultimately show ?thesis using Some by (auto simp: kb_add_def eq Let_def kadd_list_def kbucket_of_def)
  qed
qed

lemma kadd_list_props:
  assumes "distinct (map (bits_ref ops) es)"
  shows "distinct (map (bits_ref ops) (kadd_list ops e es))" and "length (kadd_list ops e es) \<le> Suc (length es)"
    and "set (kadd_list ops e es) \<subseteq> insert e (set es)" and "e \<in> set (kadd_list ops e es)"
    and "mset (kadd_list ops e es) = add_mset e (filter_mset (\<lambda>x. bits_ref ops x \<noteq> bits_ref ops e) (mset es))"
  using assms by (auto simp: kadd_list_def distinct_map inj_on_def)

lemma mset_distinct_set: "mset xs = mset_set A \<Longrightarrow> finite A \<Longrightarrow> distinct xs \<and> set xs = A"
  by (metis count_mset_set(1,3) distinct_count_atmost_1 finite_set_mset_mset_set set_mset_mset)

lemma tput_tix:
  assumes "theight T \<le> length key" and "tleaf T key = (n, i, es)" and "kroot new = i"
    and "distinct (tix T)" and "distinct (tix new)" and "set (tix new) = insert i F" and "F \<inter> set (tix T) = {}"
  shows "distinct (tix (tput T key new)) \<and> set (tix (tput T key new)) = set (tix T) \<union> F"
proof (rule mset_distinct_set)
  have i: "i \<in> set (tix T)" using tleaf_in [OF assms(1,2)] by simp
  have fin: "finite F" using assms(6) by (metis List.finite_set finite_insert)
  have "mset (tix new) = add_mset i (mset_set F)"
    using assms(5-7) fin i mset_set_set [of "tix new"] by (metis disjoint_iff mset_set.insert)
  then have "mset (tix (tput T key new)) = mset (tix T) + mset_set F"
    using tput_ix [OF assms(1-3)] by simp
  then show "mset (tix (tput T key new)) = mset_set (set (tix T) \<union> F)"
    using assms(4,7) fin by (metis List.finite_set inf_commute mset_set_Union mset_set_set)
  show "finite (set (tix T) \<union> F)" using fin by simp
qed

lemma tleaf_tput: "theight T \<le> length key \<Longrightarrow> tleaf T key = (n, i, es) \<Longrightarrow> tleaf (tput T key (KLeaf j xs)) key = (n, j, xs)"
  by (induction T key arbitrary: n i es rule: tleaf.induct) (auto split: prod.splits if_splits)

text \<open>What replacing the leaf of an element by a tree of its new elements does to the contents.\<close>

lemma tput_change_elems:
  assumes ops: "kops_ok ops H" and u: "length u = H" and good: "tgood (kdist ops u) bs [] T" and h: "theight T \<le> H"
    and leaf: "tleaf T (kdist ops u e) = (n, i, es)" and new: "mset (telems new) = filter_mset (\<lambda>x. bits_ref ops x \<noteq> bits_ref ops e) (mset es) + X"
  shows "mset (telems (tput T (kdist ops u e) new)) =
    filter_mset (\<lambda>x. bits_ref ops x \<noteq> bits_ref ops e) (mset (telems T)) + X"
proof -
  let ?key = "kdist ops u e" and ?P = "\<lambda>x. bits_ref ops x \<noteq> bits_ref ops e"
  let ?rest = "tput T ?key (KLeaf i [])"
  have hk: "theight T \<le> length ?key" using h kops_okD(5) [OF ops u] by simp
  have path: "tgood (kdist ops u) bs [] ?rest"
    by (rule tput_good [OF hk leaf good]) simp
  have hr: "theight ?rest \<le> length ?key" by (rule tput_height [OF hk leaf]) simp
  have out: "?P x" if "x \<in> set (telems ?rest)" for x
  proof
    assume "bits_ref ops x = bits_ref ops e"
    then have "kdist ops u x = [] @ ?key" using kops_okD(6) [OF ops u] by simp
    then show False using tgood_leaf [OF path hr tleaf_tput [OF hk leaf] that] by simp
  qed
  have T: "mset (telems ?rest) + mset es = mset (telems T)" using tput_elems [OF hk leaf, of "KLeaf i []"] by simp
  have keep: "filter_mset ?P (mset (telems ?rest)) = mset (telems ?rest)" using out by (simp add: filter_mset_eq_conv)
  have "mset (telems (tput T ?key new)) + mset es = mset (telems ?rest) + mset (telems new) + mset es"
    using tput_elems [OF hk leaf, of new] T by (simp add: ac_simps)
  then show ?thesis using keep new by (simp flip: T)
qed

text \<open>Both ways to end an addition replace the leaf of the element by a tree of its new elements.\<close>

lemma replace_leaf:
  assumes ops: "kops_ok ops H" and ok: "ktable_rep ops H t T" and leaf: "tleaf T (kdist ops (kus t) e) = (n, i, es)"
    and new: "kroot new = i" "distinct (tix new)" "set (tix new) = insert i {length (kbuckets t)..<length (kbuckets t')}"
      "mset (telems new) = filter_mset (\<lambda>x. bits_ref ops x \<noteq> bits_ref ops e) (mset es) + X" "theight new \<le> H - n"
      "tgood (kdist ops (kus t)) (kbucket_size t) (take n (kdist ops (kus t) e)) new"
    and t': "ktable_sized t'" "kus t' = kus t" "kbucket_size t' = kbucket_size t" "rep t' new"
      "length (kbuckets t) \<le> length (kbuckets t')"
      "\<And>j. j < length (kbuckets t) \<Longrightarrow> j \<noteq> i \<Longrightarrow> kbuckets t' ! j = kbuckets t ! j \<and>
        bintree t' ! (j * 2) = bintree t ! (j * 2) \<and> bintree t' ! (j * 2 + 1) = bintree t ! (j * 2 + 1)"
  shows "ktable_rep ops H t' (tput T (kdist ops (kus t) e) new) \<and>
    mset (telems (tput T (kdist ops (kus t) e) new)) =
      filter_mset (\<lambda>x. bits_ref ops x \<noteq> bits_ref ops e) (mset (telems T)) + X"
proof -
  let ?key = "kdist ops (kus t) e"
  have T: "length (kus t) = H" "rep t T" "kroot T = 0" "distinct (tix T)" "set (tix T) = {..<length (kbuckets t)}"
    "theight T \<le> H" "tgood (kdist ops (kus t)) (kbucket_size t) [] T" "1 < kbucket_size t"
    using ok by (auto simp: ktable_rep_def)
  have lk: "length ?key = H" using kops_okD(5) [OF ops T(1)] .
  have hk: "theight T \<le> length ?key" using T(6) lk by simp
  have tx: "distinct (tix (tput T ?key new)) \<and> set (tix (tput T ?key new)) = set (tix T) \<union> {length (kbuckets t)..<length (kbuckets t')}"
    by (rule tput_tix [OF hk leaf new(1) T(4) new(2,3)]) (simp add: T(5) disjoint_iff)
  then have ix: "set (tix (tput T ?key new)) = {..<length (kbuckets t')}" using T(5) t'(5) by auto
  have rp: "rep t' (tput T ?key new)"
    by (rule tput_rep [OF T(2) hk leaf T(4) t'(4) new(1) t'(5)], rule t'(6)) (simp_all add: T(5))
  have root: "kroot (tput T ?key new) = 0" using tput_ix [OF hk leaf new(1)] T(3) by simp
  have ht: "theight (tput T ?key new) \<le> H" using tput_height [OF hk leaf] new(5) lk by simp
  have gd: "tgood (kdist ops (kus t)) (kbucket_size t) [] (tput T ?key new)"
    by (rule tput_good [OF hk leaf T(7)]) (use new(6) in simp)
  show ?thesis
    using t'(1-3) T(1,8) tx ix rp root ht gd tput_change_elems [OF ops T(1,7,6) leaf new(4)]
    by (simp add: ktable_rep_def)
qed

text \<open>The leaf an element leads to, and its elements once the element is added.\<close>

lemma add_leaf:
  assumes ops: "kops_ok ops H" and ok: "ktable_rep ops H t T" and leaf: "tleaf T (kdist ops (kus t) e) = (n, i, es)"
  shows "resolve_bucket ops t (bits_ref ops e) = Ok (n, i, kbucket_of es)" and "i < length (kbuckets t)" and "n \<le> H"
    and "distinct (map (bits_ref ops) es)" and "length es \<le> kbucket_size t"
    and "x \<in> set (kadd_list ops e es) \<Longrightarrow> take n (kdist ops (kus t) x) = take n (kdist ops (kus t) e)"
proof -
  let ?key = "kdist ops (kus t) e"
  have u: "length (kus t) = H" using ok by (simp add: ktable_rep_def)
  have lk: "length ?key = H" using kops_okD(5) [OF ops u] .
  then have hk: "theight T \<le> length ?key" using ok by (simp add: ktable_rep_def)
  show "resolve_bucket ops t (bits_ref ops e) = Ok (n, i, kbucket_of es)"
    by (rule resolve_bucket_rep [OF ops ok]) (use kops_okD(3) [OF ops] leaf in \<open>auto simp: kdist_def\<close>)
  show "i < length (kbuckets t)" and n: "n \<le> H"
    using tleaf_in [OF hk leaf] ok lk by (auto simp: ktable_rep_def)
  have good: "tgood (kdist ops (kus t)) (kbucket_size t) ([] @ take n ?key) (KLeaf i es)"
    using tgood_leaf_path [of "kdist ops (kus t)" "kbucket_size t" "[]" T, OF _ hk leaf] ok unfolding ktable_rep_def by blast
  then show d: "distinct (map (bits_ref ops) es)" and "length es \<le> kbucket_size t"
    by (auto simp: distinct_map inj_on_def kops_okD(6) [OF ops u])
  show "take n (kdist ops (kus t) x) = take n ?key" if "x \<in> set (kadd_list ops e es)"
  proof -
    have len: "length (take n ?key) = n" using n lk by simp
    have "x = e \<or> x \<in> set es" using kadd_list_props(3) [OF d, of e] that by blast
    then show ?thesis using good len by auto
  qed
qed

lemma add_no_split:
  assumes ops: "kops_ok ops H" and ok: "ktable_rep ops H t T" and leaf: "tleaf T (kdist ops (kus t) e) = (n, i, es)"
    and fits: "length (kadd_list ops e es) \<le> kbucket_size t"
  shows "\<exists>t' T'. kn_add ops e t = Ok t' \<and> ktable_rep ops H t' T' \<and> kus t' = kus t \<and> kbucket_size t' = kbucket_size t \<and>
    mset (telems T') = add_mset e (filter_mset (\<lambda>x. bits_ref ops x \<noteq> bits_ref ops e) (mset (telems T)))"
proof -
  let ?es = "kadd_list ops e es" and ?t = "t\<lparr>kbuckets := (kbuckets t)[i := Some (kbucket_of (kadd_list ops e es))]\<rparr>"
  note al = add_leaf [OF ops ok leaf]
  have u: "length (kus t) = H" and sz: "ktable_sized t" using ok by (simp_all add: ktable_rep_def)
  have add: "kn_add ops e t = Ok ?t"
    using fits by (simp add: kn_add_def al(1) kb_add_of [OF ops al(4)])
  have dd: "distinct (map (kdist ops (kus t)) ?es)"
    using kadd_list_props(1) [OF al(4), of e] by (simp add: distinct_map inj_on_def kops_okD(6) [OF ops u])
  have good: "tgood (kdist ops (kus t)) (kbucket_size t) (take n (kdist ops (kus t) e)) (KLeaf i ?es)"
    using al(3,6) fits dd kops_okD(5) [OF ops u] by (auto simp: min_def)
  have "ktable_rep ops H ?t (tput T (kdist ops (kus t) e) (KLeaf i ?es)) \<and>
    mset (telems (tput T (kdist ops (kus t) e) (KLeaf i ?es))) =
      filter_mset (\<lambda>x. bits_ref ops x \<noteq> bits_ref ops e) (mset (telems T)) + {#e#}"
    by (rule replace_leaf [OF ops ok leaf])
       (use al(2) sz good kadd_list_props(5) [OF al(4), of e] in \<open>auto simp: ktable_sized_def simp del: tgood.simps\<close>)
  then show ?thesis using add by auto
qed

lemma differ_at_ge:
  assumes "differ_at (f ` S) p" and "\<And>x. x \<in> S \<Longrightarrow> take n (f x) = c" shows "n \<le> p"
proof (rule ccontr)
  assume "\<not> n \<le> p"
  obtain x y where xy: "x \<in> S" "y \<in> S" "f x ! p \<noteq> f y ! p" using assms(1) by (auto simp: differ_at_def)
  have "take n (f x) ! p = take n (f y) ! p" using assms(2) xy(1,2) by simp
  then show False using xy(3) \<open>\<not> n \<le> p\<close> by simp
qed

lemma side_good:
  assumes es: "differ_at (f ` set es) p" "e \<in> set es" "distinct (map f es)" "length es \<le> Suc bs"
  shows "tgood f bs (take p (f e) @ [b]) (KLeaf j (filter (\<lambda>x. f x ! p = b) es))"
proof -
  have p: "p < length (f x)" "take p (f x) = take p (f e)" if "x \<in> set es" for x
    using es(1,2) that unfolding differ_at_def by blast+
  obtain y where y: "y \<in> set es" "f y ! p \<noteq> b" using es(1) unfolding differ_at_def by blast
  have "length (filter (\<lambda>x. f x ! p = b) es) < length es" by (rule length_filter_less) (use y in auto)
  moreover have "take (Suc p) (f x) = take p (f e) @ [b]" if "x \<in> set es" "f x ! p = b" for x
    using p [OF that(1)] that(2) by (simp add: take_Suc_conv_app_nth)
  moreover have "length (take p (f e) @ [b]) = Suc p" using p(1) [OF es(2)] by simp
  ultimately show ?thesis using es(3,4) by (auto simp: distinct_map inj_on_def)
qed

text \<open>The split inside \<open>add\<close>: the buckets it makes and the bits of the chain.\<close>

lemma add_split_run:
  assumes ops: "kops_ok ops H" and u: "length (kus t) = H"
    and res: "resolve_bucket ops t (bits_ref ops e) = Ok (n, i, kbucket_of es)"
    and d: "distinct (map (bits_ref ops) es)" and big: "kbucket_size t < length (kadd_list ops e es)"
    and two: "1 < kbucket_size t" and i: "i < length (kbuckets t)"
    and path: "\<And>x. x \<in> set (kadd_list ops e es) \<Longrightarrow> take n (kdist ops (kus t) x) = take n (kdist ops (kus t) e)"
  obtains p where "differ_at (kdist ops (kus t) ` set (kadd_list ops e es)) p" and "n \<le> p"
    and "kn_add ops e t =
      and_then (split_chain (drop n (take p (kdist ops (kus t) e))) i (t\<lparr>kbuckets := (kbuckets t)[i := None]\<rparr>))
        (\<lambda>(t1, l, r).
          and_then (vec_set (kbuckets t1) l (Some (kbucket_of (filter (\<lambda>x. kdist ops (kus t) x ! p = False) (kadd_list ops e es))))) (\<lambda>bs.
          and_then (vec_set bs r (Some (kbucket_of (filter (\<lambda>x. kdist ops (kus t) x ! p = True) (kadd_list ops e es))))) (\<lambda>bs'.
          Ok (t1\<lparr>kbuckets := bs'\<rparr>))))"
proof -
  let ?f = "kdist ops (kus t)" and ?es = "kadd_list ops e es"
  have e: "e \<in> set ?es" and de: "distinct (map (bits_ref ops) ?es)" using kadd_list_props [OF d] by auto
  obtain p where p: "differ_at (?f ` set ?es) p" and
    sp: "kb_split ops (kus t) (kbucket_of ?es) =
      Ok (kbucket_of (filter (\<lambda>e. \<not> ?f e ! p) ?es), kbucket_of (filter (\<lambda>e. ?f e ! p) ?es), p)"
    using kb_split_ok [OF ops u _ de] big two by auto
  have np: "n \<le> p" by (rule differ_at_ge [OF p]) (use path in blast)
  let ?L = "filter (\<lambda>e. \<not> ?f e ! p) ?es"
  have L: "?L \<noteq> []" using differ_at_filters(1) [OF p] .
  then have inL: "last ?L \<in> set ?es" using last_in_set [OF L] by simp
  have cl: "kb_get_closest 1 (kbucket_of ?L) = Ok [last ?L]"
  proof -
    have "drop (length ?L - 1) ?L = [last ?L]" using L
      by (metis append_butlast_last_id append_eq_conv_conj length_butlast)
    moreover have "\<not> 1 > length ?L" using L by (cases ?L) auto
    ultimately show ?thesis by (simp add: kb_get_closest_def)
  qed
  have tk: "take p (?f (last ?L)) = take p (?f e)" and "p < length (?f e)"
    using p inL e unfolding differ_at_def by blast+
  then have lp: "p < H" using kops_okD(5) [OF ops u] by simp
  have xor: "bitxor ops (bits_ref ops (last ?L)) (kus t) = Ok (?f (last ?L))"
    using kops_okD(1) [OF ops kops_okD(3) [OF ops] u] bits_xor_commute [of "bits_ref ops (last ?L)" "kus t"] kops_okD(3) [OF ops] u
    by (simp add: kdist_def)
  have lenL: "length (?f (last ?L)) = H" using kops_okD(5) [OF ops u] .
  have "kn_add ops e t =
      and_then (split_chain (drop n (take p (?f e))) i (t\<lparr>kbuckets := (kbuckets t)[i := None]\<rparr>))
        (\<lambda>(t1, l, r).
          and_then (vec_set (kbuckets t1) l (Some (kbucket_of ?L))) (\<lambda>bs.
          and_then (vec_set bs r (Some (kbucket_of (filter (\<lambda>x. ?f x ! p) ?es)))) (\<lambda>bs'.
          Ok (t1\<lparr>kbuckets := bs'\<rparr>))))"
  proof (cases "n < p")
    case True
    then show ?thesis using big lp lenL tk
      by (simp add: kn_add_def res kb_add_of [OF ops d] sp cl [simplified] vec_at_def xor)
  next
    case False
    then have "n = p" using np by simp
    then show ?thesis using big
      by (simp add: kn_add_def res kb_add_of [OF ops d] sp)
  qed
  then show thesis using that [OF p np] by simp
qed

lemma add_split:
  assumes ops: "kops_ok ops H" and ok: "ktable_rep ops H t T" and leaf: "tleaf T (kdist ops (kus t) e) = (n, i, es)"
    and big: "kbucket_size t < length (kadd_list ops e es)"
  shows "\<exists>t' T'. kn_add ops e t = Ok t' \<and> ktable_rep ops H t' T' \<and> kus t' = kus t \<and> kbucket_size t' = kbucket_size t \<and>
    mset (telems T') = add_mset e (filter_mset (\<lambda>x. bits_ref ops x \<noteq> bits_ref ops e) (mset (telems T)))"
proof -
  let ?f = "kdist ops (kus t)" and ?es = "kadd_list ops e es" and ?k = "length (kbuckets t)"
  let ?side = "\<lambda>p b. filter (\<lambda>x. ?f x ! p = b) ?es" and ?t = "t\<lparr>kbuckets := (kbuckets t)[i := None]\<rparr>"
  note al = add_leaf [OF ops ok leaf]
  have u: "length (kus t) = H" and sz: "ktable_sized t" and two: "1 < kbucket_size t" using ok by (simp_all add: ktable_rep_def)
  obtain p where p: "differ_at (?f ` set ?es) p" and np: "n \<le> p" and run: "kn_add ops e t =
      and_then (split_chain (drop n (take p (?f e))) i ?t)
        (\<lambda>(t1, l, r). and_then (vec_set (kbuckets t1) l (Some (kbucket_of (?side p False)))) (\<lambda>bs.
          and_then (vec_set bs r (Some (kbucket_of (?side p True)))) (\<lambda>bs'. Ok (t1\<lparr>kbuckets := bs'\<rparr>))))"
    by (rule add_split_run [OF ops u al(1,4) big two al(2,6)])
  let ?ds = "drop n (take p (?f e))" and ?L = "?side p False" and ?R = "?side p True"
  let ?new = "tchain ?ds i ?k ?L ?R"
  have e: "e \<in> set ?es" and le: "length ?es \<le> Suc (kbucket_size t)"
    using kadd_list_props [OF al(4)] al(5) by (auto intro: le_trans)
  have lk: "length (?f e) = H" using kops_okD(5) [OF ops u] .
  have "p < length (?f e)" using p e unfolding differ_at_def by blast
  then have lp: "p < H" using lk by simp
  obtain t1 l r where ch: "split_chain ?ds i ?t = Ok (t1, l, r)" and cr: "chain_result ?ds i ?t t1 l r"
    using split_chain_ok [of ?t i ?ds] sz al(2) by (auto simp: ktable_sized_def)
  let ?t' = "set_pair l r ?L ?R t1"
  have lr: "l < length (kbuckets t1)" "r < length (kbuckets t1)" "?k \<le> l" "?k \<le> r" "l \<noteq> r"
    using cr by (auto simp: chain_result_def)
  have add: "kn_add ops e t = Ok ?t'" using run ch lr by (simp add: vec_set_def set_pair_def)
  have len': "length (kbuckets ?t') = ?k + 2 * length ?ds + 2" using cr by (simp add: chain_result_def)
  have dd: "distinct (map ?f ?es)"
    using kadd_list_props(1) [OF al(4), of e] by (simp add: distinct_map inj_on_def kops_okD(6) [OF ops u])
  have good: "tgood ?f (kbucket_size t) (take n (?f e)) ?new"
  proof -
    have eq: "take n (?f e) @ ?ds = take p (?f e)"
      using np by (metis append_take_drop_id min.absorb1 take_take)
    show ?thesis unfolding tchain_good append_assoc [symmetric] eq
      by (intro conjI side_good [OF p e dd le])
  qed
  have "mset ?L + mset ?R = mset ?es" by (simp add: multiset_eq_iff)
  then have el: "mset (telems ?new) = mset ?es" by simp
  have "ktable_rep ops H ?t' (tput T (?f e) ?new) \<and> mset (telems (tput T (?f e) ?new)) =
      filter_mset (\<lambda>x. bits_ref ops x \<noteq> bits_ref ops e) (mset (telems T)) + {#e#}"
  proof (rule replace_leaf [OF ops ok leaf])
    show "distinct (tix ?new)" "set (tix ?new) = insert i {?k..<length (kbuckets ?t')}"
      using tchain_ix [OF al(2), of ?ds ?L ?R] len' by simp_all
    show "tgood ?f (kbucket_size t) (take n (?f e)) ?new" by (rule good)
    show "mset (telems ?new) = filter_mset (\<lambda>x. bits_ref ops x \<noteq> bits_ref ops e) (mset es) + {#e#}"
      using el kadd_list_props(5) [OF al(4), of e] by simp
    show "theight ?new \<le> H - n" using lp lk np by simp
    show "ktable_sized ?t'" "kus ?t' = kus t" "kbucket_size ?t' = kbucket_size t"
      using cr by (simp_all add: chain_result_def ktable_sized_def)
    show "rep ?t' ?new" using cr by (simp add: chain_result_def)
    show "?k \<le> length (kbuckets ?t')" using len' by simp
    fix j assume j: "j < ?k" "j \<noteq> i"
    then show "kbuckets ?t' ! j = kbuckets t ! j \<and> bintree ?t' ! (j * 2) = bintree t ! (j * 2) \<and>
        bintree ?t' ! (j * 2 + 1) = bintree t ! (j * 2 + 1)"
      using cr lr by (auto simp: chain_result_def)
  qed simp
  moreover have "kus ?t' = kus t" "kbucket_size ?t' = kbucket_size t" using cr by (simp_all add: chain_result_def)
  ultimately show ?thesis using add by auto
qed

theorem kn_add_ok:
  assumes "kops_ok ops H" and "ktable_rep ops H t T"
  shows "\<exists>t' T'. kn_add ops e t = Ok t' \<and> ktable_rep ops H t' T' \<and> kus t' = kus t \<and> kbucket_size t' = kbucket_size t \<and>
    mset (telems T') = add_mset e (filter_mset (\<lambda>x. bits_ref ops x \<noteq> bits_ref ops e) (mset (telems T)))"
proof -
  obtain n i es where "tleaf T (kdist ops (kus t) e) = (n, i, es)" by (cases "tleaf T (kdist ops (kus t) e)")
  then show ?thesis using add_no_split [OF assms] add_split [OF assms] by (meson not_le)
qed

text \<open>A table by its elements: adding one replaces the element with the same bits.\<close>

definition kspec_add :: "'e kops \<Rightarrow> 'e \<Rightarrow> 'e multiset \<Rightarrow> 'e multiset" where
  "kspec_add ops e M = add_mset e (filter_mset (\<lambda>x. bits_ref ops x \<noteq> bits_ref ops e) M)"

fun kn_adds :: "'e kops \<Rightarrow> 'e list \<Rightarrow> 'e knode_table \<Rightarrow> 'e knode_table outcome" where
  "kn_adds ops [] t = Ok t"
| "kn_adds ops (e # es) t = and_then (kn_add ops e t) (kn_adds ops es)"

lemma kn_adds_ok:
  "\<lbrakk>kops_ok ops H; ktable_rep ops H t T\<rbrakk> \<Longrightarrow>
   \<exists>t' T'. kn_adds ops es t = Ok t' \<and> ktable_rep ops H t' T' \<and> kbucket_size t' = kbucket_size t \<and>
     mset (telems T') = fold (kspec_add ops) es (mset (telems T))"
proof (induction es arbitrary: t T)
  case (Cons e es)
  obtain t1 T1 where 1: "kn_add ops e t = Ok t1" "ktable_rep ops H t1 T1" "kbucket_size t1 = kbucket_size t"
    "mset (telems T1) = kspec_add ops e (mset (telems T))"
    using kn_add_ok [OF Cons.prems, of e] by (auto simp: kspec_add_def)
  then show ?case using Cons.IH [OF Cons.prems(1) 1(2)] by simp
qed auto

lemma kn_new_rep:
  assumes "kops_ok ops H" and "length u = H" and "1 < bs"
  shows "\<exists>t0. kn_new u bs hs = Ok t0 \<and> ktable_rep ops H t0 (KLeaf 0 []) \<and> kbucket_size t0 = bs"
  using assms by (auto simp: kn_new_def ktable_rep_def ktable_sized_def kb_new_eq)

text \<open>In a table that represents a tree every bucket counts its elements and is not too big.\<close>

lemma rep_buckets:
  "\<lbrakk>rep t T; tgood f bs pre T; i \<in> set (tix T); kbuckets t ! i = Some b\<rbrakk> \<Longrightarrow>
   ksize b = length (kdata b) \<and> ksize b \<le> bs"
proof (induction T arbitrary: pre)
  case (KNode ix l r)
  from KNode.prems show ?case
    using KNode.IH(1) [of "pre @ [False]"] KNode.IH(2) [of "pre @ [True]"] by auto
qed auto

lemma table_buckets:
  assumes "ktable_rep ops H t T" and "Some b \<in> set (kbuckets t)"
  shows "ksize b = length (kdata b) \<and> ksize b \<le> kbucket_size t"
proof -
  obtain i where "i < length (kbuckets t)" "kbuckets t ! i = Some b" using assms(2) by (metis in_set_conv_nth)
  then show ?thesis using rep_buckets [of t T _ _ "[]" i b] assms(1) unfolding ktable_rep_def by auto
qed

lemma found_in_bucket:
  assumes ops: "kops_ok ops H" and ok: "ktable_rep ops H t T" and e: "e \<in> set (kelems t)"
  shows "\<exists>xs. get_closest_one_bucket ops (bits_ref ops e) (kbucket_size t) t = Ok xs \<and> e \<in> set xs"
proof -
  obtain n i es where leaf: "tleaf T (kdist ops (kus t) e) = (n, i, es)" by (cases "tleaf T (kdist ops (kus t) e)")
  note al = add_leaf [OF ops ok leaf]
  have u: "length (kus t) = H" using ok by (simp add: ktable_rep_def)
  have hk: "theight T \<le> length (kdist ops (kus t) e)" using ok kops_okD(5) [OF ops u] by (simp add: ktable_rep_def)
  have "e \<in> set (telems T)" using e kelems_rep [OF ok] by (metis set_mset_mset)
  then have "e \<in> set es" using tgood_leaf [OF _ hk leaf, of "kdist ops (kus t)" "kbucket_size t" "[]" e] ok
    by (simp add: ktable_rep_def)
  then show ?thesis using al(1,5) by (auto simp: get_closest_one_bucket_def kb_get_closest_def)
qed

subsection \<open>The elements returned\<close>

lemma kb_get_closest_ok:
  assumes "ksize b = length (kdata b)"
  shows "\<exists>r. kb_get_closest nb b = Ok r \<and> length r = min nb (length (kdata b)) \<and> mset r \<subseteq># mset (kdata b)"
proof (cases "nb > ksize b")
  case False
  have "mset (kdata b) = mset (take (ksize b - nb) (kdata b)) + mset (drop (ksize b - nb) (kdata b))"
    by (metis append_take_drop_id mset_append)
  then show ?thesis using False assms by (auto simp: kb_get_closest_def)
qed (use assms in \<open>auto simp: kb_get_closest_def\<close>)

lemma closest_others_ok:
  "\<lbrakk>\<forall>b. Some b \<in> set bs \<longrightarrow> ksize b = length (kdata b); 0 < nb\<rbrakk> \<Longrightarrow>
   \<exists>r. closest_others bs nb res = Ok (res @ r, nb - length r) \<and>
     length r = min nb (length (concat (map bucket_elems bs))) \<and> mset r \<subseteq># mset (concat (map bucket_elems bs))"
proof (induction bs arbitrary: nb res)
  case (Cons ob bs)
  show ?case
  proof (cases ob)
    case (Some b)
    obtain r where r: "kb_get_closest nb b = Ok r" "length r = min nb (length (kdata b))" "mset r \<subseteq># mset (kdata b)"
      using kb_get_closest_ok [of b nb] Cons.prems(1) Some by auto
    show ?thesis
    proof (cases "nb - length r < 1")
      case True
      then show ?thesis using r Some by (auto intro: subset_mset.add_increasing2)
    next
      case False
      obtain r' where r': "closest_others bs (nb - length r) (res @ r) = Ok ((res @ r) @ r', nb - length r - length r')"
        "length r' = min (nb - length r) (length (concat (map bucket_elems bs)))" "mset r' \<subseteq># mset (concat (map bucket_elems bs))"
        using Cons.IH [of "nb - length r" "res @ r"] Cons.prems(1) False by auto
      have "mset (r @ r') \<subseteq># mset (kdata b @ concat (map bucket_elems bs))"
        using r(3) r'(3) by (simp add: subset_mset.add_mono)
      then show ?thesis using r r' Some False by (intro exI [of _ "r @ r'"]) auto
    qed
  qed (use Cons in auto)
qed auto

lemma tleaf_rep:
  "rep t T \<Longrightarrow> theight T \<le> length key \<Longrightarrow> tleaf T key = (n, i, es) \<Longrightarrow>
   i < length (kbuckets t) \<and> kbuckets t ! i = Some (kbucket_of es)"
  by (induction T key arbitrary: n i es rule: tleaf.induct) (auto split: prod.splits if_splits)

lemma kn_get_closest_sized:
  assumes res: "resolve_bucket ops t key = Ok (n, i, b)" and b: "i < length (kbuckets t)" "kbuckets t ! i = Some b"
    and sized: "\<forall>b. Some b \<in> set (kbuckets t) \<longrightarrow> ksize b = length (kdata b)"
  shows "\<exists>res. kn_get_closest ops key nb t = Ok res \<and> length res = min nb (length (kelems t)) \<and> mset res \<subseteq># mset (kelems t)"
proof -
  let ?pre = "take i (kbuckets t)" and ?post = "drop (i + 1) (kbuckets t)"
  let ?A = "concat (map bucket_elems ?pre)" and ?B = "concat (map bucket_elems ?post)"
  have "kbuckets t = ?pre @ Some b # ?post" using id_take_nth_drop [OF b(1)] b(2) by simp
  then have "map bucket_elems (kbuckets t) = map bucket_elems ?pre @ kdata b # map bucket_elems ?post"
    by (metis bucket_elems_simps(2) list.simps(9) map_append)
  then have kel: "kelems t = ?A @ kdata b @ ?B" by (simp add: kelems_def)
  have "Some b \<in> set (kbuckets t)" using b by (metis nth_mem)
  then obtain r where r: "kb_get_closest nb b = Ok r" "length r = min nb (length (kdata b))" "mset r \<subseteq># mset (kdata b)"
    using kb_get_closest_ok sized by blast
  have szs: "\<forall>b. Some b \<in> set ?post \<longrightarrow> ksize b = length (kdata b)" "\<forall>b. Some b \<in> set ?pre \<longrightarrow> ksize b = length (kdata b)"
    using sized by (meson in_set_dropD in_set_takeD)+
  show ?thesis
  proof (cases "nb - length r > 0")
    case False
    then show ?thesis using res r kel
      by (auto simp: kn_get_closest_def intro: subset_mset.order_trans [OF r(3)])
  next
    case more: True
    obtain r1 where r1: "closest_others ?post (nb - length r) r = Ok (r @ r1, nb - length r - length r1)"
      "length r1 = min (nb - length r) (length ?B)" "mset r1 \<subseteq># mset ?B"
      using closest_others_ok [OF szs(1) more] by blast
    show ?thesis
    proof (cases "nb - length r - length r1 > 0 \<and> i > 0")
      case True
      obtain r2 where r2: "closest_others ?pre (nb - length r - length r1) (r @ r1) = Ok ((r @ r1) @ r2, nb - length r - length r1 - length r2)"
        "length r2 = min (nb - length r - length r1) (length ?A)" "mset r2 \<subseteq># mset ?A"
        using closest_others_ok [OF szs(2)] True by blast
      have "kn_get_closest ops key nb t = Ok (r @ r1 @ r2)"
        using res r(1) r1(1) r2(1) more True by (simp add: kn_get_closest_def)
      moreover have "mset (r @ r1 @ r2) \<subseteq># mset (kdata b) + (mset ?B + mset ?A)"
        using r(3) r1(3) r2(3) unfolding mset_append by (intro subset_mset.add_mono)
      ultimately show ?thesis using r(2) r1(2) r2(2) True kel by (auto simp: ac_simps)
    next
      case False
      have "kn_get_closest ops key nb t = Ok (r @ r1)"
        using res r(1) r1(1) more False by (auto simp: kn_get_closest_def)
      moreover have "mset (r @ r1) \<subseteq># mset ?A + (mset (kdata b) + mset ?B)"
        using subset_mset.add_mono [OF r(3) r1(3)] by (simp add: subset_mset.add_increasing)
      moreover have "length (r @ r1) = min nb (length (kelems t))" using False more r(2) r1(2) kel by auto
      ultimately show ?thesis using kel by auto
    qed
  qed
qed

lemma kn_get_closest_ok:
  assumes ops: "kops_ok ops H" and ok: "ktable_rep ops H t T" and key: "length key = H"
  shows "\<exists>res. kn_get_closest ops key nb t = Ok res \<and> length res = min nb (length (kelems t)) \<and> mset res \<subseteq># mset (kelems t)"
proof -
  let ?d = "bits_xor (kus t) key"
  obtain n i es where leaf: "tleaf T ?d = (n, i, es)" by (cases "tleaf T ?d")
  have "rep t T" "theight T \<le> length ?d" using ok key by (simp_all add: ktable_rep_def)
  then have "i < length (kbuckets t) \<and> kbuckets t ! i = Some (kbucket_of es)" using tleaf_rep leaf by blast
  moreover have "\<forall>b. Some b \<in> set (kbuckets t) \<longrightarrow> ksize b = length (kdata b)" using table_buckets [OF ok] by blast
  ultimately show ?thesis using kn_get_closest_sized [OF resolve_bucket_rep [OF ops ok key leaf]] by blast
qed


section \<open>Removing an element\<close>

lemma kb_remove_of:
  assumes ops: "kops_ok ops H" and d: "distinct (map (bits_ref ops) es)"
  shows "kb_remove ops e (kbucket_of es) =
    Ok (kbucket_of (filter (\<lambda>x. bits_ref ops x \<noteq> bits_ref ops e) es), bits_ref ops e \<in> bits_ref ops ` set es)"
proof -
  have eq: "kelem_eq ops e = (\<lambda>x. bits_ref ops e = bits_ref ops x)" using kops_okD(4) [OF ops] by blast
  show ?thesis
  proof (cases "position (\<lambda>x. bits_ref ops e = bits_ref ops x) es")
    case None
    then have "filter (\<lambda>x. bits_ref ops x \<noteq> bits_ref ops e) es = es" "bits_ref ops e \<notin> bits_ref ops ` set es"
      by (auto simp: position_None filter_id_conv)
    then show ?thesis using None by (simp add: kb_remove_def eq)
  next
    case (Some i)
    have rm: "vec_remove i es = filter (\<lambda>x. bits_ref ops x \<noteq> bits_ref ops e) es"
      by (rule vec_remove_filter [OF d Some])
    have i: "i < length es" "bits_ref ops e = bits_ref ops (es ! i)" using position_Some [OF Some] by auto
    then have "bits_ref ops e \<in> bits_ref ops ` set es" "es \<noteq> []" by auto
    moreover have "length (vec_remove i es) = length es - 1" using i by simp
    ultimately show ?thesis using Some rm by (simp add: kb_remove_def eq kbucket_of_def)
  qed
qed

lemma kn_remove_ok:
  assumes ops: "kops_ok ops H" and ok: "ktable_rep ops H t T" and res: "resolve_bucket ops t (bits_ref ops e) = Ok (n, i, b)"
    and stays: "i = 0 \<or> (\<exists>x\<in>set (kdata b). bits_ref ops x \<noteq> bits_ref ops e)"
  shows "\<exists>t' T'. kn_remove ops e t = Ok (t', bits_ref ops e \<in> bits_ref ops ` set (telems T)) \<and> ktable_rep ops H t' T' \<and>
    mset (telems T') = filter_mset (\<lambda>x. bits_ref ops x \<noteq> bits_ref ops e) (mset (telems T))"
proof -
  let ?f = "kdist ops (kus t)"
  obtain n' i' es where leaf: "tleaf T (?f e) = (n', i', es)" by (cases "tleaf T (?f e)")
  note al = add_leaf [OF ops ok leaf]
  have eq: "n' = n" "i' = i" "b = kbucket_of es" using res al(1) by auto
  have u: "length (kus t) = H" and sz: "ktable_sized t" using ok by (simp_all add: ktable_rep_def)
  have hk: "theight T \<le> length (?f e)" using ok kops_okD(5) [OF ops u] by (simp add: ktable_rep_def)
  let ?es = "filter (\<lambda>x. bits_ref ops x \<noteq> bits_ref ops e) es"
  let ?t = "t\<lparr>kbuckets := (kbuckets t)[i := Some (kbucket_of ?es)]\<rparr>"
  have good: "tgood ?f (kbucket_size t) ([] @ take n (?f e)) (KLeaf i es) \<and> set es \<subseteq> set (telems T)"
    using tgood_leaf_path [of ?f "kbucket_size t" "[]" T, OF _ hk leaf] ok eq unfolding ktable_rep_def by blast
  have le: "length ?es \<le> kbucket_size t" by (rule order_trans [OF length_filter_le al(5)])
  have good': "tgood ?f (kbucket_size t) (take n (?f e)) (KLeaf i ?es)"
    using good le by (auto simp: distinct_map inj_on_def)
  have "x \<in> set es" if "x \<in> set (telems T)" "bits_ref ops x = bits_ref ops e" for x
    using tgood_leaf [OF _ hk leaf that(1), of ?f "kbucket_size t" "[]"] ok that(2) kops_okD(6) [OF ops u]
    by (simp add: ktable_rep_def)
  then have mem: "bits_ref ops e \<in> bits_ref ops ` set es \<longleftrightarrow> bits_ref ops e \<in> bits_ref ops ` set (telems T)"
    using good by (auto simp: image_iff)
  have "?es \<noteq> [] \<or> i = 0" using stays eq by (auto simp: filter_empty_conv)
  then have rm: "kn_remove ops e t = Ok (?t, bits_ref ops e \<in> bits_ref ops ` set (telems T))"
    by (auto simp: kn_remove_def res eq(3) kb_remove_of [OF ops al(4)] mem)
  have "ktable_rep ops H ?t (tput T (?f e) (KLeaf i ?es)) \<and> mset (telems (tput T (?f e) (KLeaf i ?es))) =
      filter_mset (\<lambda>x. bits_ref ops x \<noteq> bits_ref ops e) (mset (telems T)) + {#}"
    by (rule replace_leaf [OF ops ok leaf])
       (use al(2) sz good' eq in \<open>auto simp: ktable_sized_def simp del: tgood.simps\<close>)
  then show ?thesis using rm by auto
qed

section \<open>Properties\<close>

text \<open>Peers with keys of a byte, the most significant bit first.\<close>

definition byte_ops :: "nat kops" where
  "byte_ops =
     \<lparr>ex_union = \<lambda>a b. if length a = length b then Ok (bits_xor a b) else Panic,
      bv_gt = \<lambda>a b. bv_less b a,
      bits_ref = \<lambda>n. map (\<lambda>k. odd (n div 2 ^ k)) [7, 6, 5, 4, 3, 2, 1, 0],
      kelem_eq = \<lambda>x y. map (\<lambda>k. odd (x div 2 ^ k)) [7, 6, 5, 4, 3, 2, 1, 0] = map (\<lambda>k. odd (y div 2 ^ k)) [7, 6, 5, 4, 3, 2, 1, 0]\<rparr>"

lemma byte_ops_ok: "kops_ok byte_ops 8"
  by (simp add: kops_ok_def byte_ops_def)



text \<open>
  After any sequence of additions, \<open>get_closest\<close> answers for every key with as many elements as
  were asked for, or with all of them when the table holds fewer, and it returns no element twice.
\<close>

theorem kademlia_closest_complete:
  assumes "kops_ok ops H" and "length u = H" and "1 < bs" and "length key = H"
  shows "\<exists>t0 t res. kn_new u bs hs = Ok t0 \<and> kn_adds ops es t0 = Ok t \<and>
    kn_get_closest ops key nb t = Ok res \<and> length res = min nb (length (kelems t)) \<and> mset res \<subseteq># mset (kelems t)"
proof -
  obtain t0 where t0: "kn_new u bs hs = Ok t0" "ktable_rep ops H t0 (KLeaf 0 [])"
    using kn_new_rep [OF assms(1-3)] by blast
  obtain t T where t: "kn_adds ops es t0 = Ok t" "ktable_rep ops H t T"
    using kn_adds_ok [OF assms(1) t0(2), of es] by auto
  show ?thesis using kn_get_closest_ok [OF assms(1) t(2) assms(4), of nb] t0(1) t(1) by blast
qed

theorem kademlia_closest_complete_witness:
  "\<exists>t0 t res. kn_new (bits_ref byte_ops 85) 2 8 = Ok t0 \<and> kn_adds byte_ops [80, 36, 24] t0 = Ok t \<and>
    kn_get_closest byte_ops (bits_ref byte_ops 32) 5 t = Ok res \<and> length res = min 5 (length (kelems t)) \<and> mset res \<subseteq># mset (kelems t)"
proof -
  have "length (bits_ref byte_ops 85) = 8" "length (bits_ref byte_ops 32) = 8" by (simp_all add: byte_ops_def)
  then show ?thesis
    using kademlia_closest_complete [OF byte_ops_ok, of "bits_ref byte_ops 85" 2 "bits_ref byte_ops 32" 8 "[80, 36, 24]" 5] by simp
qed

text \<open>
  Removing an element whose bucket is the root or keeps another element is right: it reports
  whether the key was in the table and takes away the element with this key and nothing else.
\<close>

theorem kademlia_remove_in_bucket:
  assumes "kops_ok ops H" and "length u = H" and "1 < bs"
    and "kn_new u bs hs = Ok t0" and "kn_adds ops es t0 = Ok t"
    and "resolve_bucket ops t (bits_ref ops e) = Ok (n, i, b)"
    and "i = 0 \<or> (\<exists>x\<in>set (kdata b). bits_ref ops x \<noteq> bits_ref ops e)"
  shows "\<exists>t'. kn_remove ops e t = Ok (t', bits_ref ops e \<in> bits_ref ops ` set (kelems t)) \<and>
    mset (kelems t') = filter_mset (\<lambda>x. bits_ref ops x \<noteq> bits_ref ops e) (mset (kelems t))"
proof -
  have "ktable_rep ops H t0 (KLeaf 0 [])" using kn_new_rep [OF assms(1-3), of hs] assms(4) by auto
  then obtain T where T: "ktable_rep ops H t T" using kn_adds_ok [OF assms(1), of t0 _ es] assms(5) by fastforce
  have el: "mset (kelems t) = mset (telems T)" using kelems_rep [OF T] .
  then have "set (kelems t) = set (telems T)" by (rule mset_eq_setD)
  moreover obtain t' T' where "kn_remove ops e t = Ok (t', bits_ref ops e \<in> bits_ref ops ` set (telems T))" "ktable_rep ops H t' T'"
    "mset (telems T') = filter_mset (\<lambda>x. bits_ref ops x \<noteq> bits_ref ops e) (mset (telems T))"
    using kn_remove_ok [OF assms(1) T assms(6,7)] by blast
  ultimately show ?thesis using kelems_rep [of ops H t' T'] el by auto
qed

theorem kademlia_remove_in_bucket_witness:
  "\<exists>t0 t n i b t'. kn_new (bits_ref byte_ops 85) 2 8 = Ok t0 \<and> kn_adds byte_ops [80, 36, 24] t0 = Ok t \<and>
    resolve_bucket byte_ops t (bits_ref byte_ops 36) = Ok (n, i, b) \<and> 24 \<in> set (kdata b) \<and>
    kn_remove byte_ops 36 t = Ok (t', bits_ref byte_ops 36 \<in> bits_ref byte_ops ` set (kelems t)) \<and>
    mset (kelems t') = filter_mset (\<lambda>x. bits_ref byte_ops x \<noteq> bits_ref byte_ops 36) (mset (kelems t))"
proof -
  obtain t0 t where t: "kn_new (bits_ref byte_ops 85) 2 8 = Ok t0" "kn_adds byte_ops [80, 36, 24] t0 = Ok t"
    using kn_new_rep [OF byte_ops_ok, of "bits_ref byte_ops 85" 2 8] kn_adds_ok [OF byte_ops_ok]
    by (fastforce simp: byte_ops_def)
  have "and_then (and_then (kn_new (bits_ref byte_ops 85) 2 8) (kn_adds byte_ops [80, 36, 24]))
      (\<lambda>t. resolve_bucket byte_ops t (bits_ref byte_ops 36)) = Ok (2, 4, \<lparr>kdata = [36, 24], ksize = 2\<rparr>)"
    by code_simp
  then have res: "resolve_bucket byte_ops t (bits_ref byte_ops 36) = Ok (2, 4, \<lparr>kdata = [36, 24], ksize = 2\<rparr>)"
    using t by simp
  moreover have "bits_ref byte_ops 24 \<noteq> bits_ref byte_ops 36" by (simp add: byte_ops_def)
  moreover have "length (bits_ref byte_ops 85) = 8" by (simp add: byte_ops_def)
  ultimately show ?thesis
    using kademlia_remove_in_bucket [OF byte_ops_ok _ _ t res] t by auto
qed


end
