(* ===== verification/Btkad.thy ===== *)
theory Btkad
  imports Knodetree Peer Kvcache
begin

text \<open>
  The route over the Kademlia table (\<open>mydht-btkad/src/btkad.rs\<close>): a cache of all known peers with
  their state, and a table of those that are not offline or blocked.  The cache is the \<open>HashMap\<close>
  that \<open>new\<close> uses.  The bytes of keys and peers, their comparison and the bit vectors made of
  bytes are arguments.

  A \<open>SimpleDHTElemBytes\<close> is a peer with the bits of its bytes, which its only constructor computes:
  the model keeps the peer and computes the bits.
\<close>

section \<open>Model\<close>

record ('k, 'p, 'v) kad_env =
  kbytes_ref :: "'k \<Rightarrow> bytes"
  vbytes_ref :: "'v \<Rightarrow> bytes"
  pbytes_ref :: "'p \<Rightarrow> bytes"
  pelem_eq :: "'p \<Rightarrow> 'p \<Rightarrow> bool"
  pkey :: "'p \<Rightarrow> 'k"
  bv_from_bytes :: "bytes \<Rightarrow> bool list"
  bv_ex_union :: "bool list \<Rightarrow> bool list \<Rightarrow> bool list outcome"
  bv_greater :: "bool list \<Rightarrow> bool list \<Rightarrow> bool"

definition simple_elem_ops :: "('k, 'p, 'v) kad_env \<Rightarrow> 'p kops" where
  "simple_elem_ops env =
     \<lparr>ex_union = bv_ex_union env, bv_gt = bv_greater env,
      bits_ref = \<lambda>p. bv_from_bytes env (pbytes_ref env p), kelem_eq = pelem_eq env\<rparr>"

record ('k, 'p, 'o, 'i) btkad =
  kad :: "'p knode_table"
  kpeers :: "('k, ('p, 'o, 'i) peer_info) hashmap"

definition bt_new_with_cache ::
    "('k, 'p, 'v) kad_env \<Rightarrow> 'k \<Rightarrow> ('k, ('p, 'o, 'i) peer_info) hashmap \<Rightarrow> nat \<Rightarrow> nat \<Rightarrow> ('k, 'p, 'o, 'i) btkad outcome" where
  "bt_new_with_cache env k c bucket_size1 hash_size1 =
     and_then (kn_new (bv_from_bytes env (kbytes_ref env k)) bucket_size1 hash_size1) (\<lambda>ktable.
     Ok \<lparr>kad = ktable, kpeers = c\<rparr>)"

definition bt_new :: "('k, 'p, 'v) kad_env \<Rightarrow> 'k \<Rightarrow> nat \<Rightarrow> nat \<Rightarrow> ('k, 'p, 'o, 'i) btkad outcome" where
  "bt_new env k bucket_size1 hash_size1 = bt_new_with_cache env k hashmap_new bucket_size1 hash_size1"

definition bt_query_count_inc :: "'k \<Rightarrow> ('k, 'p, 'o, 'i) btkad \<Rightarrow> ('k, 'p, 'o, 'i) btkad" where
  "bt_query_count_inc k s = s"

definition bt_query_count_dec :: "'k \<Rightarrow> ('k, 'p, 'o, 'i) btkad \<Rightarrow> ('k, 'p, 'o, 'i) btkad" where
  "bt_query_count_dec k s = s"

definition bt_add_node :: "('k, 'p, 'v) kad_env \<Rightarrow> ('p, 'o, 'i) peer_info \<Rightarrow> ('k, 'p, 'o, 'i) btkad \<Rightarrow> ('k, 'p, 'o, 'i) btkad" where
  "bt_add_node env pi s = s\<lparr>kpeers := hashmap_add_val_c (pkey env (fst pi)) pi (kpeers s)\<rparr>"

definition bt_update_infos ::
    "'k \<Rightarrow> ('i \<Rightarrow> 'i \<times> unit outcome) \<Rightarrow> ('k, 'p, 'o, 'i) btkad \<Rightarrow> ('k, 'p, 'o, 'i) btkad \<times> bool outcome" where
  "bt_update_infos nodeid f s =
     (let (ps, r) = hashmap_update_val_c nodeid
            (\<lambda>(p, st, sici). let (sici', r) = f sici in ((p, st, sici'), r)) (kpeers s)
      in (s\<lparr>kpeers := ps\<rparr>, r))"

definition putinkad :: "'o peer_state option \<Rightarrow> 'o peer_state_change option \<Rightarrow> bool" where
  "putinkad opri och =
     (case opri of
        Some pri \<Rightarrow> (case pri of Offline _ \<Rightarrow> False | Blocked _ \<Rightarrow> False | _ \<Rightarrow> True)
      | None \<Rightarrow> (case och of Some ch \<Rightarrow> ch \<noteq> ChOffline \<and> ch \<noteq> ChBlocked | None \<Rightarrow> False))"

text \<open>The second result are the signals of the states that are dropped.\<close>

definition bt_update_priority ::
    "('k, 'p, 'v) kad_env \<Rightarrow> 'k \<Rightarrow> 'o peer_state option \<Rightarrow> 'o peer_state_change option
      \<Rightarrow> ('k, 'p, 'o, 'i) btkad \<Rightarrow> (('k, 'p, 'o, 'i) btkad \<times> ('o \<times> bool) list) outcome" where
  "bt_update_priority env nodeid opri och s =
     (case hashmap_get_val_c (kpeers s) nodeid of
        None \<Rightarrow> Ok (s, case opri of Some st \<Rightarrow> drop_state st | None \<Rightarrow> [])
      | Some v \<Rightarrow>
          and_then (pi_upprio_base v opri och) (\<lambda>(v', sigs).
          let s1 = s\<lparr>kpeers := fst (hashmap_update_val_c nodeid (\<lambda>_. (v', Ok ())) (kpeers s))\<rparr> in
          case hashmap_get_val_c (kpeers s1) nodeid of
            None \<Rightarrow> Ok (s1, sigs)
          | Some elem \<Rightarrow>
              if putinkad opri och
              then and_then (kn_add (simple_elem_ops env) (fst elem) (kad s1)) (\<lambda>kad'. Ok (s1\<lparr>kad := kad'\<rparr>, sigs))
              else and_then (kn_remove (simple_elem_ops env) (fst elem) (kad s1)) (\<lambda>(kad', _).
                   Ok (s1\<lparr>kad := kad'\<rparr>, sigs))))"

definition bt_get_node :: "('k, 'p, 'o, 'i) btkad \<Rightarrow> 'k \<Rightarrow> ('p, 'o, 'i) peer_info option" where
  "bt_get_node s nid = hashmap_get_val_c (kpeers s) nid"

definition bt_has_node :: "('k, 'p, 'o, 'i) btkad \<Rightarrow> 'k \<Rightarrow> bool" where
  "bt_has_node s nid = hashmap_has_val_c (kpeers s) nid"

definition bt_get_closest_for_node ::
    "('k, 'p, 'v) kad_env \<Rightarrow> ('k, 'p, 'o, 'i) btkad \<Rightarrow> 'k \<Rightarrow> u8 \<Rightarrow> 'k list \<Rightarrow> 'p list outcome" where
  "bt_get_closest_for_node env s nnid nbnode filter1 =
     and_then (kn_get_closest (simple_elem_ops env) (bv_from_bytes env (kbytes_ref env nnid)) (unat nbnode) (kad s)) (\<lambda>ns.
     Ok (filter (\<lambda>n. find (\<lambda>r. r = pkey env n) filter1 = None) ns))"

definition bt_get_closest_for_query ::
    "('k, 'p, 'v) kad_env \<Rightarrow> ('k, 'p, 'o, 'i) btkad \<Rightarrow> 'v \<Rightarrow> u8 \<Rightarrow> 'k list \<Rightarrow> 'p list outcome" where
  "bt_get_closest_for_query env s nnid nbnode filter1 =
     and_then (kn_get_closest (simple_elem_ops env) (bv_from_bytes env (vbytes_ref env nnid)) (unat nbnode) (kad s)) (\<lambda>ns.
     Ok (filter (\<lambda>n. find (\<lambda>r. r = pkey env n) filter1 = None) ns))"

text \<open>The closure pushes a peer and counts it; it ends the iteration with an error at the count asked for.\<close>

definition bt_get_pool_nodes :: "('k, 'p, 'o, 'i) btkad \<Rightarrow> nat \<Rightarrow> 'p list" where
  "bt_get_pool_nodes s nbnode =
     fst (fst (hashmap_map_inplace_c
       (\<lambda>(r, i) kv.
          ((r @ [fst (snd kv)], i + 1), if i + 1 = nbnode then Err ExpectedError else Ok ()))
       ([], 0) (kpeers s)))"

definition bt_commit_store :: "('k, 'p, 'o, 'i) btkad \<Rightarrow> ('k, 'p, 'o, 'i) btkad \<times> bool" where
  "bt_commit_store s = (s, True)"

definition bt_next_random_peers ::
    "('k, 'p, 'v) kad_env \<Rightarrow> (nat \<Rightarrow> nat \<Rightarrow> bytes) \<Rightarrow> ('k, 'p, 'o, 'i) btkad \<Rightarrow> nat \<Rightarrow> 'p list outcome option" where
  "bt_next_random_peers env fill s nb =
     map_option (\<lambda>r. and_then r (\<lambda>ps. Ok (map fst ps)))
       (next_random_values (bv_from_bytes env) fill (kpeers s) nb (Some is_peerinfo_online))"

section \<open>Lemmas\<close>

datatype ('k, 'p, 'o, 'i) bt_event = AddNode "('p, 'o, 'i) peer_info" | Up 'k "'o peer_state option" "'o peer_state_change option"

fun bt_run :: "('k, 'p, 'v) kad_env \<Rightarrow> ('k, 'p, 'o, 'i) bt_event list \<Rightarrow> ('k, 'p, 'o, 'i) btkad \<Rightarrow> ('k, 'p, 'o, 'i) btkad outcome" where
  "bt_run env [] s = Ok s"
| "bt_run env (AddNode pi # evs) s = bt_run env evs (bt_add_node env pi s)"
| "bt_run env (Up k opri och # evs) s = and_then (bt_update_priority env k opri och s) (\<lambda>(s', sigs). bt_run env evs s')"

text \<open>Events that take no peer out of the table.\<close>

definition keeps_peers :: "('k, 'p, 'o, 'i) bt_event \<Rightarrow> bool" where
  "keeps_peers ev = (case ev of AddNode _ \<Rightarrow> True | Up _ opri och \<Rightarrow> putinkad opri och)"

definition bt_inv :: "('k, 'p, 'v) kad_env \<Rightarrow> nat \<Rightarrow> ('k, 'p, 'o, 'i) btkad \<Rightarrow> bool" where
  "bt_inv env H s \<longleftrightarrow>
     ktable_ok (simple_elem_ops env) H (kad s) \<and>
     (\<forall>k v. map_of (kpeers s) k = Some v \<longrightarrow> pkey env (fst v) = k) \<and>
     (\<forall>p\<in>set (kelems (kad s)). map_of (kpeers s) (pkey env p) \<noteq> None)"

lemma map_of_update_some: "map_of (AList.update k v m) k' = (if k' = k then Some v else map_of m k')"
  by (simp add: update_conv')

lemma pi_upprio_Ok: "\<exists>v' sigs. pi_upprio_base v opri och = Ok (v', sigs) \<and> fst v' = fst v"
  by (cases v) (auto simp: pi_upprio_base_def split: option.splits)

lemma kn_add_elems:
  assumes "kops_ok ops H" and "ktable_ok ops H t"
  shows "\<exists>t'. kn_add ops e t = Ok t' \<and> ktable_ok ops H t' \<and> set (kelems t') \<subseteq> insert e (set (kelems t)) \<and> e \<in> set (kelems t')"
proof -
  obtain T where T: "ktable_rep ops H t T" using assms(2) by (auto simp: ktable_ok_def)
  obtain t' T' where t': "kn_add ops e t = Ok t'" "ktable_rep ops H t' T'"
    "mset (telems T') = add_mset e (filter_mset (\<lambda>x. bits_ref ops x \<noteq> bits_ref ops e) (mset (telems T)))"
    using kn_add_ok [OF assms(1) T, of e] by blast
  have eq: "mset (kelems t') = add_mset e (filter_mset (\<lambda>x. bits_ref ops x \<noteq> bits_ref ops e) (mset (kelems t)))"
    using t'(3) kelems_rep [OF T] kelems_rep [OF t'(2)] by simp
  have "set (kelems t') \<subseteq> insert e (set (kelems t)) \<and> e \<in> set (kelems t')"
    using arg_cong [OF eq, of set_mset] by auto
  then show ?thesis using t'(1,2) by (auto simp: ktable_ok_def)
qed

lemma bt_inv_new:
  assumes "kops_ok (simple_elem_ops env) H" and "length (bv_from_bytes env (kbytes_ref env k)) = H" and "1 < bs"
  shows "\<exists>s0. bt_new env k bs hs = Ok s0 \<and> bt_inv env H s0"
proof -
  obtain t0 where t0: "kn_new (bv_from_bytes env (kbytes_ref env k)) bs hs = Ok t0" "ktable_rep (simple_elem_ops env) H t0 (KLeaf 0 [])"
    using kn_new_rep [OF assms] by blast
  have "kelems t0 = []" using kelems_rep [OF t0(2)] by simp
  then have "bt_inv env H \<lparr>kad = t0, kpeers = hashmap_new\<rparr>"
    using t0(2) by (auto simp: bt_inv_def ktable_ok_def hashmap_new_def)
  then show ?thesis using t0(1) by (auto simp: bt_new_def bt_new_with_cache_def)
qed

lemma bt_inv_add: "bt_inv env H s \<Longrightarrow> bt_inv env H (bt_add_node env pi s)"
  by (auto simp: bt_inv_def bt_add_node_def hashmap_add_val_c_def map_of_update_some split: if_splits) (metis prod_cases3)

lemma bt_inv_update:
  assumes ops: "kops_ok (simple_elem_ops env) H" and inv: "bt_inv env H s" and put: "putinkad opri och"
  shows "\<exists>s' sigs. bt_update_priority env k opri och s = Ok (s', sigs) \<and> bt_inv env H s'"
proof (cases "map_of (kpeers s) k")
  case None
  then show ?thesis using inv by (auto simp: bt_update_priority_def hashmap_get_val_c_def)
next
  case (Some v)
  obtain v' sigs where up: "pi_upprio_base v opri och = Ok (v', sigs)" "fst v' = fst v" using pi_upprio_Ok by blast
  have key: "pkey env (fst v') = k" using inv Some up(2) unfolding bt_inv_def by metis
  let ?ps = "AList.update k v' (kpeers s)"
  obtain t' where t': "kn_add (simple_elem_ops env) (fst v') (kad s) = Ok t'" "ktable_ok (simple_elem_ops env) H t'"
    "set (kelems t') \<subseteq> insert (fst v') (set (kelems (kad s)))"
    using kn_add_elems [OF ops, of "kad s" "fst v'"] inv by (auto simp: bt_inv_def)
  have "bt_update_priority env k opri och s = Ok (s\<lparr>kpeers := ?ps, kad := t'\<rparr>, sigs)"
    using Some up(1) t'(1) put
    by (simp add: bt_update_priority_def hashmap_get_val_c_def hashmap_update_val_c_def map_of_update_some)
  moreover have "bt_inv env H (s\<lparr>kpeers := ?ps, kad := t'\<rparr>)"
    using inv t'(2,3) key by (auto simp: bt_inv_def map_of_update_some subset_iff) (metis prod_cases3)
  ultimately show ?thesis by auto
qed

lemma bt_inv_run:
  "\<lbrakk>kops_ok (simple_elem_ops env) H; bt_inv env H s; \<forall>ev\<in>set evs. keeps_peers ev\<rbrakk> \<Longrightarrow>
   \<exists>s'. bt_run env evs s = Ok s' \<and> bt_inv env H s'"
proof (induction env evs s rule: bt_run.induct)
  case (2 env pi evs s)
  then show ?case using bt_inv_add [of env H s pi] by simp
next
  case (3 env k opri och evs s)
  have "putinkad opri och" using 3 by (simp add: keeps_peers_def)
  then obtain s' sigs where "bt_update_priority env k opri och s = Ok (s', sigs)" "bt_inv env H s'"
    using bt_inv_update [OF 3(2,3)] by blast
  then show ?case using 3 by simp
qed auto

section \<open>Properties\<close>

text \<open>
  As long as no peer goes offline or is blocked, the route over the Kademlia table never
  panics, and it answers a query for a key with as many peers of the table as were asked for, or
  all of them, less those the caller excludes; every peer it returns is known to the route.
\<close>

theorem kademlia_route_answers:
  fixes env :: "('k, 'p, 'v) kad_env" and evs :: "('k, 'p, 'o, 'i) bt_event list"
  assumes "kops_ok (simple_elem_ops env) H" and "\<forall>k. length (bv_from_bytes env (kbytes_ref env k)) = H" and "1 < bs"
    and "\<forall>ev\<in>set evs. keeps_peers ev"
  shows "\<exists>s0 s ps. bt_new env k bs hs = Ok s0 \<and> bt_run env evs s0 = Ok s \<and>
    length ps = min (unat nb) (length (kelems (kad s))) \<and> mset ps \<subseteq># mset (kelems (kad s)) \<and>
    bt_get_closest_for_node env s nid nb flt = Ok (filter (\<lambda>p. pkey env p \<notin> set flt) ps) \<and>
    (\<forall>p\<in>set ps. bt_has_node s (pkey env p))"
proof -
  obtain s0 :: "('k, 'p, 'o, 'i) btkad" where s0: "bt_new env k bs hs = Ok s0" "bt_inv env H s0"
    using bt_inv_new [OF assms(1) _ assms(3)] assms(2) by blast
  obtain s where s: "bt_run env evs s0 = Ok s" "bt_inv env H s" using bt_inv_run [OF assms(1) s0(2) assms(4)] by blast
  obtain T where T: "ktable_rep (simple_elem_ops env) H (kad s) T" using s(2) by (auto simp: bt_inv_def ktable_ok_def)
  obtain ps where ps: "kn_get_closest (simple_elem_ops env) (bv_from_bytes env (kbytes_ref env nid)) (unat nb) (kad s) = Ok ps"
    "length ps = min (unat nb) (length (kelems (kad s)))" "mset ps \<subseteq># mset (kelems (kad s))"
    using kn_get_closest_ok [OF assms(1) T, of "bv_from_bytes env (kbytes_ref env nid)" "unat nb"] assms(2) by blast
  have "set ps \<subseteq> set (kelems (kad s))" using set_mset_mono [OF ps(3)] by simp
  then have "\<forall>p\<in>set ps. bt_has_node s (pkey env p)"
    using s(2) by (auto simp: bt_inv_def bt_has_node_def hashmap_has_val_c_def map_of_eq_None_iff subset_iff)
  moreover have "bt_get_closest_for_node env s nid nb flt = Ok (filter (\<lambda>p. pkey env p \<notin> set flt) ps)"
    using ps(1) by (auto simp: bt_get_closest_for_node_def find_None_iff)
  ultimately show ?thesis using s0(1) s(1) ps(2,3) by blast
qed

text \<open>Peers that are a byte, with themselves as key.\<close>

definition byte_env :: "(u8, u8, u8) kad_env" where
  "byte_env =
     \<lparr>kbytes_ref = \<lambda>k. [k], vbytes_ref = \<lambda>v. [v], pbytes_ref = \<lambda>p. [p], pelem_eq = (=), pkey = \<lambda>p. p,
      bv_from_bytes = concat \<circ> map (\<lambda>b. map (bit b) (rev [0..<8])),
      bv_ex_union = \<lambda>a b. if length a = length b then Ok (bits_xor a b) else Panic,
      bv_greater = \<lambda>a b. bv_less b a\<rparr>"

lemma byte_env_ok: "kops_ok (simple_elem_ops byte_env) 8"
proof -
  have "x = y \<longleftrightarrow> map (bit x) (rev [0..<8]) = map (bit y) (rev [0..<8])" for x y :: u8
    by (auto intro!: bit_word_eqI simp del: upt_rec_numeral)
  then show ?thesis by (simp add: kops_ok_def simple_elem_ops_def byte_env_def del: upt_rec_numeral)
qed

theorem kademlia_route_answers_witness:
  "\<exists>s0 s ps. bt_new byte_env 85 2 8 = Ok s0 \<and>
    bt_run byte_env [AddNode (3, Offline Normal, ()), Up 3 (None :: unit peer_state option) (Some ChOnline)] s0 = Ok s \<and>
    length ps = min (unat (2::u8)) (length (kelems (kad s))) \<and> mset ps \<subseteq># mset (kelems (kad s)) \<and>
    bt_get_closest_for_node byte_env s 7 2 [9] = Ok (filter (\<lambda>p. pkey byte_env p \<notin> set [9]) ps) \<and>
    (\<forall>p\<in>set ps. bt_has_node s (pkey byte_env p))"
proof -
  have "\<forall>k. length (bv_from_bytes byte_env (kbytes_ref byte_env k)) = 8" by (simp add: byte_env_def)
  note len = this
  have keep: "\<forall>ev\<in>set [AddNode (3, Offline Normal, ()), Up 3 (None :: unit peer_state option) (Some ChOnline)]. keeps_peers ev"
    by (simp add: keeps_peers_def putinkad_def)
  show ?thesis
    by (rule kademlia_route_answers [OF byte_env_ok len _ keep]) simp
qed

end
