(* ===== verification/Wottrust.thy ===== *)
theory Wottrust
  imports Prelude
begin

text \<open>
  The trust calculus of the web of trust: \<open>ClassicWotTrust\<close> (\<open>mydht-wot/src/classictrust.rs\<close>) and
  \<open>ExpWotTrust\<close> (\<open>mydht-wot/src/exptrust.rs\<close>).  A level of trust is a byte, kept as a natural number
  below 256 whose increments are written out; 255 is no trust.  The counters are \<open>usize\<close> numbers of
  signatures, which do not reach the bound of the type.  The rules give the number of signatures
  needed for each level.

  Both count the signatures about a peer by the level of the signer and the level signed.  Their
  specification is over the multiset of these pairs.
\<close>

section \<open>Model\<close>

type_synonym trust_rules = "nat list"

record wot_trust =
  tpeerid :: bytes
  ttrust :: nat
  calcmap :: "nat list list"
  tlastdiscovery :: "int \<times> int"

definition inc_u8 :: "bool \<Rightarrow> nat \<Rightarrow> nat outcome" where
  "inc_u8 ck l = (if l < 255 then Ok (l + 1) else if ck then Panic else Ok 0)"

text \<open>The cell of a counter, and its decrement when it is positive.\<close>

definition calc_dec :: "nat \<Rightarrow> nat \<Rightarrow> nat list list \<Rightarrow> (nat list list \<times> bool) outcome" where
  "calc_dec ix1 ix2 cm =
     and_then (unwrap (vec_get cm ix1)) (\<lambda>row.
     and_then (unwrap (vec_get row ix2)) (\<lambda>c.
     if c > 0 then Ok (cm[ix1 := row[ix2 := c - 1]], True) else Ok (cm, False)))"

definition calc_inc :: "nat \<Rightarrow> nat \<Rightarrow> nat list list \<Rightarrow> nat list list outcome" where
  "calc_inc ix1 ix2 cm =
     and_then (unwrap (vec_get cm ix1)) (\<lambda>row.
     and_then (unwrap (vec_get row ix2)) (\<lambda>c. Ok (cm[ix1 := row[ix2 := c + 1]])))"

subsection \<open>\<open>ClassicWotTrust\<close>\<close>

definition ct_new :: "bytes \<Rightarrow> trust_rules \<Rightarrow> wot_trust" where
  "ct_new key rules =
     \<lparr>tpeerid = key, ttrust = 255, calcmap = map (\<lambda>ix. replicate (length rules - ix) 0) [0..<length rules],
      tlastdiscovery = (0, 0)\<rparr>"

text \<open>The inner loop over the levels signed, for the counters of the signers of level \<open>cur\<close>.\<close>

fun ct_inner ::
    "bool \<Rightarrow> trust_rules \<Rightarrow> nat list \<Rightarrow> nat \<Rightarrow> nat list \<Rightarrow> nat \<Rightarrow> nat \<Rightarrow> nat option \<Rightarrow> (nat list \<times> nat option) outcome" where
  "ct_inner ck rules row cur [] slevel cum new_trust = Ok ([], new_trust)"
| "ct_inner ck rules row cur (nb # nbs) slevel cum new_trust =
     (if slevel \<ge> cur
      then and_then (unwrap (vec_get row (slevel - cur))) (\<lambda>icount.
           let nb' = nb + icount; cum' = cum + nb' in
           and_then (unwrap (vec_get rules cur)) (\<lambda>treshold.
           let new' = (if cum' \<ge> treshold \<and> new_trust = None then Some slevel else new_trust) in
           and_then (inc_u8 ck slevel) (\<lambda>slevel'.
           and_then (ct_inner ck rules row cur nbs slevel' cum' new') (\<lambda>(nbs', r). Ok (nb' # nbs', r)))))
      else and_then (inc_u8 ck slevel) (\<lambda>slevel'.
           and_then (ct_inner ck rules row cur nbs slevel' (cum + nb) new_trust) (\<lambda>(nbs', r). Ok (nb # nbs', r))))"

fun ct_recalc :: "bool \<Rightarrow> trust_rules \<Rightarrow> nat list list \<Rightarrow> nat \<Rightarrow> nat list \<Rightarrow> nat option \<Rightarrow> nat option outcome" where
  "ct_recalc ck rules [] cur nbtrust new_trust = Ok new_trust"
| "ct_recalc ck rules (row # rows) cur nbtrust new_trust =
     and_then (if new_trust = None then ct_inner ck rules row cur nbtrust 0 0 None else Ok (nbtrust, new_trust)) (\<lambda>(nbtrust', r).
     and_then (inc_u8 ck cur) (\<lambda>cur'. ct_recalc ck rules rows cur' nbtrust' r))"

definition ct_update ::
    "bool \<Rightarrow> nat \<Rightarrow> nat \<Rightarrow> nat \<Rightarrow> nat \<Rightarrow> trust_rules \<Rightarrow> wot_trust \<Rightarrow> (wot_trust \<times> bool \<times> bool) outcome" where
  "ct_update ck from_old_trust from_old_sig from_new_trust from_new_sig rules t =
     (let cap_old = (if from_old_trust > from_old_sig then from_old_trust else from_old_sig);
          cap_new = (if from_new_trust > from_new_sig then from_new_trust else from_new_sig)
      in if cap_old = cap_new \<and> from_old_trust = from_new_trust then Ok (t, False, False)
      else if length rules > 255 then Panic
      else let nblevel = length rules in
      and_then (if from_old_trust < nblevel \<and> cap_old \<ge> from_old_trust \<and> cap_old < nblevel
                then calc_dec from_old_trust (cap_old - from_old_trust) (calcmap t)
                else Ok (calcmap t, False)) (\<lambda>(cm1, changed1).
      and_then (if from_new_trust < nblevel \<and> cap_new \<ge> from_new_trust \<and> cap_new < nblevel
                then and_then (calc_inc from_new_trust (cap_new - from_new_trust) cm1) (\<lambda>cm2. Ok (cm2, True))
                else Ok (cm1, changed1)) (\<lambda>(cm2, changedcache).
      and_then (if changedcache then ct_recalc ck rules cm2 0 (replicate (length rules) 0) None else Ok None) (\<lambda>new_trust.
      case new_trust of
        None \<Rightarrow> Ok (t\<lparr>calcmap := cm2\<rparr>, changedcache, False)
      | Some ntrust \<Rightarrow>
          if ntrust = ttrust t then Ok (t\<lparr>calcmap := cm2\<rparr>, changedcache, False)
          else Ok (t\<lparr>calcmap := cm2, ttrust := ntrust\<rparr>, changedcache, True)))))"

subsection \<open>\<open>ExpWotTrust\<close>\<close>

definition et_new :: "bytes \<Rightarrow> trust_rules \<Rightarrow> wot_trust" where
  "et_new key rules =
     \<lparr>tpeerid = key, ttrust = 255, calcmap = map (\<lambda>ix. replicate (ix + 1) 0) [0..<length rules],
      tlastdiscovery = (0, 0)\<rparr>"

text \<open>The inner loop over signers: counters, numbers kept from lower levels and thresholds side by side.\<close>

fun et_inner :: "nat list \<Rightarrow> nat list \<Rightarrow> trust_rules \<Rightarrow> nat \<Rightarrow> nat \<Rightarrow> nat \<Rightarrow> nat list \<times> nat" where
  "et_inner (icount # row) (nb # nbs) (treshold # rules) cur cum new_trust =
     (let nb' = nb + icount; cum' = cum + nb' in
      case et_inner row nbs rules cur cum' (if \<not> cum' < treshold then cur else new_trust) of
        (nbs', r) \<Rightarrow> (nb' # nbs', r))"
| "et_inner _ nbs _ cur cum new_trust = (nbs, new_trust)"

text \<open>The loop over the levels; the result are the counters, whether one changed and the new level.\<close>

fun et_loop ::
    "bool \<Rightarrow> trust_rules \<Rightarrow> nat \<times> nat \<Rightarrow> nat \<times> nat \<Rightarrow> nat list list \<Rightarrow> nat \<Rightarrow> nat list \<Rightarrow> nat
      \<Rightarrow> (nat list list \<times> bool \<times> nat) outcome" where
  "et_loop ck rules old new [] cur nbtrust new_trust = Ok ([], False, new_trust)"
| "et_loop ck rules (ot, cap_old) (nt, cap_new) (row # rows) cur nbtrust new_trust =
     and_then (if cur = cap_old
               then and_then (unwrap (vec_get row ot)) (\<lambda>c. if c > 0 then Ok (row[ot := c - 1], True) else Ok (row, False))
               else Ok (row, False)) (\<lambda>(row1, ch1).
     and_then (if cur = cap_new
               then and_then (unwrap (vec_get row1 nt)) (\<lambda>c. Ok (row1[nt := c + 1], True))
               else Ok (row1, ch1)) (\<lambda>(row2, ch2).
     let (nbtrust', r) = (if new_trust = 255 then et_inner row2 nbtrust rules cur 0 255 else (nbtrust, new_trust)) in
     and_then (inc_u8 ck cur) (\<lambda>cur'.
     and_then (et_loop ck rules (ot, cap_old) (nt, cap_new) rows cur' nbtrust' r) (\<lambda>(rows', ch, r').
     Ok (row2 # rows', ch2 \<or> ch, r')))))"

definition et_update ::
    "bool \<Rightarrow> nat \<Rightarrow> nat \<Rightarrow> nat \<Rightarrow> nat \<Rightarrow> trust_rules \<Rightarrow> wot_trust \<Rightarrow> (wot_trust \<times> bool \<times> bool) outcome" where
  "et_update ck from_old_trust from_old_sig from_new_trust from_new_sig rules t =
     (let cap_old = (if from_old_trust > from_old_sig then from_old_trust else from_old_sig);
          cap_new = (if from_new_trust > from_new_sig then from_new_trust else from_new_sig)
      in if cap_old = cap_new then Ok (t, False, False)
      else and_then (et_loop ck rules (from_old_trust, cap_old) (from_new_trust, cap_new) (calcmap t) 0
                      (replicate (length rules) 0) 255) (\<lambda>(cm, changedcache, new_trust).
           if new_trust = ttrust t then Ok (t\<lparr>calcmap := cm\<rparr>, changedcache, False)
           else Ok (t\<lparr>calcmap := cm, ttrust := new_trust\<rparr>, changedcache, True)))"

section \<open>Signatures\<close>

text \<open>The signatures about a peer: level of the signer and level signed, which is at most as good.\<close>

type_synonym sigs = "(nat \<times> nat) multiset"

definition sig_count :: "sigs \<Rightarrow> nat \<Rightarrow> nat \<Rightarrow> nat" where
  "sig_count S c s = size (filter_mset (\<lambda>(i, l). i \<le> c \<and> l \<le> s) S)"

definition sig_update :: "nat \<Rightarrow> nat \<times> nat \<Rightarrow> nat \<times> nat \<Rightarrow> sigs \<Rightarrow> sigs" where
  "sig_update n old new S = (if snd new < n then add_mset new (S - {#old#}) else S - {#old#})"

definition cap :: "nat \<Rightarrow> nat \<Rightarrow> nat \<times> nat" where
  "cap trust sig = (trust, max trust sig)"

text \<open>
  The level of a peer: for the classic calculus the level \<open>s\<close> first reached by the signatures of the
  best signers that reach any, for the experimental one the best level any signers reach.
\<close>

definition classic_level :: "trust_rules \<Rightarrow> sigs \<Rightarrow> nat option" where
  "classic_level rules S =
     (case find (\<lambda>c. \<exists>s<length rules. c \<le> s \<and> rules ! c \<le> sig_count S c s) [0..<length rules] of
        None \<Rightarrow> None
      | Some c \<Rightarrow> find (\<lambda>s. c \<le> s \<and> rules ! c \<le> sig_count S c s) [0..<length rules])"

definition exp_level :: "trust_rules \<Rightarrow> sigs \<Rightarrow> nat" where
  "exp_level rules S =
     (case find (\<lambda>s. \<exists>c<Suc s. rules ! c \<le> sig_count S c s) [0..<length rules] of None \<Rightarrow> 255 | Some s \<Rightarrow> s)"

text \<open>Signatures at one level by signers below a level, and up to a level by signers up to a level.\<close>

definition at_level :: "sigs \<Rightarrow> nat \<Rightarrow> nat \<Rightarrow> nat" where
  "at_level S c s = size (filter_mset (\<lambda>(i, l). i < c \<and> l = s) S)"

definition below_level :: "sigs \<Rightarrow> nat \<Rightarrow> nat \<Rightarrow> nat" where
  "below_level S c s = size (filter_mset (\<lambda>(i, l). i \<le> c \<and> l < s) S)"

definition sigs_ok :: "nat \<Rightarrow> sigs \<Rightarrow> bool" where
  "sigs_ok n S \<longleftrightarrow> (\<forall>(i, l) \<in># S. i \<le> l \<and> l < n)"

lemma at_level_0 [simp]: "at_level S 0 s = 0"
  by (induction S) (auto simp: at_level_def)

lemma at_level_Suc: "at_level S (Suc c) s = at_level S c s + count S (c, s)"
  by (induction S) (auto simp: at_level_def)

lemma below_level_0 [simp]: "below_level S c 0 = 0"
  by (induction S) (auto simp: below_level_def)

lemma below_level_Suc: "below_level S c (Suc s) = below_level S c s + at_level S (Suc c) s"
  by (induction S) (auto simp: below_level_def at_level_def)

lemma sig_count_below: "sig_count S c s = below_level S c (Suc s)"
  by (simp add: sig_count_def below_level_def less_Suc_eq_le)

lemma sigs_ok_low: "sigs_ok n S \<Longrightarrow> s < c \<Longrightarrow> count S (c, s) = 0"
  by (auto simp: sigs_ok_def not_in_iff [symmetric])

lemma sigs_ok_update:
  "sigs_ok n S \<Longrightarrow> fst new \<le> snd new \<Longrightarrow> sigs_ok n (sig_update n old new S)"
  by (auto simp: sigs_ok_def sig_update_def dest: in_diffD)

lemma inc_u8_Ok [simp]: "l < 255 \<Longrightarrow> inc_u8 ck l = Ok (Suc l)"
  by (simp add: inc_u8_def)

section \<open>The classic calculus\<close>

definition ct_row :: "nat \<Rightarrow> sigs \<Rightarrow> nat \<Rightarrow> nat list" where
  "ct_row n S i = map (\<lambda>j. count S (i, i + j)) [0..<n - i]"

definition ct_map :: "nat \<Rightarrow> sigs \<Rightarrow> nat list list" where
  "ct_map n S = map (ct_row n S) [0..<n]"

lemma ct_inner_ok:
  assumes "sigs_ok n S" and "n \<le> 255" and "length rules = n" and "c < n"
  shows "s0 \<le> n \<Longrightarrow>
    ct_inner ck rules (ct_row n S c) c (map (at_level S c) [s0..<n]) s0 (below_level S c s0) new =
      Ok (map (at_level S (Suc c)) [s0..<n],
          if new = None then find (\<lambda>s. c \<le> s \<and> rules ! c \<le> sig_count S c s) [s0..<n] else new)"
proof (induction "n - s0" arbitrary: s0 new)
  case (Suc k)
  then have less: "s0 < n" by simp
  then have up: "[s0..<n] = s0 # [Suc s0..<n]" by (simp add: upt_conv_Cons)
  have IH: "ct_inner ck rules (ct_row n S c) c (map (at_level S c) [Suc s0..<n]) (Suc s0) (below_level S c (Suc s0)) nw =
      Ok (map (at_level S (Suc c)) [Suc s0..<n],
          if nw = None then find (\<lambda>s. c \<le> s \<and> rules ! c \<le> sig_count S c s) [Suc s0..<n] else nw)" for nw
    using Suc.hyps(1) [of "Suc s0"] Suc.hyps(2) less by simp
  show ?case
  proof (cases "c \<le> s0")
    case True
    then have "vec_get (ct_row n S c) (s0 - c) = Some (count S (c, s0))"
      using less by (simp add: vec_get_def ct_row_def)
    then show ?thesis
      using True less assms IH
      by (simp add: up vec_get_def Let_def at_level_Suc sig_count_below below_level_Suc ac_simps)
  next
    case False
    then have "at_level S (Suc c) s0 = at_level S c s0" using sigs_ok_low [OF assms(1)] by (simp add: at_level_Suc)
    then show ?thesis using False less assms IH by (simp add: up below_level_Suc)
  qed
qed auto

definition classic_from :: "trust_rules \<Rightarrow> sigs \<Rightarrow> nat \<Rightarrow> nat option" where
  "classic_from rules S c0 =
     (case find (\<lambda>c. \<exists>s<length rules. c \<le> s \<and> rules ! c \<le> sig_count S c s) [c0..<length rules] of
        None \<Rightarrow> None
      | Some c \<Rightarrow> find (\<lambda>s. c \<le> s \<and> rules ! c \<le> sig_count S c s) [0..<length rules])"

lemma ct_recalc_done: "cur + length rows \<le> 255 \<Longrightarrow> ct_recalc ck rules rows cur nb (Some r) = Ok (Some r)"
  by (induction rows arbitrary: cur nb) auto

lemma ct_recalc_ok:
  assumes "sigs_ok n S" and "n \<le> 255" and "length rules = n"
  shows "c \<le> n \<Longrightarrow>
    ct_recalc ck rules (map (ct_row n S) [c..<n]) c (map (at_level S c) [0..<n]) None = Ok (classic_from rules S c)"
proof (induction "n - c" arbitrary: c)
  case (Suc k)
  then have less: "c < n" by simp
  then have up: "[c..<n] = c # [Suc c..<n]" by (simp add: upt_conv_Cons)
  let ?P = "\<lambda>s. c \<le> s \<and> rules ! c \<le> sig_count S c s"
  have inner: "ct_inner ck rules (ct_row n S c) c (map (at_level S c) [0..<n]) 0 0 None =
      Ok (map (at_level S (Suc c)) [0..<n], find ?P [0..<n])"
    using ct_inner_ok [OF assms less, of 0 ck None] by simp
  show ?case
  proof (cases "find ?P [0..<n]")
    case None
    then have "\<not> (\<exists>s<length rules. ?P s)" using assms(3) by (auto simp: find_None_iff)
    then have "classic_from rules S c = classic_from rules S (Suc c)"
      using less assms(3) by (auto simp: classic_from_def upt_conv_Cons)
    then show ?thesis using Suc.hyps(1) [of "Suc c"] Suc.hyps(2) less inner None assms(2) by (simp add: up)
  next
    case (Some s)
    then have "\<exists>s<length rules. ?P s" using assms(3) by (auto simp: find_Some_iff)
    then have "classic_from rules S c = Some s"
      using less assms(3) Some by (auto simp: classic_from_def upt_conv_Cons)
    then show ?thesis using less inner Some assms(2) by (simp add: up ct_recalc_done)
  qed
qed (auto simp: classic_from_def assms)

lemma ct_map_simps [simp]: "length (ct_map n S) = n" "i < n \<Longrightarrow> ct_map n S ! i = ct_row n S i"
  "length (ct_row n S i) = n - i" "j < n - i \<Longrightarrow> ct_row n S i ! j = count S (i, i + j)"
  by (simp_all add: ct_map_def ct_row_def)

lemma ct_map_change:
  assumes "i \<le> l" and "l < n" and "\<And>p. p \<noteq> (i, l) \<Longrightarrow> count S' p = count S p"
  shows "(ct_map n S)[i := (ct_row n S i)[l - i := count S' (i, l)]] = ct_map n S'"
proof (rule nth_equalityI)
  fix k assume k: "k < length ((ct_map n S)[i := (ct_row n S i)[l - i := count S' (i, l)]])"
  have "(if k = i then (ct_row n S i)[l - i := count S' (i, l)] else ct_row n S k) = ct_row n S' k"
    using assms by (auto intro!: nth_equalityI simp: nth_list_update)
  then show "(ct_map n S)[i := (ct_row n S i)[l - i := count S' (i, l)]] ! k = ct_map n S' ! k"
    using k assms(1,2) by (auto simp: nth_list_update split: if_splits)
qed simp

lemma calc_dec_ct:
  assumes "i \<le> l" and "l < n"
  shows "calc_dec i (l - i) (ct_map n S) = Ok (ct_map n (S - {#(i, l)#}), (i, l) \<in># S)"
proof (cases "(i, l) \<in># S")
  case True
  have "(ct_map n S)[i := (ct_row n S i)[l - i := count (S - {#(i, l)#}) (i, l)]] = ct_map n (S - {#(i, l)#})"
    by (rule ct_map_change [OF assms]) simp
  then show ?thesis using assms True by (simp add: calc_dec_def vec_get_def)
next
  case False
  then show ?thesis using assms by (simp add: calc_dec_def vec_get_def not_in_iff)
qed

lemma calc_inc_ct:
  assumes "i \<le> l" and "l < n" shows "calc_inc i (l - i) (ct_map n S) = Ok (ct_map n (add_mset (i, l) S))"
proof -
  have "(ct_map n S)[i := (ct_row n S i)[l - i := count (add_mset (i, l) S) (i, l)]] = ct_map n (add_mset (i, l) S)"
    by (rule ct_map_change [OF assms]) simp
  then show ?thesis using assms by (simp add: calc_inc_def vec_get_def)
qed

text \<open>The signatures and the level after an update.\<close>

definition classic_step :: "trust_rules \<Rightarrow> nat \<times> nat \<Rightarrow> nat \<times> nat \<Rightarrow> sigs \<times> nat \<Rightarrow> sigs \<times> nat" where
  "classic_step rules old new = (\<lambda>(S, trust).
     let S' = (if old = new then S else sig_update (length rules) old new S) in
     (S', if S' = S then trust else (case classic_level rules S' of None \<Rightarrow> trust | Some l \<Rightarrow> l)))"

lemma sig_update_changed:
  assumes "old \<noteq> new" shows "sig_update n old new S \<noteq> S \<longleftrightarrow> old \<in># S \<or> snd new < n"
proof (cases "snd new < n")
  case True
  then have "count (sig_update n old new S) new = Suc (count S new)" using assms by (simp add: sig_update_def)
  then have "sig_update n old new S \<noteq> S" by auto
  then show ?thesis using True by simp
next
  case False
  have "S - {#old#} = S \<longleftrightarrow> old \<notin># S"
    by (metis diff_single_trivial insert_DiffM multi_self_add_other_not_self)
  then show ?thesis using False by (simp add: sig_update_def)
qed

lemma ct_update_ok:
  assumes S: "sigs_ok n S" and n: "length rules = n" "n \<le> 255" and t: "calcmap t = ct_map n S"
    and st: "classic_step rules (cap ot os) (cap nt ns) (S, ttrust t) = (S', tr')"
  shows "ct_update ck ot os nt ns rules t = Ok (t\<lparr>calcmap := ct_map n S', ttrust := tr'\<rparr>, S' \<noteq> S, tr' \<noteq> ttrust t) \<and> sigs_ok n S'"
proof (cases "cap ot os = cap nt ns")
  case True
  then show ?thesis using st S t by (auto simp: ct_update_def classic_step_def cap_def max_def split: if_splits)
next
  case False
  let ?old = "cap ot os" and ?new = "cap nt ns"
  have S': "S' = sig_update n ?old ?new S" using st False n by (simp add: classic_step_def Let_def split: if_splits)
  have ok': "sigs_ok n S'" unfolding S' by (rule sigs_ok_update [OF S]) (simp add: cap_def)
  have changed: "S' \<noteq> S \<longleftrightarrow> ?old \<in># S \<or> snd ?new < n" unfolding S' by (rule sig_update_changed [OF False])
  have dec: "(if ot < n \<and> snd ?old \<ge> ot \<and> snd ?old < n then calc_dec ot (snd ?old - ot) (calcmap t) else Ok (calcmap t, False)) =
      Ok (ct_map n (S - {#?old#}), ?old \<in># S)"
  proof (cases "snd ?old < n")
    case True
    then show ?thesis using calc_dec_ct [of ot "snd ?old" n S] t by (auto simp: cap_def)
  next
    case False
    then have "?old \<notin># S" using S by (auto simp: sigs_ok_def cap_def)
    then show ?thesis using False t by (auto simp: diff_single_trivial)
  qed
  have inc: "(if nt < n \<and> snd ?new \<ge> nt \<and> snd ?new < n
      then and_then (calc_inc nt (snd ?new - nt) (ct_map n (S - {#?old#}))) (\<lambda>cm2. Ok (cm2, True))
      else Ok (ct_map n (S - {#?old#}), ?old \<in># S)) = Ok (ct_map n S', S' \<noteq> S)"
    using calc_inc_ct [of nt "snd ?new" n "S - {#?old#}"] unfolding changed
    by (auto simp: cap_def S' sig_update_def)
  have rec: "ct_recalc ck rules (ct_map n S') 0 (replicate n 0) None = Ok (classic_level rules S')"
  proof -
    have "map (at_level S' 0) [0..<n] = replicate n 0" by (simp add: list_eq_iff_nth_eq)
    then show ?thesis using ct_recalc_ok [OF ok' n(2,1), of 0 ck]
      by (simp add: ct_map_def classic_from_def classic_level_def)
  qed
  have tr': "tr' = (if S' = S then ttrust t else (case classic_level rules S' of None \<Rightarrow> ttrust t | Some l \<Rightarrow> l))"
    using st False n S' by (simp add: classic_step_def Let_def split: if_splits)
  have caps: "(if ot > os then ot else os) = snd ?old" "(if nt > ns then nt else ns) = snd ?new" by (auto simp: cap_def)
  have ne: "\<not> (snd ?old = snd ?new \<and> ot = nt)" using False by (auto simp: cap_def)
  have "ct_update ck ot os nt ns rules t = Ok (t\<lparr>calcmap := ct_map n S', ttrust := tr'\<rparr>, S' \<noteq> S, tr' \<noteq> ttrust t)"
    using ne n rec tr' unfolding ct_update_def caps Let_def n(1) dec
    by (auto simp: inc split: option.splits)
  then show ?thesis using ok' by blast
qed

section \<open>The experimental calculus\<close>

text \<open>Signatures of one signer level below a level, and of signers below a level up to a level.\<close>

definition by_signer :: "sigs \<Rightarrow> nat \<Rightarrow> nat \<Rightarrow> nat" where
  "by_signer S l j = size (filter_mset (\<lambda>(i, l'). i = j \<and> l' < l) S)"

definition signers_below :: "sigs \<Rightarrow> nat \<Rightarrow> nat \<Rightarrow> nat" where
  "signers_below S l j = size (filter_mset (\<lambda>(i, l'). i < j \<and> l' \<le> l) S)"

definition et_row :: "sigs \<Rightarrow> nat \<Rightarrow> nat list" where
  "et_row S l = map (\<lambda>i. count S (i, l)) [0..<Suc l]"

definition et_map :: "nat \<Rightarrow> sigs \<Rightarrow> nat list list" where
  "et_map n S = map (et_row S) [0..<n]"

lemma by_signer_0 [simp]: "by_signer S 0 j = 0"
  by (induction S) (auto simp: by_signer_def)

lemma by_signer_Suc: "by_signer S (Suc l) j = by_signer S l j + count S (j, l)"
  by (induction S) (auto simp: by_signer_def)

lemma signers_below_0 [simp]: "signers_below S l 0 = 0"
  by (induction S) (auto simp: signers_below_def)

lemma signers_below_Suc: "signers_below S l (Suc j) = signers_below S l j + by_signer S (Suc l) j"
  by (induction S) (auto simp: signers_below_def by_signer_def)

lemma sig_count_signers: "sig_count S j l = signers_below S l (Suc j)"
  by (simp add: sig_count_def signers_below_def less_Suc_eq_le)

lemma et_inner_ok:
  assumes "sigs_ok n S" and "length rules = n" and "l < n"
  shows "j0 \<le> Suc l \<Longrightarrow>
    et_inner (map (\<lambda>i. count S (i, l)) [j0..<Suc l]) (map (by_signer S l) [j0..<n]) (drop j0 rules) l (signers_below S l j0) new =
      (map (by_signer S (Suc l)) [j0..<n], if \<exists>c<Suc l. j0 \<le> c \<and> rules ! c \<le> sig_count S c l then l else new)"
proof (induction "Suc l - j0" arbitrary: j0 new)
  case 0
  then have "j0 = Suc l" by simp
  moreover have "map (by_signer S (Suc l)) [Suc l..<n] = map (by_signer S l) [Suc l..<n]"
    using sigs_ok_low [OF assms(1)] by (auto simp: by_signer_Suc)
  ultimately show ?case by auto
next
  case (Suc k)
  then have less: "j0 < Suc l" by simp
  then have up: "[j0..<Suc l] = j0 # [Suc j0..<Suc l]" "[j0..<n] = j0 # [Suc j0..<n]" "drop j0 rules = rules ! j0 # drop (Suc j0) rules"
    using assms(2,3) by (simp_all add: upt_conv_Cons Cons_nth_drop_Suc del: upt_Suc)
  have IH: "et_inner (map (\<lambda>i. count S (i, l)) [Suc j0..<Suc l]) (map (by_signer S l) [Suc j0..<n]) (drop (Suc j0) rules) l
      (signers_below S l (Suc j0)) nw =
      (map (by_signer S (Suc l)) [Suc j0..<n], if \<exists>c<Suc l. Suc j0 \<le> c \<and> rules ! c \<le> sig_count S c l then l else nw)" for nw
    using Suc.hyps(1) [of "Suc j0"] Suc.hyps(2) less by simp
  have cum: "signers_below S l j0 + (by_signer S l j0 + count S (j0, l)) = signers_below S l (Suc j0)"
    by (simp add: signers_below_Suc by_signer_Suc)
  have ex: "(\<exists>c<Suc l. j0 \<le> c \<and> rules ! c \<le> sig_count S c l) \<longleftrightarrow>
      rules ! j0 \<le> sig_count S j0 l \<or> (\<exists>c<Suc l. Suc j0 \<le> c \<and> rules ! c \<le> sig_count S c l)"
    using less by (metis Suc_leD le_antisym not_less_eq_eq order_refl)
  show ?case unfolding up list.map et_inner.simps Let_def cum IH ex
    by (auto simp: by_signer_Suc sig_count_signers [symmetric] not_less simp del: upt_Suc)
qed

definition exp_from :: "trust_rules \<Rightarrow> sigs \<Rightarrow> nat \<Rightarrow> nat" where
  "exp_from rules S l0 =
     (case find (\<lambda>s. \<exists>c<Suc s. rules ! c \<le> sig_count S c s) [l0..<length rules] of None \<Rightarrow> 255 | Some s \<Rightarrow> s)"

lemma et_row_simps [simp]: "length (et_row S l) = Suc l" "i < Suc l \<Longrightarrow> et_row S l ! i = count S (i, l)"
  by (simp_all add: et_row_def del: upt_Suc)

lemma et_row_change:
  assumes "i \<le> l" and "\<And>k. k \<noteq> i \<Longrightarrow> count S' (k, l) = count S (k, l)"
  shows "(et_row S l)[i := count S' (i, l)] = et_row S' l"
  using assms by (intro nth_equalityI) (auto simp: nth_list_update)

lemma et_row_same: "(\<And>k. count S' (k, l) = count S (k, l)) \<Longrightarrow> et_row S' l = et_row S l"
  by (simp add: et_row_def)

text \<open>One row of the loop: the counters after the update.\<close>

lemma et_row_update:
  assumes "ot \<le> co" and "nt \<le> cn" and "co \<noteq> cn" and "l < n" and S': "S' = sig_update n (ot, co) (nt, cn) S"
  shows "and_then (if l = co
      then and_then (unwrap (vec_get (et_row S l) ot)) (\<lambda>c. if c > 0 then Ok ((et_row S l)[ot := c - 1], True) else Ok (et_row S l, False))
      else Ok (et_row S l, False)) (\<lambda>(row1, ch1).
    and_then (if l = cn
      then and_then (unwrap (vec_get row1 nt)) (\<lambda>c. Ok (row1[nt := c + 1], True))
      else Ok (row1, ch1)) g) = g (et_row S' l, (l = co \<and> (ot, co) \<in># S) \<or> l = cn)"
proof -
  consider "l = co" | "l = cn" | "l \<noteq> co" "l \<noteq> cn" by blast
  then show ?thesis
  proof cases
    case 1
    show ?thesis
    proof (cases "(ot, co) \<in># S")
      case True
      have "(et_row S l)[ot := count S' (ot, l)] = et_row S' l"
        by (rule et_row_change) (use assms 1 in \<open>auto simp: sig_update_def\<close>)
      moreover have "count S' (ot, l) = count S (ot, l) - 1" using assms(3) 1 by (auto simp: S' sig_update_def)
      ultimately show ?thesis using True 1 assms(1,3) by (simp add: vec_get_def)
    next
      case False
      have "et_row S' l = et_row S l"
        by (rule et_row_same) (use False 1 assms(3) in \<open>auto simp: S' sig_update_def not_in_iff\<close>)
      moreover have "count S (ot, co) = 0" using False by (simp add: not_in_iff)
      ultimately show ?thesis using False 1 assms(1,3) by (simp add: vec_get_def)
    qed
  next
    case 2
    have "(et_row S l)[nt := count S' (nt, l)] = et_row S' l"
      by (rule et_row_change) (use assms 2 in \<open>auto simp: sig_update_def\<close>)
    moreover have "count S' (nt, l) = count S (nt, l) + 1" using assms(3,4) 2 by (auto simp: S' sig_update_def)
    ultimately show ?thesis using 2 assms(2,3) by (simp add: vec_get_def)
  next
    case 3
    have "et_row S' l = et_row S l" by (rule et_row_same) (use 3 in \<open>auto simp: S' sig_update_def\<close>)
    then show ?thesis using 3 by simp
  qed
qed

lemma et_loop_ok:
  assumes S: "sigs_ok n S" and n: "length rules = n" "n \<le> 255"
    and cs: "ot \<le> co" "nt \<le> cn" "co \<noteq> cn" and S': "S' = sig_update n (ot, co) (nt, cn) S"
  shows "l \<le> n \<Longrightarrow> (new_trust = 255 \<Longrightarrow> nb = map (by_signer S' l) [0..<n]) \<Longrightarrow>
    et_loop ck rules (ot, co) (nt, cn) (map (et_row S) [l..<n]) l nb new_trust =
      Ok (map (et_row S') [l..<n], (l \<le> co \<and> co < n \<and> (ot, co) \<in># S) \<or> (l \<le> cn \<and> cn < n),
          if new_trust = 255 then exp_from rules S' l else new_trust)"
proof (induction "n - l" arbitrary: l nb new_trust)
  case (Suc k)
  then have less: "l < n" by simp
  then have up: "[l..<n] = l # [Suc l..<n]" by (simp add: upt_conv_Cons)
  have ok': "sigs_ok n S'" unfolding S' by (rule sigs_ok_update [OF S]) (simp add: cs)
  let ?any = "\<exists>c<Suc l. rules ! c \<le> sig_count S' c l"
  have inner: "et_inner (et_row S' l) (map (by_signer S' l) [0..<n]) rules l 0 255 =
      (map (by_signer S' (Suc l)) [0..<n], if ?any then l else 255)"
    using et_inner_ok [OF ok' n(1) less, of 0 255] by (simp add: et_row_def del: upt_Suc)
  obtain nb' r where p: "(if new_trust = 255 then et_inner (et_row S' l) nb rules l 0 255 else (nb, new_trust)) = (nb', r)"
    by fastforce
  have r: "r = (if new_trust = 255 then (if ?any then l else 255) else new_trust)"
    using p inner Suc.prems(2) by (auto split: if_splits)
  have nb': "r = 255 \<Longrightarrow> nb' = map (by_signer S' (Suc l)) [0..<n]"
    using p inner Suc.prems(2) r by (auto split: if_splits)
  have ef: "exp_from rules S' l = (if ?any then l else exp_from rules S' (Suc l))"
    using less n(1) by (auto simp: exp_from_def upt_conv_Cons)
  have IH: "et_loop ck rules (ot, co) (nt, cn) (map (et_row S) [Suc l..<n]) (Suc l) nb' r =
      Ok (map (et_row S') [Suc l..<n], (Suc l \<le> co \<and> co < n \<and> (ot, co) \<in># S) \<or> (Suc l \<le> cn \<and> cn < n),
          if r = 255 then exp_from rules S' (Suc l) else r)"
    by (rule Suc.hyps(1)) (use Suc.hyps(2) less nb' in auto)
  have "et_loop ck rules (ot, co) (nt, cn) (map (et_row S) [l..<n]) l nb new_trust =
      Ok (et_row S' l # map (et_row S') [Suc l..<n],
          ((l = co \<and> (ot, co) \<in># S) \<or> l = cn) \<or> (Suc l \<le> co \<and> co < n \<and> (ot, co) \<in># S) \<or> (Suc l \<le> cn \<and> cn < n),
          if r = 255 then exp_from rules S' (Suc l) else r)"
    unfolding up list.map et_loop.simps et_row_update [OF cs less S'] prod.case p
    using IH less n(2) by simp
  moreover have "(if r = 255 then exp_from rules S' (Suc l) else r) =
      (if new_trust = 255 then exp_from rules S' l else new_trust)"
    unfolding r ef using less n(2) by auto
  moreover have "(((l = co \<and> (ot, co) \<in># S) \<or> l = cn) \<or> (Suc l \<le> co \<and> co < n \<and> (ot, co) \<in># S) \<or> (Suc l \<le> cn \<and> cn < n)) =
      ((l \<le> co \<and> co < n \<and> (ot, co) \<in># S) \<or> (l \<le> cn \<and> cn < n))"
    using less by (auto simp: le_Suc_eq Suc_le_eq)
  ultimately show ?case by (simp add: up)
qed (auto simp: exp_from_def n)

definition exp_step :: "trust_rules \<Rightarrow> nat \<times> nat \<Rightarrow> nat \<times> nat \<Rightarrow> sigs \<times> nat \<Rightarrow> sigs \<times> nat" where
  "exp_step rules old new = (\<lambda>(S, trust).
     if snd old = snd new then (S, trust)
     else let S' = sig_update (length rules) old new S in (S', exp_level rules S'))"

lemma et_update_ok:
  assumes S: "sigs_ok n S" and n: "length rules = n" "n \<le> 255" and t: "calcmap t = et_map n S"
    and st: "exp_step rules (cap ot os) (cap nt ns) (S, ttrust t) = (S', tr')"
  shows "et_update ck ot os nt ns rules t = Ok (t\<lparr>calcmap := et_map n S', ttrust := tr'\<rparr>, S' \<noteq> S, tr' \<noteq> ttrust t) \<and> sigs_ok n S'"
proof (cases "snd (cap ot os) = snd (cap nt ns)")
  case True
  then show ?thesis using st S t by (auto simp: et_update_def exp_step_def cap_def max_def split: if_splits)
next
  case False
  let ?co = "snd (cap ot os)" and ?cn = "snd (cap nt ns)"
  have caps: "(if ot > os then ot else os) = ?co" "(if nt > ns then nt else ns) = ?cn" by (auto simp: cap_def)
  have S': "S' = sig_update n (ot, ?co) (nt, ?cn) S" and tr': "tr' = exp_level rules S'"
    using st False n by (auto simp: exp_step_def Let_def cap_def)
  have le: "ot \<le> ?co" "nt \<le> ?cn" by (simp_all add: cap_def)
  have ok': "sigs_ok n S'" unfolding S' by (rule sigs_ok_update [OF S]) (simp add: le)
  have "map (by_signer S' 0) [0..<n] = replicate n 0" by (simp add: list_eq_iff_nth_eq)
  then have loop: "et_loop ck rules (ot, ?co) (nt, ?cn) (calcmap t) 0 (replicate n 0) 255 =
      Ok (et_map n S', (?co < n \<and> (ot, ?co) \<in># S) \<or> ?cn < n, exp_from rules S' 0)"
    using et_loop_ok [OF S n le False S', of 0 255 "replicate n 0" ck] t by (simp add: et_map_def)
  have "S' \<noteq> S \<longleftrightarrow> (ot, ?co) \<in># S \<or> ?cn < n" unfolding S' by (subst sig_update_changed) (use False in auto)
  moreover have "(ot, ?co) \<in># S \<Longrightarrow> ?co < n" using S by (auto simp: sigs_ok_def)
  ultimately have ch: "((?co < n \<and> (ot, ?co) \<in># S) \<or> ?cn < n) = (S' \<noteq> S)" by blast
  have "exp_from rules S' 0 = tr'" by (simp add: tr' exp_from_def exp_level_def)
  then show ?thesis using False loop ch ok' n unfolding et_update_def caps Let_def by (auto simp: n)
qed

section \<open>Properties\<close>

text \<open>A sequence of updates: level of the signer and level signed, before and after.\<close>

type_synonym sig_change = "nat \<times> nat \<times> nat \<times> nat"

fun ct_run :: "bool \<Rightarrow> trust_rules \<Rightarrow> sig_change list \<Rightarrow> wot_trust \<Rightarrow> wot_trust outcome" where
  "ct_run ck rules [] t = Ok t"
| "ct_run ck rules ((ot, os, nt, ns) # us) t = and_then (ct_update ck ot os nt ns rules t) (\<lambda>(t', _). ct_run ck rules us t')"

fun et_run :: "bool \<Rightarrow> trust_rules \<Rightarrow> sig_change list \<Rightarrow> wot_trust \<Rightarrow> wot_trust outcome" where
  "et_run ck rules [] t = Ok t"
| "et_run ck rules ((ot, os, nt, ns) # us) t = and_then (et_update ck ot os nt ns rules t) (\<lambda>(t', _). et_run ck rules us t')"

lemma ct_run_ok:
  assumes "length rules \<le> 255"
  shows "sigs_ok (length rules) S \<Longrightarrow> calcmap t = ct_map (length rules) S \<Longrightarrow>
    fold (\<lambda>(ot, os, nt, ns). classic_step rules (cap ot os) (cap nt ns)) us (S, ttrust t) = (S', tr') \<Longrightarrow>
    ct_run ck rules us t = Ok (t\<lparr>calcmap := ct_map (length rules) S', ttrust := tr'\<rparr>)"
proof (induction us arbitrary: S t)
  case (Cons u us)
  obtain ot os nt ns where u: "u = (ot, os, nt, ns)" by (cases u)
  obtain S1 tr1 where st: "classic_step rules (cap ot os) (cap nt ns) (S, ttrust t) = (S1, tr1)" by fastforce
  note up = ct_update_ok [OF Cons.prems(1) refl assms Cons.prems(2) st, of ck]
  show ?case
    using up Cons.IH [of S1 "t\<lparr>calcmap := ct_map (length rules) S1, ttrust := tr1\<rparr>"] Cons.prems(3) st by (simp add: u)
qed auto

lemma et_run_ok:
  assumes "length rules \<le> 255"
  shows "sigs_ok (length rules) S \<Longrightarrow> calcmap t = et_map (length rules) S \<Longrightarrow>
    fold (\<lambda>(ot, os, nt, ns). exp_step rules (cap ot os) (cap nt ns)) us (S, ttrust t) = (S', tr') \<Longrightarrow>
    et_run ck rules us t = Ok (t\<lparr>calcmap := et_map (length rules) S', ttrust := tr'\<rparr>)"
proof (induction us arbitrary: S t)
  case (Cons u us)
  obtain ot os nt ns where u: "u = (ot, os, nt, ns)" by (cases u)
  obtain S1 tr1 where st: "exp_step rules (cap ot os) (cap nt ns) (S, ttrust t) = (S1, tr1)" by fastforce
  note up = et_update_ok [OF Cons.prems(1) refl assms Cons.prems(2) st, of ck]
  show ?case
    using up Cons.IH [of S1 "t\<lparr>calcmap := et_map (length rules) S1, ttrust := tr1\<rparr>"] Cons.prems(3) st by (simp add: u)
qed auto



text \<open>
  A signature that is withdrawn does not lower the classic level: when the only signature about
  a peer is taken back its counter goes down and the update reports no change of the level, which
  stays as it was, while the experimental calculus falls back to no trust.
\<close>

theorem withdrawn_trust_stays:
  assumes "length rules \<le> 255" and "\<forall>r\<in>set rules. 1 \<le> r" and "i \<le> l" and "l < length rules"
    and "calcmap t = ct_map (length rules) {#(i, l)#}" and "calcmap t2 = et_map (length rules) {#(i, l)#}"
    and "ttrust t2 \<noteq> 255"
  shows "ct_update ck i l i 255 rules t = Ok (t\<lparr>calcmap := ct_map (length rules) {#}\<rparr>, True, False) \<and>
    et_update ck i l i 255 rules t2 = Ok (t2\<lparr>calcmap := et_map (length rules) {#}, ttrust := 255\<rparr>, True, True)"
proof -
  have ok: "sigs_ok (length rules) {#(i, l)#}" using assms(3,4) by (simp add: sigs_ok_def)
  have pos: "rules ! c \<noteq> 0" if "c < length rules" for c
    using assms(2) nth_mem [OF that] by (metis not_one_le_zero)
  have "classic_level rules {#} = None"
    using pos by (auto simp: classic_level_def sig_count_def find_None_iff split: option.splits)
  then have 1: "classic_step rules (cap i l) (cap i 255) ({#(i, l)#}, ttrust t) = ({#}, ttrust t)"
    using assms(1,3,4) by (simp add: classic_step_def cap_def sig_update_def)
  have "find (\<lambda>s. \<exists>c<Suc s. rules ! c \<le> sig_count {#} c s) [0..<length rules] = None"
    using pos by (auto simp: sig_count_def find_None_iff)
  then have "exp_level rules {#} = 255" by (simp add: exp_level_def)
  then have 2: "exp_step rules (cap i l) (cap i 255) ({#(i, l)#}, ttrust t2) = ({#}, 255)"
    using assms(1,3,4) by (simp add: exp_step_def cap_def sig_update_def Let_def)
  show ?thesis
    using ct_update_ok [OF ok refl assms(1,5) 1, of ck] et_update_ok [OF ok refl assms(1,6) 2, of ck] assms(7) by simp
qed

theorem withdrawn_trust_stays_witness:
  "ct_update True 0 1 0 255 [1, 1] \<lparr>tpeerid = [7], ttrust = 1, calcmap = ct_map 2 {#(0, 1)#}, tlastdiscovery = (0, 0)\<rparr> =
     Ok (\<lparr>tpeerid = [7], ttrust = 1, calcmap = ct_map 2 {#}, tlastdiscovery = (0, 0)\<rparr>, True, False) \<and>
   et_update True 0 1 0 255 [1, 1] \<lparr>tpeerid = [7], ttrust = 1, calcmap = et_map 2 {#(0, 1)#}, tlastdiscovery = (0, 0)\<rparr> =
     Ok (\<lparr>tpeerid = [7], ttrust = 255, calcmap = et_map 2 {#}, tlastdiscovery = (0, 0)\<rparr>, True, True)"
  using withdrawn_trust_stays [of "[1, 1]" 0 1 "\<lparr>tpeerid = [7], ttrust = 1, calcmap = ct_map 2 {#(0, 1)#}, tlastdiscovery = (0, 0)\<rparr>"
      "\<lparr>tpeerid = [7], ttrust = 1, calcmap = et_map 2 {#(0, 1)#}, tlastdiscovery = (0, 0)\<rparr>" True]
  by (simp add: numeral_2_eq_2)

end
