(* ===== verification/Wotstore.thy ===== *)
theory Wotstore
  imports Wottrust Simplecache
begin

text \<open>
  The store of the web of trust (\<open>mydht-wot/src/truststore.rs\<close>), with the signatures of
  \<open>mydht-wot/src/trustedpeer.rs\<close> and the checks of \<open>mydht-wot/src/lib.rs\<close>.  The four stores are
  \<open>SimpleCache\<close>s.  The cryptography of a peer, the encoding of what is signed and the calculus of
  trust are arguments; \<open>Wottrust\<close> has the two calculi of the crate.
\<close>

section \<open>Model\<close>

record peer_sign =
  ps_key :: "bytes \<times> bytes"
  ps_trust :: nat
  ps_tag :: nat
  ps_sign :: bytes

record prom_signs =
  pr_peer :: bytes
  signby :: "(bytes \<times> bytes) list"
  maxsig :: nat

record trust_query =
  tq_peerid :: bytes
  tq_lastdiscovery :: "int \<times> int"
  tq_trust :: nat

datatype 'p wot_kv = WPeer 'p | WP2S prom_signs | WSign peer_sign | WTrustQuery trust_query

datatype wot_k = KPeer bytes | KP2S bytes | KSign "bytes \<times> bytes" | KTrustQuery bytes

record ('p, 't, 'r) wot_env =
  wp_key :: "'p \<Rightarrow> bytes"
  wp_key_check :: "'p \<Rightarrow> bool"
  wp_sign_content :: "'p \<Rightarrow> bytes"
  wp_sign :: "'p \<Rightarrow> bytes"
  wp_from :: "'p \<Rightarrow> bytes"
  content_check :: "'p \<Rightarrow> bytes \<Rightarrow> bytes \<Rightarrow> bool"
  content_sign :: "'p \<Rightarrow> bytes \<Rightarrow> bytes"
  enc_rel :: "bytes \<Rightarrow> bytes \<Rightarrow> bytes"
  enc_sign :: "bytes \<Rightarrow> bytes \<Rightarrow> nat \<Rightarrow> nat \<Rightarrow> bytes"
  wt_new :: "bytes \<Rightarrow> 'r \<Rightarrow> 't"
  wt_update :: "nat \<Rightarrow> nat \<Rightarrow> nat \<Rightarrow> nat \<Rightarrow> 'r \<Rightarrow> 't \<Rightarrow> ('t \<times> bool \<times> bool) outcome"
  wt_trust :: "'t \<Rightarrow> nat"
  wt_key :: "'t \<Rightarrow> bytes"
  wt_lastdiscovery :: "'t \<Rightarrow> int \<times> int"

record ('p, 't, 'r) wot_store =
  peerstore :: "(bytes, 'p) simple_cache"
  promstore :: "(bytes, prom_signs) simple_cache"
  wotstore :: "(bytes, 't) simple_cache"
  signstore :: "(bytes \<times> bytes, peer_sign) simple_cache"
  promsize :: nat
  wrules :: 'r

subsection \<open>Signatures\<close>

definition peer_info_rel :: bytes where
  "peer_info_rel = [0]"

definition peer_trust_rel :: bytes where
  "peer_trust_rel = [1]"

definition check_val :: "('p, 't, 'r) wot_env \<Rightarrow> bytes \<Rightarrow> bytes \<Rightarrow> bytes \<Rightarrow> 'p \<Rightarrow> bytes \<Rightarrow> bool" where
  "check_val env get_from tosign get_sign from1 about_rep =
     (if get_from = wp_key env from1 then content_check env from1 (enc_rel env about_rep tosign) get_sign else False)"

definition sign_val :: "('p, 't, 'r) wot_env \<Rightarrow> 'p \<Rightarrow> bytes \<Rightarrow> bytes \<Rightarrow> bytes" where
  "sign_val env from1 about_rep cont = content_sign env from1 (enc_rel env about_rep cont)"

definition ps_from :: "peer_sign \<Rightarrow> bytes" where
  "ps_from s = fst (ps_key s)"

definition ps_about :: "peer_sign \<Rightarrow> bytes" where
  "ps_about s = snd (ps_key s)"

definition ps_new :: "('p, 't, 'r) wot_env \<Rightarrow> 'p \<Rightarrow> 'p \<Rightarrow> nat \<Rightarrow> nat \<Rightarrow> peer_sign option" where
  "ps_new env fromp aboutp trust tag =
     (let from1 = wp_key env fromp; about = wp_key env aboutp;
          vsign = sign_val env fromp peer_trust_rel (enc_sign env from1 about trust tag)
      in if length vsign = 0 then None
         else Some \<lparr>ps_key = (from1, about), ps_trust = trust, ps_tag = tag, ps_sign = vsign\<rparr>)"

definition ps_sign_content :: "('p, 't, 'r) wot_env \<Rightarrow> peer_sign \<Rightarrow> bytes" where
  "ps_sign_content env s = enc_sign env (ps_from s) (ps_about s) (ps_trust s) (ps_tag s)"

text \<open>\<open>check_val\<close> for a peer, which signs itself, and for a signature.\<close>

definition peer_check :: "('p, 't, 'r) wot_env \<Rightarrow> 'p \<Rightarrow> bool" where
  "peer_check env p = check_val env (wp_from env p) (wp_sign_content env p) (wp_sign env p) p peer_info_rel"

definition sign_check :: "('p, 't, 'r) wot_env \<Rightarrow> peer_sign \<Rightarrow> 'p \<Rightarrow> bool" where
  "sign_check env s from1 = check_val env (ps_from s) (ps_sign_content env s) (ps_sign s) from1 peer_trust_rel"

subsection \<open>Promoted signatures\<close>

definition prom_new :: "peer_sign \<Rightarrow> nat \<Rightarrow> prom_signs" where
  "prom_new s ms = \<lparr>pr_peer = ps_about s, signby = [ps_key s], maxsig = ms\<rparr>"

definition add_sign :: "prom_signs \<Rightarrow> peer_sign \<Rightarrow> prom_signs option" where
  "add_sign pr s =
     (if list_ex (\<lambda>sb. sb = ps_key s) (signby pr) then None
      else let newsignby = ps_key s # signby pr in
           Some (pr\<lparr>signby := if length newsignby > maxsig pr then butlast newsignby else newsignby\<rparr>))"

definition prom_merge :: "prom_signs \<Rightarrow> prom_signs \<Rightarrow> prom_signs option" where
  "prom_merge pr psigns =
     (if pr_peer pr = pr_peer psigns then None
      else let (newsignby, change) =
                 foldl (\<lambda>(l, ch) s. if \<not> list_ex (\<lambda>v. v = s) (signby psigns) then (s # l, True) else (l, ch))
                   (signby pr, False) (signby pr)
           in if change then Some (pr\<lparr>signby := take (maxsig pr) newsignby\<rparr>) else None)"

definition remove_sign :: "prom_signs \<Rightarrow> peer_sign \<Rightarrow> prom_signs option" where
  "remove_sign pr s =
     (case position (\<lambda>sb. sb = ps_key s) (signby pr) of
        Some ix \<Rightarrow> Some (pr\<lparr>signby := vec_remove ix (signby pr)\<rparr>)
      | None \<Rightarrow> None)"

subsection \<open>The store\<close>

definition wot_new ::
    "('p, 't, 'r) wot_env \<Rightarrow> (bytes, 'p) simple_cache \<Rightarrow> (bytes, prom_signs) simple_cache
      \<Rightarrow> (bytes \<times> bytes, peer_sign) simple_cache \<Rightarrow> (bytes, 't) simple_cache \<Rightarrow> 'p \<Rightarrow> nat \<Rightarrow> 'r
      \<Rightarrow> ('p, 't, 'r) wot_store outcome" where
  "wot_new env s1 s2 s3 s4 ame psize rules =
     and_then (unwrap (ps_new env ame ame 0 0)) (\<lambda>psignme.
     and_then (wt_update env 0 1 0 0 rules (wt_new env (wp_key env ame) rules)) (\<lambda>(trust, _).
     Ok \<lparr>peerstore = add_val (wp_key env) ame None s1, promstore = s2,
         wotstore = add_val (wt_key env) trust None s4, signstore = add_val ps_key psignme None s3,
         promsize = psize, wrules = rules\<rparr>))"

definition get_peer_trust :: "('p, 't, 'r) wot_env \<Rightarrow> ('p, 't, 'r) wot_store \<Rightarrow> bytes \<Rightarrow> nat" where
  "get_peer_trust env w key = (case get_val (wotstore w) key of Some p \<Rightarrow> wt_trust env p | None \<Rightarrow> 255)"

text \<open>
  \<open>update_trust\<close> of one signature: the store, and the signatures it is called for next, which are
  those of the peer whose trust changed.
\<close>

definition update_trust_one ::
    "('p, 't, 'r) wot_env \<Rightarrow> peer_sign \<Rightarrow> ('p, 't, 'r) wot_store \<Rightarrow> (('p, 't, 'r) wot_store \<times> peer_sign list) outcome" where
  "update_trust_one env skv w =
     (let (w1, otrust) =
            (case get_val (wotstore w) (ps_about skv) of
               Some t \<Rightarrow> (w, Some t)
             | None \<Rightarrow>
                 (case get_val (peerstore w) (ps_about skv) of
                    None \<Rightarrow> (w, None)
                  | Some apeer \<Rightarrow>
                      let trust = wt_new env (wp_key env apeer) (wrules w) in
                      (w\<lparr>wotstore := add_val (wt_key env) trust None (wotstore w)\<rparr>, Some trust)))
      in case otrust of
           None \<Rightarrow> Ok (w1, [])
         | Some trust \<Rightarrow>
             let from_trust = get_peer_trust env w1 (ps_from skv) in
             and_then (wt_update env from_trust (wt_trust env trust) from_trust (ps_trust skv) (wrules w1) trust)
               (\<lambda>(newtrust, upd, pro).
                let w2 = (if upd then w1\<lparr>wotstore := add_val (wt_key env) newtrust None (wotstore w1)\<rparr> else w1) in
                Ok (w2, if pro then get_vals_from_left (signstore w2) (wt_key env trust) else [])))"

text \<open>
  The recursion over the signatures of the peers whose trust changes: the signatures left to visit
  are kept in the order in which the calls of the source visit them.  It may not end.
\<close>

partial_function (option) update_trust ::
    "('p, 't, 'r) wot_env \<Rightarrow> peer_sign list \<Rightarrow> ('p, 't, 'r) wot_store \<Rightarrow> ('p, 't, 'r) wot_store outcome option" where
  "update_trust env todo w =
     (case todo of
        [] \<Rightarrow> Some (Ok w)
      | skv # rest \<Rightarrow>
          (case update_trust_one env skv w of
             Ok (w', sigs1) \<Rightarrow> update_trust env (sigs1 @ rest) w'
           | Err e \<Rightarrow> Some (Err e)
           | Panic \<Rightarrow> Some Panic))"

declare update_trust.simps [code]

definition add_peer_val :: "('p, 't, 'r) wot_env \<Rightarrow> 'p \<Rightarrow> cache_policy option \<Rightarrow> ('p, 't, 'r) wot_store \<Rightarrow> ('p, 't, 'r) wot_store" where
  "add_peer_val env skv pol w =
     (if wp_key_check env skv \<and> peer_check env skv
      then w\<lparr>peerstore := add_val (wp_key env) skv pol (peerstore w)\<rparr> else w)"

definition add_prom_val :: "prom_signs \<Rightarrow> cache_policy option \<Rightarrow> ('p, 't, 'r) wot_store \<Rightarrow> ('p, 't, 'r) wot_store" where
  "add_prom_val skv pol w =
     (case get_val (promstore w) (pr_peer skv) of
        None \<Rightarrow> w\<lparr>promstore := add_val pr_peer skv pol (promstore w)\<rparr>
      | Some xpval \<Rightarrow>
          let newrel = (case prom_merge xpval skv of Some r \<Rightarrow> r | None \<Rightarrow> skv) in
          w\<lparr>promstore := add_val pr_peer newrel pol (promstore w)\<rparr>)"

definition promote_sign :: "peer_sign \<Rightarrow> cache_policy option \<Rightarrow> ('p, 't, 'r) wot_store \<Rightarrow> ('p, 't, 'r) wot_store" where
  "promote_sign skv pol w =
     (case get_val (promstore w) (ps_about skv) of
        None \<Rightarrow> w\<lparr>promstore := add_val pr_peer (prom_new skv (promsize w)) pol (promstore w)\<rparr>
      | Some rel1 \<Rightarrow>
          (case add_sign rel1 skv of
             None \<Rightarrow> w
           | Some nrel \<Rightarrow> w\<lparr>promstore := add_val pr_peer nrel pol (promstore w)\<rparr>))"

definition add_sign_val ::
    "('p, 't, 'r) wot_env \<Rightarrow> peer_sign \<Rightarrow> cache_policy option \<Rightarrow> ('p, 't, 'r) wot_store
      \<Rightarrow> ('p, 't, 'r) wot_store outcome option" where
  "add_sign_val env skv pol w =
     (case get_val (peerstore w) (ps_from skv) of
        None \<Rightarrow> Some (Ok w)
      | Some from1 \<Rightarrow>
          if sign_check env skv from1
          then (case get_val (signstore w) (ps_key skv) of
                  Some v \<Rightarrow> if ps_tag v > ps_tag skv then Some (Ok w)
                            else update_trust env [skv] (promote_sign skv pol (w\<lparr>signstore := add_val ps_key skv pol (signstore w)\<rparr>))
                | None \<Rightarrow> update_trust env [skv] (promote_sign skv pol (w\<lparr>signstore := add_val ps_key skv pol (signstore w)\<rparr>)))
          else Some (Ok w))"

definition wot_add_val ::
    "('p, 't, 'r) wot_env \<Rightarrow> 'p wot_kv \<Rightarrow> cache_policy option \<Rightarrow> ('p, 't, 'r) wot_store
      \<Rightarrow> ('p, 't, 'r) wot_store outcome option" where
  "wot_add_val env kv pol w =
     (case kv of
        WPeer skv \<Rightarrow> Some (Ok (add_peer_val env skv pol w))
      | WP2S skv \<Rightarrow> Some (Ok (add_prom_val skv pol w))
      | WSign skv \<Rightarrow> add_sign_val env skv pol w
      | WTrustQuery _ \<Rightarrow> Some (Ok w))"

definition wot_get_val :: "('p, 't, 'r) wot_env \<Rightarrow> ('p, 't, 'r) wot_store \<Rightarrow> wot_k \<Rightarrow> 'p wot_kv option" where
  "wot_get_val env w k =
     (case k of
        KPeer sk \<Rightarrow> map_option WPeer (get_val (peerstore w) sk)
      | KP2S sk \<Rightarrow>
          (case get_val (promstore w) sk of
             None \<Rightarrow> None
           | Some ask \<Rightarrow> if length (signby ask) > 0 then Some (WP2S ask) else None)
      | KSign sk \<Rightarrow> map_option WSign (get_val (signstore w) sk)
      | KTrustQuery sk \<Rightarrow>
          map_option (\<lambda>ask. WTrustQuery \<lparr>tq_peerid = sk, tq_lastdiscovery = wt_lastdiscovery env ask, tq_trust = wt_trust env ask\<rparr>)
            (get_val (wotstore w) sk))"

definition wot_has_val :: "('p, 't, 'r) wot_env \<Rightarrow> ('p, 't, 'r) wot_store \<Rightarrow> wot_k \<Rightarrow> bool" where
  "wot_has_val env w k = (wot_get_val env w k \<noteq> None)"

definition unpromote_sign :: "bytes \<times> bytes \<Rightarrow> ('p, 't, 'r) wot_store \<Rightarrow> ('p, 't, 'r) wot_store" where
  "unpromote_sign sk w =
     (case get_val (signstore w) sk of
        None \<Rightarrow> w
      | Some skval \<Rightarrow>
          (case get_val (promstore w) (ps_about skval) of
             None \<Rightarrow> w
           | Some rel1 \<Rightarrow>
               (case remove_sign rel1 skval of
                  None \<Rightarrow> w
                | Some nrel \<Rightarrow> w\<lparr>promstore := add_val pr_peer nrel None (promstore w)\<rparr>)))"

definition wot_remove_val ::
    "('p, 't, 'r) wot_env \<Rightarrow> wot_k \<Rightarrow> ('p, 't, 'r) wot_store \<Rightarrow> ('p, 't, 'r) wot_store outcome" where
  "wot_remove_val env k w =
     (case k of
        KPeer sk \<Rightarrow> Ok (w\<lparr>peerstore := remove_val sk (peerstore w), promstore := remove_val sk (promstore w)\<rparr>)
      | KP2S _ \<Rightarrow> Ok w
      | KSign sk \<Rightarrow>
          (let w1 = unpromote_sign sk w;
               w2 = w1\<lparr>signstore := remove_val sk (signstore w1)\<rparr>
           in case get_val (wotstore w2) (snd sk) of
                None \<Rightarrow> Ok w2
              | Some trust \<Rightarrow>
                  let from_trust = get_peer_trust env w2 (fst sk) in
                  and_then (wt_update env from_trust (wt_trust env trust) from_trust 255 (wrules w2) trust) (\<lambda>(newtrust, upd, pro).
                  Ok (if upd then w2\<lparr>wotstore := add_val (wt_key env) newtrust None (wotstore w2)\<rparr> else w2)))
      | KTrustQuery _ \<Rightarrow> Ok w)"

text \<open>The commits of the four stores are arguments; all are made, the result is their conjunction.\<close>

definition commit_then ::
    "(files \<Rightarrow> 's \<Rightarrow> files \<times> bool outcome) \<Rightarrow> 's \<Rightarrow> files \<times> bool outcome \<Rightarrow> files \<times> bool outcome" where
  "commit_then c st acc =
     (case acc of
        (fs, Ok r) \<Rightarrow> (let (fs', r') = c fs st in (fs', and_then r' (\<lambda>ok. Ok (ok \<and> r))))
      | (fs, x) \<Rightarrow> (fs, x))"

definition wot_commit_store ::
    "(files \<Rightarrow> (bytes, 'p) simple_cache \<Rightarrow> files \<times> bool outcome)
      \<Rightarrow> (files \<Rightarrow> (bytes \<times> bytes, peer_sign) simple_cache \<Rightarrow> files \<times> bool outcome)
      \<Rightarrow> (files \<Rightarrow> (bytes, 't) simple_cache \<Rightarrow> files \<times> bool outcome)
      \<Rightarrow> (files \<Rightarrow> (bytes, prom_signs) simple_cache \<Rightarrow> files \<times> bool outcome)
      \<Rightarrow> files \<Rightarrow> ('p, 't, 'r) wot_store \<Rightarrow> files \<times> bool outcome" where
  "wot_commit_store c_peer c_sign c_wot c_prom fs w =
     commit_then c_prom (promstore w) (commit_then c_wot (wotstore w)
       (commit_then c_sign (signstore w) (commit_then c_peer (peerstore w) (fs, Ok True))))"

section \<open>Lemmas\<close>

text \<open>Every peer and every signature in the store was checked.\<close>

definition wot_checked :: "('p, 't, 'r) wot_env \<Rightarrow> ('p, 't, 'r) wot_store \<Rightarrow> bool" where
  "wot_checked env w \<longleftrightarrow>
     (\<forall>k p. get_val (peerstore w) k = Some p \<longrightarrow> k = wp_key env p \<and> wp_key_check env p \<and> peer_check env p) \<and>
     (\<forall>k s. get_val (signstore w) k = Some s \<longrightarrow> k = ps_key s \<and>
        (\<exists>p. wp_key_check env p \<and> peer_check env p \<and> wp_key env p = ps_from s \<and> sign_check env s p))"

definition keeps_stores :: "('p, 't, 'r) wot_store \<Rightarrow> ('p, 't, 'r) wot_store \<Rightarrow> bool" where
  "keeps_stores w w' \<longleftrightarrow> peerstore w' = peerstore w \<and> signstore w' = signstore w"

lemma keeps_trans: "keeps_stores w w1 \<Longrightarrow> keeps_stores w1 w2 \<Longrightarrow> keeps_stores w w2"
  by (simp add: keeps_stores_def)

lemma get_val_add: "get_val (add_val f v pol st) k = (if k = f v then Some v else get_val st k)"
  by (simp add: get_val_def add_val_def hashmap_get_val_c_def hashmap_add_val_c_def update_conv')

lemma get_val_remove: "get_val (remove_val k st) k' = (if k' = k then None else get_val st k')"
  by (simp add: get_val_def remove_val_def hashmap_get_val_c_def hashmap_remove_val_c_def delete_conv')

lemma update_trust_one_keeps:
  "update_trust_one env skv w = Ok (w', sigs1) \<Longrightarrow> keeps_stores w w'"
  by (auto simp: update_trust_one_def keeps_stores_def and_then_eq_Ok Let_def split: option.splits prod.splits if_splits)

lemma update_trust_keeps:
  assumes "update_trust env todo w = Some (Ok w')" shows "keeps_stores w w'"
proof -
  let ?P = "\<lambda>env todo w r. \<forall>w'. r = Ok w' \<longrightarrow> keeps_stores w w'"
  have "?P env todo w (Ok w')"
  proof (rule update_trust.raw_induct [OF _ assms])
    fix ut :: "('a, 'b, 'c) wot_env \<Rightarrow> peer_sign list \<Rightarrow> ('a, 'b, 'c) wot_store \<Rightarrow> ('a, 'b, 'c) wot_store outcome option"
      and env todo w r
    assume IH: "\<And>env todo w r. ut env todo w = Some r \<Longrightarrow> ?P env todo w r"
      and eq: "(case todo of [] \<Rightarrow> Some (Ok w)
        | skv # rest \<Rightarrow>
            (case update_trust_one env skv w of Ok (w', sigs1) \<Rightarrow> ut env (sigs1 @ rest) w'
             | Err e \<Rightarrow> Some (Err e) | Panic \<Rightarrow> Some Panic)) = Some r"
    show "?P env todo w r"
    proof (cases todo)
      case Nil
      then show ?thesis using eq by (auto simp: keeps_stores_def)
    next
      case (Cons skv rest)
      show ?thesis
      proof (cases "update_trust_one env skv w")
        case (Ok x)
        obtain w1 sigs1 where x: "x = (w1, sigs1)" by (cases x)
        have "ut env (sigs1 @ rest) w1 = Some r" using eq Cons Ok x by simp
        then have "?P env (sigs1 @ rest) w1 r" by (rule IH)
        moreover have "keeps_stores w w1" using update_trust_one_keeps Ok x by blast
        ultimately show ?thesis using keeps_trans by blast
      qed (use eq Cons in auto)
    qed
  qed
  then show ?thesis by simp
qed

lemma promote_keeps: "keeps_stores w (promote_sign skv pol w)" "keeps_stores w (unpromote_sign sk w)"
  by (auto simp: promote_sign_def unpromote_sign_def keeps_stores_def split: option.splits)

lemma wot_checked_keeps: "keeps_stores w w' \<Longrightarrow> wot_checked env w' = wot_checked env w"
  by (simp add: keeps_stores_def wot_checked_def)

lemma wot_checked_add_sign:
  assumes "wot_checked env w" and "get_val (peerstore w) (ps_from skv) = Some p" and "sign_check env skv p"
  shows "wot_checked env (w\<lparr>signstore := add_val ps_key skv pol (signstore w)\<rparr>)"
  using assms unfolding wot_checked_def by (auto simp: get_val_add split: if_splits) metis

lemma add_sign_val_cases:
  assumes "add_sign_val env skv pol w = Some (Ok w')"
  obtains "w' = w"
  | p w1 where "get_val (peerstore w) (ps_from skv) = Some p" "sign_check env skv p"
      "\<forall>v. get_val (signstore w) (ps_key skv) = Some v \<longrightarrow> ps_tag v \<le> ps_tag skv"
      "w1 = w\<lparr>signstore := add_val ps_key skv pol (signstore w)\<rparr>" "keeps_stores w1 w'"
proof (cases "w' = w")
  case False
  let ?w1 = "w\<lparr>signstore := add_val ps_key skv pol (signstore w)\<rparr>"
  from False assms obtain p where p: "get_val (peerstore w) (ps_from skv) = Some p" "sign_check env skv p"
    "\<forall>v. get_val (signstore w) (ps_key skv) = Some v \<longrightarrow> ps_tag v \<le> ps_tag skv"
    and up: "update_trust env [skv] (promote_sign skv pol ?w1) = Some (Ok w')"
    by (auto simp: add_sign_val_def split: option.splits if_splits)
  have "keeps_stores ?w1 w'" using update_trust_keeps [OF up] promote_keeps(1) [of ?w1 skv pol] by (simp add: keeps_stores_def)
  then show thesis using that(2) p by blast
qed (rule that(1))

section \<open>A small network\<close>

text \<open>Peers that are their key and sign by appending it, with the classic calculus.\<close>

definition demo_env :: "(bytes, wot_trust, trust_rules) wot_env" where
  "demo_env =
     \<lparr>wp_key = \<lambda>p. p, wp_key_check = \<lambda>p. p \<noteq> [], wp_sign_content = \<lambda>p. p, wp_sign = \<lambda>p. [0] @ p @ p, wp_from = \<lambda>p. p,
      content_check = \<lambda>p m s. s = m @ p, content_sign = \<lambda>p m. m @ p, enc_rel = (@),
      enc_sign = \<lambda>f a t g. f @ a @ [of_nat t, of_nat g],
      wt_new = ct_new, wt_update = ct_update True, wt_trust = ttrust, wt_key = tpeerid, wt_lastdiscovery = tlastdiscovery\<rparr>"

definition demo_sign :: "bytes \<Rightarrow> bytes \<Rightarrow> nat \<Rightarrow> nat \<Rightarrow> peer_sign" where
  "demo_sign f a t g = \<lparr>ps_key = (f, a), ps_trust = t, ps_tag = g, ps_sign = [1] @ f @ a @ [of_nat t, of_nat g] @ f\<rparr>"

definition empty_store :: "('k, 'v) simple_cache" where
  "empty_store = \<lparr>cache = [], persi = None\<rparr>"

fun add_all :: "bytes wot_kv list \<Rightarrow> (bytes, wot_trust, trust_rules) wot_store outcome option
    \<Rightarrow> (bytes, wot_trust, trust_rules) wot_store outcome option" where
  "add_all [] r = r"
| "add_all (kv # kvs) (Some (Ok w)) = add_all kvs (wot_add_val demo_env kv None w)"
| "add_all (kv # kvs) r = r"

lemma run_case: "(case x of None \<Rightarrow> Panic | Some r \<Rightarrow> and_then r f) = Ok b \<longleftrightarrow> (\<exists>w. x = Some (Ok w) \<and> f w = Ok b)"
  by (auto simp: and_then_eq_Ok split: option.splits)

definition demo_start :: "(bytes, wot_trust, trust_rules) wot_store outcome" where
  "demo_start = wot_new demo_env empty_store empty_store empty_store empty_store [9] 100 [1, 1, 2, 2, 2]"

section \<open>Properties\<close>

inductive wot_reach :: "('p, 't, 'r) wot_env \<Rightarrow> ('p, 't, 'r) wot_store \<Rightarrow> ('p, 't, 'r) wot_store \<Rightarrow> bool" for env w0 where
  reach_start: "wot_reach env w0 w0"
| reach_add: "wot_reach env w0 w \<Longrightarrow> wot_add_val env kv pol w = Some (Ok w') \<Longrightarrow> wot_reach env w0 w'"
| reach_remove: "wot_reach env w0 w \<Longrightarrow> wot_remove_val env k w = Ok w' \<Longrightarrow> wot_reach env w0 w'"

lemma wot_checked_add:
  assumes inv: "wot_checked env w" and add: "wot_add_val env kv pol w = Some (Ok w')"
  shows "wot_checked env w'"
proof (cases kv)
  case (WPeer p)
  then show ?thesis using inv add unfolding wot_checked_def
    by (auto simp: wot_add_val_def add_peer_val_def get_val_add split: if_splits)
next
  case (WP2S r)
  then have "keeps_stores w w'" using add by (auto simp: wot_add_val_def add_prom_val_def keeps_stores_def Let_def split: option.splits)
  then show ?thesis using inv wot_checked_keeps by blast
next
  case (WSign skv)
  then have "add_sign_val env skv pol w = Some (Ok w')" using add by (simp add: wot_add_val_def)
  then show ?thesis
  proof (cases rule: add_sign_val_cases)
    case (2 p w1)
    then show ?thesis using wot_checked_add_sign [OF inv] wot_checked_keeps by metis
  qed (use inv in simp)
qed (use inv add in \<open>auto simp: wot_add_val_def\<close>)

lemma wot_checked_remove:
  assumes inv: "wot_checked env w" and rm: "wot_remove_val env k w = Ok w'"
  shows "wot_checked env w'"
proof (cases k)
  case (KPeer sk)
  then show ?thesis using inv rm unfolding wot_checked_def by (auto simp: wot_remove_val_def get_val_remove split: if_splits)
next
  case (KSign sk)
  let ?w2 = "(unpromote_sign sk w)\<lparr>signstore := remove_val sk (signstore (unpromote_sign sk w))\<rparr>"
  have "keeps_stores ?w2 w'" using KSign rm
    by (auto simp: wot_remove_val_def keeps_stores_def Let_def and_then_eq_Ok split: option.splits prod.splits if_splits)
  moreover have "wot_checked env ?w2"
    using inv promote_keeps(2) [of w sk] unfolding wot_checked_def keeps_stores_def by (auto simp: get_val_remove split: if_splits)
  ultimately show ?thesis using wot_checked_keeps by metis
qed (use inv rm in \<open>auto simp: wot_remove_val_def\<close>)

text \<open>
  C9. Whatever is added to the web of trust or removed from it, every peer in the store is stored
  under its own key, passes the check of its key and carries a signature of its own, and every
  signature in the store is stored under its signer and subject and was made by a peer of the
  signer's key that passed these checks.
\<close>

theorem wot_store_authentic:
  assumes "wot_reach env w0 w" and "wot_checked env w0"
  shows "wot_checked env w"
  using assms
proof (induction rule: wot_reach.induct)
  case (reach_add w kv pol w')
  then show ?case using wot_checked_add by blast
next
  case (reach_remove w k w')
  then show ?case using wot_checked_remove by blast
qed

theorem wot_store_authentic_witness:
  "\<exists>w0 w. demo_start = Ok w0 \<and> add_all [WPeer [1], WSign (demo_sign [9] [1] 1 0)] (Some (Ok w0)) = Some (Ok w) \<and>
    get_val (signstore w) ([9], [1]) = Some (demo_sign [9] [1] 1 0) \<and> wot_checked demo_env w"
proof -
  obtain w0 where w0: "demo_start = Ok w0" and p0: "cache (peerstore w0) = [([9], [9])]"
    and s0: "cache (signstore w0) = [(([9], [9]), demo_sign [9] [9] 0 0)]"
  proof -
    have "and_then demo_start (\<lambda>w. Ok (cache (peerstore w), cache (signstore w))) =
        Ok ([([9], [9])], [(([9], [9]), demo_sign [9] [9] 0 0)])" by code_simp
    then show thesis using that by (auto simp: and_then_eq_Ok)
  qed
  obtain w1 w where w1: "wot_add_val demo_env (WPeer [1]) None w0 = Some (Ok w1)"
    and w: "wot_add_val demo_env (WSign (demo_sign [9] [1] 1 0)) None w1 = Some (Ok w)"
    and s: "get_val (signstore w) ([9], [1]) = Some (demo_sign [9] [1] 1 0)"
  proof -
    let ?w1 = "add_peer_val demo_env [1] None w0"
    have run: "(case add_all [WPeer [1], WSign (demo_sign [9] [1] 1 0)] (Some demo_start) of
        Some (Ok w) \<Rightarrow> get_val (signstore w) ([9], [1]) | _ \<Rightarrow> None) = Some (demo_sign [9] [1] 1 0)"
      by code_simp
    have 1: "wot_add_val demo_env (WPeer [1]) None w0 = Some (Ok ?w1)" by (simp add: wot_add_val_def)
    have "(case wot_add_val demo_env (WSign (demo_sign [9] [1] 1 0)) None ?w1 of
        Some (Ok w) \<Rightarrow> get_val (signstore w) ([9], [1]) | _ \<Rightarrow> None) = Some (demo_sign [9] [1] 1 0)"
      using run by (simp add: w0 1)
    then show thesis using that [OF 1] by (auto split: option.splits outcome.splits)
  qed
  have "wot_checked demo_env w0"
    using p0 s0 by (auto simp: wot_checked_def get_val_def hashmap_get_val_c_def demo_env_def demo_sign_def peer_check_def
        sign_check_def check_val_def peer_info_rel_def peer_trust_rel_def ps_sign_content_def ps_from_def ps_about_def)
  moreover have "wot_reach demo_env w0 w" by (rule reach_add [OF reach_add [OF reach_start w1] w])
  ultimately have "wot_checked demo_env w" using wot_store_authentic by blast
  then show ?thesis using w0 w1 w s by auto
qed


text \<open>
  A signature of one peer about another is only replaced by a signature whose version tag is
  not older, and adding anything removes no signature.
\<close>

theorem newer_signature_kept:
  assumes "wot_add_val env kv pol w = Some (Ok w')" and "get_val (signstore w) k = Some s"
  shows "\<exists>s'. get_val (signstore w') k = Some s' \<and> ps_tag s \<le> ps_tag s'"
proof (cases kv)
  case (WSign skv)
  then have "add_sign_val env skv pol w = Some (Ok w')" using assms(1) by (simp add: wot_add_val_def)
  then show ?thesis
  proof (cases rule: add_sign_val_cases)
    case (2 p w1)
    then show ?thesis using assms(2) by (auto simp: keeps_stores_def get_val_add)
  qed (use assms(2) in simp)
next
  case (WP2S r)
  then show ?thesis using assms
    by (auto simp: wot_add_val_def add_prom_val_def Let_def split: option.splits)
qed (use assms in \<open>auto simp: wot_add_val_def add_peer_val_def split: if_splits\<close>)

theorem newer_signature_kept_witness:
  "\<exists>w w' s'. wot_add_val demo_env (WTrustQuery \<lparr>tq_peerid = [1], tq_lastdiscovery = (0, 0), tq_trust = 0\<rparr>) None w = Some (Ok w') \<and>
    get_val (signstore w) ([9], [9]) = Some (demo_sign [9] [9] 0 4) \<and> get_val (signstore w') ([9], [9]) = Some s' \<and> 4 \<le> ps_tag s'"
proof -
  let ?w = "\<lparr>peerstore = empty_store, promstore = empty_store, wotstore = empty_store,
    signstore = add_val ps_key (demo_sign [9] [9] 0 4) None empty_store, promsize = 1, wrules = [1]\<rparr>
      :: (bytes, wot_trust, trust_rules) wot_store"
  have "get_val (signstore ?w) ([9], [9]) = Some (demo_sign [9] [9] 0 4)" by (simp add: get_val_add demo_sign_def)
  moreover have "wot_add_val demo_env (WTrustQuery \<lparr>tq_peerid = [1], tq_lastdiscovery = (0, 0), tq_trust = 0\<rparr>) None ?w = Some (Ok ?w)"
    by (simp add: wot_add_val_def)
  ultimately show ?thesis using newer_signature_kept by (fastforce simp: demo_sign_def)
qed


text \<open>
  The promoted signatures received about a peer overwrite those the store has, instead of being
  merged with them: \<open>merge\<close> gives up when both are about the same peer.
\<close>

theorem received_promotions_overwrite:
  assumes "store_ok pr_peer (promstore w)" and "get_val (promstore w) (pr_peer r) = Some old"
  shows "\<exists>w'. wot_add_val env (WP2S r) pol w = Some (Ok w') \<and> get_val (promstore w') (pr_peer r) = Some r"
proof -
  have "pr_peer old = pr_peer r"
    using assms by (auto simp: store_ok_def get_val_def hashmap_get_val_c_def dest!: map_of_SomeD)
  then show ?thesis using assms(2) by (auto simp: wot_add_val_def add_prom_val_def prom_merge_def get_val_add)
qed

theorem received_promotions_overwrite_witness:
  "\<exists>w w'. get_val (promstore w) [1] = Some (prom_new (demo_sign [9] [1] 1 0) 5) \<and>
    wot_add_val demo_env (WP2S \<lparr>pr_peer = [1], signby = [], maxsig = 5\<rparr>) None w = Some (Ok w') \<and>
    get_val (promstore w') [1] = Some \<lparr>pr_peer = [1], signby = [], maxsig = 5\<rparr>"
proof -
  let ?w = "\<lparr>peerstore = empty_store, promstore = \<lparr>cache = [([1], prom_new (demo_sign [9] [1] 1 0) 5)], persi = None\<rparr>,
    wotstore = empty_store, signstore = empty_store, promsize = 1, wrules = [1]\<rparr> :: (bytes, wot_trust, trust_rules) wot_store"
  have ok: "store_ok pr_peer (promstore ?w)" by (simp add: store_ok_def hashmap_ok_def prom_new_def ps_about_def demo_sign_def)
  let ?r = "\<lparr>pr_peer = [1], signby = [], maxsig = 5\<rparr>"
  have old: "get_val (promstore ?w) (pr_peer ?r) = Some (prom_new (demo_sign [9] [1] 1 0) 5)"
    by (simp add: get_val_def hashmap_get_val_c_def)
  obtain w' where "wot_add_val demo_env (WP2S ?r) None ?w = Some (Ok w')" "get_val (promstore w') (pr_peer ?r) = Some ?r"
    using received_promotions_overwrite [OF ok old, of demo_env None] by blast
  then show ?thesis using old unfolding prom_signs.simps by blast
qed

text \<open>
  A signature that is sent twice is counted twice: with rules under which two signatures of
  level 2 peers are needed, one peer of level 2 gets a peer to level 2 by sending the same signature
  again, while the store holds a single signature about this peer.
\<close>

theorem repeated_signature_counts_twice:
  "\<exists>w0 w1 w2. demo_start = Ok w0 \<and>
    add_all [WPeer [1], WPeer [2], WSign (demo_sign [9] [1] 2 0), WSign (demo_sign [1] [2] 2 0)] (Some (Ok w0)) = Some (Ok w1) \<and>
    get_peer_trust demo_env w1 [1] = 2 \<and> get_peer_trust demo_env w1 [2] = 255 \<and>
    wot_add_val demo_env (WSign (demo_sign [1] [2] 2 0)) None w1 = Some (Ok w2) \<and>
    get_peer_trust demo_env w2 [2] = 2 \<and> get_vals_from_right (signstore w2) [2] = [demo_sign [1] [2] 2 0]"
proof -
  let ?kvs = "[WPeer [1], WPeer [2], WSign (demo_sign [9] [1] 2 0), WSign (demo_sign [1] [2] 2 0)]"
  have "and_then demo_start (\<lambda>w0. case add_all ?kvs (Some (Ok w0)) of None \<Rightarrow> Panic
      | Some r \<Rightarrow> and_then r (\<lambda>w1. case wot_add_val demo_env (WSign (demo_sign [1] [2] 2 0)) None w1 of None \<Rightarrow> Panic
      | Some r2 \<Rightarrow> and_then r2 (\<lambda>w2. Ok (get_peer_trust demo_env w1 [1], get_peer_trust demo_env w1 [2],
          get_peer_trust demo_env w2 [2], get_vals_from_right (signstore w2) [2])))) =
    Ok (2, 255, 2, [demo_sign [1] [2] 2 0])"
    by code_simp
  then show ?thesis by (simp only: and_then_eq_Ok run_case outcome.inject prod.inject) blast
qed

end
