(* ===== verification/Userpoll.thy ===== *)
theory Userpoll
  imports Prelude
begin

text \<open>
  The poll in user space (\<open>mydht-userpoll/src/lib.rs\<close>): registrations that set themselves ready and
  polls that queue the events of the topics they listen to.  The source shares polls and
  registrations by reference (\<open>Rc<RefCell<_>>\<close>): the model has a store with an address for each.
  A \<open>BTreeMap\<close> is an association list, iterated in the order of its keys.
\<close>

unbundle bit_operations_syntax

section \<open>Model\<close>

type_synonym fd = usize

datatype ready = Readable | Writable

record user_event =
  ev_kind :: ready
  ev_token :: usize

record user_item =
  ui_token :: usize
  ui_topics :: u8

record user_poll_inner =
  items :: "(fd \<times> user_item) list"
  ev_queue :: "user_event list"
  last_new_fd :: fd

text \<open>A poll: the address of its inner state, its descriptor and whether it suspends.\<close>

record user_poll =
  up_inner :: nat
  up_fd :: fd
  up_suspendable :: bool

record user_events =
  size_limit :: nat
  content :: "user_event list"

text \<open>A registration: for the descriptor of a poll its own descriptor there and the inner poll.\<close>

type_synonym registration = "(fd \<times> fd \<times> nat) list"

record poll_world =
  inners :: "user_poll_inner list"
  regs :: "registration list"

subsection \<open>Topics\<close>

definition topics_empty :: u8 where
  "topics_empty = 0"

definition topics_add :: "ready \<Rightarrow> u8 \<Rightarrow> u8" where
  "topics_add t s = (case t of Readable \<Rightarrow> s OR 1 | Writable \<Rightarrow> s OR 2)"

definition topics_contains :: "u8 \<Rightarrow> ready \<Rightarrow> bool" where
  "topics_contains s t = (case t of Readable \<Rightarrow> s OR 1 = s | Writable \<Rightarrow> s OR 2 = s)"

definition topics_remove :: "ready \<Rightarrow> u8 \<Rightarrow> u8" where
  "topics_remove t s = (case t of Readable \<Rightarrow> s AND NOT 1 | Writable \<Rightarrow> s AND NOT 2)"

subsection \<open>Polls\<close>

definition FD_UNDEFINED :: fd where
  "FD_UNDEFINED = 0"

definition MAX_USIZE :: usize where
  "MAX_USIZE = - 1"

definition inc_l :: "usize \<Rightarrow> usize" where
  "inc_l v = (if v = MAX_USIZE then 1 else v + 1)"

definition inner_new :: user_poll_inner where
  "inner_new = \<lparr>items = [], ev_queue = [], last_new_fd = FD_UNDEFINED\<rparr>"

definition user_poll_new :: "fd \<Rightarrow> bool \<Rightarrow> poll_world \<Rightarrow> poll_world \<times> user_poll" where
  "user_poll_new fd suspendable w =
     (w\<lparr>inners := inners w @ [inner_new]\<rparr>,
      \<lparr>up_inner = length (inners w), up_fd = fd, up_suspendable = suspendable\<rparr>)"

text \<open>The loop for a free descriptor, with the number of tries; \<open>None\<close> is the error of a full poll.\<close>

function new_fd_loop :: "(fd \<times> user_item) list \<Rightarrow> fd \<Rightarrow> usize \<Rightarrow> fd option" where
  "new_fd_loop its fd i =
     (let fd' = inc_l fd in
      if i = MAX_USIZE \<or> i + 1 = MAX_USIZE then None
      else if map_of its fd' \<noteq> None then new_fd_loop its fd' (i + 1) else Some fd')"
  by pat_completeness auto
termination
proof (relation "measure (\<lambda>(its, fd, i). unat (MAX_USIZE - i))")
  fix its :: "(fd \<times> user_item) list" and fd fd' i :: usize
  assume "\<not> (i = MAX_USIZE \<or> i + 1 = MAX_USIZE)"
  then have "MAX_USIZE - i \<noteq> 0" by auto
  then have "unat (MAX_USIZE - i - 1) = unat (MAX_USIZE - i) - 1" and "0 < unat (MAX_USIZE - i)"
    using unat_minus_one [of "MAX_USIZE - i"] unat_gt_0 [of "MAX_USIZE - i"] by blast+
  moreover have "MAX_USIZE - (i + 1) = MAX_USIZE - i - 1" by simp
  ultimately have "unat (MAX_USIZE - (i + 1)) < unat (MAX_USIZE - i)" by (simp only: diff_less zero_less_one)
  then show "((its, fd', i + 1), its, fd, i) \<in> measure (\<lambda>(its, fd, i). unat (MAX_USIZE - i))" by simp
qed simp

declare new_fd_loop.simps [simp del]

definition new_fd :: "usize \<Rightarrow> ready \<Rightarrow> user_poll_inner \<Rightarrow> (user_poll_inner \<times> fd) option" where
  "new_fd token r p =
     (case new_fd_loop (items p) (last_new_fd p) 0 of
        None \<Rightarrow> None
      | Some fd \<Rightarrow>
          Some (p\<lparr>last_new_fd := fd,
                  items := AList.update fd \<lparr>ui_token = token, ui_topics = topics_add r topics_empty\<rparr> (items p)\<rparr>, fd))"

definition trigger_event :: "fd \<Rightarrow> ready \<Rightarrow> user_poll_inner \<Rightarrow> user_poll_inner" where
  "trigger_event fd_eventable rdy p =
     (case map_of (items p) fd_eventable of
        Some item \<Rightarrow>
          if topics_contains (ui_topics item) rdy
          then p\<lparr>ev_queue := \<lparr>ev_kind = rdy, ev_token = ui_token item\<rparr> # ev_queue p\<rparr> else p
      | None \<Rightarrow> p)"

text \<open>\<open>poll\<close>: \<open>None\<close> is the error \<open>Yield\<close>.  The batch replaces the content of the events.\<close>

definition poll :: "user_poll \<Rightarrow> user_events \<Rightarrow> poll_world \<Rightarrow> (poll_world \<times> user_events \<times> nat) option" where
  "poll up evs w =
     (let p = inners w ! up_inner up; queue = ev_queue p; ql = length queue in
      if up_suspendable up \<and> ql = 0 then None
      else let nb_mov = min (size_limit evs) ql;
               batch = drop (ql - nb_mov) queue
           in Some (w\<lparr>inners := (inners w)[up_inner up := p\<lparr>ev_queue := take (ql - nb_mov) queue\<rparr>]\<rparr>,
                    evs\<lparr>content := batch\<rparr>, length batch))"

definition with_capacity :: "nat \<Rightarrow> user_events" where
  "with_capacity s = \<lparr>size_limit = s, content = []\<rparr>"

definition events_next :: "user_events \<Rightarrow> user_events \<times> user_event option" where
  "events_next evs =
     (if content evs = [] then (evs, None)
      else (evs\<lparr>content := butlast (content evs)\<rparr>, Some (last (content evs))))"

subsection \<open>Registrations\<close>

definition poll_reg :: "poll_world \<Rightarrow> poll_world \<times> nat" where
  "poll_reg w = (w\<lparr>regs := regs w @ [[]]\<rparr>, length (regs w))"

definition put_fd :: "nat \<Rightarrow> fd \<Rightarrow> fd \<Rightarrow> user_poll \<Rightarrow> poll_world \<Rightarrow> poll_world" where
  "put_fd r fd_poll fd_self up w =
     w\<lparr>regs := (regs w)[r := AList.update fd_poll (fd_self, up_inner up) (regs w ! r)]\<rparr>"

definition get_fd :: "nat \<Rightarrow> fd \<Rightarrow> poll_world \<Rightarrow> fd" where
  "get_fd r fd_poll w = (case map_of (regs w ! r) fd_poll of Some a \<Rightarrow> fst a | None \<Rightarrow> FD_UNDEFINED)"

definition rem_fd :: "nat \<Rightarrow> fd \<Rightarrow> poll_world \<Rightarrow> poll_world" where
  "rem_fd r fd_poll w = w\<lparr>regs := (regs w)[r := AList.delete fd_poll (regs w ! r)]\<rparr>"

definition full_poll :: error_kind where
  "full_poll = ExternalLib ''Full poll : reach max fd for this poll''"

definition ctl_add :: "user_poll \<Rightarrow> nat \<Rightarrow> usize \<Rightarrow> ready \<Rightarrow> poll_world \<Rightarrow> poll_world outcome" where
  "ctl_add up e t r w =
     (let xistingfd = get_fd e (up_fd up) w; p = inners w ! up_inner up in
      if xistingfd = FD_UNDEFINED
      then (case new_fd t r p of
              None \<Rightarrow> Err full_poll
            | Some (p', newfd) \<Rightarrow> Ok (put_fd e (up_fd up) newfd up (w\<lparr>inners := (inners w)[up_inner up := p']\<rparr>)))
      else (case map_of (items p) xistingfd of
              None \<Rightarrow> Panic
            | Some item \<Rightarrow>
                Ok (w\<lparr>inners := (inners w)[up_inner up :=
                      p\<lparr>items := AList.update xistingfd (item\<lparr>ui_topics := topics_add r (ui_topics item)\<rparr>) (items p)\<rparr>]\<rparr>)))"

definition ctl_rem :: "user_poll \<Rightarrow> nat \<Rightarrow> poll_world \<Rightarrow> poll_world" where
  "ctl_rem up e w =
     (let fdp = get_fd e (up_fd up) w;
          w1 = rem_fd e (up_fd up) w;
          p = inners w1 ! up_inner up
      in w1\<lparr>inners := (inners w1)[up_inner up := p\<lparr>items := AList.delete fdp (items p)\<rparr>]\<rparr>)"

definition register :: "nat \<Rightarrow> user_poll \<Rightarrow> usize \<Rightarrow> ready \<Rightarrow> poll_world \<Rightarrow> (poll_world \<times> bool) outcome" where
  "register e up t r w =
     and_then (ctl_add up e t r w) (\<lambda>w1.
     let xistingfd = get_fd e (up_fd up) w1 in
     Ok (w1\<lparr>inners := (inners w1)[up_inner up := trigger_event xistingfd r (inners w1 ! up_inner up)]\<rparr>, True))"

definition reregister :: "nat \<Rightarrow> user_poll \<Rightarrow> usize \<Rightarrow> ready \<Rightarrow> poll_world \<Rightarrow> (poll_world \<times> bool) outcome" where
  "reregister e up t r w = and_then (ctl_add up e t r w) (\<lambda>w1. Ok (w1, True))"

definition deregister :: "nat \<Rightarrow> user_poll \<Rightarrow> poll_world \<Rightarrow> poll_world outcome" where
  "deregister e up w = Ok (ctl_rem up e w)"

definition set_readiness :: "nat \<Rightarrow> ready \<Rightarrow> poll_world \<Rightarrow> poll_world" where
  "set_readiness e rdy w =
     foldl (\<lambda>w (fd_poll, fd_self, inner). w\<lparr>inners := (inners w)[inner := trigger_event fd_self rdy (inners w ! inner)]\<rparr>)
       w (sort_key (\<lambda>en. unat (fst en)) (regs w ! e))"

section \<open>A queue\<close>

text \<open>What a poll promises: events come out in the order in which they went in, each once.\<close>

locale event_queue =
  fixes abs :: "'q \<Rightarrow> 'e list"
    and enq :: "'e \<Rightarrow> 'q \<Rightarrow> 'q"
    and deq :: "nat \<Rightarrow> 'q \<Rightarrow> 'q \<times> 'e list"
  assumes abs_enq: "abs (enq e q) = abs q @ [e]"
    and deq_front: "snd (deq n q) = take n (abs q)"
    and abs_deq: "abs (fst (deq n q)) = drop n (abs q)"
begin

lemma deq_split: "snd (deq n q) @ abs (fst (deq n q)) = abs q"
  by (simp add: deq_front abs_deq)

lemma enq_then_deq: "length (abs q) < n \<Longrightarrow> snd (deq n (enq e q)) = abs q @ [e]"
  by (simp add: deq_front abs_enq)

end

definition push_event :: "user_event \<Rightarrow> user_poll_inner \<Rightarrow> user_poll_inner" where
  "push_event e p = p\<lparr>ev_queue := e # ev_queue p\<rparr>"

function events_drain :: "user_events \<Rightarrow> user_event list" where
  "events_drain evs = (case events_next evs of (evs', None) \<Rightarrow> [] | (evs', Some e) \<Rightarrow> e # events_drain evs')"
  by pat_completeness auto
termination
  by (relation "measure (\<lambda>evs. length (content evs))") (auto simp: events_next_def split: if_splits)

declare events_drain.simps [simp del]

lemma events_drain_rev: "events_drain evs = rev (content evs)"
proof (induction evs rule: events_drain.induct)
  case (1 evs)
  show ?case
  proof (cases "content evs = []")
    case True
    then show ?thesis by (subst events_drain.simps) (simp add: events_next_def)
  next
    case False
    have "events_drain evs = last (content evs) # rev (butlast (content evs))"
      using 1 False by (subst events_drain.simps) (simp add: events_next_def)
    also have "\<dots> = rev (butlast (content evs) @ [last (content evs)])" by simp
    finally show ?thesis using False by simp
  qed
qed

text \<open>The events one call of \<open>poll\<close> moves, as the iterator returns them.\<close>

definition take_batch :: "nat \<Rightarrow> user_poll_inner \<Rightarrow> user_poll_inner \<times> user_event list" where
  "take_batch n p =
     (let ql = length (ev_queue p); nb_mov = min n ql in
      (p\<lparr>ev_queue := take (ql - nb_mov) (ev_queue p)\<rparr>, rev (drop (ql - nb_mov) (ev_queue p))))"

interpretation pq: event_queue "\<lambda>p. rev (ev_queue p)" push_event take_batch
  by unfold_locales (auto simp: push_event_def take_batch_def Let_def take_rev drop_rev min_def)

lemma trigger_event_push:
  "trigger_event fd r p =
     (case map_of (items p) fd of
        Some item \<Rightarrow> if topics_contains (ui_topics item) r then push_event \<lparr>ev_kind = r, ev_token = ui_token item\<rparr> p else p
      | None \<Rightarrow> p)"
  by (auto simp: trigger_event_def push_event_def split: option.splits)

lemma poll_batch:
  "poll up (with_capacity n) w =
     (if up_suspendable up \<and> ev_queue (inners w ! up_inner up) = [] then None
      else let (p', out) = take_batch n (inners w ! up_inner up) in
           Some (w\<lparr>inners := (inners w)[up_inner up := p']\<rparr>, \<lparr>size_limit = n, content = rev out\<rparr>, length out))"
  by (simp add: poll_def take_batch_def with_capacity_def Let_def)

lemma topic_kept: "s OR m = (s :: u8) \<Longrightarrow> (s OR k) OR m = s OR k"
  by (metis or.assoc or.commute)

lemma new_fd_loop_fresh: "new_fd_loop its fd0 i = Some fd \<Longrightarrow> map_of its fd = None \<and> fd \<noteq> FD_UNDEFINED"
proof (induction its fd0 i rule: new_fd_loop.induct)
  case (1 its fd0 i)
  have "inc_l fd0 \<noteq> 0" by (auto simp: inc_l_def MAX_USIZE_def eq_neg_iff_add_eq_0)
  then show ?case using 1 by (subst (asm) (2) new_fd_loop.simps) (auto simp: Let_def FD_UNDEFINED_def split: if_splits)
qed

section \<open>Properties\<close>

datatype poll_op = Trig fd ready | Pull nat

fun poll_run :: "user_poll \<Rightarrow> poll_op list \<Rightarrow> poll_world \<Rightarrow> poll_world \<times> user_event list" where
  "poll_run up [] w = (w, [])"
| "poll_run up (Trig fd r # ops) w =
     poll_run up ops (w\<lparr>inners := (inners w)[up_inner up := trigger_event fd r (inners w ! up_inner up)]\<rparr>)"
| "poll_run up (Pull n # ops) w =
     (case poll up (with_capacity n) w of
        None \<Rightarrow> poll_run up ops w
      | Some (w', evs, nb) \<Rightarrow> (case poll_run up ops w' of (w'', out) \<Rightarrow> (w'', events_drain evs @ out)))"

text \<open>The events of the topics listened to, in the order in which they are triggered.\<close>

fun heard :: "(fd \<times> user_item) list \<Rightarrow> poll_op list \<Rightarrow> user_event list" where
  "heard its [] = []"
| "heard its (Pull n # ops) = heard its ops"
| "heard its (Trig fd r # ops) =
     (case map_of its fd of
        Some item \<Rightarrow> if topics_contains (ui_topics item) r then \<lparr>ev_kind = r, ev_token = ui_token item\<rparr> # heard its ops else heard its ops
      | None \<Rightarrow> heard its ops)"

text \<open>
  C37. A poll delivers the events of the topics its descriptors listen to in the order in which they
  were triggered, each once: over any sequence of triggered events and calls of \<open>poll\<close> of any
  size, what was delivered followed by what is queued is what was queued before followed by what
  was triggered.
\<close>

theorem poll_delivers_in_order:
  assumes "up_inner up < length (inners w)" and "poll_run up ops w = (w', out)"
  shows "out @ rev (ev_queue (inners w' ! up_inner up)) =
    rev (ev_queue (inners w ! up_inner up)) @ heard (items (inners w ! up_inner up)) ops"
  using assms
proof (induction up ops w arbitrary: w' out rule: poll_run.induct)
  case (2 up fd r ops w)
  let ?p = "inners w ! up_inner up"
  have "items (trigger_event fd r ?p) = items ?p" by (auto simp: trigger_event_def split: option.splits)
  moreover have "rev (ev_queue (trigger_event fd r ?p)) @ heard (items ?p) ops = rev (ev_queue ?p) @ heard (items ?p) (Trig fd r # ops)"
    by (auto simp: trigger_event_push pq.abs_enq split: option.splits)
  ultimately show ?case using 2 by simp
next
  case (3 up n ops w)
  let ?p = "inners w ! up_inner up"
  show ?case
  proof (cases "poll up (with_capacity n) w")
    case None
    then show ?thesis using 3 by simp
  next
    case (Some x)
    obtain p' o1 where tb: "take_batch n ?p = (p', o1)" by fastforce
    let ?w1 = "w\<lparr>inners := (inners w)[up_inner up := p']\<rparr>"
    have x: "x = (?w1, \<lparr>size_limit = n, content = rev o1\<rparr>, length o1)"
      using Some tb by (auto simp: poll_batch split: if_splits)
    obtain o2 where run: "poll_run up ops ?w1 = (w', o2)" and out: "out = o1 @ o2"
      using 3(4) Some x by (auto simp: events_drain_rev split: prod.splits)
    have it: "items p' = items ?p" using tb by (auto simp: take_batch_def Let_def)
    have "o2 @ rev (ev_queue (inners w' ! up_inner up)) = rev (ev_queue p') @ heard (items ?p) ops"
      using 3(2) [OF Some x [symmetric] refl _ run] 3(3) it by simp
    moreover have "o1 @ rev (ev_queue p') = rev (ev_queue ?p)" using pq.deq_split [of n ?p] tb by simp
    ultimately show ?thesis using out by simp
  qed
qed simp

theorem poll_delivers_in_order_witness:
  "\<exists>w' out. let it = \<lparr>ui_token = 7, ui_topics = 1\<rparr>;
      w = \<lparr>inners = [\<lparr>items = [(1, it)], ev_queue = [], last_new_fd = 1\<rparr>], regs = []\<rparr>;
      up = \<lparr>up_inner = 0, up_fd = 1, up_suspendable = True\<rparr>;
      ops = [Pull 4, Trig 1 Readable, Trig 2 Readable, Trig 1 Writable, Trig 1 Readable, Pull 1] in
    poll_run up ops w = (w', out) \<and>
    out @ rev (ev_queue (inners w' ! 0)) = [\<lparr>ev_kind = Readable, ev_token = 7\<rparr>, \<lparr>ev_kind = Readable, ev_token = 7\<rparr>]"
proof -
  let ?w = "\<lparr>inners = [\<lparr>items = [(1, \<lparr>ui_token = 7, ui_topics = 1\<rparr>)], ev_queue = [], last_new_fd = 1\<rparr>], regs = []\<rparr>"
  let ?up = "\<lparr>up_inner = 0, up_fd = 1, up_suspendable = True\<rparr>"
  let ?ops = "[Pull 4, Trig 1 Readable, Trig 2 Readable, Trig 1 Writable, Trig 1 Readable, Pull 1]"
  obtain w' out where run: "poll_run ?up ?ops ?w = (w', out)" by fastforce
  have heard: "heard [(1, \<lparr>ui_token = 7, ui_topics = 1\<rparr>)] ?ops = [\<lparr>ev_kind = Readable, ev_token = 7\<rparr>, \<lparr>ev_kind = Readable, ev_token = 7\<rparr>]"
    by (simp add: topics_contains_def)
  have "out @ rev (ev_queue (inners w' ! up_inner ?up)) = rev (ev_queue (inners ?w ! up_inner ?up)) @ heard (items (inners ?w ! up_inner ?up)) ?ops"
    by (rule poll_delivers_in_order [OF _ run]) simp
  then show ?thesis using run heard by (simp add: Let_def del: poll_run.simps heard.simps)
qed

text \<open>
  Registering again with another token has no effect on the token: the descriptor keeps the one
  of its first registration, and the new topic is added to the topics it had.
\<close>

theorem reregister_keeps_token:
  assumes "get_fd e (up_fd up) w = fd" and "fd \<noteq> FD_UNDEFINED" and "up_inner up < length (inners w)"
    and "map_of (items (inners w ! up_inner up)) fd = Some item"
  shows "\<exists>w'. reregister e up t r w = Ok (w', True) \<and>
    map_of (items (inners w' ! up_inner up)) fd = Some (item\<lparr>ui_topics := topics_add r (ui_topics item)\<rparr>) \<and>
    (\<forall>r'. topics_contains (ui_topics item) r' \<longrightarrow>
       trigger_event fd r' (inners w' ! up_inner up) =
       push_event \<lparr>ev_kind = r', ev_token = ui_token item\<rparr> (inners w' ! up_inner up))"
proof -
  let ?p = "inners w ! up_inner up" and ?item = "item\<lparr>ui_topics := topics_add r (ui_topics item)\<rparr>"
  let ?p' = "?p\<lparr>items := AList.update fd ?item (items ?p)\<rparr>"
  have keep: "topics_contains (topics_add r s) r'" if "topics_contains s r'" for s r'
    using that topic_kept by (auto simp: topics_contains_def topics_add_def split: ready.splits)
  have "reregister e up t r w = Ok (w\<lparr>inners := (inners w)[up_inner up := ?p']\<rparr>, True)"
    using assms by (simp add: reregister_def ctl_add_def Let_def)
  moreover have "map_of (items ?p') fd = Some ?item" by (simp add: update_conv')
  ultimately show ?thesis using assms(3) keep by (auto simp: trigger_event_push)
qed

theorem reregister_keeps_token_witness:
  "\<exists>w'. let w = \<lparr>inners = [\<lparr>items = [(1, \<lparr>ui_token = 7, ui_topics = 1\<rparr>)], ev_queue = [], last_new_fd = 1\<rparr>], regs = [[(5, 1, 0)]]\<rparr>;
      up = \<lparr>up_inner = 0, up_fd = 5, up_suspendable = True\<rparr> in
    reregister 0 up 8 Writable w = Ok (w', True) \<and>
    map_of (items (inners w' ! 0)) 1 = Some \<lparr>ui_token = 7, ui_topics = 3\<rparr>"
proof -
  let ?w = "\<lparr>inners = [\<lparr>items = [(1, \<lparr>ui_token = 7, ui_topics = 1\<rparr>)], ev_queue = [], last_new_fd = 1\<rparr>], regs = [[(5, 1, 0)]]\<rparr>"
  let ?up = "\<lparr>up_inner = 0, up_fd = 5, up_suspendable = True\<rparr>"
  have "get_fd 0 (up_fd ?up) ?w = 1" by (simp add: get_fd_def)
  moreover have "(1::fd) \<noteq> FD_UNDEFINED" by (simp add: FD_UNDEFINED_def)
  ultimately obtain w' where "reregister 0 ?up 8 Writable ?w = Ok (w', True)"
    "map_of (items (inners w' ! up_inner ?up)) 1 = Some (\<lparr>ui_token = 7, ui_topics = 1\<rparr>\<lparr>ui_topics := topics_add Writable 1\<rparr>)"
    using reregister_keeps_token [of 0 ?up ?w 1 "\<lparr>ui_token = 7, ui_topics = 1\<rparr>" 8 Writable] by auto
  then show ?thesis by (auto simp: Let_def topics_add_def)
qed

end
