(* ===== verification/Tunnelroute.thy ===== *)
theory Tunnelroute
  imports Peer Kvcache
begin

text \<open>
  The route provider of the tunnels and their caches (\<open>mydht-tunnel/src/tunnelconf.rs\<close>): the
  peers that are online and a vector of their positions, of which a random prefix is drawn for
  every route.  The random generator is a sequence of words, one for each draw.
\<close>

section \<open>State\<close>

record ('k, 'a) rp =
  rp_me :: "('k, 'a) peer"
  rp_peers :: "('k, 'a) peer list"
  rp_dests :: "('k, 'a) peer"
  positions :: "nat list"
  positions_res :: "nat list"
  routelength :: usize
  routebias :: usize
  rp_rng :: "nat \<Rightarrow> 64 word"

definition rp_new :: "bool \<Rightarrow> ('k, 'a) peer \<Rightarrow> usize \<Rightarrow> usize \<Rightarrow> (nat \<Rightarrow> 64 word) \<Rightarrow> ('k, 'a) rp outcome" where
  "rp_new ck me1 rl rb rng =
     and_then (checked_add ck rl rb) (\<lambda>n.
     Ok \<lparr>rp_me = me1, rp_peers = [], rp_dests = me1, positions = [], positions_res = replicate (unat n) 0,
         routelength = rl, routebias = rb, rp_rng = rng\<rparr>)"

definition change_route_length :: "bool \<Rightarrow> usize \<Rightarrow> usize \<Rightarrow> ('k, 'a) rp \<Rightarrow> ('k, 'a) rp outcome" where
  "change_route_length ck l b rp =
     (if l < b then Panic
      else and_then (checked_add ck l b) (\<lambda>n.
           Ok (rp\<lparr>routelength := l, routebias := b,
             positions_res := positions_res rp @ replicate (unat n - length (positions_res rp)) 0\<rparr>)))"

definition route_len :: "bool \<Rightarrow> ('k, 'a) rp \<Rightarrow> usize outcome" where
  "route_len ck rp = checked_add ck (routelength rp) (routebias rp)"

definition missing_peer :: "bool \<Rightarrow> ('k, 'a) rp \<Rightarrow> nat outcome" where
  "missing_peer ck rp =
     and_then (route_len ck rp) (\<lambda>n.
     Ok (if length (rp_peers rp) < unat n then unat n - length (rp_peers rp) else 0))"

definition add_online :: "('k, 'a) peer \<Rightarrow> ('k, 'a) rp \<Rightarrow> ('k, 'a) rp" where
  "add_online v rp =
     rp\<lparr>positions := positions rp @ [length (positions rp)], rp_peers := rp_peers rp @ [v]\<rparr>"

text \<open>\<open>Vec::swap_remove\<close> at an index in range: the last element takes its place.\<close>

definition swap_remove :: "nat \<Rightarrow> 'x list \<Rightarrow> 'x list" where
  "swap_remove i xs = butlast (xs[i := last xs])"

definition rem_online :: "('k, 'a) peer \<Rightarrow> ('k, 'a) rp \<Rightarrow> ('k, 'a) rp" where
  "rem_online v rp =
     (case position (\<lambda>tp. get_address tp = get_address v) (rp_peers rp) of
        None \<Rightarrow> rp
      | Some ix \<Rightarrow>
          let ps = swap_remove ix (rp_peers rp) in
          (case position (\<lambda>i. i = length ps) (positions rp) of
             Some ixp \<Rightarrow> rp\<lparr>rp_peers := ps, positions := swap_remove ixp (positions rp)\<rparr>
           | None \<Rightarrow> rp\<lparr>rp_peers := ps\<rparr>))"

definition next_u64 :: "('k, 'a) rp \<Rightarrow> ('k, 'a) rp \<times> 64 word" where
  "next_u64 rp = (rp\<lparr>rp_rng := (\<lambda>n. rp_rng rp (Suc n))\<rparr>, rp_rng rp 0)"

definition next_u32 :: "('k, 'a) rp \<Rightarrow> ('k, 'a) rp \<times> 64 word" where
  "next_u32 rp = (rp\<lparr>rp_rng := (\<lambda>n. rp_rng rp (Suc n))\<rparr>, take_bit 32 (rp_rng rp 0))"

definition rand_one :: "('k, 'a) rp \<Rightarrow> ('k, 'a) rp \<times> ('k, 'a) peer outcome" where
  "rand_one rp =
     (let c_len = length (rp_peers rp); (rp', r) = next_u64 rp in
      if c_len = 0 then (rp', Panic) else (rp', unwrap (vec_get (rp_peers rp) (unat r mod c_len))))"

text \<open>The number of hops of a route.\<close>

definition route_hops :: "bool \<Rightarrow> ('k, 'a) rp \<Rightarrow> (('k, 'a) rp \<times> usize) outcome" where
  "route_hops ck rp =
     (if routebias rp > 0
      then (case next_u32 rp of (rp', r) \<Rightarrow>
        and_then (checked_mul ck (routebias rp) 2) (\<lambda>m.
        and_then (checked_add ck m 1) (\<lambda>d.
        if d = 0 then Panic
        else let b = r mod d in
             if b > routebias rp
             then and_then (checked_sub ck (routelength rp) (routebias rp)) (\<lambda>x.
                  and_then (checked_add ck x b) (\<lambda>n. Ok (rp', n)))
             else and_then (checked_sub ck (routelength rp) b) (\<lambda>n. Ok (rp', n)))))
      else Ok (rp, routelength rp))"

text \<open>
  The drawing of positions: each turn moves a random one of the first \<open>end\<close> positions to the end
  of them.
\<close>

function draw_positions :: "nat \<Rightarrow> nat \<Rightarrow> nat \<Rightarrow> ('k, 'a) rp \<Rightarrow> ('k, 'a) rp outcome" where
  "draw_positions c_len min_no_repeat nb_done rp =
     (if nb_done < min_no_repeat
      then let end1 = c_len - nb_done; (rp', r) = next_u64 rp in
        if c_len \<le> nb_done then Panic
        else let pos = unat r mod end1 in
          if length (positions_res rp') \<le> nb_done \<or> length (positions rp') \<le> pos \<or> length (positions rp') \<le> end1 - 1 then Panic
          else let res = (positions_res rp')[nb_done := positions rp' ! pos];
                   p1 = (positions rp')[pos := positions rp' ! (end1 - 1)];
                   p2 = p1[end1 - 1 := res ! nb_done]
               in draw_positions c_len min_no_repeat (nb_done + 1) (rp'\<lparr>positions_res := res, positions := p2\<rparr>)
      else Ok rp)"
  by pat_completeness auto
termination by (relation "measure (\<lambda>(c, m, n, rp). m - n)") (simp_all add: next_u64_def)

declare draw_positions.simps [simp del]

text \<open>A peer that is not among those chosen, drawn until there is one.\<close>

partial_function (option) draw_other ::
    "('k, 'a) peer list \<Rightarrow> ('k, 'a) rp \<Rightarrow> (('k, 'a) rp \<times> ('k, 'a) peer) option" where
  "draw_other result rp =
     (let (rp', r) = next_u64 rp;
          pr = rp_peers rp ! (unat r mod length (rp_peers rp))
      in if list_ex (\<lambda>p. get_address p = get_address pr) result then draw_other result rp'
         else Some (rp', pr))"

declare draw_other.simps [code]

definition swap_ix :: "nat \<Rightarrow> nat \<Rightarrow> 'x list \<Rightarrow> 'x list" where
  "swap_ix a b xs = xs[a := xs ! b, b := xs ! a]"

definition end_of_route ::
    "bool \<Rightarrow> ('k, 'a) peer \<Rightarrow> ('k, 'a) rp \<Rightarrow> ('k, 'a) peer list \<Rightarrow> (('k, 'a) rp \<times> ('k, 'a) peer list) option" where
  "end_of_route sending other rp result =
     (let n = length result in
      if sending
      then map_option (\<lambda>(rp', res). (rp'\<lparr>rp_dests := other\<rparr>, res @ [other]))
        (if n > 1 \<and> get_address (last result) = get_address other
         then if n > 2 then Some (rp, swap_ix (n - 2) (n - 1) result)
              else map_option (\<lambda>(rp', p). (rp', butlast result @ [p])) (draw_other (butlast result) rp)
         else Some (rp, result))
      else map_option (\<lambda>(rp', res). (rp', res @ [rp_me rp']))
        (if n > 1 \<and> get_address (result ! 1) = get_address other
         then if n > 2 then Some (rp, swap_ix 1 2 result)
              else map_option (\<lambda>(rp', p). (rp', result[1 := p])) (draw_other result rp)
         else Some (rp, result)))"

definition rp_exact_rand ::
    "bool \<Rightarrow> bool \<Rightarrow> ('k, 'a) peer \<Rightarrow> ('k, 'a) rp \<Rightarrow> (('k, 'a) rp \<times> ('k, 'a) peer list) outcome option" where
  "rp_exact_rand ck sending other rp =
     (case route_hops ck rp of
        Panic \<Rightarrow> Some Panic
      | Err e \<Rightarrow> Some (Err e)
      | Ok (rp1, min_no_repeat) \<Rightarrow>
          let c_len = length (rp_peers rp1) in
          if c_len < unat min_no_repeat then Some Panic
          else (case draw_positions c_len (unat min_no_repeat) 0 rp1 of
             Panic \<Rightarrow> Some Panic
           | Err e \<Rightarrow> Some (Err e)
           | Ok rp2 \<Rightarrow>
               let ixs = take (unat min_no_repeat) (positions_res rp2) in
               if length (positions_res rp2) < unat min_no_repeat \<or> list_ex (\<lambda>i. length (rp_peers rp2) \<le> i) ixs then Some Panic
               else map_option Ok (end_of_route sending other rp2
                      ((if sending then [rp_me rp2] else []) @ map (\<lambda>i. rp_peers rp2 ! i) ixs))))"

definition new_route ::
    "bool \<Rightarrow> ('k, 'a) peer \<Rightarrow> ('k, 'a) rp \<Rightarrow> (('k, 'a) rp \<times> ('k, 'a) peer list) outcome option" where
  "new_route ck dest rp = rp_exact_rand ck True dest rp"

definition new_reply_route ::
    "bool \<Rightarrow> ('k, 'a) peer \<Rightarrow> ('k, 'a) rp \<Rightarrow> (('k, 'a) rp \<times> ('k, 'a) peer list) outcome option" where
  "new_reply_route ck from1 rp = rp_exact_rand ck True from1 rp"

definition rand_dest :: "('k, 'a) rp \<Rightarrow> ('k, 'a) rp \<times> ('k, 'a) peer outcome" where
  "rand_dest rp = rand_one rp"

section \<open>Caches of a tunnel\<close>

record ('ssw, 'ssr, 'erw, 'err) cached_info_manager =
  cache_ssw :: "(bytes, 'ssw) hashmap"
  cache_ssr :: "(bytes, 'ssr) hashmap"
  cache_erw :: "(bytes, 'erw) hashmap"
  cache_err :: "(bytes, 'err) hashmap"
  keylength :: nat
  cim_rng :: "nat \<Rightarrow> nat \<Rightarrow> u8"

definition io_other :: error_kind where
  "io_other = Io ''''"

definition ok_or_io :: "'x option \<Rightarrow> 'x outcome" where
  "ok_or_io x = (case x of Some v \<Rightarrow> Ok v | None \<Rightarrow> Err io_other)"

definition put_symw_tunnel where
  "put_symw_tunnel k v m = Ok (m\<lparr>cache_ssw := hashmap_add_val_c k v (cache_ssw m)\<rparr>)"

definition get_symw_tunnel where
  "get_symw_tunnel k m = ok_or_io (hashmap_get_val_c (cache_ssw m) k)"

definition remove_symw_tunnel where
  "remove_symw_tunnel k m =
     (case hashmap_remove_val_c k (cache_ssw m) of (c, v) \<Rightarrow> (m\<lparr>cache_ssw := c\<rparr>, ok_or_io v))"

definition has_symw_tunnel where
  "has_symw_tunnel k m = hashmap_has_val_c (cache_ssw m) k"

text \<open>A key of random bytes; the sequence gives the bytes of each filling.\<close>

definition new_cache_id where
  "new_cache_id m =
     (m\<lparr>cim_rng := (\<lambda>n. cim_rng m (Suc n))\<rparr>, map (cim_rng m 0) [0..<keylength m])"

definition put_symr_tunnel where
  "put_symr_tunnel v m =
     (case new_cache_id m of (m', k) \<Rightarrow> Ok (m'\<lparr>cache_ssr := hashmap_add_val_c k v (cache_ssr m')\<rparr>, k))"

definition get_symr_tunnel where
  "get_symr_tunnel k m = ok_or_io (hashmap_get_val_c (cache_ssr m) k)"

definition remove_symr_tunnel where
  "remove_symr_tunnel k m =
     (case hashmap_remove_val_c k (cache_ssr m) of (c, v) \<Rightarrow> (m\<lparr>cache_ssr := c\<rparr>, ok_or_io v))"

definition has_symr_tunnel where
  "has_symr_tunnel k m = hashmap_has_val_c (cache_ssr m) k"

definition put_errw_tunnel where
  "put_errw_tunnel k v m = Ok (m\<lparr>cache_erw := hashmap_add_val_c k v (cache_erw m)\<rparr>)"

definition get_errw_tunnel where
  "get_errw_tunnel k m = ok_or_io (hashmap_get_val_c (cache_erw m) k)"

definition has_errw_tunnel where
  "has_errw_tunnel k m = hashmap_has_val_c (cache_erw m) k"

definition put_errr_tunnel where
  "put_errr_tunnel k v m = Ok (m\<lparr>cache_err := hashmap_add_val_c k v (cache_err m)\<rparr>)"

definition get_errr_tunnel where
  "get_errr_tunnel k m = ok_or_io (hashmap_get_val_c (cache_err m) k)"

definition has_errr_tunnel where
  "has_errr_tunnel k m = hashmap_has_val_c (cache_err m) k"

section \<open>Drawing positions\<close>

lemma length_swap_remove [simp]: "i < length xs \<Longrightarrow> length (swap_remove i xs) = length xs - 1"
  by (simp add: swap_remove_def)

lemma mset_swap_remove: "i < length xs \<Longrightarrow> mset (swap_remove i xs) = mset xs - {#xs ! i#}"
proof -
  assume i: "i < length xs"
  then obtain ys y where xs: "xs = ys @ [y]" by (cases xs rule: rev_cases) auto
  show ?thesis
  proof (cases "i = length ys")
    case True
    then show ?thesis by (simp add: swap_remove_def xs)
  next
    case False
    with i xs have "i < length ys" by simp
    then show ?thesis by (simp add: swap_remove_def xs list_update_append mset_update nth_append)
  qed
qed

lemma mset_swap_ix: "a < length xs \<Longrightarrow> b < length xs \<Longrightarrow> mset (swap_ix a b xs) = mset xs"
  unfolding swap_ix_def by (rule mset_swap)

text \<open>What drawing leaves alone.\<close>

definition same_rp :: "('k, 'a) rp \<Rightarrow> ('k, 'a) rp \<Rightarrow> bool" where
  "same_rp rp rp' \<longleftrightarrow> rp_me rp' = rp_me rp \<and> rp_peers rp' = rp_peers rp \<and> routelength rp' = routelength rp \<and>
     routebias rp' = routebias rp \<and> length (positions_res rp') = length (positions_res rp) \<and>
     mset (positions rp') = mset (positions rp)"

lemma same_rp_refl [simp]: "same_rp rp rp"
  by (simp add: same_rp_def)

lemma same_rp_trans: "same_rp a b \<Longrightarrow> same_rp b c \<Longrightarrow> same_rp a c"
  by (simp add: same_rp_def)

lemma same_rp_rng [simp]: "same_rp rp (rp\<lparr>rp_rng := r\<rparr>)" "same_rp rp (rp\<lparr>rp_dests := d\<rparr>)"
  by (simp_all add: same_rp_def)

lemma draw_turn:
  fixes ps :: "nat list"
  assumes "nb < c" and "length ps = c" and "pos < c - nb" and "nb < length rs"
    and "take nb rs = rev (drop (c - nb) ps)"
  defines "ps' \<equiv> ps[pos := ps ! (c - nb - 1), c - nb - 1 := ps ! pos]"
  shows "take (Suc nb) (rs[nb := ps ! pos]) = rev (drop (c - Suc nb) ps')"
proof -
  have e: "c - nb = Suc (c - Suc nb)" using assms(1) by simp
  have "c - Suc nb < length ps'" using assms(1,2) by (simp add: ps'_def)
  from Cons_nth_drop_Suc [OF this] have "drop (c - Suc nb) ps' = ps' ! (c - Suc nb) # drop (c - nb) ps'"
    unfolding e by simp
  also have "ps' ! (c - Suc nb) = ps ! pos" using assms(1,2) by (simp add: ps'_def)
  also have "drop (c - nb) ps' = drop (c - nb) ps"
    using assms(1-3) by (simp add: ps'_def)
  finally show ?thesis using assms(4,5) by (simp add: take_Suc_conv_app_nth)
qed

lemma draw_positions_ok:
  assumes "length (positions rp) = c" and "m \<le> c" and "m \<le> length (positions_res rp)" and "nb \<le> m"
    and "take nb (positions_res rp) = rev (drop (c - nb) (positions rp))"
  shows "\<exists>rp'. draw_positions c m nb rp = Ok rp' \<and> same_rp rp rp' \<and>
    take m (positions_res rp') = rev (drop (c - m) (positions rp'))"
  using assms(1,3-5)
proof (induction "m - nb" arbitrary: nb rp)
  case 0
  then have "draw_positions c m nb rp = Ok rp" by (subst draw_positions.simps) simp
  with 0 show ?case by simp
next
  case (Suc k)
  let ?rp' = "rp\<lparr>rp_rng := (\<lambda>n. rp_rng rp (Suc n))\<rparr>" and ?pos = "unat (rp_rng rp 0) mod (c - nb)"
  let ?res = "(positions_res rp)[nb := positions rp ! ?pos]"
  let ?ps = "(positions rp)[?pos := positions rp ! (c - nb - 1), c - nb - 1 := positions rp ! ?pos]"
  let ?rp2 = "?rp'\<lparr>positions_res := ?res, positions := ?ps\<rparr>"
  have m: "nb < m" and nb: "nb < c" and len0: "nb < length (positions_res rp)"
    using Suc.hyps(2) Suc.prems(2) assms(2) by simp_all
  have pos: "?pos < c - nb" by (rule mod_less_divisor) (use nb in simp)
  note len = len0 less_le_trans [OF pos diff_le_self]
  have step: "draw_positions c m nb rp = draw_positions c m (Suc nb) ?rp2"
    using m nb pos len Suc.prems(1)
    by (subst draw_positions.simps) (simp add: next_u64_def Let_def not_le, intro impI, linarith)
  have turn: "take (Suc nb) ?res = rev (drop (c - Suc nb) ?ps)"
    using nb Suc.prems(1) pos len(1) Suc.prems(4) by (rule draw_turn)
  have "mset ?ps = mset (positions rp)"
    using Suc.prems(1) len nb mset_swap [of "c - nb - 1" "positions rp" ?pos] by simp
  then have same: "same_rp rp ?rp2" by (simp add: same_rp_def)
  have k: "k = m - Suc nb" using Suc.hyps(2) by simp
  have l: "length (positions ?rp2) = c" "m \<le> length (positions_res ?rp2)" "Suc nb \<le> m"
    using Suc.prems(1,2) m by simp_all
  have sel: "positions_res ?rp2 = ?res" "positions ?rp2 = ?ps" by simp_all
  have tk: "take (Suc nb) (positions_res ?rp2) = rev (drop (c - Suc nb) (positions ?rp2))"
    unfolding sel by (rule turn)
  obtain rp' where run: "draw_positions c m (Suc nb) ?rp2 = Ok rp'" and same': "same_rp ?rp2 rp'"
    and res: "take m (positions_res rp') = rev (drop (c - m) (positions rp'))"
    using Suc.hyps(1) [OF k l tk] by (elim exE conjE)
  show ?case
    by (intro exI [of _ rp'] conjI same_rp_trans [OF same same'] res) (simp only: step run)
qed

section \<open>Well-formed route providers\<close>

definition rp_ok :: "('k, 'a) rp \<Rightarrow> bool" where
  "rp_ok rp \<longleftrightarrow> mset (positions rp) = mset [0..<length (rp_peers rp)] \<and>
     unat (routebias rp) \<le> unat (routelength rp) \<and>
     unat (routelength rp) + unat (routebias rp) < 2 ^ 64 \<and>
     unat (routelength rp) + unat (routebias rp) \<le> length (positions_res rp) \<and>
     distinct (map get_address (rp_me rp # rp_peers rp))"

lemma rp_ok_same: "rp_ok rp \<Longrightarrow> same_rp rp rp' \<Longrightarrow> rp_ok rp'"
  by (simp add: rp_ok_def same_rp_def)

lemma unat_add_small: "unat a + unat b < 2 ^ 64 \<Longrightarrow> unat (a + b :: usize) = unat a + unat b"
  by (simp add: unat_word_ariths)

lemma missing_peer_ok:
  "rp_ok rp \<Longrightarrow> missing_peer ck rp = Ok (unat (routelength rp) + unat (routebias rp) - length (rp_peers rp))"
  by (simp add: missing_peer_def route_len_def rp_ok_def checked_add_def unat_add_small)

lemma rp_ok_new:
  assumes "unat rb \<le> unat rl" and "unat rl + unat rb < 2 ^ 64"
  shows "\<exists>rp. rp_new ck m rl rb rng = Ok rp \<and> rp_ok rp \<and> rp_peers rp = []"
  using assms by (simp add: rp_new_def rp_ok_def checked_add_def unat_add_small)

lemma rp_ok_add_online:
  assumes "rp_ok rp" and "get_address v \<notin> get_address ` set (rp_me rp # rp_peers rp)"
  shows "rp_ok (add_online v rp)"
proof -
  have "length (positions rp) = length (rp_peers rp)"
    using assms(1) unfolding rp_ok_def by (metis size_mset length_upt minus_nat.diff_0)
  then show ?thesis using assms by (auto simp: rp_ok_def add_online_def)
qed

lemma map_swap_remove: "i < length xs \<Longrightarrow> map f (swap_remove i xs) = swap_remove i (map f xs)"
  by (simp add: swap_remove_def map_butlast map_update last_map flip: length_greater_0_conv)

lemma distinct_swap_remove:
  assumes "distinct xs" and "i < length xs" shows "distinct (swap_remove i xs)"
proof -
  obtain ys y where xs: "xs = ys @ [y]" using assms(2) by (cases xs rule: rev_cases) auto
  with assms show ?thesis
    by (cases "i = length ys") (auto simp: swap_remove_def list_update_append intro!: distinct_list_update)
qed

lemma set_swap_remove: "i < length xs \<Longrightarrow> set (swap_remove i xs) \<subseteq> set xs"
  by (metis mset_swap_remove diff_subset_eq_self mset_subset_eqD set_mset_mset subsetI)

lemma rp_ok_rem_online:
  assumes "rp_ok rp" shows "rp_ok (rem_online v rp)"
proof (cases "position (\<lambda>tp. get_address tp = get_address v) (rp_peers rp)")
  case None
  with assms show ?thesis by (simp add: rem_online_def)
next
  case (Some ix)
  let ?n = "length (rp_peers rp)" and ?ps = "swap_remove ix (rp_peers rp)"
  have ix: "ix < ?n" using position_Some [OF Some] by simp
  have perm: "mset (positions rp) = mset [0..<?n]" using assms by (simp add: rp_ok_def)
  have split: "[0..<?n] = [0..<?n - 1] @ [?n - 1]" using ix by (cases ?n) simp_all
  have "?n - 1 \<in> set (positions rp)" using mset_eq_setD [OF perm] ix by simp
  then obtain ixp where ixp: "position (\<lambda>i. i = ?n - 1) (positions rp) = Some ixp"
    using position_Ex [where p = "\<lambda>i. i = ?n - 1" and xs = "positions rp"] by blast
  have at: "ixp < length (positions rp)" "positions rp ! ixp = ?n - 1" using position_Some [OF ixp] by simp_all
  have "mset (swap_remove ixp (positions rp)) = mset [0..<?n] - {#?n - 1#}"
    using mset_swap_remove [OF at(1)] at(2) perm by simp
  also have "\<dots> = mset [0..<?n - 1]" by (subst split) simp
  finally have "mset (swap_remove ixp (positions rp)) = mset [0..<length ?ps]" using ix by simp
  moreover have "distinct (map get_address (rp_me rp # ?ps))"
  proof -
    have "distinct (map get_address ?ps)"
      using assms ix distinct_swap_remove [of "map get_address (rp_peers rp)" ix]
      by (simp add: rp_ok_def map_swap_remove)
    moreover have "set ?ps \<subseteq> set (rp_peers rp)" using ix by (rule set_swap_remove)
    ultimately show ?thesis using assms by (auto simp: rp_ok_def)
  qed
  ultimately show ?thesis using assms Some ix ixp by (simp add: rem_online_def rp_ok_def)
qed

lemma route_hops_ok:
  assumes "rp_ok rp"
  shows "\<exists>rp' n. route_hops ck rp = Ok (rp', n) \<and> same_rp rp rp' \<and> positions rp' = positions rp \<and>
    unat (routelength rp) - unat (routebias rp) \<le> unat n \<and> unat n \<le> unat (routelength rp) + unat (routebias rp)"
proof (cases "routebias rp > 0")
  case False
  then have "routebias rp = 0" by (simp add: word_gt_0)
  then show ?thesis by (simp add: route_hops_def)
next
  case True
  let ?rl = "routelength rp" and ?rb = "routebias rp"
  have le: "unat ?rb \<le> unat ?rl" and lt: "unat ?rl + unat ?rb < 2 ^ 64" using assms by (simp_all add: rp_ok_def)
  let ?d = "?rb * 2 + 1" and ?r = "take_bit 32 (rp_rng rp 0)"
  have small: "unat ?rb * 2 + 1 < 2 ^ 64" using le lt by simp presburger
  have mul: "unat (?rb * 2) = unat ?rb * 2" using small by (simp add: unat_word_ariths)
  have d: "unat ?d = unat ?rb * 2 + 1" using mul small by (simp add: unat_word_ariths)
  have c1: "checked_mul ck ?rb 2 = Ok (?rb * 2)" using small by (simp add: checked_mul_def)
  have c2: "checked_add ck (?rb * 2) 1 = Ok ?d" using small mul by (simp add: checked_add_def)
  have b: "unat (?r mod ?d) \<le> unat ?rb * 2"
    unfolding unat_mod d using mod_less_divisor [of "unat ?rb * 2 + 1" "unat ?r"] by linarith
  have nz: "?d \<noteq> 0" using d by (metis Suc_eq_plus1 nat.distinct(1) unat_0)
  show ?thesis
  proof (cases "?r mod ?d > ?rb")
    case up: True
    then have gt: "unat ?rb < unat (?r mod ?d)" by (simp add: word_less_nat_alt)
    let ?x = "?rl - ?rb"
    have x: "unat ?x = unat ?rl - unat ?rb" using le by (rule unat_sub_le)
    have "unat ?x + unat (?r mod ?d) \<le> unat ?rl + unat ?rb" using x b le by linarith
    then have n: "checked_add ck ?x (?r mod ?d) = Ok (?x + ?r mod ?d)"
      "unat (?x + ?r mod ?d) = unat ?x + unat (?r mod ?d)"
      using lt by (simp_all add: checked_add_def unat_add_small)
    show ?thesis
      using True c1 c2 nz up le n(1) gt n(2) x b
      by (simp add: route_hops_def next_u32_def Let_def) linarith
  next
    case False
    then have down: "unat (?r mod ?d) \<le> unat ?rb" by (simp add: word_less_nat_alt not_less)
    then have n: "unat (?rl - ?r mod ?d) = unat ?rl - unat (?r mod ?d)" using le by (intro unat_sub_le) simp
    show ?thesis
      using True c1 c2 nz False le down n
      by (simp add: route_hops_def next_u32_def Let_def) linarith
  qed
qed

section \<open>Routes\<close>

text \<open>The positions drawn are distinct, so that the peers at them are.\<close>

lemma drawn_peers:
  assumes ok: "rp_ok rp" and "m \<le> length (rp_peers rp)" and "take m (positions_res rp) = rev (drop c (positions rp))"
    and "m \<le> length (positions_res rp)"
  defines "hops \<equiv> map (\<lambda>i. rp_peers rp ! i) (take m (positions_res rp))"
  shows "list_all (\<lambda>i. i < length (rp_peers rp)) (take m (positions_res rp))"
    and "distinct (map get_address hops)" and "set hops \<subseteq> set (rp_peers rp)" and "length hops = m"
proof -
  have "distinct (positions rp)" and ps: "set (positions rp) = {0..<length (rp_peers rp)}"
    using ok mset_eq_imp_distinct_iff mset_eq_setD unfolding rp_ok_def by (metis distinct_upt) (metis ok rp_ok_def mset_eq_setD set_upt)
  then have d: "distinct (take m (positions_res rp))" and s: "set (take m (positions_res rp)) \<subseteq> {0..<length (rp_peers rp)}"
    unfolding assms(3) using set_drop_subset [of c "positions rp"] by auto
  then show "list_all (\<lambda>i. i < length (rp_peers rp)) (take m (positions_res rp))"
    by (auto simp: list_all_iff)
  show "set hops \<subseteq> set (rp_peers rp)" using s by (auto simp: hops_def)
  show "length hops = m" using assms(4) by (simp add: hops_def)
  have "distinct (map get_address (rp_peers rp))" using ok by (simp add: rp_ok_def)
  then have "inj_on (\<lambda>i. map get_address (rp_peers rp) ! i) {0..<length (rp_peers rp)}"
    by (simp add: inj_on_nth)
  then have "inj_on (\<lambda>i. map get_address (rp_peers rp) ! i) (set (take m (positions_res rp)))"
    using s by (rule inj_on_subset)
  moreover have "map get_address hops = map (\<lambda>i. map get_address (rp_peers rp) ! i) (take m (positions_res rp))"
    using s by (auto simp: hops_def)
  ultimately show "distinct (map get_address hops)" using d by (simp only: distinct_map)
qed

text \<open>The end of a route: with two hops or more the last one is not the destination.\<close>

lemma draw_other_first:
  assumes "\<forall>p\<in>set result. get_address p \<notin> get_address ` set (rp_peers rp)" and "rp_peers rp \<noteq> []"
  shows "\<exists>rp' p. draw_other result rp = Some (rp', p) \<and> same_rp rp rp' \<and> p \<in> set (rp_peers rp)"
proof -
  let ?p = "rp_peers rp ! (unat (rp_rng rp 0) mod length (rp_peers rp))"
  have p: "?p \<in> set (rp_peers rp)" using assms(2) by (intro nth_mem mod_less_divisor) simp
  then have "\<not> list_ex (\<lambda>q. get_address q = get_address ?p) result"
    using assms(1) by (force simp: list_ex_iff)
  then have "draw_other result rp = Some (rp\<lparr>rp_rng := \<lambda>n. rp_rng rp (Suc n)\<rparr>, ?p)"
    by (subst draw_other.simps) (simp add: next_u64_def)
  with p show ?thesis by (simp add: same_rp_def)
qed

lemma swap_last_two: "swap_ix (Suc (length xs) - 1) (Suc (length xs)) (xs @ [x, y]) = xs @ [y, x]"
  by (simp add: swap_ix_def list_update_append nth_append)

lemma end_of_route_ok:
  assumes "rp_me rp = m" and "get_address m \<notin> get_address ` set (rp_peers rp)"
    and "distinct (map get_address hops)" and "set hops \<subseteq> set (rp_peers rp)"
  shows "\<exists>rp' hops'. end_of_route True dest rp (m # hops) = Some (rp', m # hops' @ [dest]) \<and> same_rp rp rp' \<and>
    distinct (map get_address hops') \<and> set hops' \<subseteq> set (rp_peers rp) \<and> length hops' = length hops \<and>
    (2 \<le> length hops' \<longrightarrow> get_address (last hops') \<noteq> get_address dest)"
proof -
  consider (keep) "hops = [] \<or> get_address (last hops) \<noteq> get_address dest"
    | (one) h where "hops = [h]" "get_address h = get_address dest"
    | (swap) hs x y where "hops = hs @ [x, y]" "get_address y = get_address dest"
    by (cases hops rule: rev_cases; cases "butlast hops" rule: rev_cases) auto
  then show ?thesis
  proof cases
    case keep
    then have "end_of_route True dest rp (m # hops) = Some (rp\<lparr>rp_dests := dest\<rparr>, m # hops @ [dest])"
      by (auto simp: end_of_route_def)
    with keep assms show ?thesis by fastforce
  next
    case one
    then have "rp_peers rp \<noteq> []" using assms(4) by auto
    then obtain rp' p where "draw_other [m] rp = Some (rp', p)" "same_rp rp rp'" "p \<in> set (rp_peers rp)"
      using draw_other_first [of "[m]" rp] assms(2) by auto
    with one show ?thesis
      by (intro exI [of _ "rp'\<lparr>rp_dests := dest\<rparr>"] exI [of _ "[p]"])
        (auto simp: end_of_route_def intro: same_rp_trans)
  next
    case swap
    have "end_of_route True dest rp (m # hops) = Some (rp\<lparr>rp_dests := dest\<rparr>, m # (hs @ [y, x]) @ [dest])"
      using swap swap_last_two [of "m # hs" x y] by (simp add: end_of_route_def)
    moreover have "get_address x \<noteq> get_address dest" using assms(3) swap by auto
    ultimately show ?thesis using assms(3,4) swap(1)
      by (intro exI [of _ "rp\<lparr>rp_dests := dest\<rparr>"] exI [of _ "hs @ [y, x]"]) auto
  qed
qed

lemma new_route_ok:
  assumes ok: "rp_ok rp" and enough: "unat (routelength rp) + unat (routebias rp) \<le> length (rp_peers rp)"
  shows "\<exists>rp' hops. new_route ck dest rp = Some (Ok (rp', rp_me rp # hops @ [dest])) \<and> same_rp rp rp' \<and>
    distinct (map get_address hops) \<and> set hops \<subseteq> set (rp_peers rp) \<and>
    unat (routelength rp) - unat (routebias rp) \<le> length hops \<and>
    length hops \<le> unat (routelength rp) + unat (routebias rp) \<and>
    (2 \<le> length hops \<longrightarrow> get_address (last hops) \<noteq> get_address dest)"
proof -
  obtain rp1 n where hops: "route_hops ck rp = Ok (rp1, n)" and s1: "same_rp rp rp1"
    and n: "unat (routelength rp) - unat (routebias rp) \<le> unat n" "unat n \<le> unat (routelength rp) + unat (routebias rp)"
    using route_hops_ok [OF ok] by blast
  have ok1: "rp_ok rp1" using ok s1 by (rule rp_ok_same)
  have peers1: "rp_peers rp1 = rp_peers rp" "rp_me rp1 = rp_me rp" using s1 by (simp_all add: same_rp_def)
  let ?c = "length (rp_peers rp1)"
  have len: "length (positions rp1) = ?c" using ok1 unfolding rp_ok_def by (metis size_mset length_upt minus_nat.diff_0)
  have small: "unat n \<le> ?c" "unat n \<le> length (positions_res rp1)"
    using n enough ok s1 by (simp_all add: peers1 rp_ok_def same_rp_def)
  obtain rp2 where draw: "draw_positions ?c (unat n) 0 rp1 = Ok rp2" and s2: "same_rp rp1 rp2"
    and res: "take (unat n) (positions_res rp2) = rev (drop (?c - unat n) (positions rp2))"
    using draw_positions_ok [OF len small, of 0] len by auto
  have ok2: "rp_ok rp2" using ok1 s2 by (rule rp_ok_same)
  have peers2: "rp_peers rp2 = rp_peers rp" "rp_me rp2 = rp_me rp" and l2: "unat n \<le> length (positions_res rp2)"
    using s2 peers1 small by (simp_all add: same_rp_def)
  let ?hops = "map (\<lambda>i. rp_peers rp2 ! i) (take (unat n) (positions_res rp2))"
  note dp = drawn_peers [OF ok2 _ res l2, unfolded peers2, OF small(1) [unfolded peers1]]
  have "get_address (rp_me rp) \<notin> get_address ` set (rp_peers rp2)"
    using ok by (auto simp: rp_ok_def peers2)
  then obtain rp' hops' where e: "end_of_route True dest rp2 (rp_me rp # ?hops) = Some (rp', rp_me rp # hops' @ [dest])"
    and s3: "same_rp rp2 rp'" and h: "distinct (map get_address hops')" "set hops' \<subseteq> set (rp_peers rp)"
      "length hops' = unat n" "2 \<le> length hops' \<longrightarrow> get_address (last hops') \<noteq> get_address dest"
    using end_of_route_ok [OF peers2(2) _ dp(2) [folded peers2(1)] dp(3) [folded peers2(1)], of dest] dp(4)
    by (auto simp: peers2)
  have "new_route ck dest rp = Some (Ok (rp', rp_me rp # hops' @ [dest]))"
    using small dp(1) l2 e
    by (simp add: new_route_def rp_exact_rand_def hops draw Let_def peers2 list_ex_iff list_all_iff not_le)
  moreover have "same_rp rp rp'" using same_rp_trans [OF same_rp_trans [OF s1 s2] s3] .
  ultimately show ?thesis using h n by auto
qed

text \<open>The states a route provider reaches.  A peer that comes online is not known yet.\<close>

inductive rp_reach :: "bool \<Rightarrow> ('k, 'a) peer \<Rightarrow> usize \<Rightarrow> usize \<Rightarrow> (nat \<Rightarrow> 64 word) \<Rightarrow> ('k, 'a) rp \<Rightarrow> bool"
  for ck m rl rb rng where
  rp_start: "unat rb \<le> unat rl \<Longrightarrow> unat rl + unat rb < 2 ^ 64 \<Longrightarrow> rp_new ck m rl rb rng = Ok rp \<Longrightarrow> rp_reach ck m rl rb rng rp"
| rp_online: "rp_reach ck m rl rb rng rp \<Longrightarrow> get_address v \<notin> get_address ` set (rp_me rp # rp_peers rp) \<Longrightarrow>
    rp_reach ck m rl rb rng (add_online v rp)"
| rp_offline: "rp_reach ck m rl rb rng rp \<Longrightarrow> rp_reach ck m rl rb rng (rem_online v rp)"
| rp_draw: "rp_reach ck m rl rb rng rp \<Longrightarrow> missing_peer ck rp = Ok 0 \<Longrightarrow>
    new_route ck dest rp = Some (Ok (rp', route)) \<Longrightarrow> rp_reach ck m rl rb rng rp'"
| rp_dest: "rp_reach ck m rl rb rng rp \<Longrightarrow> rand_dest rp = (rp', r) \<Longrightarrow> rp_reach ck m rl rb rng rp'"

lemma rp_reach_ok:
  "rp_reach ck m rl rb rng rp \<Longrightarrow> rp_ok rp \<and> rp_me rp = m \<and> routelength rp = rl \<and> routebias rp = rb"
proof (induction rule: rp_reach.induct)
  case (rp_start rp)
  then show ?case using rp_ok_new [of rb rl ck m rng] by (auto simp: rp_new_def and_then_eq_Ok)
next
  case (rp_online rp v)
  then show ?case using rp_ok_add_online [of rp v] by (simp add: add_online_def)
next
  case (rp_offline rp v)
  then show ?case using rp_ok_rem_online [of rp v] by (auto simp: rem_online_def Let_def split: option.splits)
next
  case (rp_draw rp dest rp' route)
  then have "unat (routelength rp) + unat (routebias rp) \<le> length (rp_peers rp)"
    using missing_peer_ok [of rp ck] by simp
  then obtain rp2 where "new_route ck dest rp = Some (Ok (rp2, route))" "same_rp rp rp2"
    using rp_draw new_route_ok [of rp ck dest] by auto
  then show ?case using rp_draw rp_ok_same [of rp rp'] by (auto simp: same_rp_def)
next
  case (rp_dest rp rp' r)
  then have "same_rp rp rp'"
    by (auto simp: rand_dest_def rand_one_def next_u64_def Let_def same_rp_def split: if_splits)
  then show ?case using rp_dest rp_ok_same [of rp rp'] by (auto simp: same_rp_def)
qed

section \<open>Properties\<close>


text \<open>
  A route of one hop may go through the destination: the peer that replaces it is only compared
  with the node itself, so that it may be the destination again.
\<close>

lemma one_hop_through_destination:
  "\<exists>rp rp'. rp_new True \<lparr>get_key = 0, get_address = 0\<rparr> 1 0 (\<lambda>n. 0) = Ok rp \<and>
    new_route True \<lparr>get_key = 1, get_address = 10\<rparr> (add_online \<lparr>get_key = 1, get_address = 10\<rparr> rp) =
      Some (Ok (rp', [\<lparr>get_key = 0, get_address = 0 :: nat\<rparr>, \<lparr>get_key = 1 :: nat, get_address = 10\<rparr>, \<lparr>get_key = 1, get_address = 10\<rparr>]))"
  by (simp add: rp_new_def checked_add_def add_online_def new_route_def rp_exact_rand_def route_hops_def
      draw_positions.simps draw_other.simps end_of_route_def next_u64_def Let_def)

section \<open>Witnesses\<close>


end
