(* ===== verification/Dests.thy ===== *)
theory Dests
  imports Mainloop Kvservice
begin

text \<open>
  The destinations that take the replies of the services to the other processes:
  \<open>GlobalDest\<close>, \<open>LocalDest\<close> and the default local service (\<open>mydht/src/procs/deflocal.rs\<close>),
  \<open>OptPeerGlobalDest\<close> of the peer store (\<open>storeprop.rs\<close>), \<open>ReadDest\<close> (\<open>server2.rs\<close>), the services of a
  synchronous transport (\<open>synch_transport.rs\<close>) and the command of a disabled service
  (\<open>noservice.rs\<close>).

  A destination holds optional handles of services.  A handle may answer that its service is
  finished, then the message comes back, the handle is dropped and the message goes to the main
  loop, which has handles of all services.  What is sent is a log; what the handles and the
  channel of the main loop answer may depend on it.
\<close>

section \<open>State\<close>

datatype ('k, 'a, 'l, 'c, 'f, 'g, 'lr, 'gr, 'rs, 'ws) delivery =
    ToMain "('k, 'a, 'l, 'c, 'f, 'g, 'lr, 'gr, 'rs, 'ws) mlc"
  | ToApi "('k, 'a, 'l, 'c, 'f, 'g, 'lr, 'gr, 'rs, 'ws) api_cmd"
  | ToPeerstore "(('k, 'a) peer, ('k, 'a, 'f, 'g) peer_command) global_command"
  | ToGlobal "(('k, 'a) peer, 'c) global_command"
  | ToWrite "('k, 'a, 'l, 'c, 'f, 'g) wcmd"
  | ToPeermgmt "(('k, 'a) peer, ('k, 'a, 'l, 'c, 'f, 'g, 'lr, 'gr, 'rs, 'ws) mlc) peermgmt_command"

type_synonym ('k, 'a, 'l, 'c, 'f, 'g, 'lr, 'gr, 'rs, 'ws) dlog_t =
  "('k, 'a, 'l, 'c, 'f, 'g, 'lr, 'gr, 'rs, 'ws) delivery list"

record ('k, 'a, 'l, 'c, 'f, 'g, 'lr, 'gr, 'rs, 'ws) dest =
  dlog :: "('k, 'a, 'l, 'c, 'f, 'g, 'lr, 'gr, 'rs, 'ws) dlog_t"

record ('k, 'a, 'l, 'c, 'f, 'g, 'lr, 'gr, 'rs, 'ws) global_dest = "('k, 'a, 'l, 'c, 'f, 'g, 'lr, 'gr, 'rs, 'ws) dest" +
  gd_api :: bool
  gd_peerstore :: bool

text \<open>\<open>od_build\<close> says that the handle of the global service is still to be taken from the place it
  is built in.\<close>

record ('k, 'a, 'l, 'c, 'f, 'g, 'lr, 'gr, 'rs, 'ws) opt_peer_dest = "('k, 'a, 'l, 'c, 'f, 'g, 'lr, 'gr, 'rs, 'ws) dest" +
  od_api :: bool
  od_global :: bool
  od_build :: bool

record ('k, 'a, 'l, 'c, 'f, 'g, 'lr, 'gr, 'rs, 'ws) read_dest = "('k, 'a, 'l, 'c, 'f, 'g, 'lr, 'gr, 'rs, 'ws) dest" +
  rd_global :: bool
  rd_write :: bool
  rd_token :: usize

record ('k, 'a, 'l, 'c, 'f, 'g, 'lr, 'gr, 'rs, 'ws) local_dest = "('k, 'a, 'l, 'c, 'f, 'g, 'lr, 'gr, 'rs, 'ws) read_dest" +
  ld_api :: bool

record ('k, 'a, 'l, 'c, 'f, 'g, 'lr, 'gr, 'rs, 'ws) dest_env =
  d_send :: "('k, 'a, 'l, 'c, 'f, 'g, 'lr, 'gr, 'rs, 'ws) dlog_t \<Rightarrow> ('k, 'a, 'l, 'c, 'f, 'g, 'lr, 'gr, 'rs, 'ws) delivery \<Rightarrow> send_res"
  d_io :: "('k, 'a, 'l, 'c, 'f, 'g, 'lr, 'gr, 'rs, 'ws) dlog_t \<Rightarrow> ('k, 'a, 'l, 'c, 'f, 'g, 'lr, 'gr, 'rs, 'ws) delivery \<Rightarrow> error_kind option"
  d_built :: "('k, 'a, 'l, 'c, 'f, 'g, 'lr, 'gr, 'rs, 'ws) dlog_t \<Rightarrow> bool"
  d_reply_id :: "'gr \<Rightarrow> usize option"
  d_build_command :: "('k, 'a) peer peer_status_command \<Rightarrow> 'c option"

type_synonym ('k, 'a, 'l, 'c, 'f, 'g, 'lr, 'gr, 'rs, 'ws, 'z) dest_act =
  "(('k, 'a, 'l, 'c, 'f, 'g, 'lr, 'gr, 'rs, 'ws, 'z) dest_scheme, unit) act"

section \<open>Sending\<close>

definition log_delivery ::
    "('k, 'a, 'l, 'c, 'f, 'g, 'lr, 'gr, 'rs, 'ws) delivery \<Rightarrow> ('k, 'a, 'l, 'c, 'f, 'g, 'lr, 'gr, 'rs, 'ws, 'z) dest_act" where
  "log_delivery ev = modify (\<lambda>s. s\<lparr>dlog := dlog s @ [ev]\<rparr>)"

text \<open>A channel: the main loop's or the peer management's.\<close>

definition channel_send ::
    "('k, 'a, 'l, 'c, 'f, 'g, 'lr, 'gr, 'rs, 'ws) dest_env \<Rightarrow> ('k, 'a, 'l, 'c, 'f, 'g, 'lr, 'gr, 'rs, 'ws) delivery
      \<Rightarrow> ('k, 'a, 'l, 'c, 'f, 'g, 'lr, 'gr, 'rs, 'ws, 'z) dest_act" where
  "channel_send env ev =
     bind (gets (\<lambda>s. d_io env (dlog s) ev)) (\<lambda>r.
     case r of None \<Rightarrow> log_delivery ev | Some e \<Rightarrow> fail (LoopErr e))"

text \<open>\<open>send_with_handle\<close> on an optional handle; the result says that the message came back.\<close>

definition handle_send ::
    "('k, 'a, 'l, 'c, 'f, 'g, 'lr, 'gr, 'rs, 'ws) dest_env \<Rightarrow> bool \<Rightarrow> ('k, 'a, 'l, 'c, 'f, 'g, 'lr, 'gr, 'rs, 'ws) delivery
      \<Rightarrow> (('k, 'a, 'l, 'c, 'f, 'g, 'lr, 'gr, 'rs, 'ws, 'z) dest_scheme, bool) act" where
  "handle_send env present ev =
     (if present
      then bind (gets (\<lambda>s. d_send env (dlog s) ev)) (\<lambda>r.
           case r of
             Sent \<Rightarrow> bind (log_delivery ev) (\<lambda>_. ret False)
           | Finished \<Rightarrow> ret True
           | SendErr e \<Rightarrow> fail (LoopErr e))
      else ret True)"

text \<open>A message that comes back drops a handle (\<open>drop\<close>) and goes to the main loop as \<open>proxy\<close>.\<close>

definition handle_or_main ::
    "('k, 'a, 'l, 'c, 'f, 'g, 'lr, 'gr, 'rs, 'ws) dest_env \<Rightarrow> (('k, 'a, 'l, 'c, 'f, 'g, 'lr, 'gr, 'rs, 'ws, 'z) dest_scheme \<Rightarrow> bool)
      \<Rightarrow> (('k, 'a, 'l, 'c, 'f, 'g, 'lr, 'gr, 'rs, 'ws, 'z) dest_scheme \<Rightarrow> ('k, 'a, 'l, 'c, 'f, 'g, 'lr, 'gr, 'rs, 'ws, 'z) dest_scheme)
      \<Rightarrow> ('k, 'a, 'l, 'c, 'f, 'g, 'lr, 'gr, 'rs, 'ws) delivery \<Rightarrow> ('k, 'a, 'l, 'c, 'f, 'g, 'lr, 'gr, 'rs, 'ws) mlc
      \<Rightarrow> ('k, 'a, 'l, 'c, 'f, 'g, 'lr, 'gr, 'rs, 'ws, 'z) dest_act" where
  "handle_or_main env present drop_handle ev proxy =
     bind (gets present) (\<lambda>here.
     bind (handle_send env here ev) (\<lambda>back.
     if back then bind (modify drop_handle) (\<lambda>_. channel_send env (ToMain proxy)) else ret ()))"

lemma for_each_cong [fundef_cong]:
  "xs = ys \<Longrightarrow> (\<And>x. x \<in> set ys \<Longrightarrow> f x = g x) \<Longrightarrow> for_each f xs = for_each g ys"
proof (induction xs arbitrary: ys)
  case (Cons x xs)
  then show ?case by (cases ys) auto
qed simp

section \<open>The destination of the global service\<close>

definition global_api_reply ::
    "('k, 'a, 'l, 'c, 'f, 'g, 'lr, 'gr, 'rs, 'ws) dest_env \<Rightarrow> usize option \<Rightarrow> ('k, 'a, 'lr, 'gr) mc_rep
      \<Rightarrow> (('k, 'a, 'l, 'c, 'f, 'g, 'lr, 'gr, 'rs, 'ws) global_dest, unit) act" where
  "global_api_reply env id1 c =
     (if id1 \<noteq> None
      then handle_or_main env gd_api (\<lambda>s. s\<lparr>gd_api := False\<rparr>) (ToApi (ApiServiceReply c)) (MLProxyApiReply c)
      else ret ())"

fun global_dest_send ::
    "('k, 'a, 'l, 'c, 'f, 'g, 'lr, 'gr, 'rs, 'ws) dest_env \<Rightarrow> ('k, 'a, 'f, 'g, 'c, 'gr) global_reply
      \<Rightarrow> (('k, 'a, 'l, 'c, 'f, 'g, 'lr, 'gr, 'rs, 'ws) global_dest, unit) act" where
  "global_dest_send env (Mult cmds) = for_each (global_dest_send env) cmds"
| "global_dest_send env (MainLoopRep mlc) = channel_send env (ToMain (MLSubCommand mlc))"
| "global_dest_send env (PeerApi c) = global_api_reply env (kv_reply_api_reply c) (MRPeerStore c)"
| "global_dest_send env (ApiRep c) = global_api_reply env (d_reply_id env c) (MRGlobal c)"
| "global_dest_send env (PeerForward opr okad fw gsc) = channel_send env (ToMain (MLForwardService opr okad fw (MCPeerStore gsc)))"
| "global_dest_send env (Forward opr okad fw gsc) = channel_send env (ToMain (MLForwardService opr okad fw (MCGlobal gsc)))"
| "global_dest_send env (ForwardOnce ok oad fw gsc) = channel_send env (ToMain (MLForwardServiceOnce ok oad fw gsc))"
| "global_dest_send env (PeerStoreRep k) =
     handle_or_main env gd_peerstore (\<lambda>s. s\<lparr>gd_api := False\<rparr>) (ToPeerstore (GLocal k)) (MLPeerStore (GLocal k))"
| "global_dest_send env (GlobalSendPeer _) = panic"
| "global_dest_send env NoRep = ret ()"

section \<open>The destination of the peer store\<close>

definition opt_api_reply ::
    "('k, 'a, 'l, 'c, 'f, 'g, 'lr, 'gr, 'rs, 'ws) dest_env \<Rightarrow> ('k, 'a) peer kv_reply
      \<Rightarrow> (('k, 'a, 'l, 'c, 'f, 'g, 'lr, 'gr, 'rs, 'ws) opt_peer_dest, unit) act" where
  "opt_api_reply env c =
     (if kv_reply_api_reply c \<noteq> None
      then handle_or_main env od_api (\<lambda>s. s\<lparr>od_api := False\<rparr>) (ToApi (ApiServiceReply (MRPeerStore c))) (MLProxyApiReply (MRPeerStore c))
      else ret ())"

definition opt_lazy_init ::
    "('k, 'a, 'l, 'c, 'f, 'g, 'lr, 'gr, 'rs, 'ws) dest_env
      \<Rightarrow> (('k, 'a, 'l, 'c, 'f, 'g, 'lr, 'gr, 'rs, 'ws) opt_peer_dest, unit) act" where
  "opt_lazy_init env =
     modify (\<lambda>s. if od_build s \<and> d_built env (dlog s) then s\<lparr>od_global := True, od_build := False\<rparr> else s)"

definition opt_send_peer ::
    "('k, 'a, 'l, 'c, 'f, 'g, 'lr, 'gr, 'rs, 'ws) dest_env \<Rightarrow> ('k, 'a) peer option
      \<Rightarrow> (('k, 'a, 'l, 'c, 'f, 'g, 'lr, 'gr, 'rs, 'ws) opt_peer_dest, unit) act" where
  "opt_send_peer env op1 =
     bind (opt_lazy_init env) (\<lambda>_.
     case d_build_command env (PeerQuery op1) of
       Some k \<Rightarrow> handle_or_main env od_global (\<lambda>s. s\<lparr>od_api := False\<rparr>) (ToGlobal (GLocal k)) (MLProxyGlobal (GLocal k))
     | None \<Rightarrow> ret ())"

fun opt_dest_send ::
    "('k, 'a, 'l, 'c, 'f, 'g, 'lr, 'gr, 'rs, 'ws) dest_env \<Rightarrow> ('k, 'a, 'f, 'g, ('k, 'a, 'f, 'g) peer_command, ('k, 'a) peer kv_reply) global_reply
      \<Rightarrow> (('k, 'a, 'l, 'c, 'f, 'g, 'lr, 'gr, 'rs, 'ws) opt_peer_dest, unit) act" where
  "opt_dest_send env (Mult cmds) = for_each (opt_dest_send env) cmds"
| "opt_dest_send env (MainLoopRep mlc) = channel_send env (ToMain (MLSubCommand mlc))"
| "opt_dest_send env (PeerApi c) = opt_api_reply env c"
| "opt_dest_send env (ApiRep c) = opt_api_reply env c"
| "opt_dest_send env (PeerForward opr okad fw gsc) = channel_send env (ToMain (MLForwardService opr okad fw (MCPeerStore gsc)))"
| "opt_dest_send env (Forward opr okad fw gsc) = channel_send env (ToMain (MLForwardService opr okad fw (MCPeerStore gsc)))"
| "opt_dest_send env (ForwardOnce _ _ _ _) = panic"
| "opt_dest_send env (PeerStoreRep _) = panic"
| "opt_dest_send env (GlobalSendPeer op1) = opt_send_peer env op1"
| "opt_dest_send env NoRep = ret ()"

section \<open>The destinations of the read and the local service\<close>

fun read_dest_send ::
    "('k, 'a, 'l, 'c, 'f, 'g, 'lr, 'gr, 'rs, 'ws) dest_env
      \<Rightarrow> (('k, 'a) peer, 'c, ('k, 'a, 'l, 'c, 'f, 'g) mc_cmd, ('k, 'a, 'l, 'c, 'f, 'g, 'lr, 'gr, 'rs, 'ws) mlc) read_reply
      \<Rightarrow> (('k, 'a, 'l, 'c, 'f, 'g, 'lr, 'gr, 'rs, 'ws, 'z) read_dest_scheme, unit) act" where
  "read_dest_send env (RRMainLoop mlc) = channel_send env (ToMain mlc)"
| "read_dest_send env (RRGlobal mlc) =
     handle_or_main env rd_global (\<lambda>s. s\<lparr>rd_global := False\<rparr>) (ToGlobal mlc) (MLProxyGlobal mlc)"
| "read_dest_send env (RRPeerMgmt pmc) = channel_send env (ToPeermgmt pmc)"
| "read_dest_send env (RRWrite wc) =
     bind (gets rd_token) (\<lambda>tok.
     handle_or_main env rd_write (\<lambda>s. s\<lparr>rd_write := False\<rparr>) (ToWrite wc) (MLProxyWrite tok wc))"
| "read_dest_send env (RRNewPeer _ _ _ _) = panic"
| "read_dest_send env RRNoReply = ret ()"

fun local_dest_send ::
    "('k, 'a, 'l, 'c, 'f, 'g, 'lr, 'gr, 'rs, 'ws) dest_env
      \<Rightarrow> ((('k, 'a) peer, 'c, ('k, 'a, 'l, 'c, 'f, 'g) mc_cmd, ('k, 'a, 'l, 'c, 'f, 'g, 'lr, 'gr, 'rs, 'ws) mlc) read_reply, 'lr) local_reply
      \<Rightarrow> (('k, 'a, 'l, 'c, 'f, 'g, 'lr, 'gr, 'rs, 'ws) local_dest, unit) act" where
  "local_dest_send env (LRRead rr) = read_dest_send env rr"
| "local_dest_send env (LRApi c) =
     handle_or_main env ld_api (\<lambda>s. s\<lparr>ld_api := False\<rparr>) (ToApi (ApiServiceReply (MRLocal c))) (MLProxyApiReply (MRLocal c))"

record ('k, 'a) def_local_service =
  dl_from :: "('k, 'a) peer"
  dl_with :: "('k, 'a) peer option"

definition def_local_call ::
    "'c \<Rightarrow> ('k, 'a) def_local_service
      \<Rightarrow> ((('k, 'a) peer, 'c, 'mc, 'mlc) read_reply, 'lr) local_reply loop_result" where
  "def_local_call req s = LOk (LRRead (RRGlobal (GDistant (dl_with s) req)))"

section \<open>Services of a synchronous transport\<close>

datatype ('rs, 'ws) conn_listener_out = ListenSkip | ListenConnected 'rs "'ws option"

definition conn_listener_call :: "('rs \<times> 'ws option) outcome \<Rightarrow> ('rs, 'ws) conn_listener_out loop_result" where
  "conn_listener_call accepted =
     (case accepted of
        Ok (rs, ows) \<Rightarrow> LOk (ListenConnected rs ows)
      | Err _ \<Rightarrow> LOk ListenSkip
      | Panic \<Rightarrow> LPanic)"

fun conn_listener_send ::
    "('k, 'a, 'l, 'c, 'f, 'g, 'lr, 'gr, 'rs, 'ws) dest_env \<Rightarrow> ('rs, 'ws) conn_listener_out
      \<Rightarrow> (('k, 'a, 'l, 'c, 'f, 'g, 'lr, 'gr, 'rs, 'ws) dest, unit) act" where
  "conn_listener_send env (ListenConnected rs ows) = channel_send env (ToMain (MLConnectedR rs ows))"
| "conn_listener_send env ListenSkip = ret ()"

datatype ('rs, 'ws) synch_connect_out = ConnectFailure usize | ConnectDone usize 'ws "'rs option"

definition synch_connect_call ::
    "('a \<Rightarrow> ('ws \<times> 'rs option) outcome) \<Rightarrow> usize \<times> 'a \<Rightarrow> ('rs, 'ws) synch_connect_out loop_result" where
  "synch_connect_call connectwith req =
     (case req of (slab_ix, add) \<Rightarrow>
        (case connectwith add of
           Ok (ws, ors) \<Rightarrow> LOk (ConnectDone slab_ix ws ors)
         | Err _ \<Rightarrow> LOk (ConnectFailure slab_ix)
         | Panic \<Rightarrow> LPanic))"

fun synch_connect_send ::
    "('k, 'a, 'l, 'c, 'f, 'g, 'lr, 'gr, 'rs, 'ws) dest_env \<Rightarrow> ('rs, 'ws) synch_connect_out
      \<Rightarrow> (('k, 'a, 'l, 'c, 'f, 'g, 'lr, 'gr, 'rs, 'ws) dest, unit) act" where
  "synch_connect_send env (ConnectDone slx ws ors) = channel_send env (ToMain (MLConnectedW slx ws ors))"
| "synch_connect_send env (ConnectFailure slx) = channel_send env (ToMain (MLFailConnect slx))"

section \<open>A disabled service\<close>

datatype no_command_reply = NoCommandReply

fun no_is_api_reply :: "no_command_reply \<Rightarrow> bool" where
  "no_is_api_reply NoCommandReply = False"

fun no_set_api_reply :: "usize \<Rightarrow> no_command_reply \<Rightarrow> no_command_reply" where
  "no_set_api_reply _ NoCommandReply = NoCommandReply"

fun no_get_api_reply :: "no_command_reply \<Rightarrow> usize option" where
  "no_get_api_reply NoCommandReply = None"

fun no_get_filter_mut :: "no_command_reply \<Rightarrow> 'key list option" where
  "no_get_filter_mut NoCommandReply = None"

fun no_adjust_lastsent_next_hop :: "usize \<Rightarrow> no_command_reply \<Rightarrow> no_command_reply" where
  "no_adjust_lastsent_next_hop _ NoCommandReply = NoCommandReply"

section \<open>What a reply asks for\<close>

text \<open>A message given to the main loop for another service counts as given to that service.\<close>

fun reached ::
    "('k, 'a, 'l, 'c, 'f, 'g, 'lr, 'gr, 'rs, 'ws) delivery \<Rightarrow> ('k, 'a, 'l, 'c, 'f, 'g, 'lr, 'gr, 'rs, 'ws) delivery" where
  "reached (ToMain (MLProxyApiReply mr)) = ToApi (ApiServiceReply mr)"
| "reached (ToMain (MLPeerStore gc)) = ToPeerstore gc"
| "reached (ToMain (MLProxyGlobal gc)) = ToGlobal gc"
| "reached (ToMain (MLProxyWrite _ wc)) = ToWrite wc"
| "reached d = d"

fun wanted_global ::
    "('gr \<Rightarrow> usize option) \<Rightarrow> ('k, 'a, 'f, 'g, 'c, 'gr) global_reply \<Rightarrow> ('k, 'a, 'l, 'c, 'f, 'g, 'lr, 'gr, 'rs, 'ws) dlog_t" where
  "wanted_global ids (Mult rs) = concat (map (wanted_global ids) rs)"
| "wanted_global ids (MainLoopRep mlc) = [ToMain (MLSubCommand mlc)]"
| "wanted_global ids (PeerApi c) = (if kv_reply_api_reply c = None then [] else [ToApi (ApiServiceReply (MRPeerStore c))])"
| "wanted_global ids (ApiRep c) = (if ids c = None then [] else [ToApi (ApiServiceReply (MRGlobal c))])"
| "wanted_global ids (PeerForward opr okad fw gsc) = [ToMain (MLForwardService opr okad fw (MCPeerStore gsc))]"
| "wanted_global ids (Forward opr okad fw gsc) = [ToMain (MLForwardService opr okad fw (MCGlobal gsc))]"
| "wanted_global ids (ForwardOnce ok oad fw gsc) = [ToMain (MLForwardServiceOnce ok oad fw gsc)]"
| "wanted_global ids (PeerStoreRep k) = [ToPeerstore (GLocal k)]"
| "wanted_global ids (GlobalSendPeer _) = []"
| "wanted_global ids NoRep = []"

fun wanted_peers ::
    "(('k, 'a) peer peer_status_command \<Rightarrow> 'c option)
      \<Rightarrow> ('k, 'a, 'f, 'g, ('k, 'a, 'f, 'g) peer_command, ('k, 'a) peer kv_reply) global_reply
      \<Rightarrow> ('k, 'a, 'l, 'c, 'f, 'g, 'lr, 'gr, 'rs, 'ws) dlog_t" where
  "wanted_peers bc (Mult rs) = concat (map (wanted_peers bc) rs)"
| "wanted_peers bc (MainLoopRep mlc) = [ToMain (MLSubCommand mlc)]"
| "wanted_peers bc (PeerApi c) = (if kv_reply_api_reply c = None then [] else [ToApi (ApiServiceReply (MRPeerStore c))])"
| "wanted_peers bc (ApiRep c) = (if kv_reply_api_reply c = None then [] else [ToApi (ApiServiceReply (MRPeerStore c))])"
| "wanted_peers bc (PeerForward opr okad fw gsc) = [ToMain (MLForwardService opr okad fw (MCPeerStore gsc))]"
| "wanted_peers bc (Forward opr okad fw gsc) = [ToMain (MLForwardService opr okad fw (MCPeerStore gsc))]"
| "wanted_peers bc (GlobalSendPeer op1) = (case bc (PeerQuery op1) of Some k \<Rightarrow> [ToGlobal (GLocal k)] | None \<Rightarrow> [])"
| "wanted_peers bc _ = []"

fun wanted_read ::
    "(('k, 'a) peer, 'c, ('k, 'a, 'l, 'c, 'f, 'g) mc_cmd, ('k, 'a, 'l, 'c, 'f, 'g, 'lr, 'gr, 'rs, 'ws) mlc) read_reply
      \<Rightarrow> ('k, 'a, 'l, 'c, 'f, 'g, 'lr, 'gr, 'rs, 'ws) dlog_t" where
  "wanted_read (RRMainLoop mlc) = [reached (ToMain mlc)]"
| "wanted_read (RRGlobal gc) = [ToGlobal gc]"
| "wanted_read (RRPeerMgmt pmc) = [ToPeermgmt pmc]"
| "wanted_read (RRWrite wc) = [ToWrite wc]"
| "wanted_read _ = []"

fun wanted_local ::
    "((('k, 'a) peer, 'c, ('k, 'a, 'l, 'c, 'f, 'g) mc_cmd, ('k, 'a, 'l, 'c, 'f, 'g, 'lr, 'gr, 'rs, 'ws) mlc) read_reply, 'lr) local_reply
      \<Rightarrow> ('k, 'a, 'l, 'c, 'f, 'g, 'lr, 'gr, 'rs, 'ws) dlog_t" where
  "wanted_local (LRRead rr) = wanted_read rr"
| "wanted_local (LRApi c) = [ToApi (ApiServiceReply (MRLocal c))]"

section \<open>The contract of a destination\<close>

text \<open>
  \<open>sends lg m ds\<close>: what the call \<open>m\<close> sends, as it is read off a state by \<open>lg\<close>, is \<open>ds\<close> when it succeeds
  and a prefix of \<open>ds\<close> otherwise.
\<close>

definition sends :: "('s \<Rightarrow> 'd list) \<Rightarrow> ('s, 'x) act \<Rightarrow> 'd list \<Rightarrow> bool" where
  "sends lg m ds \<longleftrightarrow>
     (\<forall>s. case m s of
        (t, LOk _) \<Rightarrow> lg t = lg s @ ds
      | (t, _) \<Rightarrow> (\<exists>n. lg t = lg s @ take n ds))"

lemma sendsD:
  assumes "sends lg m ds" and "m s = (t, r)"
  shows "\<exists>n. lg t = lg s @ take n ds" and "r = LOk x \<Longrightarrow> lg t = lg s @ ds"
proof -
  have c: "case (t, r) of (t, LOk _) \<Rightarrow> lg t = lg s @ ds | (t, _) \<Rightarrow> (\<exists>n. lg t = lg s @ take n ds)"
    using assms(1) [unfolded sends_def, rule_format, of s] assms(2) by simp
  then show "r = LOk x \<Longrightarrow> lg t = lg s @ ds" by simp
  show "\<exists>n. lg t = lg s @ take n ds"
  proof (cases r)
    case (LOk y)
    with c have "lg t = lg s @ take (length ds) ds" by simp
    then show ?thesis by blast
  qed (use c in auto)
qed

lemma sends_bind:
  assumes "sends lg m ds" and "\<And>x. sends lg (f x) es"
  shows "sends lg (bind m f) (ds @ es)"
  unfolding sends_def
proof
  fix s
  obtain t r where m: "m s = (t, r)" by fastforce
  show "case bind m f s of (t, LOk _) \<Rightarrow> lg t = lg s @ ds @ es
      | (t, _) \<Rightarrow> \<exists>n. lg t = lg s @ take n (ds @ es)"
  proof (cases r)
    case (LOk x)
    obtain u q where f: "f x t = (u, q)" by fastforce
    have t: "lg t = lg s @ ds" using sendsD(2) [OF assms(1) m LOk] .
    obtain n where "lg u = lg t @ take n es" using sendsD(1) [OF assms(2) f] by blast
    with t have "\<exists>n. lg u = lg s @ take n (ds @ es)" by (intro exI [of _ "length ds + n"]) simp
    moreover have "lg u = lg s @ ds @ es" if "q = LOk y" for y
      using sendsD(2) [OF assms(2) f that] t by simp
    moreover have "bind m f s = (u, q)" using m LOk f by (simp add: bind_def)
    ultimately show ?thesis by (cases q) (simp_all del: take_append)
  next
    case (LErr e)
    obtain n where "lg t = lg s @ take n ds" using sendsD(1) [OF assms(1) m] by blast
    then have "\<exists>n. lg t = lg s @ take n (ds @ es)"
      by (intro exI [of _ "min n (length ds)"]) (simp add: min_def)
    with m LErr show ?thesis by (simp add: bind_def)
  next
    case LPanic
    obtain n where "lg t = lg s @ take n ds" using sendsD(1) [OF assms(1) m] by blast
    then have "\<exists>n. lg t = lg s @ take n (ds @ es)"
      by (intro exI [of _ "min n (length ds)"]) (simp add: min_def)
    with m LPanic show ?thesis by (simp add: bind_def)
  qed
qed

lemma sends_quiet [intro!]:
  "sends lg (ret x) []" "sends lg (gets q) []" "(\<And>s. lg (h s) = lg s) \<Longrightarrow> sends lg (modify h) []"
  by (simp_all add: sends_def act_simps)

lemma sends_stop [intro!]: "sends lg (fail e) ds" "sends lg panic ds"
  by (auto simp: sends_def act_simps intro: exI [of _ 0])

lemma sends_for_each: "(\<And>x. x \<in> set xs \<Longrightarrow> sends lg (f x) (w x)) \<Longrightarrow> sends lg (for_each f xs) (concat (map w xs))"
  by (induction xs) (auto intro: sends_bind)

locale reply_dest =
  fixes send :: "'r \<Rightarrow> ('s, unit) act" and want :: "'r \<Rightarrow> 'd list" and got :: "'s \<Rightarrow> 'd list"
  assumes send_wanted: "sends got (send r) (want r)"
begin

lemma run_wanted: "sends got (for_each send rs) (concat (map want rs))"
  by (rule sends_for_each) (rule send_wanted)

lemma run_delivers:
  assumes "for_each send rs s = (t, res)"
  shows "\<exists>n. got t = got s @ take n (concat (map want rs))"
    and "res = LOk () \<Longrightarrow> got t = got s @ concat (map want rs)"
  using sendsD [OF run_wanted assms] by auto

end

section \<open>The destinations keep the contract\<close>

abbreviation arrived :: "('k, 'a, 'l, 'c, 'f, 'g, 'lr, 'gr, 'rs, 'ws, 'z) dest_scheme \<Rightarrow> ('k, 'a, 'l, 'c, 'f, 'g, 'lr, 'gr, 'rs, 'ws) dlog_t" where
  "arrived s \<equiv> map reached (dlog s)"

lemma sends_channel: "sends arrived (channel_send env d) [reached d]"
  by (auto simp: sends_def channel_send_def log_delivery_def act_simps bind_def split: option.splits intro: exI [of _ 0])

lemma sends_handle_or_main:
  assumes "\<And>s. dlog (h s) = dlog s" and "reached (ToMain c) = d" and "reached d = d"
  shows "sends arrived (handle_or_main env pres h d c) [d]"
proof -
  have "case handle_or_main env pres h d c s of (t, LOk _) \<Rightarrow> arrived t = arrived s @ [d]
      | (t, _) \<Rightarrow> \<exists>n. arrived t = arrived s @ take n [d]" for s
    using assms
    by (auto simp: handle_or_main_def handle_send_def channel_send_def log_delivery_def act_simps bind_def
        split: option.splits send_res.splits intro: exI [of _ 0])
  then show ?thesis by (simp add: sends_def)
qed


lemma sends_main: "reached (ToMain c) = d \<Longrightarrow> sends arrived (channel_send env (ToMain c)) [d]"
  using sends_channel by metis

lemma sends_opt_send_peer:
  "sends arrived (opt_send_peer env op1)
     (case d_build_command env (PeerQuery op1) of Some k \<Rightarrow> [ToGlobal (GLocal k)] | None \<Rightarrow> [])"
proof -
  have "sends arrived (opt_lazy_init env) []" by (auto simp: opt_lazy_init_def)
  moreover have "sends arrived
      (case d_build_command env (PeerQuery op1) of
         Some k \<Rightarrow> handle_or_main env od_global (\<lambda>s. s\<lparr>od_api := False\<rparr>) (ToGlobal (GLocal k)) (MLProxyGlobal (GLocal k))
       | None \<Rightarrow> ret ())
      (case d_build_command env (PeerQuery op1) of Some k \<Rightarrow> [ToGlobal (GLocal k)] | None \<Rightarrow> [])"
    by (auto intro: sends_handle_or_main split: option.split)
  ultimately show ?thesis unfolding opt_send_peer_def by (rule sends_bind [where ds = "[]", simplified])
qed

lemma sends_read_dest: "sends arrived (read_dest_send env r) (wanted_read r)"
proof (cases r)
  case (RRWrite wc)
  have "sends arrived (bind (gets rd_token) (\<lambda>tok.
      handle_or_main env rd_write (\<lambda>s. s\<lparr>rd_write := False\<rparr>) (ToWrite wc) (MLProxyWrite tok wc))) ([] @ [ToWrite wc])"
    by (rule sends_bind) (auto intro: sends_handle_or_main)
  with RRWrite show ?thesis by simp
qed (auto intro: sends_main sends_handle_or_main sends_channel [where d = "ToPeermgmt c" for c, simplified])

interpretation gd: reply_dest "global_dest_send env" "wanted_global (d_reply_id env)" arrived for env
proof
  fix r
  show "sends arrived (global_dest_send env r) (wanted_global (d_reply_id env) r)"
  proof (induction r)
    case (Mult rs)
    then show ?case by (auto intro: sends_for_each)
  qed (auto simp: global_api_reply_def intro: sends_main sends_handle_or_main)
qed

interpretation od: reply_dest "opt_dest_send env" "wanted_peers (d_build_command env)" arrived for env
proof
  fix r
  show "sends arrived (opt_dest_send env r) (wanted_peers (d_build_command env) r)"
  proof (induction r)
    case (Mult rs)
    then show ?case by (auto intro: sends_for_each)
  qed (auto simp: opt_api_reply_def intro: sends_main sends_handle_or_main sends_opt_send_peer)
qed

interpretation rd: reply_dest "read_dest_send env" wanted_read arrived for env
  by unfold_locales (rule sends_read_dest)

interpretation ld: reply_dest "local_dest_send env" wanted_local arrived for env
proof
  fix r
  show "sends arrived (local_dest_send env r) (wanted_local r)"
    by (cases r) (auto intro: sends_read_dest sends_handle_or_main)
qed

section \<open>Reliable channels\<close>

definition dest_reliable :: "('k, 'a, 'l, 'c, 'f, 'g, 'lr, 'gr, 'rs, 'ws) dest_env \<Rightarrow> bool" where
  "dest_reliable env \<longleftrightarrow> (\<forall>lg d. d_io env lg d = None \<and> (\<forall>e. d_send env lg d \<noteq> SendErr e))"

text \<open>A call that succeeds from every state.\<close>

definition succeeds :: "('s, 'x) act \<Rightarrow> bool" where
  "succeeds m \<longleftrightarrow> (\<forall>s. \<exists>t x. m s = (t, LOk x))"

lemma succeedsI: "(\<And>s. \<exists>t x. m s = (t, LOk x)) \<Longrightarrow> succeeds m"
  by (simp add: succeeds_def)

lemma succeeds_bind: "succeeds m \<Longrightarrow> (\<And>x. succeeds (f x)) \<Longrightarrow> succeeds (bind m f)"
  unfolding succeeds_def by (metis bind_ok)

lemma succeeds_basic [intro!]: "succeeds (ret x)" "succeeds (gets q)" "succeeds (modify h)"
  by (simp_all add: succeeds_def act_simps)

lemma succeeds_for_each: "(\<And>x. x \<in> set xs \<Longrightarrow> succeeds (f x)) \<Longrightarrow> succeeds (for_each f xs)"
  by (induction xs) (auto intro: succeeds_bind)

lemma succeeds_channel: "dest_reliable env \<Longrightarrow> succeeds (channel_send env d)"
  by (simp add: succeeds_def channel_send_def dest_reliable_def log_delivery_def act_simps bind_def)

lemma succeeds_handle_send:
  assumes "dest_reliable env" shows "succeeds (handle_send env b d)"
proof (rule succeedsI)
  fix s
  show "\<exists>t x. handle_send env b d s = (t, LOk x)"
    using assms unfolding dest_reliable_def
    by (cases "d_send env (dlog s) d") (auto simp: handle_send_def log_delivery_def act_simps bind_def)
qed

lemma succeeds_handle_or_main: "dest_reliable env \<Longrightarrow> succeeds (handle_or_main env pres h d c)"
  unfolding handle_or_main_def
  by (intro succeeds_bind succeeds_basic succeeds_handle_send)
    (auto intro: succeeds_bind succeeds_channel)

lemmas succeeds_sending = succeeds_channel succeeds_handle_or_main

section \<open>Replies without an unreachable arm\<close>

fun global_plain :: "('k, 'a, 'f, 'g, 'c, 'r) global_reply \<Rightarrow> bool" where
  "global_plain (Mult rs) = list_all global_plain rs"
| "global_plain (GlobalSendPeer _) = False"
| "global_plain _ = True"

text \<open>What the peer store replies: the arms that its destination handles.\<close>

fun peers_plain :: "('k, 'a, 'f, 'g, 'c, 'r) global_reply \<Rightarrow> bool" where
  "peers_plain (Mult rs) = list_all peers_plain rs"
| "peers_plain (ForwardOnce _ _ _ _) = False"
| "peers_plain (PeerStoreRep _) = False"
| "peers_plain (PeerApi _) = False"
| "peers_plain _ = True"

lemma global_dest_succeeds: "dest_reliable env \<Longrightarrow> global_plain r \<Longrightarrow> succeeds (global_dest_send env r)"
proof (induction r)
  case (Mult rs)
  then show ?case by (auto simp: list_all_iff intro: succeeds_for_each)
qed (auto simp: global_api_reply_def intro: succeeds_sending)

lemma opt_dest_succeeds: "dest_reliable env \<Longrightarrow> peers_plain r \<Longrightarrow> succeeds (opt_dest_send env r)"
proof (induction r)
  case (Mult rs)
  then show ?case by (auto simp: list_all_iff intro: succeeds_for_each)
next
  case (GlobalSendPeer op1)
  then show ?case
    unfolding opt_dest_send.simps opt_send_peer_def opt_lazy_init_def
    by (intro succeeds_bind succeeds_basic) (auto intro: succeeds_sending split: option.split)
qed (auto simp: opt_api_reply_def intro: succeeds_sending)

section \<open>Replies of the peer store\<close>

lemma peers_plain_reply_to [simp]: "peers_plain (reply_to m ow c)"
  by (simp add: reply_to_def split: prod.splits)

lemma kv_store_reply_plain: "kv_store_reply qid st qc = Ok (st', qc', rep) \<Longrightarrow> peers_plain rep"
  by (cases "query_get qc qid"; cases "query_reply (the (query_get qc qid))")
    (auto simp: kv_store_reply_def case_prod_beta snd_query_remove)

lemma kv_not_found_reply_plain: "kv_not_found_reply rl qid st qc = Ok (st', qc', rep) \<Longrightarrow> peers_plain rep"
  by (cases "query_get qc qid"; cases "query_reply (the (query_get qc qid))")
    (auto simp: kv_not_found_reply_def case_prod_beta snd_query_remove split: if_splits)

lemma kv_not_found_plain: "kv_not_found rl qid st qc = Ok (st', qc', rep) \<Longrightarrow> peers_plain rep"
  by (auto simp: kv_not_found_def Let_def dest: kv_not_found_reply_plain split: prod.splits option.splits if_splits)

lemma kv_store_cmd_plain: "kv_store_cmd ops rl qid vs st qc = Ok (st', qc', rep) \<Longrightarrow> peers_plain rep"
  by (auto simp: kv_store_cmd_def Let_def dest: kv_store_reply_plain
      split: prod.splits qreply.splits option.splits if_splits)

lemma kv_find_plain: "kv_find env ops rl self disc q key oa ow st qc = Ok (st', qc', rep) \<Longrightarrow> peers_plain rep"
proof (erule kv_find_Ok)
  fix q1
  show "peers_plain rep" if "rep = kv_find_end rl q1 (so_get ops st key) oa ow"
    using that by (simp add: kv_find_end_def split: option.splits)
next
  fix q1
  assume "kv_find_forward env rl self disc q1 key (so_get ops st key) oa ow st qc = Ok (st', qc', rep)"
  then show "peers_plain rep"
    by (rule kv_find_forward_Ok) (simp add: kv_forward_out_def Let_def split: option.splits)
qed

lemma kv_exec_plain:
  assumes run: "kv_exec env ops fs fg rl self disc req st qc = Ok (st', qc', rep)"
    and fns: "\<And>f vs. peers_plain (fs f vs)" "\<And>g ov. peers_plain (fg g ov)"
  shows "peers_plain rep"
proof -
  obtain ow cmd where req: "(case req of GLocal r \<Rightarrow> (None, r) | GDistant ow r \<Rightarrow> (ow, r)) = (ow, cmd)"
    by fastforce
  show ?thesis
    using run
    by (cases cmd) (auto simp: kv_exec_def req kv_store_locally_def and_then_eq_Ok Let_def fns
        dest: kv_find_plain kv_store_cmd_plain kv_not_found_plain
        split: prod.splits option.splits if_splits)
qed

lemma kv_run_plain:
  assumes "kv_run ops fs fg rl self disc reqs st qc = Ok (st', qc', outs)"
    and "\<And>f vs. peers_plain (fs f vs)" "\<And>g ov. peers_plain (fg g ov)"
  shows "list_all peers_plain outs"
  using assms(1)
proof (induction reqs arbitrary: st qc outs)
  case (Cons er reqs)
  then show ?case
    by (cases er) (auto simp: and_then_eq_Ok split: prod.splits dest: kv_exec_plain [OF _ assms(2,3)])
qed simp

section \<open>Api replies of the peer store\<close>

fun api_ids :: "('k, 'a, 'l, 'c, 'f, 'g, 'lr, 'gr, 'rs, 'ws) delivery \<Rightarrow> usize list" where
  "api_ids (ToApi (ApiServiceReply (MRPeerStore c))) = opt_ids (kv_reply_api_reply c)"
| "api_ids _ = []"

lemma api_ids_wanted: "peers_plain r \<Longrightarrow> concat (map api_ids (wanted_peers bc r)) = api_replies r"
proof (induction r)
  case (Mult rs)
  then show ?case by (induction rs) auto
qed (auto split: option.splits)

lemma api_ids_run:
  "list_all peers_plain rs \<Longrightarrow>
   concat (map api_ids (concat (map (wanted_peers bc) rs))) = concat (map api_replies rs)"
  by (induction rs) (simp_all add: api_ids_wanted)

lemma mset_concat_take: "mset (concat (map h (take n xs))) \<subseteq># mset (concat (map h xs))"
proof -
  have "concat (map h xs) = concat (map h (take n xs)) @ concat (map h (drop n xs))"
    by (metis append_take_drop_id concat_append map_append)
  then show ?thesis by simp
qed

text \<open>A service that comes back: what the destination of the global service does with its handles.\<close>

lemma peerstore_finished_drops_api:
  assumes "gd_api s" and "gd_peerstore s" and "dest_reliable env"
    and "d_send env (dlog s) (ToPeerstore (GLocal k)) = Finished"
  shows "\<exists>t. global_dest_send env (PeerStoreRep k) s = (t, LOk ()) \<and> \<not> gd_api t \<and> gd_peerstore t"
  using assms
  by (simp add: handle_or_main_def handle_send_def channel_send_def log_delivery_def dest_reliable_def act_simps bind_def)

section \<open>Properties\<close>

text \<open>
  C11. The destination of the global service gives every reply to the process it is for, once and in
  order, whichever of its handles are missing or finished: what reached the services, directly or
  through the main loop, is a prefix of what the replies ask for, and all of it when the channels
  do not fail and no reply is the one that only the peer store may give.
\<close>

theorem global_replies_delivered:
  assumes "for_each (global_dest_send env) rs s = (t, res)"
  shows "(\<exists>n. arrived t = arrived s @ take n (concat (map (wanted_global (d_reply_id env)) rs)))
    \<and> (dest_reliable env \<and> list_all global_plain rs \<longrightarrow>
        res = LOk () \<and> arrived t = arrived s @ concat (map (wanted_global (d_reply_id env)) rs))"
proof -
  have "res = LOk ()" if "dest_reliable env" "list_all global_plain rs"
  proof -
    have "succeeds (for_each (global_dest_send env) rs)"
      using that by (auto simp: list_all_iff intro: succeeds_for_each global_dest_succeeds)
    then show ?thesis using assms unfolding succeeds_def by (metis prod.inject old.unit.exhaust)
  qed
  with gd.run_delivers [OF assms] show ?thesis by blast
qed

text \<open>
  Whatever the peer store replies in a run, its destination has an arm for it: with channels that
  do not fail every reply is delivered, in order.  The functions that commands hand to the store
  must themselves reply with such arms, as those of \<open>storeprop.rs\<close> do.
\<close>

theorem peer_store_replies_delivered:
  assumes "kv_run ops fs fg rl self disc reqs st qc = Ok (st', qc', outs)"
    and "\<And>f vs. peers_plain (fs f vs)" and "\<And>g ov. peers_plain (fg g ov)" and "dest_reliable env"
  shows "\<exists>t. for_each (opt_dest_send env) outs s = (t, LOk ()) \<and>
    arrived t = arrived s @ concat (map (wanted_peers (d_build_command env)) outs)"
proof -
  have "list_all peers_plain outs" using assms(1-3) by (rule kv_run_plain)
  then have "succeeds (for_each (opt_dest_send env) outs)"
    using assms(4) by (auto simp: list_all_iff intro: succeeds_for_each opt_dest_succeeds)
  then obtain t where "for_each (opt_dest_send env) outs s = (t, LOk ())" unfolding succeeds_def by auto
  with od.run_delivers(2) [OF this] show ?thesis by blast
qed


text \<open>
  C32. A handshake that is refused ends the whole node: when a ping has a bad signature, or its peer is
  not accepted, the read service replies with a command that its destination gives to the main
  loop, and the main loop panics on it.
\<close>

theorem refused_ping_panics_main_loop:
  fixes denv :: "('k, 'a, 'l, 'c, 'f, 'g, 'lr, 'gr, 'rs, 'ws) dest_env"
  assumes "r_auth_mode renv \<noteq> NoAuth"
    and "r_header renv (ShadRAuth p) st = (sta, Ok ())"
    and "r_decode renv (ShadRAuth p) sta = (stb, Ok (PING from chal sig))"
    and "r_att_size renv from = 0" and "r_end renv (ShadRAuth p) stb = (stc, Ok ())"
    and "\<not> r_checkmsg renv from chal sig \<or> r_accept renv from = None"
    and "d_io denv (dlog d) = (\<lambda>_. None)"
  shows "\<exists>rs' rep d' cmd. read_call renv RRun (read_service_new (r_auth_mode renv) rtok st p None) = (rs', LOk rep)
     \<and> read_dest_send denv rep d = (d', LOk ()) \<and> dlog d' = dlog d @ [ToMain cmd]
     \<and> (\<forall>env s. call_inner_loop env cmd s = (s, LPanic))"
proof -
  define cmd :: "('k, 'a, 'l, 'c, 'f, 'g, 'lr, 'gr, 'rs, 'ws) mlc" where
    "cmd = (if r_checkmsg renv from chal sig then MLRejectPeer (get_key from) None (Some rtok) else MLRejectReadSpawn rtok)"
  obtain rs' where "read_call renv RRun (read_service_new (r_auth_mode renv) rtok st p None) = (rs', LOk (RRMainLoop cmd))"
    using assms(1-6)
    by (fastforce simp: cmd_def read_service_new_def read_auth_def on_ping_def read_attachment_def rd_def
        bind_def gets_def ret_def modify_def lift_def)
  moreover obtain d' where "read_dest_send denv (RRMainLoop cmd) d = (d', LOk ())" "dlog d' = dlog d @ [ToMain cmd]"
    using assms(7) by (simp add: channel_send_def log_delivery_def act_simps bind_def)
  moreover have "call_inner_loop env cmd s = (s, LPanic)" for env s by (simp add: cmd_def panic_def)
  ultimately show ?thesis by blast
qed

section \<open>Witnesses\<close>

text \<open>Channels that work, handles whose service is finished, and a store of peers.\<close>

definition demo_dest_env :: "(nat, nat, unit, unit, unit, unit, unit, nat, unit, unit) dest_env" where
  "demo_dest_env =
     \<lparr>d_send = (\<lambda>lg d. Finished), d_io = (\<lambda>lg d. None), d_built = (\<lambda>lg. True), d_reply_id = (\<lambda>r. Some 3),
      d_build_command = (\<lambda>c. Some ())\<rparr>"

definition demo_peer_ops :: "((nat, (nat, nat) peer) simple_cache, nat, (nat, nat) peer) store_ops" where
  "demo_peer_ops = \<lparr>so_add = add_val get_key, so_get = get_val, so_next = (\<lambda>st n. Ok (Some [])),
     so_commit = (\<lambda>st. (st, Ok True))\<rparr>"

definition demo_peer_store :: "(nat, (nat, nat) peer) simple_cache" where
  "demo_peer_store = \<lparr>cache = [(5, \<lparr>get_key = 5, get_address = 50\<rparr>)], persi = None\<rparr>"

definition demo_peer_queries :: "(nat, nat, (nat, nat) peer, (nat, nat) peer) query_cache" where
  "demo_peer_queries = \<lparr>qcache = [], randomids = False, lastid = 1\<rparr>"

definition demo_subset :: "unit \<Rightarrow> (nat, nat) peer list \<Rightarrow> (nat, nat, nat, (nat, nat) peer, unit, unit) kv_out" where
  "demo_subset u vs = peer_ping vs"

definition demo_local_value :: "unit \<Rightarrow> (nat, nat) peer option \<Rightarrow> (nat, nat, nat, (nat, nat) peer, unit, unit) kv_out" where
  "demo_local_value u ov = send_user_to_global ov"

definition demo_opt_dest :: "(nat, nat, unit, unit, unit, unit, unit, nat, unit, unit) opt_peer_dest" where
  "demo_opt_dest = \<lparr>dlog = [], od_api = True, od_global = False, od_build = True\<rparr>"

lemmas demo_dest_defs = demo_dest_env_def demo_peer_ops_def demo_peer_store_def demo_peer_queries_def
  demo_subset_def demo_local_value_def demo_opt_dest_def

lemma demo_dest_reliable: "dest_reliable demo_dest_env"
  by (simp add: dest_reliable_def demo_dest_env_def)

lemma demo_fns_plain: "peers_plain (demo_subset u vs)" "peers_plain (demo_local_value u ov)"
  by (simp_all add: demo_subset_def peer_ping_def list_all_iff demo_local_value_def send_user_to_global_def)

theorem global_replies_delivered_witness:
  "\<exists>t. for_each (global_dest_send demo_dest_env) [Mult [ApiRep 7, NoRep], PeerStoreRep CommitStore]
        \<lparr>dlog = [], gd_api = True, gd_peerstore = True\<rparr> = (t, LOk ())
     \<and> arrived t = [ToApi (ApiServiceReply (MRGlobal 7)), ToPeerstore (GLocal CommitStore)]"
proof -
  let ?rs = "[Mult [ApiRep 7, NoRep], PeerStoreRep CommitStore] :: (nat, nat, unit, unit, unit, nat) global_reply list"
  let ?s = "\<lparr>dlog = [], gd_api = True, gd_peerstore = True\<rparr> :: (nat, nat, unit, unit, unit, unit, unit, nat, unit, unit) global_dest"
  obtain t res where run: "for_each (global_dest_send demo_dest_env) ?rs ?s = (t, res)" by fastforce
  have "res = LOk () \<and> arrived t = arrived ?s @ concat (map (wanted_global (d_reply_id demo_dest_env)) ?rs)"
    using global_replies_delivered [OF run] demo_dest_reliable by (simp del: map_append)
  with run show ?thesis by (auto simp: demo_dest_env_def)
qed

theorem peer_store_replies_delivered_witness:
  "\<exists>outs t. kv_run demo_peer_ops demo_subset demo_local_value demo_rules demo_me True
       [(demo_env, GLocal (WithLocalValue 5 ())), (demo_env, GLocal (FindLocally 5 9))] demo_peer_store demo_peer_queries
       = Ok (demo_peer_store, demo_peer_queries, outs)
     \<and> for_each (opt_dest_send demo_dest_env) outs demo_opt_dest = (t, LOk ())
     \<and> length (arrived t) = 2"
proof -
  let ?p = "\<lparr>get_key = 5, get_address = 50\<rparr> :: (nat, nat) peer"
  let ?outs = "[GlobalSendPeer (Some ?p), ApiRep (FoundApi (Some ?p) 9)]"
  have run: "kv_run demo_peer_ops demo_subset demo_local_value demo_rules demo_me True
       [(demo_env, GLocal (WithLocalValue 5 ())), (demo_env, GLocal (FindLocally 5 9))] demo_peer_store demo_peer_queries
       = Ok (demo_peer_store, demo_peer_queries, ?outs)"
    by (simp add: kv_exec_def demo_dest_defs send_user_to_global_def get_val_def hashmap_get_val_c_def)
  from peer_store_replies_delivered [OF run demo_fns_plain demo_dest_reliable, of demo_opt_dest]
  obtain t where "for_each (opt_dest_send demo_dest_env) ?outs demo_opt_dest = (t, LOk ())"
    "arrived t = arrived demo_opt_dest @ concat (map (wanted_peers (d_build_command demo_dest_env)) ?outs)" by blast
  with run show ?thesis by (auto simp: demo_dest_defs)
qed


definition demo_refusing_env ::
    "(nat, nat, (nat, nat) peer proto_message, unit, unit, unit, unit, unit, (nat, nat, unit, unit) peer_command, unit) read_env" where
  "demo_refusing_env =
     \<lparr>r_auth_mode = Public, r_yield_return = False, r_header = (\<lambda>sh st. (st, Ok ())),
      r_decode = (\<lambda>sh st. (st, Ok st)), r_decode_msg = (\<lambda>sh st. (st, Err ExpectedError)),
      r_attach = (\<lambda>sh n st. (st, Ok ())), r_end = (\<lambda>sh st. (st, Ok ())), r_att_size = (\<lambda>p. 0),
      r_set_att = (\<lambda>a p. p), r_att_sizes = (\<lambda>m. []), r_set_atts = (\<lambda>as m. m),
      r_checkmsg = (\<lambda>p ch sig. ch = sig), r_accept = (\<lambda>p. None),
      r_into = (\<lambda>m. Ok (MCGlobal ())), r_is_borrow = (\<lambda>l. False), r_is_borrow_end = (\<lambda>l. False),
      r_put_read = (\<lambda>st sh t l. l), r_init_local = (\<lambda>p w t. Ok ()), r_spawn_local = (\<lambda>srv l. Ok ()),
      r_send_local = (\<lambda>h l. Ok ((), None)), r_unwrap_state = (\<lambda>h. Ok ((), Ok ())),
      r_respawn_local = (\<lambda>srv h l. Ok ())\<rparr>"

theorem refused_ping_panics_main_loop_witness:
  "\<exists>rs' rep d' cmd. read_call demo_refusing_env RRun
       (read_service_new Public 5 (PING \<lparr>get_key = 6, get_address = 60\<rparr> [4] [9]) \<lparr>get_key = 1, get_address = 10\<rparr> None) = (rs', LOk rep)
     \<and> read_dest_send demo_dest_env rep \<lparr>dlog = [], rd_global = False, rd_write = True, rd_token = 5\<rparr> = (d', LOk ())
     \<and> dlog d' = [ToMain cmd]
     \<and> (\<forall>env s. call_inner_loop env cmd s = (s, LPanic))"
proof -
  let ?p = "\<lparr>get_key = 1, get_address = 10\<rparr> :: (nat, nat) peer" and ?q = "\<lparr>get_key = 6, get_address = 60\<rparr> :: (nat, nat) peer"
  let ?d = "\<lparr>dlog = [], rd_global = False, rd_write = True, rd_token = 5\<rparr> :: (nat, nat, unit, unit, unit, unit, unit, nat, unit, unit) read_dest"
  have e: "r_auth_mode demo_refusing_env = Public" by (simp add: demo_refusing_env_def)
  show ?thesis
    using refused_ping_panics_main_loop [of demo_refusing_env ?p "PING ?q [4] [9]" "PING ?q [4] [9]" "PING ?q [4] [9]" ?q "[4]" "[9]"
        "PING ?q [4] [9]" demo_dest_env ?d 5]
    unfolding e by (simp add: demo_refusing_env_def demo_dest_env_def)
qed

end
