(* ===== verification/Tunnel.thy ===== *)
theory Tunnel
  imports Tunnelroute Dests
begin

text \<open>
  The tunnel services (\<open>mydht-tunnel/src/lib.rs\<close>): the messages that go through a tunnel, the
  local service that answers or proxies a message that was read, and the global service that
  opens tunnels for the commands of the inner service and keeps them back until enough peers are
  online.

  Readers and writers of the \<open>tunnel\<close> crate are values of type variables: \<open>'w\<close> and \<open>'rw\<close> the writers of
  a query and of a reply, \<open>'ri\<close> what initialises the latter, \<open>'fr\<close> a reader, \<open>'dr\<close> the reader at a
  destination, \<open>'pr\<close> a proxy, and \<open>'rb\<close> a borrowed read stream.
\<close>

section \<open>Messages\<close>

datatype ('a, 'rw, 'ri, 'dr, 'rb) read_msg_state =
    NoReply
  | ReplyDirectInit 'rw "'dr option" 'a "'rb option" "'ri option"
  | ReplyDirectNoInit 'rw 'a
  | ReplyToGlobalWithRead "'dr option" "'rb option"

datatype ('a, 'w, 'rw, 'ri, 'fr, 'dr, 'pr, 'rb, 'm) tunnel_messaging =
    MSendOnce "'w option" 'm
  | MReplyOnce 'm "'ri option" "'rw option" 'dr 'rb
  | MProxyOnce 'pr 'rb
  | ProxyToGlobal 'fr
  | ProxyFromReader 'pr 'a
  | ReadToGlobal 'fr
  | ReplyFromReader 'm "('a, 'rw, 'ri, 'dr, 'rb) read_msg_state"

datatype ('a, 'rw, 'ri, 'dr, 'pr, 'rb, 'c) local_tunnel_command =
    LTInner 'c
  | LocalFromRead 'c "('a, 'rw, 'ri, 'dr, 'rb) read_msg_state"
  | LTProxy 'pr 'a "'rb option"

datatype 'r local_tunnel_reply = LTRInner 'r | LTRApi 'r

datatype ('k, 'a, 'w, 'rw, 'ri, 'dr, 'pr, 'rb, 'c) global_tunnel_command =
    GTInner 'c
  | NewOnline "('k, 'a) peer"
  | GTOffline "('k, 'a) peer"
  | DestReplyFromGlobal 'c 'dr usize "'rb option"
  | TransmitReply "('a, 'rw, 'ri, 'dr, 'rb) read_msg_state" 'c
  | TunnelSendOnce 'w 'c
  | TunnelReplyOnce 'c 'ri 'rw 'dr 'rb
  | TunnelProxyOnce 'pr 'rb

datatype ('k, 'a, 'c, 'r) global_tunnel_reply =
    GTApi 'r
  | SendCommandToRand 'c
  | SendCommandTo "('k, 'a) peer" 'c
  | TryReplyFromReader 'c
  | GTNoRep

text \<open>Conversion between commands and messages.\<close>

fun tm_can_from :: "('l, 'c, 's, 'a) mc_command \<Rightarrow> bool" where
  "tm_can_from (MCLocal _) = True"
| "tm_can_from (MCGlobal _) = True"
| "tm_can_from (MCPeerStore _) = False"
| "tm_can_from (MCTryConnect _ _) = False"

fun tm_opt_from ::
    "('c \<Rightarrow> 'm option) \<Rightarrow> ('l, ('k, 'a, 'w, 'rw, 'ri, 'dr, 'pr, 'rb, 'c) global_tunnel_command, 's, 'a) mc_command
      \<Rightarrow> ('a, 'w, 'rw, 'ri, 'fr, 'dr, 'pr, 'rb, 'm) tunnel_messaging option outcome" where
  "tm_opt_from oi (MCLocal _) = Panic"
| "tm_opt_from oi (MCGlobal (TunnelReplyOnce inner rinit rw des_r r_borrow)) =
     Ok (map_option (\<lambda>inner_proto. MReplyOnce inner_proto (Some rinit) (Some rw) des_r r_borrow) (oi inner))"
| "tm_opt_from oi (MCGlobal (TunnelSendOnce tunn_w inner)) =
     Ok (map_option (\<lambda>inner_proto. MSendOnce (Some tunn_w) inner_proto) (oi inner))"
| "tm_opt_from oi (MCGlobal (TunnelProxyOnce proxy_w bs)) = Ok (Some (MProxyOnce proxy_w bs))"
| "tm_opt_from oi _ = Ok None"

fun tm_into ::
    "('m \<Rightarrow> 'c) \<Rightarrow> ('a, 'w, 'rw, 'ri, 'fr, 'dr, 'pr, 'rb, 'm) tunnel_messaging
      \<Rightarrow> (('a, 'rw, 'ri, 'dr, 'pr, 'rb, 'c) local_tunnel_command, 'gc, 's, 'a) mc_command outcome" where
  "tm_into i (ReplyFromReader inner_pmes st) = Ok (MCLocal (LocalFromRead (i inner_pmes) st))"
| "tm_into i (ProxyFromReader proxy_r dest_add) = Ok (MCLocal (LTProxy proxy_r dest_add None))"
| "tm_into i _ = Panic"

text \<open>Attachments of the inner message.\<close>

fun tm_inner :: "('a, 'w, 'rw, 'ri, 'fr, 'dr, 'pr, 'rb, 'm) tunnel_messaging \<Rightarrow> 'm option" where
  "tm_inner (MSendOnce _ m) = Some m"
| "tm_inner (MReplyOnce m _ _ _ _) = Some m"
| "tm_inner (ReplyFromReader m _) = Some m"
| "tm_inner _ = None"

definition tm_get_attachments ::
    "('m \<Rightarrow> 'att list) \<Rightarrow> ('a, 'w, 'rw, 'ri, 'fr, 'dr, 'pr, 'rb, 'm) tunnel_messaging \<Rightarrow> 'att list" where
  "tm_get_attachments ga t = (case tm_inner t of Some m \<Rightarrow> ga m | None \<Rightarrow> [])"

definition tm_get_nb_attachments ::
    "('m \<Rightarrow> nat) \<Rightarrow> ('a, 'w, 'rw, 'ri, 'fr, 'dr, 'pr, 'rb, 'm) tunnel_messaging \<Rightarrow> nat" where
  "tm_get_nb_attachments gn t = (case tm_inner t of Some m \<Rightarrow> gn m | None \<Rightarrow> 0)"

definition tm_attachment_expected_sizes ::
    "('m \<Rightarrow> nat list) \<Rightarrow> ('a, 'w, 'rw, 'ri, 'fr, 'dr, 'pr, 'rb, 'm) tunnel_messaging \<Rightarrow> nat list" where
  "tm_attachment_expected_sizes gs t = (case tm_inner t of Some m \<Rightarrow> gs m | None \<Rightarrow> [])"

fun tm_set_attachments ::
    "('att list \<Rightarrow> 'm \<Rightarrow> 'm \<times> bool) \<Rightarrow> 'att list \<Rightarrow> ('a, 'w, 'rw, 'ri, 'fr, 'dr, 'pr, 'rb, 'm) tunnel_messaging
      \<Rightarrow> ('a, 'w, 'rw, 'ri, 'fr, 'dr, 'pr, 'rb, 'm) tunnel_messaging \<times> bool" where
  "tm_set_attachments sa at1 (MSendOnce w m) = (case sa at1 m of (m', b) \<Rightarrow> (MSendOnce w m', b))"
| "tm_set_attachments sa at1 (MReplyOnce m ri rw dr rb) = (case sa at1 m of (m', b) \<Rightarrow> (MReplyOnce m' ri rw dr rb, b))"
| "tm_set_attachments sa at1 (ReplyFromReader m st) = (case sa at1 m of (m', b) \<Rightarrow> (ReplyFromReader m' st, b))"
| "tm_set_attachments sa at1 t = (t, length at1 = 0)"

text \<open>Borrowing of the read stream by a message.\<close>

fun get_read :: "('k, 'a, 'w, 'rw, 'ri, 'dr, 'pr, 'rb, 'c) global_tunnel_command \<Rightarrow> 'rb option" where
  "get_read (TunnelReplyOnce _ _ _ _ rs) = Some rs"
| "get_read (TunnelProxyOnce _ rs) = Some rs"
| "get_read _ = None"

fun is_borrow_read :: "('a, 'rw, 'ri, 'dr, 'pr, 'rb, 'c) local_tunnel_command \<Rightarrow> bool" where
  "is_borrow_read (LTInner _) = False"
| "is_borrow_read (LocalFromRead _ NoReply) = False"
| "is_borrow_read (LocalFromRead _ (ReplyDirectInit _ _ _ _ _)) = True"
| "is_borrow_read (LocalFromRead _ (ReplyDirectNoInit _ _)) = False"
| "is_borrow_read (LocalFromRead _ (ReplyToGlobalWithRead _ _)) = True"
| "is_borrow_read (LTProxy _ _ _) = True"

fun is_borrow_read_end :: "('a, 'rw, 'ri, 'dr, 'pr, 'rb, 'c) local_tunnel_command \<Rightarrow> bool" where
  "is_borrow_read_end (LTInner _) = False"
| "is_borrow_read_end (LocalFromRead _ _) = True"
| "is_borrow_read_end (LTProxy _ _ _) = True"

text \<open>The first argument is \<open>current_reader\<close> of the encoder, which a message may take.\<close>

fun put_read ::
    "'dr option \<Rightarrow> 'rb \<Rightarrow> ('a, 'rw, 'ri, 'dr, 'pr, 'rb, 'c) local_tunnel_command
      \<Rightarrow> 'dr option \<times> ('a, 'rw, 'ri, 'dr, 'pr, 'rb, 'c) local_tunnel_command" where
  "put_read cr rd1 (LocalFromRead c (ReplyDirectInit rw dr ad ost ri)) =
     (None, LocalFromRead c (ReplyDirectInit rw (if cr \<noteq> None then cr else dr) ad (Some rd1) ri))"
| "put_read cr rd1 (LocalFromRead c (ReplyToGlobalWithRead dr ost)) =
     (None, LocalFromRead c (ReplyToGlobalWithRead (if cr \<noteq> None then cr else dr) (Some rd1)))"
| "put_read cr rd1 (LTProxy p ad ost) = (cr, LTProxy p ad (Some rd1))"
| "put_read cr rd1 c = (cr, c)"

text \<open>\<open>ApiQueriable\<close> and \<open>ApiRepliable\<close>, over the methods of the inner commands and replies.\<close>

fun ltc_is_api_reply :: "('c \<Rightarrow> bool) \<Rightarrow> ('a, 'rw, 'ri, 'dr, 'pr, 'rb, 'c) local_tunnel_command \<Rightarrow> bool" where
  "ltc_is_api_reply g (LocalFromRead c _) = g c"
| "ltc_is_api_reply g (LTInner c) = g c"
| "ltc_is_api_reply g (LTProxy _ _ _) = False"

fun ltc_set_api_reply ::
    "(usize \<Rightarrow> 'c \<Rightarrow> 'c) \<Rightarrow> usize \<Rightarrow> ('a, 'rw, 'ri, 'dr, 'pr, 'rb, 'c) local_tunnel_command
      \<Rightarrow> ('a, 'rw, 'ri, 'dr, 'pr, 'rb, 'c) local_tunnel_command" where
  "ltc_set_api_reply g i (LocalFromRead c st) = LocalFromRead (g i c) st"
| "ltc_set_api_reply g i (LTInner c) = LTInner (g i c)"
| "ltc_set_api_reply g i (LTProxy p a rb) = LTProxy p a rb"

fun ltc_get_api_reply :: "('c \<Rightarrow> usize option) \<Rightarrow> ('a, 'rw, 'ri, 'dr, 'pr, 'rb, 'c) local_tunnel_command \<Rightarrow> usize option" where
  "ltc_get_api_reply g (LocalFromRead c _) = g c"
| "ltc_get_api_reply g (LTInner c) = g c"
| "ltc_get_api_reply g (LTProxy _ _ _) = None"

fun ltc_clone ::
    "('a, 'rw, 'ri, 'dr, 'pr, 'rb, 'c) local_tunnel_command
      \<Rightarrow> ('a, 'rw, 'ri, 'dr, 'pr, 'rb, 'c) local_tunnel_command outcome" where
  "ltc_clone (LocalFromRead c _) = Ok (LTInner c)"
| "ltc_clone (LTInner c) = Ok (LTInner c)"
| "ltc_clone (LTProxy _ _ _) = Panic"

fun ltr_get_api_reply :: "('r \<Rightarrow> usize option) \<Rightarrow> 'r local_tunnel_reply \<Rightarrow> usize option" where
  "ltr_get_api_reply g (LTRInner r) = g r"
| "ltr_get_api_reply g (LTRApi r) = g r"

fun gtc_is_api_reply :: "('c \<Rightarrow> bool) \<Rightarrow> ('k, 'a, 'w, 'rw, 'ri, 'dr, 'pr, 'rb, 'c) global_tunnel_command \<Rightarrow> bool" where
  "gtc_is_api_reply g (DestReplyFromGlobal c _ _ _) = g c"
| "gtc_is_api_reply g (GTInner c) = g c"
| "gtc_is_api_reply g (TunnelSendOnce _ c) = g c"
| "gtc_is_api_reply g _ = False"

fun gtc_set_api_reply ::
    "(usize \<Rightarrow> 'c \<Rightarrow> 'c) \<Rightarrow> usize \<Rightarrow> ('k, 'a, 'w, 'rw, 'ri, 'dr, 'pr, 'rb, 'c) global_tunnel_command
      \<Rightarrow> ('k, 'a, 'w, 'rw, 'ri, 'dr, 'pr, 'rb, 'c) global_tunnel_command" where
  "gtc_set_api_reply g i (DestReplyFromGlobal c dr t rb) = DestReplyFromGlobal (g i c) dr t rb"
| "gtc_set_api_reply g i (GTInner c) = GTInner (g i c)"
| "gtc_set_api_reply g i (TunnelSendOnce w c) = TunnelSendOnce w (g i c)"
| "gtc_set_api_reply g i t = t"

fun gtc_get_api_reply :: "('c \<Rightarrow> usize option) \<Rightarrow> ('k, 'a, 'w, 'rw, 'ri, 'dr, 'pr, 'rb, 'c) global_tunnel_command \<Rightarrow> usize option" where
  "gtc_get_api_reply g (DestReplyFromGlobal c _ _ _) = g c"
| "gtc_get_api_reply g (GTInner c) = g c"
| "gtc_get_api_reply g (TunnelSendOnce _ c) = g c"
| "gtc_get_api_reply g _ = None"

fun gtc_clone ::
    "('k, 'a, 'w, 'rw, 'ri, 'dr, 'pr, 'rb, 'c) global_tunnel_command
      \<Rightarrow> ('k, 'a, 'w, 'rw, 'ri, 'dr, 'pr, 'rb, 'c) global_tunnel_command outcome" where
  "gtc_clone (GTInner c) = Ok (GTInner c)"
| "gtc_clone (NewOnline rp) = Ok (NewOnline rp)"
| "gtc_clone (GTOffline rp) = Ok (GTOffline rp)"
| "gtc_clone _ = Panic"

fun gtc_build_command ::
    "('k, 'a) peer peer_status_command \<Rightarrow> ('k, 'a, 'w, 'rw, 'ri, 'dr, 'pr, 'rb, 'c) global_tunnel_command option" where
  "gtc_build_command (PeerOnline p _) = Some (NewOnline p)"
| "gtc_build_command (PeerOffline p _) = Some (GTOffline p)"
| "gtc_build_command (PeerQuery _) = None"

fun gtr_get_api_reply :: "('r \<Rightarrow> usize option) \<Rightarrow> ('k, 'a, 'c, 'r) global_tunnel_reply \<Rightarrow> usize option" where
  "gtr_get_api_reply g (GTApi r) = g r"
| "gtr_get_api_reply g _ = None"

section \<open>Services\<close>

record ('k, 'a, 's, 't, 'c) global_tunnel_service =
  gts_inner :: 's
  to_send :: "(('k, 'a) peer option \<times> 'c) list"
  gts_rp :: "('k, 'a) rp"
  gts_tunnel :: 't
  address_key :: "('a, 'k) hashmap"

record ('k, 'a, 's) local_tunnel_service =
  lts_me :: "('k, 'a) peer"
  lts_with :: "('k, 'a) peer option"
  lts_read_token :: usize
  lts_inner :: 's

text \<open>
  The inner service and the \<open>tunnel\<close> crate: \<open>te_new_writer\<close> opens a tunnel to a peer, for which it
  asks the route provider, and gives the address of the first hop.
\<close>

record ('k, 'a, 's, 't, 'w, 'rw, 'ri, 'dr, 'c, 'r) tunnel_env =
  te_ck :: bool
  te_inner :: "(('k, 'a) peer, 'c) global_command \<Rightarrow> ('s, ('k, 'a, 'c, 'r) global_tunnel_reply) act"
  te_r_is_api :: "'r \<Rightarrow> bool"
  te_new_writer :: "('k, 'a) peer \<Rightarrow> 't \<times> ('k, 'a) rp \<Rightarrow> (('t \<times> ('k, 'a) rp) \<times> 'w \<times> 'a) outcome"
  te_reply_init :: "'rw \<Rightarrow> 'dr \<Rightarrow> 't \<times> ('k, 'a) rp \<Rightarrow> (('t \<times> ('k, 'a) rp) \<times> 'ri) outcome"

type_synonym ('k, 'a, 's, 't, 'w, 'rw, 'ri, 'dr, 'pr, 'rb, 'c, 'r, 'f, 'g) gt_act =
  "(('k, 'a, 's, 't, 'c) global_tunnel_service,
    ('k, 'a, 'f, 'g, ('k, 'a, 'w, 'rw, 'ri, 'dr, 'pr, 'rb, 'c) global_tunnel_command, ('k, 'a, 'c, 'r) global_tunnel_reply) global_reply) act"

definition once_conf :: fw_conf where
  "once_conf = \<lparr>nb_for = 0, discover = True\<rparr>"

definition on_lts_inner :: "('s, 'x) act \<Rightarrow> (('k, 'a, 's) local_tunnel_service, 'x) act" where
  "on_lts_inner m s = (case m (lts_inner s) of (i, r) \<Rightarrow> (s\<lparr>lts_inner := i\<rparr>, r))"

text \<open>The local service.\<close>

fun lt_reply_from_reader ::
    "('k, 'a) peer option \<Rightarrow> ('a, 'rw, 'ri, 'dr, 'rb) read_msg_state \<Rightarrow> 'c
      \<Rightarrow> ((('k, 'a) peer, ('k, 'a, 'w, 'rw, 'ri, 'dr, 'pr, 'rb, 'c) global_tunnel_command, 'mc,
           ('k, 'a, ('k, 'a) peer, ('k, 'a, 'w, 'rw, 'ri, 'dr, 'pr, 'rb, 'c) global_tunnel_command, 'mc, 'pc, 'mr, 'ret, 'rs, 'ws) main_loop_command) read_reply, 'r local_tunnel_reply) local_reply" where
  "lt_reply_from_reader ow NoReply inner_reply = LRRead RRNoReply"
| "lt_reply_from_reader ow (ReplyDirectInit reply_writer (Some dest_read) dest_add (Some rs) (Some rwi)) inner_reply =
     LRRead (RRMainLoop (MLForwardServiceOnce None (Some dest_add) once_conf
       (TunnelReplyOnce inner_reply rwi reply_writer dest_read rs)))"
| "lt_reply_from_reader ow read_state inner_reply =
     LRRead (RRGlobal (GDistant ow (TransmitReply read_state inner_reply)))"

fun lt_call ::
    "('k, 'a, 's, 't, 'w, 'rw, 'ri, 'dr, 'c, 'r) tunnel_env \<Rightarrow> ('a, 'rw, 'ri, 'dr, 'pr, 'rb, 'c) local_tunnel_command
      \<Rightarrow> (('k, 'a, 's) local_tunnel_service,
          ((('k, 'a) peer, ('k, 'a, 'w, 'rw, 'ri, 'dr, 'pr, 'rb, 'c) global_tunnel_command, 'mc,
           ('k, 'a, ('k, 'a) peer, ('k, 'a, 'w, 'rw, 'ri, 'dr, 'pr, 'rb, 'c) global_tunnel_command, 'mc, 'pc, 'mr, 'ret, 'rs, 'ws) main_loop_command) read_reply, 'r local_tunnel_reply) local_reply) act" where
  "lt_call env (LTInner cmd) =
     bind (on_lts_inner (te_inner env (GLocal cmd))) (\<lambda>rep.
     case rep of GTNoRep \<Rightarrow> ret (LRRead RRNoReply) | _ \<Rightarrow> panic)"
| "lt_call env (LocalFromRead cmd read_state) =
     bind (gets lts_with) (\<lambda>ow.
     bind (on_lts_inner (te_inner env (GDistant ow cmd))) (\<lambda>rep.
     case rep of
       TryReplyFromReader inner_reply \<Rightarrow> ret (lt_reply_from_reader ow read_state inner_reply)
     | GTApi inner_reply \<Rightarrow> if te_r_is_api env inner_reply then ret (LRApi (LTRApi inner_reply)) else ret (LRRead RRNoReply)
     | SendCommandToRand _ \<Rightarrow> panic
     | SendCommandTo _ _ \<Rightarrow> panic
     | GTNoRep \<Rightarrow> ret (LRRead RRNoReply)))"
| "lt_call env (LTProxy _ _ None) = panic"
| "lt_call env (LTProxy prox_w dest_add (Some rbs)) =
     ret (LRRead (RRMainLoop (MLForwardServiceOnce None (Some dest_add) once_conf (TunnelProxyOnce prox_w rbs))))"

text \<open>The global service: a tunnel to a destination.\<close>

definition on_gts_inner :: "('s, 'x) act \<Rightarrow> (('k, 'a, 's, 't, 'c) global_tunnel_service, 'x) act" where
  "on_gts_inner m s = (case m (gts_inner s) of (i, r) \<Rightarrow> (s\<lparr>gts_inner := i\<rparr>, r))"

definition on_tunnel ::
    "('t \<times> ('k, 'a) rp \<Rightarrow> (('t \<times> ('k, 'a) rp) \<times> 'x) outcome) \<Rightarrow> (('k, 'a, 's, 't, 'c) global_tunnel_service, 'x) act" where
  "on_tunnel f s =
     (case f (gts_tunnel s, gts_rp s) of
        Ok ((t, rp), x) \<Rightarrow> (s\<lparr>gts_tunnel := t, gts_rp := rp\<rparr>, LOk x)
      | Err e \<Rightarrow> (s, LErr (LoopErr e))
      | Panic \<Rightarrow> (s, LPanic))"

definition gt_send_once ::
    "('k, 'a, 's, 't, 'w, 'rw, 'ri, 'dr, 'c, 'r) tunnel_env \<Rightarrow> ('k, 'a) peer \<Rightarrow> 'c
      \<Rightarrow> ('k, 'a, 's, 't, 'w, 'rw, 'ri, 'dr, 'pr, 'rb, 'c, 'r, 'f, 'g) gt_act" where
  "gt_send_once env dest inner_command =
     bind (on_tunnel (te_new_writer env dest)) (\<lambda>(tunn_we, dest_add).
     bind (gets (\<lambda>s. hashmap_get_val_c (address_key s) dest_add)) (\<lambda>dest_k.
     ret (ForwardOnce dest_k (Some dest_add) once_conf (TunnelSendOnce tunn_we inner_command))))"

definition gt_rand_dest :: "(('k, 'a, 's, 't, 'c) global_tunnel_service, ('k, 'a) peer) act" where
  "gt_rand_dest s = (case rand_dest (gts_rp s) of (rp, r) \<Rightarrow> (s\<lparr>gts_rp := rp\<rparr>, of_outcome r))"

text \<open>All commands that wait, \<open>n\<close> of them.\<close>

fun gt_flush ::
    "('k, 'a, 's, 't, 'w, 'rw, 'ri, 'dr, 'c, 'r) tunnel_env \<Rightarrow> nat
      \<Rightarrow> (('k, 'a, 's, 't, 'c) global_tunnel_service,
          ('k, 'a, 'f, 'g, ('k, 'a, 'w, 'rw, 'ri, 'dr, 'pr, 'rb, 'c) global_tunnel_command, ('k, 'a, 'c, 'r) global_tunnel_reply) global_reply list) act" where
  "gt_flush env 0 = ret []"
| "gt_flush env (Suc n) =
     bind (gets (\<lambda>s. hd (to_send s))) (\<lambda>(o_dest, inner_command).
     bind (modify (\<lambda>s. s\<lparr>to_send := tl (to_send s)\<rparr>)) (\<lambda>_.
     bind (case o_dest of Some d \<Rightarrow> ret d | None \<Rightarrow> gt_rand_dest) (\<lambda>dest.
     bind (gt_send_once env dest inner_command) (\<lambda>cmd.
     bind (gt_flush env n) (\<lambda>cmds. ret (cmd # cmds))))))"

definition gt_missing ::
    "('k, 'a, 's, 't, 'w, 'rw, 'ri, 'dr, 'c, 'r) tunnel_env \<Rightarrow> (('k, 'a, 's, 't, 'c) global_tunnel_service, nat) act" where
  "gt_missing env = bind (gets (\<lambda>s. missing_peer (te_ck env) (gts_rp s))) lift"

definition gt_new_online ::
    "('k, 'a, 's, 't, 'w, 'rw, 'ri, 'dr, 'c, 'r) tunnel_env \<Rightarrow> ('k, 'a) peer
      \<Rightarrow> ('k, 'a, 's, 't, 'w, 'rw, 'ri, 'dr, 'pr, 'rb, 'c, 'r, 'f, 'g) gt_act" where
  "gt_new_online env pr =
     bind (modify (\<lambda>s. s\<lparr>address_key := hashmap_add_val_c (get_address pr) (get_key pr) (address_key s),
                         gts_rp := add_online pr (gts_rp s)\<rparr>)) (\<lambda>_.
     bind (gets (\<lambda>s. length (to_send s))) (\<lambda>n.
     if n > 0
     then bind (gt_missing env) (\<lambda>m.
          if m = 0 then bind (gt_flush env n) (\<lambda>cmds. ret (Mult cmds)) else ret NoRep)
     else ret NoRep))"

definition gt_offline :: "('k, 'a) peer \<Rightarrow> ('k, 'a, 's, 't, 'w, 'rw, 'ri, 'dr, 'pr, 'rb, 'c, 'r, 'f, 'g) gt_act" where
  "gt_offline pr =
     bind (modify (\<lambda>s. s\<lparr>address_key := fst (hashmap_remove_val_c (get_address pr) (address_key s)),
                         gts_rp := rem_online pr (gts_rp s)\<rparr>)) (\<lambda>_. ret NoRep)"

text \<open>A command of the inner service: sent, or kept back and peers asked for.\<close>

definition gt_send_or_wait ::
    "('k, 'a, 's, 't, 'w, 'rw, 'ri, 'dr, 'c, 'r) tunnel_env \<Rightarrow> ('k, 'a) peer option \<Rightarrow> 'c
      \<Rightarrow> ('k, 'a, 's, 't, 'w, 'rw, 'ri, 'dr, 'pr, 'rb, 'c, 'r, 'f, 'g) gt_act" where
  "gt_send_or_wait env o_dest inner_command =
     bind (gt_missing env) (\<lambda>need_nb_peer.
     if need_nb_peer = 0
     then bind (case o_dest of Some d \<Rightarrow> ret d | None \<Rightarrow> gt_rand_dest) (\<lambda>dest. gt_send_once env dest inner_command)
     else bind (modify (\<lambda>s. s\<lparr>to_send := to_send s @ [(o_dest, inner_command)]\<rparr>)) (\<lambda>_.
          bind (gets (\<lambda>s. route_len (te_ck env) (gts_rp s))) (\<lambda>rl.
          bind (lift (and_then rl (\<lambda>n. checked_add (te_ck env) n 1))) (\<lambda>n.
          ret (MainLoopRep (SubPoolSize (unat n)))))))"

definition gt_inner ::
    "('k, 'a, 's, 't, 'w, 'rw, 'ri, 'dr, 'c, 'r) tunnel_env \<Rightarrow> (('k, 'a) peer, 'c) global_command
      \<Rightarrow> ('k, 'a, 's, 't, 'w, 'rw, 'ri, 'dr, 'pr, 'rb, 'c, 'r, 'f, 'g) gt_act" where
  "gt_inner env cmd =
     bind (on_gts_inner (te_inner env cmd)) (\<lambda>rep.
     case rep of
       TryReplyFromReader _ \<Rightarrow> panic
     | GTApi inner_reply \<Rightarrow> if te_r_is_api env inner_reply then ret (ApiRep (GTApi inner_reply)) else ret NoRep
     | SendCommandToRand inner_command \<Rightarrow> gt_send_or_wait env None inner_command
     | SendCommandTo dest inner_command \<Rightarrow> gt_send_or_wait env (Some dest) inner_command
     | GTNoRep \<Rightarrow> ret NoRep)"

fun gt_transmit ::
    "('k, 'a, 's, 't, 'w, 'rw, 'ri, 'dr, 'c, 'r) tunnel_env \<Rightarrow> ('a, 'rw, 'ri, 'dr, 'rb) read_msg_state \<Rightarrow> 'c
      \<Rightarrow> ('k, 'a, 's, 't, 'w, 'rw, 'ri, 'dr, 'pr, 'rb, 'c, 'r, 'f, 'g) gt_act" where
  "gt_transmit env NoReply reply_command = ret NoRep"
| "gt_transmit env (ReplyDirectInit reply_writer (Some dest_read) dest_add (Some rs) None) reply_command =
     bind (on_tunnel (te_reply_init env reply_writer dest_read)) (\<lambda>rwi.
     bind (gets (\<lambda>s. hashmap_get_val_c (address_key s) dest_add)) (\<lambda>dest_k.
     ret (ForwardOnce dest_k (Some dest_add) once_conf (TunnelReplyOnce reply_command rwi reply_writer dest_read rs))))"
| "gt_transmit env _ reply_command = panic"

fun gt_exec ::
    "('k, 'a, 's, 't, 'w, 'rw, 'ri, 'dr, 'c, 'r) tunnel_env \<Rightarrow> bool \<Rightarrow> ('k, 'a) peer option
      \<Rightarrow> ('k, 'a, 'w, 'rw, 'ri, 'dr, 'pr, 'rb, 'c) global_tunnel_command
      \<Rightarrow> ('k, 'a, 's, 't, 'w, 'rw, 'ri, 'dr, 'pr, 'rb, 'c, 'r, 'f, 'g) gt_act" where
  "gt_exec env loc ow (TransmitReply state reply_command) = gt_transmit env state reply_command"
| "gt_exec env loc ow (DestReplyFromGlobal _ _ _ _) = panic"
| "gt_exec env loc ow (NewOnline pr) = gt_new_online env pr"
| "gt_exec env loc ow (GTOffline pr) = gt_offline pr"
| "gt_exec env loc ow (GTInner inner_command) =
     gt_inner env (if loc then GLocal inner_command else GDistant ow inner_command)"
| "gt_exec env loc ow _ = panic"

fun gt_call ::
    "('k, 'a, 's, 't, 'w, 'rw, 'ri, 'dr, 'c, 'r) tunnel_env
      \<Rightarrow> (('k, 'a) peer, ('k, 'a, 'w, 'rw, 'ri, 'dr, 'pr, 'rb, 'c) global_tunnel_command) global_command
      \<Rightarrow> ('k, 'a, 's, 't, 'w, 'rw, 'ri, 'dr, 'pr, 'rb, 'c, 'r, 'f, 'g) gt_act" where
  "gt_call env (GLocal r) = gt_exec env True None r"
| "gt_call env (GDistant ow r) = gt_exec env False ow r"

section \<open>Commands that wait\<close>

text \<open>What an inner service asks to send, and what a reply of the global service sends.\<close>

fun asked_by :: "('k, 'a, 'c, 'r) global_tunnel_reply \<Rightarrow> 'c list" where
  "asked_by (SendCommandToRand c) = [c]"
| "asked_by (SendCommandTo _ c) = [c]"
| "asked_by _ = []"

definition inner_request ::
    "(('k, 'a) peer, ('k, 'a, 'w, 'rw, 'ri, 'dr, 'pr, 'rb, 'c) global_tunnel_command) global_command
      \<Rightarrow> (('k, 'a) peer, 'c) global_command option" where
  "inner_request req =
     (case req of
        GLocal (GTInner c) \<Rightarrow> Some (GLocal c)
      | GDistant ow (GTInner c) \<Rightarrow> Some (GDistant ow c)
      | _ \<Rightarrow> None)"

definition asked ::
    "('k, 'a, 's, 't, 'w, 'rw, 'ri, 'dr, 'c, 'r) tunnel_env
      \<Rightarrow> (('k, 'a) peer, ('k, 'a, 'w, 'rw, 'ri, 'dr, 'pr, 'rb, 'c) global_tunnel_command) global_command
      \<Rightarrow> ('k, 'a, 's, 't, 'c) global_tunnel_service \<Rightarrow> 'c list" where
  "asked env req s =
     (case inner_request req of
        Some c \<Rightarrow> (case snd (te_inner env c (gts_inner s)) of LOk rep \<Rightarrow> asked_by rep | _ \<Rightarrow> [])
      | None \<Rightarrow> [])"

fun sent_of ::
    "('k, 'a, 'f, 'g, ('k, 'a, 'w, 'rw, 'ri, 'dr, 'pr, 'rb, 'c) global_tunnel_command, 'r) global_reply \<Rightarrow> 'c list" where
  "sent_of (ForwardOnce _ _ _ (TunnelSendOnce _ c)) = [c]"
| "sent_of (Mult rs) = concat (map sent_of rs)"
| "sent_of _ = []"

text \<open>What the \<open>tunnel\<close> crate leaves alone of the route provider, of which it only draws routes.\<close>

definition rp_shape :: "('k, 'a) rp \<Rightarrow> nat \<times> usize \<times> usize" where
  "rp_shape rp = (length (rp_peers rp), routelength rp, routebias rp)"

definition draws_only :: "('k, 'a, 's, 't, 'w, 'rw, 'ri, 'dr, 'c, 'r) tunnel_env \<Rightarrow> bool" where
  "draws_only env \<longleftrightarrow>
     (\<forall>d t rp t' rp' x. te_new_writer env d (t, rp) = Ok ((t', rp'), x) \<longrightarrow> rp_shape rp' = rp_shape rp) \<and>
     (\<forall>rw dr t rp t' rp' x. te_reply_init env rw dr (t, rp) = Ok ((t', rp'), x) \<longrightarrow> rp_shape rp' = rp_shape rp)"

lemma missing_peer_shape: "rp_shape rp' = rp_shape rp \<Longrightarrow> missing_peer ck rp' = missing_peer ck rp"
  by (auto simp: rp_shape_def missing_peer_def route_len_def cong: if_cong)

text \<open>A command only waits while peers are missing.\<close>

definition waits_ok :: "bool \<Rightarrow> ('k, 'a, 's, 't, 'c) global_tunnel_service \<Rightarrow> bool" where
  "waits_ok ck s \<longleftrightarrow> (to_send s \<noteq> [] \<longrightarrow> missing_peer ck (gts_rp s) \<noteq> Ok 0)"

definition same_peers :: "('k, 'a, 's, 't, 'c) global_tunnel_service \<Rightarrow> ('k, 'a, 's, 't, 'c) global_tunnel_service \<Rightarrow> bool" where
  "same_peers s t \<longleftrightarrow> rp_shape (gts_rp t) = rp_shape (gts_rp s) \<and> to_send t = to_send s"

lemma same_peers_refl [simp]: "same_peers s s"
  by (simp add: same_peers_def)

lemma same_peers_trans: "same_peers a b \<Longrightarrow> same_peers b c \<Longrightarrow> same_peers a c"
  by (simp add: same_peers_def)

lemma waits_ok_same: "waits_ok ck s \<Longrightarrow> same_peers s t \<Longrightarrow> waits_ok ck t"
  by (simp add: waits_ok_def same_peers_def missing_peer_shape [of "gts_rp t" "gts_rp s"])

lemma on_tunnel_same:
  assumes "on_tunnel f s = (t, r)"
    and "\<And>t' rp' x. f (gts_tunnel s, gts_rp s) = Ok ((t', rp'), x) \<Longrightarrow> rp_shape rp' = rp_shape (gts_rp s)"
  shows "same_peers s t"
  using assms by (auto simp: on_tunnel_def same_peers_def split: outcome.splits prod.splits)

lemma on_tunnel_writer_same: "draws_only env \<Longrightarrow> on_tunnel (te_new_writer env d) s = (t, r) \<Longrightarrow> same_peers s t"
  unfolding draws_only_def by (erule on_tunnel_same) blast

lemma on_tunnel_reply_same: "draws_only env \<Longrightarrow> on_tunnel (te_reply_init env rw dr) s = (t, r) \<Longrightarrow> same_peers s t"
  unfolding draws_only_def by (erule on_tunnel_same) blast

lemma gt_rand_dest_same: "gt_rand_dest s = (t, r) \<Longrightarrow> same_peers s t"
  by (auto simp: gt_rand_dest_def rand_dest_def rand_one_def next_u64_def Let_def same_peers_def rp_shape_def
      split: prod.splits if_splits)

lemma pick_dest_same: "(case o_dest of Some d \<Rightarrow> ret d | None \<Rightarrow> gt_rand_dest) s = (t, r) \<Longrightarrow> same_peers s t"
  by (cases o_dest) (auto simp: act_simps dest: gt_rand_dest_same)

lemma gt_send_once_sent:
  assumes "draws_only env" and "gt_send_once env dest c s = (t, LOk rep)"
  shows "same_peers s t \<and> sent_of rep = [c]"
proof -
  obtain u w a where "on_tunnel (te_new_writer env dest) s = (u, LOk (w, a))" "t = u" "sent_of rep = [c]"
    using assms(2) by (auto simp: gt_send_once_def bind_eq_ok act_simps split: prod.splits)
  with on_tunnel_writer_same [OF assms(1)] show ?thesis by blast
qed

lemma gt_flush_sent:
  assumes "draws_only env" and "gt_flush env n s = (t, LOk cmds)" and "n = length (to_send s)"
  shows "to_send t = [] \<and> concat (map sent_of cmds) = map snd (to_send s) \<and> rp_shape (gts_rp t) = rp_shape (gts_rp s)"
  using assms(2,3)
proof (induction n arbitrary: s cmds)
  case 0
  then show ?case by (simp add: act_simps)
next
  case (Suc n)
  then obtain o_dest c q where q: "to_send s = (o_dest, c) # q" by (cases "to_send s") auto
  let ?s1 = "s\<lparr>to_send := q\<rparr>"
  obtain dest s2 rep s3 cmds' where pick: "(case o_dest of Some d \<Rightarrow> ret d | None \<Rightarrow> gt_rand_dest) ?s1 = (s2, LOk dest)"
    and once: "gt_send_once env dest c s2 = (s3, LOk rep)" and rest: "gt_flush env n s3 = (t, LOk cmds')" and cmds: "cmds = rep # cmds'"
    using Suc.prems(1) q by (auto simp: bind_eq_ok act_simps)
  have s3: "same_peers ?s1 s3" and rep: "sent_of rep = [c]"
    using pick_dest_same [OF pick] gt_send_once_sent [OF assms(1) once] same_peers_trans by blast+
  then have "n = length (to_send s3)" using Suc.prems(2) q by (simp add: same_peers_def)
  from Suc.IH [OF rest this] show ?case using s3 rep cmds q by (simp add: same_peers_def)
qed

lemma rem_online_missing:
  assumes "missing_peer ck rp \<noteq> Ok 0" shows "missing_peer ck (rem_online v rp) \<noteq> Ok 0"
proof -
  have "length (rp_peers (rem_online v rp)) \<le> length (rp_peers rp)"
    by (auto simp: rem_online_def Let_def dest: position_Some split: option.splits)
  moreover have "routelength (rem_online v rp) = routelength rp" "routebias (rem_online v rp) = routebias rp"
    by (auto simp: rem_online_def Let_def split: option.splits)
  ultimately show ?thesis
    using assms
    by (cases "checked_add ck (routelength rp) (routebias rp)")
      (auto simp: missing_peer_def route_len_def split: if_splits)
qed

lemma gt_missing_ok: "gt_missing env s = (t, LOk m) \<Longrightarrow> t = s \<and> missing_peer (te_ck env) (gts_rp s) = Ok m"
  by (cases "missing_peer (te_ck env) (gts_rp s)") (auto simp: gt_missing_def bind_eq_ok act_simps)

text \<open>One command: it adds what it asks for to the queue and takes what it sends from the front.\<close>

definition fifo_step ::
    "bool \<Rightarrow> ('k, 'a, 's, 't, 'c) global_tunnel_service \<Rightarrow> 'c list \<Rightarrow> 'c list \<Rightarrow> ('k, 'a, 's, 't, 'c) global_tunnel_service \<Rightarrow> bool" where
  "fifo_step ck s as ss t \<longleftrightarrow> waits_ok ck t \<and> map snd (to_send s) @ as = ss @ map snd (to_send t)"

lemma fifo_quiet: "waits_ok ck s \<Longrightarrow> same_peers s t \<Longrightarrow> fifo_step ck s [] [] t"
  unfolding fifo_step_def using waits_ok_same [of ck s t] by (simp add: same_peers_def)

lemma gt_send_or_wait_fifo:
  assumes "draws_only env" and "waits_ok (te_ck env) s" and "gt_send_or_wait env od c s = (t, LOk rep)"
  shows "fifo_step (te_ck env) s [c] (sent_of rep) t"
proof -
  obtain m where m: "missing_peer (te_ck env) (gts_rp s) = Ok m"
    and run: "(if m = 0
     then bind (case od of Some d \<Rightarrow> ret d | None \<Rightarrow> gt_rand_dest) (\<lambda>dest. gt_send_once env dest c)
     else bind (modify (\<lambda>s. s\<lparr>to_send := to_send s @ [(od, c)]\<rparr>)) (\<lambda>_.
          bind (gets (\<lambda>s. route_len (te_ck env) (gts_rp s))) (\<lambda>rl.
          bind (lift (and_then rl (\<lambda>n. checked_add (te_ck env) n 1))) (\<lambda>n.
          ret (MainLoopRep (SubPoolSize (unat n))))))) s = (t, LOk rep)"
    using assms(3) gt_missing_ok [of env s] unfolding gt_send_or_wait_def bind_eq_ok by blast
  show ?thesis
  proof (cases "m = 0")
    case True
    then obtain d s1 where pick: "(case od of Some d \<Rightarrow> ret d | None \<Rightarrow> gt_rand_dest) s = (s1, LOk d)"
      and once: "gt_send_once env d c s1 = (t, LOk rep)" using run by (auto simp: bind_eq_ok)
    have st: "same_peers s t" and rep: "sent_of rep = [c]"
      using pick_dest_same [OF pick] gt_send_once_sent [OF assms(1) once] same_peers_trans by blast+
    have "to_send s = []" using assms(2) m True by (auto simp: waits_ok_def)
    with st rep assms(2) waits_ok_same [OF assms(2) st] show ?thesis by (simp add: fifo_step_def same_peers_def)
  next
    case False
    then have "t = s\<lparr>to_send := to_send s @ [(od, c)]\<rparr>" "sent_of rep = []"
      using run by (auto simp: bind_eq_ok act_simps lift_def)
    with False m show ?thesis by (simp add: fifo_step_def waits_ok_def)
  qed
qed

lemma gt_inner_fifo:
  assumes "draws_only env" and "waits_ok (te_ck env) s" and "gt_inner env c s = (t, LOk rep)"
  shows "fifo_step (te_ck env) s (case snd (te_inner env c (gts_inner s)) of LOk r \<Rightarrow> asked_by r | _ \<Rightarrow> []) (sent_of rep) t"
proof -
  obtain s1 r where i: "on_gts_inner (te_inner env c) s = (s1, LOk r)"
    and rest: "(case r of
       TryReplyFromReader _ \<Rightarrow> panic
     | GTApi inner_reply \<Rightarrow> if te_r_is_api env inner_reply then ret (ApiRep (GTApi inner_reply)) else ret NoRep
     | SendCommandToRand inner_command \<Rightarrow> gt_send_or_wait env None inner_command
     | SendCommandTo dest inner_command \<Rightarrow> gt_send_or_wait env (Some dest) inner_command
     | GTNoRep \<Rightarrow> ret NoRep) s1 = (t, LOk rep)"
    using assms(3) unfolding gt_inner_def bind_eq_ok by blast
  have s1: "same_peers s s1" and r: "snd (te_inner env c (gts_inner s)) = LOk r"
    using i by (auto simp: on_gts_inner_def same_peers_def split: prod.splits)
  have ok1: "waits_ok (te_ck env) s1" using assms(2) s1 by (rule waits_ok_same)
  have q: "fifo_step (te_ck env) s as ss t" if "fifo_step (te_ck env) s1 as ss t" for as ss
    using that s1 by (simp add: fifo_step_def same_peers_def)
  show ?thesis unfolding r
  proof (cases r)
    case (SendCommandToRand x)
    then show "fifo_step (te_ck env) s (case LOk r of LOk r \<Rightarrow> asked_by r | _ \<Rightarrow> []) (sent_of rep) t"
      using rest by (auto intro!: q gt_send_or_wait_fifo [OF assms(1) ok1])
  next
    case (SendCommandTo d x)
    then show "fifo_step (te_ck env) s (case LOk r of LOk r \<Rightarrow> asked_by r | _ \<Rightarrow> []) (sent_of rep) t"
      using rest by (auto intro!: q gt_send_or_wait_fifo [OF assms(1) ok1])
  qed (use rest fifo_quiet [OF assms(2) s1] in \<open>auto simp: act_simps split: if_splits\<close>)
qed

lemma gt_new_online_fifo:
  assumes "draws_only env" and "gt_new_online env p s = (t, LOk rep)"
  shows "fifo_step (te_ck env) s [] (sent_of rep) t"
proof -
  let ?s1 = "s\<lparr>address_key := hashmap_add_val_c (get_address p) (get_key p) (address_key s),
               gts_rp := add_online p (gts_rp s)\<rparr>"
  consider (none) "to_send s = []" "t = ?s1" "rep = NoRep"
    | (wait) m where "missing_peer (te_ck env) (gts_rp ?s1) = Ok m" "m \<noteq> 0" "t = ?s1" "rep = NoRep"
    | (flush) cmds where "gt_flush env (length (to_send ?s1)) ?s1 = (t, LOk cmds)" "rep = Mult cmds"
    using assms(2)
    by (auto simp: gt_new_online_def bind_eq_ok act_simps dest!: gt_missing_ok split: if_splits)
  then show ?thesis
  proof cases
    case flush
    from gt_flush_sent [OF assms(1) flush(1) refl] flush(2) show ?thesis
      by (simp add: fifo_step_def waits_ok_def)
  qed (auto simp: fifo_step_def waits_ok_def)
qed

lemma gt_transmit_fifo:
  assumes "draws_only env" and "waits_ok (te_ck env) s" and "gt_transmit env st c s = (t, LOk rep)"
  shows "fifo_step (te_ck env) s [] (sent_of rep) t"
proof -
  have "same_peers s t \<and> sent_of rep = []"
    using assms(1,3)
    by (cases "(env, st, c)" rule: gt_transmit.cases)
      (auto simp: act_simps bind_eq_ok dest: on_tunnel_reply_same)
  with fifo_quiet [OF assms(2)] show ?thesis by simp
qed

lemma gt_call_fifo:
  assumes "draws_only env" and "waits_ok (te_ck env) s" and "gt_call env req s = (t, LOk rep)"
  shows "fifo_step (te_ck env) s (asked env req s) (sent_of rep) t"
proof -
  have exec: "fifo_step (te_ck env) s (asked env (if loc then GLocal c else GDistant ow c) s) (sent_of rep) t"
    if run: "gt_exec env loc (if loc then None else ow) c s = (t, LOk rep)" for loc ow c
  proof (cases c)
    case (GTInner x)
    then show ?thesis using run gt_inner_fifo [OF assms(1,2)]
      by (cases loc) (simp_all add: asked_def inner_request_def)
  next
    case (NewOnline p)
    then show ?thesis using run gt_new_online_fifo [OF assms(1)] by (simp add: asked_def inner_request_def)
  next
    case (GTOffline p)
    then have "t = s\<lparr>address_key := fst (hashmap_remove_val_c (get_address p) (address_key s)),
        gts_rp := rem_online p (gts_rp s)\<rparr>" "rep = NoRep"
      using run by (auto simp: gt_offline_def bind_eq_ok act_simps)
    then show ?thesis using assms(2) GTOffline rem_online_missing
      by (auto simp: asked_def inner_request_def fifo_step_def waits_ok_def)
  next
    case (TransmitReply st x)
    then show ?thesis using run gt_transmit_fifo [OF assms(1,2)] by (simp add: asked_def inner_request_def)
  qed (use run in \<open>simp_all add: act_simps\<close>)
  show ?thesis
  proof (cases req)
    case (GLocal c)
    then show ?thesis using assms(3) exec [of True _ c] by simp
  next
    case (GDistant ow c)
    then show ?thesis using assms(3) exec [of False ow c] by simp
  qed
qed

section \<open>Runs of the global service\<close>

text \<open>A sequence of commands: what the inner service asked to send, and the replies.\<close>

fun gt_run ::
    "('k, 'a, 's, 't, 'w, 'rw, 'ri, 'dr, 'c, 'r) tunnel_env
      \<Rightarrow> (('k, 'a) peer, ('k, 'a, 'w, 'rw, 'ri, 'dr, 'pr, 'rb, 'c) global_tunnel_command) global_command list
      \<Rightarrow> (('k, 'a, 's, 't, 'c) global_tunnel_service,
          'c list \<times> ('k, 'a, 'f, 'g, ('k, 'a, 'w, 'rw, 'ri, 'dr, 'pr, 'rb, 'c) global_tunnel_command, ('k, 'a, 'c, 'r) global_tunnel_reply) global_reply list) act" where
  "gt_run env [] = ret ([], [])"
| "gt_run env (req # reqs) =
     bind (gets (asked env req)) (\<lambda>a.
     bind (gt_call env req) (\<lambda>rep.
     bind (gt_run env reqs) (\<lambda>(as, reps). ret (a @ as, rep # reps))))"

lemma gt_run_fifo:
  assumes "draws_only env"
  shows "waits_ok (te_ck env) s \<Longrightarrow> gt_run env reqs s = (t, LOk (as, reps)) \<Longrightarrow>
    fifo_step (te_ck env) s as (concat (map sent_of reps)) t"
proof (induction reqs arbitrary: s as reps)
  case Nil
  then show ?case by (simp add: fifo_step_def act_simps)
next
  case (Cons req reqs)
  then obtain s1 rep as' reps' where call: "gt_call env req s = (s1, LOk rep)"
    and run: "gt_run env reqs s1 = (t, LOk (as', reps'))" and eq: "as = asked env req s @ as'" "reps = rep # reps'"
    by (auto simp: bind_eq_ok act_simps split: prod.splits)
  have one: "fifo_step (te_ck env) s (asked env req s) (sent_of rep) s1"
    using assms Cons.prems(1) call by (rule gt_call_fifo)
  then have "fifo_step (te_ck env) s1 as' (concat (map sent_of reps')) t"
    using Cons.IH [OF _ run] by (simp add: fifo_step_def)
  with one show ?case unfolding eq by (simp add: fifo_step_def) (metis append_assoc)
qed

section \<open>The route provider keeps its shape\<close>

lemma next_shape [simp]: "rp_shape (rp\<lparr>rp_rng := r\<rparr>) = rp_shape rp" "rp_shape (rp\<lparr>rp_dests := d\<rparr>) = rp_shape rp"
  "rp_shape (rp\<lparr>rp_rng := r, positions_res := x, positions := y\<rparr>) = rp_shape rp"
  by (simp_all add: rp_shape_def)

lemma draw_positions_shape: "draw_positions c m n rp = Ok rp' \<Longrightarrow> rp_shape rp' = rp_shape rp"
proof (induction "m - n" arbitrary: n rp)
  case 0
  then have "draw_positions c m n rp = Ok rp" by (subst draw_positions.simps) simp
  with 0 show ?case by simp
next
  case (Suc k)
  from Suc.prems obtain x y where "draw_positions c m (Suc n) (rp\<lparr>rp_rng := (\<lambda>n. rp_rng rp (Suc n)), positions_res := x, positions := y\<rparr>) = Ok rp'"
    using Suc.hyps(2) by (subst (asm) draw_positions.simps) (auto simp: next_u64_def Let_def split: if_splits)
  from Suc.hyps(1) [OF _ this] Suc.hyps(2) show ?case by simp
qed

lemma draw_other_shape: "draw_other result rp = Some (rp', p) \<Longrightarrow> rp_shape rp' = rp_shape rp"
proof -
  have "rp_shape (fst y) = rp_shape rp" if "draw_other result rp = Some y" for y
    using that
    by (rule draw_other.raw_induct [where P = "\<lambda>result rp y. rp_shape (fst y) = rp_shape rp", rotated])
      (fastforce simp: next_u64_def Let_def split: if_splits)
  then show "draw_other result rp = Some (rp', p) \<Longrightarrow> rp_shape rp' = rp_shape rp" by fastforce
qed

lemma new_route_shape:
  assumes "new_route ck d rp = Some (Ok (rp', r))" shows "rp_shape rp' = rp_shape rp"
proof -
  obtain rp1 n rp2 res where h: "route_hops ck rp = Ok (rp1, n)"
    and dr: "draw_positions (length (rp_peers rp1)) (unat n) 0 rp1 = Ok rp2"
    and e: "end_of_route True d rp2 res = Some (rp', r)"
    using assms by (auto simp: new_route_def rp_exact_rand_def Let_def split: outcome.splits prod.splits if_splits)
  have "rp_shape rp1 = rp_shape rp"
    using h by (auto simp: route_hops_def next_u32_def and_then_eq_Ok Let_def split: if_splits)
  moreover have "rp_shape rp' = rp_shape rp2"
    using e by (auto simp: end_of_route_def Let_def dest: draw_other_shape split: if_splits)
  ultimately show ?thesis using draw_positions_shape [OF dr] by simp
qed

section \<open>Properties\<close>

text \<open>
  C12. The global tunnel service sends the commands of its inner service in the order in which they were
  asked for, each once: over any run, what was sent followed by what still waits is what was asked
  for.  Commands wait only while peers are missing for a route, so that all of them are sent when
  no peer is missing.  Of the \<open>tunnel\<close> crate it is assumed that it only draws routes from the route
  provider.
\<close>

theorem tunnel_commands_in_order:
  assumes "gt_run env reqs s = (t, LOk (as, reps))" and "to_send s = []" and "draws_only env"
  shows "as = concat (map sent_of reps) @ map snd (to_send t)
    \<and> (missing_peer (te_ck env) (gts_rp t) = Ok 0 \<longrightarrow> as = concat (map sent_of reps))"
proof -
  have "waits_ok (te_ck env) s" using assms(2) by (simp add: waits_ok_def)
  with gt_run_fifo [OF assms(3) this assms(1)] assms(2) show ?thesis by (auto simp: fifo_step_def waits_ok_def)
qed

section \<open>Witnesses\<close>

text \<open>An inner service that sends every command to a fixed peer, and a tunnel that is its route.\<close>

definition demo_tunnel_env :: "(nat, nat, unit, unit, (nat, nat) peer list, unit, unit, unit, nat, unit) tunnel_env" where
  "demo_tunnel_env =
     \<lparr>te_ck = True,
      te_inner = (\<lambda>c s. (s, LOk (SendCommandTo \<lparr>get_key = 9, get_address = 90\<rparr> (get_inner_command c)))),
      te_r_is_api = (\<lambda>r. False),
      te_new_writer = (\<lambda>d (t, rp). case new_route True d rp of
          Some (Ok (rp', route)) \<Rightarrow> Ok ((t, rp'), route, get_address (route ! 1))
        | Some (Err e) \<Rightarrow> Err e
        | _ \<Rightarrow> Panic),
      te_reply_init = (\<lambda>rw dr (t, rp). Ok ((t, rp), ()))\<rparr>"

definition demo_tunnel_service :: "(nat, nat, unit, unit, nat) global_tunnel_service" where
  "demo_tunnel_service =
     \<lparr>gts_inner = (), to_send = [],
      gts_rp = \<lparr>rp_me = \<lparr>get_key = 0, get_address = 0\<rparr>, rp_peers = [], rp_dests = \<lparr>get_key = 0, get_address = 0\<rparr>,
        positions = [], positions_res = [0], routelength = 1, routebias = 0, rp_rng = (\<lambda>n. 0)\<rparr>,
      gts_tunnel = (), address_key = []\<rparr>"

lemma demo_draws_only: "draws_only demo_tunnel_env"
  by (auto simp: draws_only_def demo_tunnel_env_def dest: new_route_shape split: option.splits outcome.splits)

lemmas demo_tunnel_eval = demo_tunnel_service_def demo_tunnel_env_def asked_def inner_request_def gt_inner_def on_gts_inner_def
  gt_send_or_wait_def gt_missing_def missing_peer_def route_len_def checked_add_def gt_new_online_def add_online_def
  gt_send_once_def on_tunnel_def new_route_def rp_exact_rand_def route_hops_def end_of_route_def next_u64_def
  hashmap_add_val_c_def hashmap_get_val_c_def bind_def gets_def lift_def modify_def ret_def Let_def

abbreviation demo_dest :: "(nat, nat) peer" where
  "demo_dest \<equiv> \<lparr>get_key = 9, get_address = 90\<rparr>"

abbreviation demo_hop :: "(nat, nat) peer" where
  "demo_hop \<equiv> \<lparr>get_key = 1, get_address = 10\<rparr>"

definition demo_rp :: "(nat, nat) rp" where
  "demo_rp = add_online demo_hop (gts_rp demo_tunnel_service)"

lemma demo_rp_ok: "rp_ok demo_rp"
  by (simp add: demo_rp_def rp_ok_def add_online_def demo_tunnel_service_def)

lemma demo_rp_missing: "same_rp demo_rp rp \<Longrightarrow> missing_peer True rp = Ok 0"
  using missing_peer_ok [OF rp_ok_same [OF demo_rp_ok], of rp True]
  by (simp add: same_rp_def demo_rp_def add_online_def demo_tunnel_service_def)

type_synonym demo_tunnel_reply =
  "(nat, nat, unit, unit, (nat, nat, (nat, nat) peer list, unit, unit, unit, unit, unit, nat) global_tunnel_command,
    (nat, nat, nat, unit) global_tunnel_reply) global_reply"

lemma demo_asked:
  "asked demo_tunnel_env (GLocal (GTInner c)) s = [c]" "asked demo_tunnel_env (GLocal (NewOnline p)) s = []"
  by (simp_all add: asked_def inner_request_def demo_tunnel_env_def)

lemma demo_waits:
  "gt_call demo_tunnel_env (GLocal (GTInner c)) (demo_tunnel_service\<lparr>to_send := q\<rparr>) =
     (demo_tunnel_service\<lparr>to_send := q @ [(Some demo_dest, c)]\<rparr>, LOk (MainLoopRep (SubPoolSize 2) :: demo_tunnel_reply))"
  by (simp add: demo_tunnel_eval)

lemma demo_sends:
  assumes "same_rp demo_rp (gts_rp s)"
  shows "\<exists>t (rep :: demo_tunnel_reply). gt_send_once demo_tunnel_env demo_dest c s = (t, LOk rep) \<and> same_rp demo_rp (gts_rp t) \<and> to_send t = to_send s"
proof -
  have ok: "rp_ok (gts_rp s)" using rp_ok_same [OF demo_rp_ok assms] .
  have "unat (routelength (gts_rp s)) + unat (routebias (gts_rp s)) \<le> length (rp_peers (gts_rp s))"
    using assms by (simp add: same_rp_def demo_rp_def add_online_def demo_tunnel_service_def)
  from new_route_ok [OF ok this, of True demo_dest] obtain rp' route where
    "new_route True demo_dest (gts_rp s) = Some (Ok (rp', route))" "same_rp (gts_rp s) rp'" by blast
  then show ?thesis using same_rp_trans [OF assms]
    by (auto simp: gt_send_once_def on_tunnel_def demo_tunnel_env_def bind_def gets_def ret_def)
qed

lemma demo_flushes:
  assumes "same_rp demo_rp (gts_rp s)" and "map fst (to_send s) = replicate n (Some demo_dest)"
  shows "\<exists>t (reps :: demo_tunnel_reply list). gt_flush demo_tunnel_env n s = (t, LOk reps) \<and> same_rp demo_rp (gts_rp t)"
  using assms
proof (induction n arbitrary: s)
  case 0
  then show ?case by (simp add: ret_def)
next
  case (Suc n)
  then obtain c q where q: "to_send s = (Some demo_dest, c) # q" "map fst q = replicate n (Some demo_dest)" by auto
  obtain t and rep :: demo_tunnel_reply where t: "gt_send_once demo_tunnel_env demo_dest c (s\<lparr>to_send := q\<rparr>) = (t, LOk rep)"
    "same_rp demo_rp (gts_rp t)" "to_send t = q"
    using demo_sends [of "s\<lparr>to_send := q\<rparr>" c] Suc.prems(1) by auto
  obtain u and reps :: "demo_tunnel_reply list" where u: "gt_flush demo_tunnel_env n t = (u, LOk reps)" "same_rp demo_rp (gts_rp u)"
    using Suc.IH [OF t(2)] t(3) q(2) by auto
  have "gt_flush demo_tunnel_env (Suc n) s = (u, LOk (rep # reps))"
    using t(1) u(1) q(1) by (simp add: bind_def gets_def modify_def ret_def)
  with u(2) show ?case by blast
qed

theorem tunnel_commands_in_order_witness:
  "\<exists>t (reps :: demo_tunnel_reply list). gt_run demo_tunnel_env [GLocal (GTInner 5), GLocal (GTInner 6), GLocal (NewOnline \<lparr>get_key = 1, get_address = 10\<rparr>)]
       demo_tunnel_service = (t, LOk ([5, 6], reps))
     \<and> missing_peer True (gts_rp t) = Ok 0 \<and> concat (map sent_of reps) = [5, 6]"
proof -
  let ?reqs = "[GLocal (GTInner 5), GLocal (GTInner 6), GLocal (NewOnline \<lparr>get_key = 1, get_address = 10\<rparr>)]"
  let ?s = "demo_tunnel_service\<lparr>to_send := [(Some demo_dest, 5), (Some demo_dest, 6)]\<rparr>"
  let ?s' = "?s\<lparr>address_key := [(10, 1)], gts_rp := demo_rp\<rparr>"
  obtain t and cmds :: "demo_tunnel_reply list" where flush: "gt_flush demo_tunnel_env (Suc (Suc 0)) ?s' = (t, LOk cmds)" and same: "same_rp demo_rp (gts_rp t)"
    using demo_flushes [of ?s' "Suc (Suc 0)"] by auto
  have ck: "te_ck demo_tunnel_env" by (simp add: demo_tunnel_env_def)
  have "gt_call demo_tunnel_env (GLocal (NewOnline demo_hop)) ?s = (t, LOk (Mult cmds))"
    using flush ck demo_rp_missing [of demo_rp]
    by (simp add: gt_new_online_def gt_missing_def bind_def gets_def modify_def lift_def ret_def demo_rp_def
        demo_tunnel_service_def hashmap_add_val_c_def del: gt_flush.simps)
  moreover have "demo_tunnel_service = demo_tunnel_service\<lparr>to_send := []\<rparr>" by (simp add: demo_tunnel_service_def)
  ultimately obtain reps :: "demo_tunnel_reply list" where run: "gt_run demo_tunnel_env ?reqs demo_tunnel_service = (t, LOk ([5, 6], reps))"
    using demo_waits [of 5 "[]"] demo_waits [of 6 "[(Some demo_dest, 5)]"]
    by (auto simp: bind_def gets_def ret_def demo_asked simp del: gt_call.simps)
  have "to_send demo_tunnel_service = []" by (simp add: demo_tunnel_service_def)
  from tunnel_commands_in_order [OF run this demo_draws_only] demo_rp_missing [OF same] ck run show ?thesis by auto
qed

end
