(* ===== verification/Tunnelenc.thy ===== *)
theory Tunnelenc
  imports Tunnel
begin

text \<open>
  The encoder of the tunnels, \<open>TunnelWriterReader\<close> of \<open>mydht-tunnel/src/lib.rs\<close>: messages and their
  attachments written through the writer of a tunnel, the proxying of a tunnel from one stream to
  another, and the reading of a message at a hop or at the destination.

  Writing is a log of the calls on the writers of the \<open>tunnel\<close> crate; each may fail, as a function of
  the log.  Reading goes over a stream of type \<open>'st\<close> that the readers of the crate advance.
\<close>

section \<open>State\<close>

datatype ('w, 'rw, 'ri, 'm, 'att) tw_event =
    TwHeader "'w + 'rw"
  | TwMsg "'w + 'rw" 'm
  | TwAttach "'w + 'rw" 'att
  | TwEnd "'w + 'rw"
  | TwFlush "'w + 'rw"
  | TwStreamFlush
  | TwReplyInit 'ri 'rw
  | TwProxyReadHeader
  | TwProxyHeader
  | TwProxyRead bytes
  | TwProxyWrote bytes
  | TwProxyReadEnd
  | TwProxyEnd
  | TwProxyFlush

record ('w, 'rw, 'ri, 'dr, 'm, 'att) tunnel_wr =
  current_writer :: "'w option"
  current_reply_writer :: "'rw option"
  current_reader :: "'dr option"
  nb_attach_rem :: usize
  do_finalize_read :: bool
  tw_log :: "('w, 'rw, 'ri, 'm, 'att) tw_event list"

definition tw_get_new :: "('w, 'rw, 'ri, 'dr, 'm, 'att) tunnel_wr" where
  "tw_get_new = \<lparr>current_writer = None, current_reply_writer = None, current_reader = None, nb_attach_rem = 0,
     do_finalize_read = False, tw_log = []\<rparr>"

record ('w, 'rw, 'ri, 'm, 'att) tw_env =
  tw_ck :: bool
  tw_io :: "('w, 'rw, 'ri, 'm, 'att) tw_event list \<Rightarrow> ('w, 'rw, 'ri, 'm, 'att) tw_event \<Rightarrow> error_kind option"
  tw_read :: "('w, 'rw, 'ri, 'm, 'att) tw_event list \<Rightarrow> bytes outcome"
  tw_write :: "('w, 'rw, 'ri, 'm, 'att) tw_event list \<Rightarrow> bytes \<Rightarrow> nat outcome"
  tw_nb_att :: "'m \<Rightarrow> nat"

type_synonym ('w, 'rw, 'ri, 'dr, 'm, 'att, 'x) tw_act = "(('w, 'rw, 'ri, 'dr, 'm, 'att) tunnel_wr, 'x) act"

section \<open>Writing\<close>

definition tw_do ::
    "('w, 'rw, 'ri, 'm, 'att) tw_env \<Rightarrow> ('w, 'rw, 'ri, 'm, 'att) tw_event \<Rightarrow> ('w, 'rw, 'ri, 'dr, 'm, 'att, unit) tw_act" where
  "tw_do env ev =
     bind (gets (\<lambda>s. tw_io env (tw_log s) ev)) (\<lambda>r.
     case r of None \<Rightarrow> modify (\<lambda>s. s\<lparr>tw_log := tw_log s @ [ev]\<rparr>) | Some e \<Rightarrow> fail (LoopErr e))"

text \<open>
  The copying of a proxied tunnel: what is read is written, the inner loop until as many bytes
  were written as read.  Every write is given the buffer from its start.
\<close>

partial_function (option) proxy_write ::
    "('w, 'rw, 'ri, 'm, 'att) tw_env \<Rightarrow> bytes \<Rightarrow> nat \<Rightarrow> ('w, 'rw, 'ri, 'm, 'att) tw_event list
      \<Rightarrow> (('w, 'rw, 'ri, 'm, 'att) tw_event list \<times> unit outcome) option" where
  "proxy_write env buf ix lg =
     (if ix < length buf
      then (case tw_write env lg buf of
              Ok nb \<Rightarrow> proxy_write env buf (ix + nb) (lg @ [TwProxyWrote (take nb buf)])
            | Err e \<Rightarrow> Some (lg, Err e)
            | Panic \<Rightarrow> Some (lg, Panic))
      else Some (lg, Ok ()))"

declare proxy_write.simps [code]

partial_function (option) proxy_loop ::
    "('w, 'rw, 'ri, 'm, 'att) tw_env \<Rightarrow> ('w, 'rw, 'ri, 'm, 'att) tw_event list
      \<Rightarrow> (('w, 'rw, 'ri, 'm, 'att) tw_event list \<times> unit outcome) option" where
  "proxy_loop env lg =
     (case tw_read env lg of
        Ok buf \<Rightarrow>
          Option.bind (proxy_write env buf 0 (lg @ [TwProxyRead buf])) (\<lambda>(lg', r).
            if r = Ok () \<and> length buf > 0 then proxy_loop env lg' else Some (lg', r))
      | Err e \<Rightarrow> Some (lg, Err e)
      | Panic \<Rightarrow> Some (lg, Panic))"

declare proxy_loop.simps [code]

definition encode_proxy ::
    "('w, 'rw, 'ri, 'm, 'att) tw_env \<Rightarrow> ('w, 'rw, 'ri, 'dr, 'm, 'att) tunnel_wr
      \<Rightarrow> (('w, 'rw, 'ri, 'dr, 'm, 'att) tunnel_wr \<times> unit loop_result) option" where
  "encode_proxy env s =
     (case bind (tw_do env TwProxyReadHeader) (\<lambda>_. tw_do env TwProxyHeader) s of
        (s1, LOk _) \<Rightarrow>
          map_option (\<lambda>(lg, r).
            bind (bind (modify (\<lambda>s. s\<lparr>tw_log := lg\<rparr>)) (\<lambda>_. lift r)) (\<lambda>_.
            bind (tw_do env TwProxyReadEnd) (\<lambda>_.
            bind (tw_do env TwProxyEnd) (\<lambda>_.
            bind (tw_do env TwProxyFlush) (\<lambda>_. tw_do env TwStreamFlush)))) s1)
          (proxy_loop env (tw_log s1))
      | (s1, r) \<Rightarrow> Some (s1, r))"

text \<open>The end of a message: kept open for the attachments, or closed.\<close>

definition close_writer ::
    "('w, 'rw, 'ri, 'm, 'att) tw_env \<Rightarrow> 'w + 'rw \<Rightarrow> ('w, 'rw, 'ri, 'dr, 'm, 'att, unit) tw_act" where
  "close_writer env w =
     bind (tw_do env (TwEnd w)) (\<lambda>_. bind (tw_do env (TwFlush w)) (\<lambda>_. tw_do env TwStreamFlush))"

definition encode_send ::
    "('w, 'rw, 'ri, 'm, 'att) tw_env \<Rightarrow> 'w \<Rightarrow> 'm
      \<Rightarrow> ('w, 'rw, 'ri, 'dr, 'm, 'att, ('a, 'w, 'rw, 'ri, 'fr, 'dr, 'pr, 'rb, 'm) tunnel_messaging) tw_act" where
  "encode_send env tunn_we proto_m =
     bind (tw_do env (TwHeader (Inl tunn_we))) (\<lambda>_.
     bind (tw_do env (TwMsg (Inl tunn_we) proto_m)) (\<lambda>_.
     bind (modify (\<lambda>s. s\<lparr>current_writer := None\<rparr>)) (\<lambda>_.
     if tw_nb_att env proto_m > 0
     then bind (modify (\<lambda>s. s\<lparr>nb_attach_rem := of_nat (tw_nb_att env proto_m), current_writer := Some tunn_we\<rparr>)) (\<lambda>_.
          ret (MSendOnce None proto_m))
     else bind (close_writer env (Inl tunn_we)) (\<lambda>_. ret (MSendOnce (Some tunn_we) proto_m)))))"

definition encode_reply ::
    "('w, 'rw, 'ri, 'm, 'att) tw_env \<Rightarrow> 'm \<Rightarrow> 'ri \<Rightarrow> 'rw \<Rightarrow> 'dr \<Rightarrow> 'rb
      \<Rightarrow> ('w, 'rw, 'ri, 'dr, 'm, 'att, ('a, 'w, 'rw, 'ri, 'fr, 'dr, 'pr, 'rb, 'm) tunnel_messaging) tw_act" where
  "encode_reply env proto_m rwinit rw destr rb =
     bind (tw_do env (TwReplyInit rwinit rw)) (\<lambda>_.
     bind (tw_do env (TwHeader (Inr rw))) (\<lambda>_.
     bind (tw_do env (TwMsg (Inr rw) proto_m)) (\<lambda>_.
     bind (modify (\<lambda>s. s\<lparr>current_reply_writer := None\<rparr>)) (\<lambda>_.
     if tw_nb_att env proto_m > 0
     then bind (modify (\<lambda>s. s\<lparr>nb_attach_rem := of_nat (tw_nb_att env proto_m), current_reply_writer := Some rw\<rparr>)) (\<lambda>_.
          ret (MReplyOnce proto_m None None destr rb))
     else bind (close_writer env (Inr rw)) (\<lambda>_. ret (MReplyOnce proto_m None (Some rw) destr rb))))))"

fun encode_msg_into ::
    "('w, 'rw, 'ri, 'm, 'att) tw_env \<Rightarrow> ('a, 'w, 'rw, 'ri, 'fr, 'dr, 'pr, 'rb, 'm) tunnel_messaging
      \<Rightarrow> ('w, 'rw, 'ri, 'dr, 'm, 'att) tunnel_wr
      \<Rightarrow> (('w, 'rw, 'ri, 'dr, 'm, 'att) tunnel_wr \<times> ('a, 'w, 'rw, 'ri, 'fr, 'dr, 'pr, 'rb, 'm) tunnel_messaging loop_result) option" where
  "encode_msg_into env (MSendOnce (Some tunn_we) proto_m) s = Some (encode_send env tunn_we proto_m s)"
| "encode_msg_into env (MReplyOnce proto_m (Some rwinit) (Some rw) destr rb) s = Some (encode_reply env proto_m rwinit rw destr rb s)"
| "encode_msg_into env (MProxyOnce proxy rb) s =
     map_option (\<lambda>(s', r). (s', case r of LOk _ \<Rightarrow> LOk (MProxyOnce proxy rb) | LErr e \<Rightarrow> LErr e | LPanic \<Rightarrow> LPanic)) (encode_proxy env s)"
| "encode_msg_into env _ s = Some (s, LPanic)"

text \<open>An attachment goes to every writer that is open.\<close>

definition attach_to ::
    "('w, 'rw, 'ri, 'm, 'att) tw_env \<Rightarrow> 'att \<Rightarrow> ('w + 'rw) option \<Rightarrow> ('w, 'rw, 'ri, 'dr, 'm, 'att, unit) tw_act" where
  "attach_to env att ow =
     (case ow of
        None \<Rightarrow> ret ()
      | Some w \<Rightarrow>
          bind (tw_do env (TwAttach w att)) (\<lambda>_.
          bind (gets nb_attach_rem) (\<lambda>n.
          bind (lift (checked_sub (tw_ck env) n 1)) (\<lambda>n'.
          bind (modify (\<lambda>s. s\<lparr>nb_attach_rem := n'\<rparr>)) (\<lambda>_.
          if n' = 0 then bind (tw_do env (TwFlush w)) (\<lambda>_. tw_do env (TwEnd w)) else ret ())))))"

definition attach_into ::
    "('w, 'rw, 'ri, 'm, 'att) tw_env \<Rightarrow> 'att \<Rightarrow> ('w, 'rw, 'ri, 'dr, 'm, 'att, unit) tw_act" where
  "attach_into env att =
     bind (gets (\<lambda>s. map_option Inl (current_writer s))) (\<lambda>ow.
     bind (attach_to env att ow) (\<lambda>_.
     bind (gets (\<lambda>s. map_option Inr (current_reply_writer s))) (\<lambda>orw. attach_to env att orw)))"

section \<open>Reading\<close>

record ('w, 'rw, 'ri, 'dr, 'm, 'att, 'st) tunnel_rs = "('w, 'rw, 'ri, 'dr, 'm, 'att) tunnel_wr" +
  td_stream :: 'st

record ('a, 'rw, 'ri, 'fr, 'dr, 'pr, 'm, 'att, 'st) td_env =
  td_header :: "'st \<Rightarrow> 'st \<times> 'fr outcome"
  td_is_dest :: "'fr \<Rightarrow> bool option"
  td_is_err :: "'fr \<Rightarrow> bool option"
  td_can_dest :: "'fr \<Rightarrow> bool"
  td_new_dest :: "'fr \<Rightarrow> 'st \<Rightarrow> 'st \<times> 'dr option outcome"
  td_dest_header :: "'dr \<Rightarrow> 'st \<Rightarrow> 'st \<times> 'dr outcome"
  td_decode :: "'dr \<Rightarrow> 'st \<Rightarrow> 'st \<times> ('dr \<times> 'm) outcome"
  td_sizes :: "'m \<Rightarrow> nat list"
  td_new_reply :: "'dr \<Rightarrow> 'st \<Rightarrow> 'st \<times> ('dr \<times> bool \<times> bool \<times> ('rw \<times> 'a) option) outcome"
  td_read_end :: "'dr \<Rightarrow> 'st \<Rightarrow> 'st \<times> 'dr outcome"
  td_init_init :: "'ri option outcome"
  td_can_proxy :: "'fr \<Rightarrow> bool"
  td_new_proxy :: "'fr \<Rightarrow> ('pr \<times> 'a) option outcome"
  td_attach :: "'dr \<Rightarrow> nat \<Rightarrow> 'st \<Rightarrow> 'st \<times> ('dr \<times> 'att) outcome"

type_synonym ('w, 'rw, 'ri, 'dr, 'm, 'att, 'st, 'x) td_act = "(('w, 'rw, 'ri, 'dr, 'm, 'att, 'st) tunnel_rs, 'x) act"

definition on_stream :: "('st \<Rightarrow> 'st \<times> 'x outcome) \<Rightarrow> ('w, 'rw, 'ri, 'dr, 'm, 'att, 'st, 'x) td_act" where
  "on_stream f s = (case f (td_stream s) of (st, r) \<Rightarrow> (s\<lparr>td_stream := st\<rparr>, of_outcome r))"

text \<open>The reader is kept in the encoder when attachments follow.\<close>

definition keep_reader :: "'dr \<Rightarrow> ('w, 'rw, 'ri, 'dr, 'm, 'att, 'st, 'dr option) td_act" where
  "keep_reader dr =
     bind (gets nb_attach_rem) (\<lambda>n.
     if n > 0 then bind (modify (\<lambda>s. s\<lparr>current_reader := Some dr\<rparr>)) (\<lambda>_. ret None) else ret (Some dr))"

definition dest_message ::
    "('a, 'rw, 'ri, 'fr, 'dr, 'pr, 'm, 'att, 'st) td_env \<Rightarrow> 'm \<Rightarrow> 'dr \<Rightarrow> bool \<Rightarrow> bool \<Rightarrow> ('rw \<times> 'a) option
      \<Rightarrow> ('w, 'rw, 'ri, 'dr, 'm, 'att, 'st, ('a, 'w, 'rw, 'ri, 'fr, 'dr, 'pr, 'rb, 'm) tunnel_messaging) td_act" where
  "dest_message env proto_m dr do_reply need_init owr =
     (if \<not> do_reply then bind (keep_reader dr) (\<lambda>_. ret (ReplyFromReader proto_m NoReply))
      else (case owr of
              Some (reply_w, dest) \<Rightarrow>
                if need_init
                then bind (keep_reader dr) (\<lambda>odr.
                     bind (lift (td_init_init env)) (\<lambda>init_init.
                     ret (ReplyFromReader proto_m (ReplyDirectInit reply_w odr dest None init_init))))
                else ret (ReplyFromReader proto_m (ReplyDirectNoInit reply_w dest))
            | None \<Rightarrow> bind (keep_reader dr) (\<lambda>odr. ret (ReplyFromReader proto_m (ReplyToGlobalWithRead odr None)))))"

definition decode_dest ::
    "('a, 'rw, 'ri, 'fr, 'dr, 'pr, 'm, 'att, 'st) td_env \<Rightarrow> 'fr
      \<Rightarrow> ('w, 'rw, 'ri, 'dr, 'm, 'att, 'st, ('a, 'w, 'rw, 'ri, 'fr, 'dr, 'pr, 'rb, 'm) tunnel_messaging) td_act" where
  "decode_dest env tunn_re =
     bind (on_stream (td_new_dest env tunn_re)) (\<lambda>odr.
     case odr of
       None \<Rightarrow> panic
     | Some dr0 \<Rightarrow>
         bind (on_stream (td_dest_header env dr0)) (\<lambda>dr1.
         bind (on_stream (td_decode env dr1)) (\<lambda>(dr2, proto_m).
         bind (modify (\<lambda>s. s\<lparr>nb_attach_rem := of_nat (length (td_sizes env proto_m))\<rparr>)) (\<lambda>_.
         bind (on_stream (td_new_reply env dr2)) (\<lambda>(dr3, do_reply, need_init, owr).
         bind (gets nb_attach_rem) (\<lambda>n.
         bind (if \<not> do_reply \<or> \<not> need_init
               then if n > 0 then bind (modify (\<lambda>s. s\<lparr>do_finalize_read := True\<rparr>)) (\<lambda>_. ret dr3)
                    else on_stream (td_read_end env dr3)
               else ret dr3) (\<lambda>dr4.
         dest_message env proto_m dr4 do_reply need_init owr)))))))"

definition decode_msg_from ::
    "('a, 'rw, 'ri, 'fr, 'dr, 'pr, 'm, 'att, 'st) td_env
      \<Rightarrow> ('w, 'rw, 'ri, 'dr, 'm, 'att, 'st, ('a, 'w, 'rw, 'ri, 'fr, 'dr, 'pr, 'rb, 'm) tunnel_messaging) td_act" where
  "decode_msg_from env =
     bind (modify (\<lambda>s. s\<lparr>do_finalize_read := False\<rparr>)) (\<lambda>_.
     bind (on_stream (td_header env)) (\<lambda>tunn_re.
     bind (lift (unwrap (td_is_dest env tunn_re))) (\<lambda>dest.
     if dest
     then if td_can_dest env tunn_re then decode_dest env tunn_re
          else bind (modify (\<lambda>s. s\<lparr>nb_attach_rem := 0\<rparr>)) (\<lambda>_. ret (ReadToGlobal tunn_re))
     else bind (lift (unwrap (td_is_err env tunn_re))) (\<lambda>err.
          if err then panic
          else if td_can_proxy env tunn_re
          then bind (lift (td_new_proxy env tunn_re)) (\<lambda>op1.
               case op1 of Some (proxy, dest_address) \<Rightarrow> ret (ProxyFromReader proxy dest_address) | None \<Rightarrow> panic)
          else panic))))"

definition attach_from ::
    "('a, 'rw, 'ri, 'fr, 'dr, 'pr, 'm, 'att, 'st) td_env \<Rightarrow> nat \<Rightarrow> ('w, 'rw, 'ri, 'dr, 'm, 'att, 'st, 'att) td_act" where
  "attach_from env max_size =
     bind (gets current_reader) (\<lambda>ocr.
     case ocr of
       None \<Rightarrow> panic
     | Some dr \<Rightarrow>
         bind (on_stream (td_attach env dr max_size)) (\<lambda>(dr1, att).
         bind (modify (\<lambda>s. s\<lparr>current_reader := Some dr1\<rparr>)) (\<lambda>_.
         bind (gets do_finalize_read) (\<lambda>fin.
         bind (if fin then bind (on_stream (td_read_end env dr1)) (\<lambda>dr2. modify (\<lambda>s. s\<lparr>current_reader := Some dr2\<rparr>))
               else ret ()) (\<lambda>_. ret att)))))"

section \<open>Proxying\<close>

fun wrote :: "('w, 'rw, 'ri, 'm, 'att) tw_event list \<Rightarrow> bytes" where
  "wrote [] = []"
| "wrote (TwProxyWrote bs # lg) = bs @ wrote lg"
| "wrote (_ # lg) = wrote lg"

fun reads :: "('w, 'rw, 'ri, 'm, 'att) tw_event list \<Rightarrow> nat" where
  "reads [] = 0"
| "reads (TwProxyRead _ # lg) = Suc (reads lg)"
| "reads (_ # lg) = reads lg"

lemma wrote_append [simp]: "wrote (a @ b) = wrote a @ wrote b"
  by (induction a rule: wrote.induct) simp_all

lemma reads_append [simp]: "reads (a @ b) = reads a + reads b"
  by (induction a rule: reads.induct) simp_all

text \<open>A reader that gives the chunks \<open>cs\<close> one after the other and then the end of the tunnel.\<close>

definition reads_chunks :: "('w, 'rw, 'ri, 'm, 'att) tw_env \<Rightarrow> bytes list \<Rightarrow> bool" where
  "reads_chunks env cs \<longleftrightarrow> [] \<notin> set cs \<and> (\<forall>lg. reads lg \<le> length cs \<longrightarrow> tw_read env lg = Ok ((cs @ [[]]) ! reads lg))"

definition writes_all :: "('w, 'rw, 'ri, 'm, 'att) tw_env \<Rightarrow> bool" where
  "writes_all env \<longleftrightarrow> (\<forall>lg buf. tw_write env lg buf = Ok (length buf))"

lemma proxy_write_all:
  assumes "writes_all env"
  shows "\<exists>lg'. proxy_write env buf 0 lg = Some (lg', Ok ()) \<and> wrote lg' = wrote lg @ buf \<and> reads lg' = reads lg"
proof (cases "buf = []")
  case True
  then show ?thesis by (subst proxy_write.simps) simp
next
  case False
  then have "proxy_write env buf 0 lg = proxy_write env buf (length buf) (lg @ [TwProxyWrote buf])"
    using assms by (subst proxy_write.simps) (simp add: writes_all_def)
  also have "\<dots> = Some (lg @ [TwProxyWrote buf], Ok ())" by (subst proxy_write.simps) simp
  finally show ?thesis by simp
qed

lemma proxy_loop_copies:
  assumes "reads_chunks env cs" and "writes_all env" and "reads lg \<le> length cs"
  shows "\<exists>lg'. proxy_loop env lg = Some (lg', Ok ()) \<and> wrote lg' = wrote lg @ concat (drop (reads lg) cs)"
  using assms(3)
proof (induction "length cs - reads lg" arbitrary: lg)
  case 0
  then have e: "reads lg = length cs" by simp
  have r: "tw_read env lg = Ok []" using assms(1) by (simp add: reads_chunks_def e)
  obtain lg' where "proxy_write env [] 0 (lg @ [TwProxyRead []]) = Some (lg', Ok ())" "wrote lg' = wrote lg"
    using proxy_write_all [OF assms(2), of "[]" "lg @ [TwProxyRead []]"] by auto
  with r show ?case by (subst proxy_loop.simps) (simp add: e)
next
  case (Suc k)
  then have i: "reads lg < length cs" by simp
  let ?c = "cs ! reads lg"
  have r: "tw_read env lg = Ok ?c" using assms(1) i by (simp add: reads_chunks_def nth_append)
  have c: "?c \<noteq> []" using assms(1) nth_mem [OF i] unfolding reads_chunks_def by metis
  obtain lg' where w: "proxy_write env ?c 0 (lg @ [TwProxyRead ?c]) = Some (lg', Ok ())"
    "wrote lg' = wrote lg @ ?c" "reads lg' = Suc (reads lg)"
    using proxy_write_all [OF assms(2), of ?c "lg @ [TwProxyRead ?c]"] by auto
  have k: "k = length cs - reads lg'" using Suc.hyps(2) w(3) by simp
  obtain lg2 where "proxy_loop env lg' = Some (lg2, Ok ())" "wrote lg2 = wrote lg' @ concat (drop (reads lg') cs)"
    using Suc.hyps(1) [OF k] w(3) i by auto
  moreover have "proxy_loop env lg = proxy_loop env lg'"
    using r w(1) c by (subst proxy_loop.simps) simp
  ultimately show ?case using w(2,3) i by (simp add: Cons_nth_drop_Suc [symmetric])
qed

text \<open>A write that takes only a part of the buffer: the next one starts again at its beginning.\<close>

lemma proxy_partial_write_repeats:
  assumes "tw_write env lg buf = Ok nb" and "0 < nb" and "nb < length buf"
    and "tw_write env (lg @ [TwProxyWrote (take nb buf)]) buf = Ok (length buf)"
  shows "\<exists>lg'. proxy_write env buf 0 lg = Some (lg', Ok ()) \<and> wrote lg' = wrote lg @ take nb buf @ buf"
proof -
  let ?l1 = "lg @ [TwProxyWrote (take nb buf)]"
  have "proxy_write env buf 0 lg = proxy_write env buf nb ?l1"
    using assms by (subst proxy_write.simps) auto
  also have "\<dots> = proxy_write env buf (nb + length buf) (?l1 @ [TwProxyWrote buf])"
    using assms by (subst proxy_write.simps) simp
  also have "\<dots> = Some (?l1 @ [TwProxyWrote buf], Ok ())" by (subst proxy_write.simps) simp
  finally show ?thesis by simp
qed

section \<open>Messages with attachments\<close>

definition tw_reliable :: "('w, 'rw, 'ri, 'm, 'att) tw_env \<Rightarrow> bool" where
  "tw_reliable env \<longleftrightarrow> (\<forall>lg ev. tw_io env lg ev = None)"

lemma tw_do_ok: "tw_reliable env \<Longrightarrow> tw_do env ev s = (s\<lparr>tw_log := tw_log s @ [ev]\<rparr>, LOk ())"
  by (simp add: tw_reliable_def tw_do_def act_simps bind_def)

lemma attach_to_ok:
  assumes "tw_reliable env" and "nb_attach_rem s \<noteq> 0"
  shows "attach_to env att (Some w) s =
    (s\<lparr>nb_attach_rem := nb_attach_rem s - 1,
       tw_log := tw_log s @ TwAttach w att # (if nb_attach_rem s = 1 then [TwFlush w, TwEnd w] else [])\<rparr>, LOk ())"
proof -
  have "checked_sub (tw_ck env) (nb_attach_rem s) 1 = Ok (nb_attach_rem s - 1)"
    by (rule checked_sub_Ok) (use assms(2) in \<open>simp add: Suc_le_eq unat_gt_0\<close>)
  then show ?thesis
    using assms by (simp add: attach_to_def tw_do_ok act_simps bind_def)
qed

text \<open>The attachments of a message to the one writer \<open>w\<close> that is open.\<close>

lemma attach_all:
  assumes "tw_reliable env" and "length atts < 2 ^ 64"
    and "map_option Inl (current_writer s) = Some w \<and> current_reply_writer s = None \<or>
         current_writer s = None \<and> map_option Inr (current_reply_writer s) = Some w"
    and "nb_attach_rem s = of_nat (length atts)" and "atts \<noteq> []"
  shows "\<exists>t. for_each (attach_into env) atts s = (t, LOk ()) \<and> nb_attach_rem t = 0 \<and>
    tw_log t = tw_log s @ map (TwAttach w) atts @ [TwFlush w, TwEnd w]"
  using assms(2-5)
proof (induction atts arbitrary: s)
  case (Cons a atts)
  have "unat (of_nat (length (a # atts)) :: usize) = length (a # atts)"
    using Cons.prems(1) unfolding unat_of_nat by (intro mod_less) simp
  then have n: "unat (nb_attach_rem s) = Suc (length atts)" unfolding Cons.prems(3) by simp
  then have nz: "nb_attach_rem s \<noteq> 0" by auto
  have n': "nb_attach_rem s - 1 = of_nat (length atts)" using Cons.prems(3) by simp
  have last: "nb_attach_rem s = 1 \<longleftrightarrow> atts = []"
  proof
    assume "nb_attach_rem s = 1" then show "atts = []" using n by simp
  next
    assume "atts = []" then show "nb_attach_rem s = 1" using Cons.prems(3) by simp
  qed
  let ?s = "s\<lparr>nb_attach_rem := nb_attach_rem s - 1,
       tw_log := tw_log s @ TwAttach w a # (if atts = [] then [TwFlush w, TwEnd w] else [])\<rparr>"
  have one: "attach_into env a s = (?s, LOk ())"
    using Cons.prems(2) attach_to_ok [OF assms(1) nz, of a w] last
    by (auto simp: attach_into_def act_simps bind_def attach_to_def [of env a None])
  show ?case
  proof (cases "atts = []")
    case True
    then show ?thesis using one n' by (simp add: act_simps bind_def)
  next
    case False
    obtain t where "for_each (attach_into env) atts ?s = (t, LOk ())" "nb_attach_rem t = 0"
      "tw_log t = tw_log ?s @ map (TwAttach w) atts @ [TwFlush w, TwEnd w]"
      using Cons.IH [of ?s] Cons.prems(1,2) n' False by auto
    with one False show ?thesis by (simp add: bind_def)
  qed
qed simp

text \<open>A query and a reply: one frame, closed once, after the last attachment.\<close>

definition framed :: "('w + 'rw) \<Rightarrow> 'm \<Rightarrow> 'att list \<Rightarrow> ('w, 'rw, 'ri, 'm, 'att) tw_event list" where
  "framed w m atts =
     [TwHeader w, TwMsg w m] @ (if atts = [] then [TwEnd w, TwFlush w, TwStreamFlush] else map (TwAttach w) atts @ [TwFlush w, TwEnd w])"

lemma encode_send_ok:
  assumes "tw_reliable env"
  shows "encode_send env w m s =
    (let t = s\<lparr>current_writer := None, tw_log := tw_log s @ [TwHeader (Inl w), TwMsg (Inl w) m]\<rparr> in
     if tw_nb_att env m > 0
     then (t\<lparr>nb_attach_rem := of_nat (tw_nb_att env m), current_writer := Some w\<rparr>, LOk (MSendOnce None m))
     else (t\<lparr>tw_log := tw_log t @ [TwEnd (Inl w), TwFlush (Inl w), TwStreamFlush]\<rparr>, LOk (MSendOnce (Some w) m)))"
  using assms by (simp add: encode_send_def close_writer_def tw_do_ok act_simps bind_def Let_def)

lemma encode_reply_ok:
  assumes "tw_reliable env"
  shows "encode_reply env m ri rw dr rb s =
    (let t = s\<lparr>current_reply_writer := None, tw_log := tw_log s @ [TwReplyInit ri rw, TwHeader (Inr rw), TwMsg (Inr rw) m]\<rparr> in
     if tw_nb_att env m > 0
     then (t\<lparr>nb_attach_rem := of_nat (tw_nb_att env m), current_reply_writer := Some rw\<rparr>, LOk (MReplyOnce m None None dr rb))
     else (t\<lparr>tw_log := tw_log t @ [TwEnd (Inr rw), TwFlush (Inr rw), TwStreamFlush]\<rparr>, LOk (MReplyOnce m None (Some rw) dr rb)))"
  using assms by (simp add: encode_reply_def close_writer_def tw_do_ok act_simps bind_def Let_def)

text \<open>
  A writer stays open in the encoder after the last attachment of a query: the attachment of a
  reply that follows goes to it too, and the number of attachments is lowered below zero.
\<close>

lemma stale_writer_panics:
  assumes "tw_reliable env" and "tw_ck env" and "tw_nb_att env m = 1" and "tw_nb_att env m' = 1"
    and "current_reply_writer s = None"
  shows "\<exists>t1 t2 t3 t4. encode_send env w m s = (t1, LOk (MSendOnce None m)) \<and> attach_into env a t1 = (t2, LOk ()) \<and>
    encode_reply env m' ri rw dr rb t2 = (t3, LOk (MReplyOnce m' None None dr rb)) \<and> attach_into env a' t3 = (t4, LPanic)"
proof -
  let ?t1 = "s\<lparr>current_writer := Some w, nb_attach_rem := 1, tw_log := tw_log s @ [TwHeader (Inl w), TwMsg (Inl w) m]\<rparr>"
  have 1: "encode_send env w m s = (?t1, LOk (MSendOnce None m))" using assms by (simp add: encode_send_ok Let_def)
  let ?t2 = "?t1\<lparr>nb_attach_rem := 0, tw_log := tw_log ?t1 @ [TwAttach (Inl w) a, TwFlush (Inl w), TwEnd (Inl w)]\<rparr>"
  have 2: "attach_into env a ?t1 = (?t2, LOk ())"
    using assms(1,5) by (simp add: attach_into_def attach_to_ok act_simps bind_def attach_to_def [of env a None])
  let ?t3 = "?t2\<lparr>current_reply_writer := Some rw, nb_attach_rem := 1,
      tw_log := tw_log ?t2 @ [TwReplyInit ri rw, TwHeader (Inr rw), TwMsg (Inr rw) m']\<rparr>"
  have 3: "encode_reply env m' ri rw dr rb ?t2 = (?t3, LOk (MReplyOnce m' None None dr rb))"
    using assms(1,4) by (simp add: encode_reply_ok Let_def)
  have "\<exists>t4. attach_into env a' ?t3 = (t4, LPanic)"
    using assms(1,2)
    by (simp add: attach_into_def attach_to_ok [where w = "Inl w"] act_simps bind_def attach_to_def [of env a' "Some (Inr rw)"]
        tw_do_ok checked_sub_def)
  with 1 2 3 show ?thesis by blast
qed

section \<open>Replies at the destination\<close>

text \<open>A message for this node whose reply goes back through the tunnel by an initialised writer.\<close>

definition read_with_reply ::
    "('a, 'rw, 'ri, 'fr, 'dr, 'pr, 'm, 'att, 'st) td_env \<Rightarrow> 'st \<Rightarrow> 'm \<Rightarrow> 'dr \<Rightarrow> 'rw \<Rightarrow> 'a \<Rightarrow> bool" where
  "read_with_reply env st m dr rw ad \<longleftrightarrow>
     (\<exists>fr dr0 dr1 dr2 s1 s2 s3 s4 s5.
        td_header env st = (s1, Ok fr) \<and> td_is_dest env fr = Some True \<and> td_can_dest env fr \<and>
        td_new_dest env fr s1 = (s2, Ok (Some dr0)) \<and> td_dest_header env dr0 s2 = (s3, Ok dr1) \<and>
        td_decode env dr1 s3 = (s4, Ok (dr2, m)) \<and> td_new_reply env dr2 s4 = (s5, Ok (dr, True, True, Some (rw, ad))))"

lemma decode_with_reply:
  assumes "read_with_reply env (td_stream s) m dr rw ad" and "td_init_init env = Ok (Some ri)"
  shows "\<exists>t. decode_msg_from env s = (t, LOk (ReplyFromReader m
      (ReplyDirectInit rw (if (of_nat (length (td_sizes env m)) :: usize) > 0 then None else Some dr) ad None (Some ri)))) \<and>
    ((of_nat (length (td_sizes env m)) :: usize) > 0 \<longrightarrow> current_reader t = Some dr) \<and>
    ((of_nat (length (td_sizes env m)) :: usize) = 0 \<longrightarrow> current_reader t = current_reader s)"
  using assms
  by (auto simp: read_with_reply_def decode_msg_from_def decode_dest_def dest_message_def keep_reader_def on_stream_def
      act_simps bind_def word_gt_0)

section \<open>Properties\<close>


text \<open>
  A query through a tunnel and its attachments are written as one frame: header, message, the
  attachments in order, and the end of the frame exactly once, after the last of them.
\<close>

theorem tunnel_message_framed:
  assumes "tw_reliable env" and "tw_nb_att env m = length atts" and "length atts < 2 ^ 64" and "current_reply_writer s = None"
  shows "\<exists>t msg u. encode_msg_into env (MSendOnce (Some w) m) s = Some (t, LOk msg) \<and>
    for_each (attach_into env) atts t = (u, LOk ()) \<and> tw_log u = tw_log s @ framed (Inl w) m atts"
proof (cases "atts = []")
  case True
  then show ?thesis using assms(1,2) by (simp add: encode_send_ok Let_def framed_def act_simps)
next
  case False
  let ?t = "s\<lparr>current_writer := Some w, nb_attach_rem := of_nat (length atts),
      tw_log := tw_log s @ [TwHeader (Inl w), TwMsg (Inl w) m]\<rparr>"
  have "encode_msg_into env (MSendOnce (Some w) m) s = Some (?t, LOk (MSendOnce None m))"
    using False assms(1,2) by (simp add: encode_send_ok Let_def)
  moreover obtain u where "for_each (attach_into env) atts ?t = (u, LOk ())"
    "tw_log u = tw_log ?t @ map (TwAttach (Inl w)) atts @ [TwFlush (Inl w), TwEnd (Inl w)]"
    using attach_all [OF assms(1,3), of ?t "Inl w"] assms(4) False by auto
  ultimately show ?thesis using False by (intro exI conjI) (auto simp: framed_def)
qed

text \<open>
  C15. A hop copies a tunnel from one stream to the other unchanged and comes to an end, when the tunnel
  read ends and every write takes the whole buffer.
\<close>

theorem tunnel_proxy_copies:
  assumes "tw_reliable env" and "reads_chunks env cs" and "writes_all env" and "reads (tw_log s) = 0"
  shows "\<exists>t. encode_msg_into env (MProxyOnce p rb) s = Some (t, LOk (MProxyOnce p rb)) \<and>
    wrote (tw_log t) = wrote (tw_log s) @ concat cs"
proof -
  let ?lg = "tw_log s @ [TwProxyReadHeader, TwProxyHeader]"
  obtain lg where lg: "proxy_loop env ?lg = Some (lg, Ok ())" "wrote lg = wrote (tw_log s) @ concat cs"
    using proxy_loop_copies [OF assms(2,3), of ?lg] assms(4) by auto
  then show ?thesis using assms(1)
    by (simp add: encode_proxy_def tw_do_ok act_simps bind_def)
qed

section \<open>Witnesses\<close>

definition demo_tw_env :: "(nat, nat, nat, nat, nat) tw_env" where
  "demo_tw_env =
     \<lparr>tw_ck = True, tw_io = (\<lambda>lg ev. None),
      tw_read = (\<lambda>lg. Ok (([[1, 2, 3], [4]] @ [[]]) ! reads lg)),
      tw_write = (\<lambda>lg buf. Ok (length buf)), tw_nb_att = (\<lambda>m. m)\<rparr>"

definition demo_td_env :: "(nat, nat, nat, unit, unit, unit, nat, nat, nat) td_env" where
  "demo_td_env =
     \<lparr>td_header = (\<lambda>st. (Suc st, Ok ())), td_is_dest = (\<lambda>fr. Some True), td_is_err = (\<lambda>fr. Some False),
      td_can_dest = (\<lambda>fr. True), td_new_dest = (\<lambda>fr st. (Suc st, Ok (Some ()))), td_dest_header = (\<lambda>dr st. (Suc st, Ok ())),
      td_decode = (\<lambda>dr st. (Suc st, Ok ((), 5))), td_sizes = (\<lambda>m. [m]),
      td_new_reply = (\<lambda>dr st. (Suc st, Ok ((), True, True, Some (8, 90)))), td_read_end = (\<lambda>dr st. (Suc st, Ok ())),
      td_init_init = Ok (Some 6), td_can_proxy = (\<lambda>fr. True), td_new_proxy = (\<lambda>fr. Ok None),
      td_attach = (\<lambda>dr n st. (Suc st, Ok ((), n)))\<rparr>"

lemma demo_tw_reliable: "tw_reliable demo_tw_env"
  by (simp add: tw_reliable_def demo_tw_env_def)

theorem tunnel_message_framed_witness:
  "\<exists>t msg u. encode_msg_into demo_tw_env (MSendOnce (Some 7) 2) tw_get_new = Some (t, LOk msg) \<and>
    for_each (attach_into demo_tw_env) [30, 31] t = (u, LOk ()) \<and>
    tw_log u = [TwHeader (Inl 7), TwMsg (Inl 7) 2, TwAttach (Inl 7) 30, TwAttach (Inl 7) 31, TwFlush (Inl 7), TwEnd (Inl 7)]"
  using tunnel_message_framed [OF demo_tw_reliable, of 2 "[30, 31]" tw_get_new 7]
  by (simp add: demo_tw_env_def tw_get_new_def framed_def)

theorem tunnel_proxy_copies_witness:
  "\<exists>t. encode_msg_into demo_tw_env (MProxyOnce () ()) tw_get_new = Some (t, LOk (MProxyOnce () ())) \<and>
    wrote (tw_log t) = [1, 2, 3, 4]"
proof -
  have "reads_chunks demo_tw_env [[1, 2, 3], [4]]" "writes_all demo_tw_env"
    by (simp_all add: reads_chunks_def writes_all_def demo_tw_env_def)
  from tunnel_proxy_copies [OF demo_tw_reliable this, of tw_get_new "()" "()"] show ?thesis
    by (simp add: tw_get_new_def del: encode_msg_into.simps)
qed

definition demo_rs :: "(nat, nat, nat, unit, nat, nat, nat) tunnel_rs" where
  "demo_rs = \<lparr>current_writer = None, current_reply_writer = None, current_reader = None, nb_attach_rem = 0,
     do_finalize_read = False, tw_log = [], td_stream = 0\<rparr>"

definition demo_answers :: "(nat, nat, nat, unit, nat, nat, nat, unit, nat, unit) tunnel_env" where
  "demo_answers =
     \<lparr>te_ck = True, te_inner = (\<lambda>c s. (Suc s, LOk (TryReplyFromReader (Suc (get_inner_command c))))),
      te_r_is_api = (\<lambda>r. True), te_new_writer = (\<lambda>dest st. Ok (st, 0, get_address dest)), te_reply_init = (\<lambda>rw dr st. Ok (st, 0))\<rparr>"

definition demo_lts :: "(nat, nat, nat) local_tunnel_service" where
  "demo_lts = \<lparr>lts_me = \<lparr>get_key = 1, get_address = 10\<rparr>, lts_with = None, lts_read_token = 0, lts_inner = 0\<rparr>"


end
