(* ===== verification/Extio.thy ===== *)
theory Extio
  imports Prelude
begin

text \<open>
  Reading and writing through a layer over a stream, as the services do it: the traits \<open>ExtRead\<close> and
  \<open>ExtWrite\<close> of the crate \<open>readwrite_comp\<close> and the streams of the standard library below them.

  A call takes the state of the layer together with the stream and gives the new state and an
  outcome.  The two interfaces state what a layer promises of the bytes of a message; the loops
  that read or write a whole buffer are proved once against them.
\<close>

section \<open>Calls\<close>

fun then_io :: "'s \<times> 'x outcome \<Rightarrow> ('s \<Rightarrow> 'x \<Rightarrow> 's \<times> 'y outcome) \<Rightarrow> 's \<times> 'y outcome" where
  "then_io (s, Ok x) f = f s x"
| "then_io (s, Err e) f = (s, Err e)"
| "then_io (s, Panic) f = (s, Panic)"

lemma then_io_Ok: "then_io m f = (t, Ok y) \<longleftrightarrow> (\<exists>s x. m = (s, Ok x) \<and> f s x = (t, Ok y))"
  by (cases m; cases "snd m") auto

lemma split_prefix: "q @ r = out @ q2 \<Longrightarrow> length out \<le> length q \<Longrightarrow> \<exists>q'. q = out @ q' \<and> q2 = q' @ r"
  by (auto simp: append_eq_append_conv2)

lemma take_in_two:
  assumes "k \<le> e - i"
  shows "take (e - i) (drop i xs) = take k (drop i xs) @ take (e - (i + k)) (drop (i + k) xs)"
proof -
  have "take (k + (e - i - k)) (drop i xs) = take k (drop i xs) @ take (e - i - k) (drop k (drop i xs))" by (rule take_add)
  moreover have "k + (e - i - k) = e - i" using assms by simp
  ultimately show ?thesis by (simp only: drop_drop diff_diff_left add.commute [of k i])
qed

section \<open>Streams\<close>

text \<open>
  \<open>Read::read\<close> into a buffer of \<open>n\<close> bytes and \<open>Write::write_all\<close>.  A stream is any type, and \<open>content\<close> is what is
  left to read or what was written; \<open>reads_ok\<close> and \<open>writes_ok\<close> are the contracts of the library: no more than
  the buffer is read, and nothing only at the end.
\<close>

type_synonym 'src rd = "'src \<Rightarrow> nat \<Rightarrow> 'src \<times> bytes outcome"
type_synonym 'sink wr = "'sink \<Rightarrow> bytes \<Rightarrow> 'sink \<times> unit outcome"

definition reads_ok :: "'src rd \<Rightarrow> ('src \<Rightarrow> bytes) \<Rightarrow> bool" where
  "reads_ok rd content \<longleftrightarrow>
     (\<forall>s n. \<exists>s' bs. rd s n = (s', Ok bs) \<and> content s = bs @ content s' \<and> length bs \<le> n \<and>
        (0 < n \<longrightarrow> content s \<noteq> [] \<longrightarrow> bs \<noteq> []))"

definition writes_ok :: "'sink wr \<Rightarrow> ('sink \<Rightarrow> bytes) \<Rightarrow> bool" where
  "writes_ok wr content \<longleftrightarrow> (\<forall>s bs. \<exists>s'. wr s bs = (s', Ok ()) \<and> content s' = content s @ bs)"

text \<open>
  The filling of a buffer of \<open>n\<close> bytes by several reads, until it is full or nothing comes: the loop
  \<open>while {let nb = r.read(&mut buff[ir..n])?; ir += nb; nb != 0 && ir != n} {}\<close>.  A read writes into the
  buffer, so it cannot give more than fits.
\<close>

function fill :: "'src rd \<Rightarrow> nat \<Rightarrow> bytes \<Rightarrow> 'src \<Rightarrow> ('src \<times> bytes) \<times> unit outcome" where
  "fill rd n got s =
     (case rd s (n - length got) of
        (s', Ok xs) \<Rightarrow>
          let got' = got @ take (n - length got) xs in
          if take (n - length got) xs \<noteq> [] \<and> length got' \<noteq> n then fill rd n got' s' else ((s', got'), Ok ())
      | (s', Err e) \<Rightarrow> ((s', got), Err e)
      | (s', Panic) \<Rightarrow> ((s', got), Panic))"
  by pat_completeness auto
termination
proof (relation "measure (\<lambda>(rd, n, got, s). n - length got)", goal_cases)
  case (2 rd n got s s' y xs got')
  define k where "k = length (take (n - length got) xs)"
  have "0 < k" using 2(4) unfolding k_def by blast
  moreover have "length got' = length got + k" "k \<le> n - length got" using 2(3) by (simp_all add: k_def)
  ultimately show ?case by simp
qed simp

declare fill.simps [simp del]

lemma fill_ok:
  assumes "reads_ok rd content" and "length got \<le> n"
  shows "\<exists>s'. fill rd n got s = ((s', got @ take (n - length got) (content s)), Ok ()) \<and>
    content s' = drop (n - length got) (content s)"
  using assms(2)
proof (induction "n - length got" arbitrary: got s rule: less_induct)
  case less
  let ?k = "n - length got"
  obtain s1 xs where r: "rd s ?k = (s1, Ok xs)" "content s = xs @ content s1" "length xs \<le> ?k"
    "0 < ?k \<Longrightarrow> content s \<noteq> [] \<Longrightarrow> xs \<noteq> []"
    using assms(1) unfolding reads_ok_def by metis
  have t: "take ?k xs = xs" using r(3) by simp
  show ?case
  proof (cases "xs \<noteq> [] \<and> length (got @ xs) \<noteq> n")
    case True
    then have "fill rd n got s = fill rd n (got @ xs) s1" using r(1) t by (subst fill.simps) (auto simp: Let_def)
    moreover have "n - length (got @ xs) < ?k" using True r(3) by (cases xs) auto
    moreover have "length (got @ xs) \<le> n" using r(3) less.prems by simp
    ultimately show ?thesis using less.hyps [of "got @ xs" s1] r(2,3) by simp
  next
    case False
    then have f: "fill rd n got s = ((s1, got @ xs), Ok ())" using r(1) t by (subst fill.simps) (auto simp: Let_def)
    show ?thesis
    proof (cases "length xs = ?k")
      case True
      then show ?thesis using f r(2) by simp
    next
      case ne: False
      then have "xs = []" using False r(3) less.prems by auto
      moreover from this have "content s = []" using r(2,4) ne by auto
      ultimately show ?thesis using f r(2) by auto
    qed
  qed
qed

text \<open>\<open>Read::read_exact\<close> on the stream.\<close>

definition raw_read_exact :: "'src rd \<Rightarrow> nat \<Rightarrow> 'src \<Rightarrow> 'src \<times> bytes outcome" where
  "raw_read_exact rd n src =
     (if n = 0 then (src, Ok [])
      else case fill rd n [] src of
        ((src', got), Ok _) \<Rightarrow> (src', if length got = n then Ok got else Err (Io ''failed to fill whole buffer''))
      | ((src', got), Err e) \<Rightarrow> (src', Err e)
      | ((src', got), Panic) \<Rightarrow> (src', Panic))"

lemma raw_read_exact_ok:
  assumes "reads_ok rd content" and "content s = xs @ rest" and "length xs = n"
  shows "\<exists>s'. raw_read_exact rd n s = (s', Ok xs) \<and> content s' = rest"
proof (cases "n = 0")
  case True
  then show ?thesis using assms by (simp add: raw_read_exact_def)
next
  case False
  then show ?thesis using fill_ok [OF assms(1), of "[]" n s] assms(2,3) by (auto simp: raw_read_exact_def)
qed

text \<open>One byte.\<close>

lemma read_one:
  assumes "reads_ok rd content" and "content s = x # rest"
  shows "\<exists>s'. rd s 1 = (s', Ok [x]) \<and> content s' = rest"
proof -
  have "\<exists>s' xs. rd s 1 = (s', Ok xs) \<and> content s = xs @ content s' \<and> length xs \<le> 1 \<and> (0 < (1::nat) \<longrightarrow> content s \<noteq> [] \<longrightarrow> xs \<noteq> [])"
    using assms(1) unfolding reads_ok_def by blast
  then obtain s' xs where "rd s 1 = (s', Ok xs)" "content s = xs @ content s'" "length xs \<le> 1" "xs \<noteq> []" using assms(2) by auto
  then show ?thesis using assms(2) by (cases xs) auto
qed

section \<open>Interfaces\<close>

text \<open>
  A layer that reads: \<open>ri s q\<close> says that \<open>q\<close> is left of the message that the layer is reading, what fills
  up the last block included.  A read of no more than that gives some of it.
\<close>

partial_function (option) read_exact ::
    "(nat \<Rightarrow> 's \<Rightarrow> ('s \<times> bytes outcome) option) \<Rightarrow> nat \<Rightarrow> 's \<Rightarrow> ('s \<times> bytes outcome) option" where
  "read_exact rf n s =
     (if n = 0 then Some (s, Ok [])
      else Option.bind (rf n s) (\<lambda>r.
        case r of
          (s', Ok out) \<Rightarrow>
            if out = [] then Some (s', Err (Io ''failed to fill whole buffer''))
            else Option.bind (read_exact rf (n - length out) s') (\<lambda>r2.
              case r2 of (t, Ok rest) \<Rightarrow> Some (t, Ok (out @ rest)) | (t, e) \<Rightarrow> Some (t, e))
        | (s', e) \<Rightarrow> Some (s', e)))"

declare read_exact.simps [code]

text \<open>Several buffers, one after the other.\<close>

fun read_pieces ::
    "(nat \<Rightarrow> 's \<Rightarrow> ('s \<times> bytes outcome) option) \<Rightarrow> nat list \<Rightarrow> 's \<Rightarrow> ('s \<times> bytes list outcome) option" where
  "read_pieces rf [] s = Some (s, Ok [])"
| "read_pieces rf (n # ns) s =
     Option.bind (read_exact rf n s) (\<lambda>r.
       case r of
         (s', Ok out) \<Rightarrow> map_option (\<lambda>m. then_io m (\<lambda>t outs. (t, Ok (out # outs)))) (read_pieces rf ns s')
       | (s', Err e) \<Rightarrow> Some (s', Err e)
       | (s', Panic) \<Rightarrow> Some (s', Panic))"

locale ext_read =
  fixes read_from :: "nat \<Rightarrow> 's \<Rightarrow> ('s \<times> bytes outcome) option"
    and ri :: "'s \<Rightarrow> bytes \<Rightarrow> bool"
  assumes read_some: "ri s q \<Longrightarrow> 0 < n \<Longrightarrow> n \<le> length q \<Longrightarrow>
    \<exists>s' out q'. read_from n s = Some (s', Ok out) \<and> out \<noteq> [] \<and> length out \<le> n \<and> q = out @ q' \<and> ri s' q'"
begin

lemma read_exact_ok:
  assumes "ri s q" and "n \<le> length q"
  shows "\<exists>s'. read_exact read_from n s = Some (s', Ok (take n q)) \<and> ri s' (drop n q)"
  using assms
proof (induction n arbitrary: s q rule: less_induct)
  case (less n)
  show ?case
  proof (cases "n = 0")
    case True
    then show ?thesis using less.prems by (subst read_exact.simps) simp
  next
    case False
    then obtain s1 out q1 where r: "read_from n s = Some (s1, Ok out)" "out \<noteq> []" "length out \<le> n" "q = out @ q1" "ri s1 q1"
      using read_some [OF less.prems(1) _ less.prems(2)] by blast
    have l: "n - length out < n" using r(2) False by (cases out) auto
    obtain t where t: "read_exact read_from (n - length out) s1 = Some (t, Ok (take (n - length out) q1))"
      "ri t (drop (n - length out) q1)"
      using less.IH [OF l r(5)] less.prems(2) r(3,4) by fastforce
    have "read_exact read_from n s = Some (t, Ok (out @ take (n - length out) q1))"
      using False r(1,2) t(1) by (subst read_exact.simps) simp
    then show ?thesis using t(2) r(3,4) by simp
  qed
qed

lemma read_pieces_ok:
  assumes "ri s q" and "sum_list ns \<le> length q"
  shows "\<exists>s' outs. read_pieces read_from ns s = Some (s', Ok outs) \<and>
    concat outs = take (sum_list ns) q \<and> map length outs = ns \<and> ri s' (drop (sum_list ns) q)"
  using assms
proof (induction ns arbitrary: s q)
  case Nil
  then show ?case by simp
next
  case (Cons n ns)
  obtain s1 where s1: "read_exact read_from n s = Some (s1, Ok (take n q))" "ri s1 (drop n q)"
    using read_exact_ok [OF Cons.prems(1), of n] Cons.prems(2) by auto
  obtain t outs where "read_pieces read_from ns s1 = Some (t, Ok outs)"
    "concat outs = take (sum_list ns) (drop n q)" "map length outs = ns" "ri t (drop (sum_list ns) (drop n q))"
    using Cons.IH [OF s1(2)] Cons.prems(2) by fastforce
  then show ?case using s1(1) Cons.prems(2) by (simp add: take_add add.commute)
qed

end

text \<open>A layer that writes: \<open>wi s p\<close> says that \<open>p\<close> was written to it since the start of the message.\<close>

function write_all :: "(bytes \<Rightarrow> 's \<Rightarrow> 's \<times> nat outcome) \<Rightarrow> bytes \<Rightarrow> 's \<Rightarrow> 's \<times> unit outcome" where
  "write_all wt cont s =
     (if cont = [] then (s, Ok ())
      else case wt cont s of
        (s', Ok k) \<Rightarrow> if k = 0 then (s', Err (Io ''failed to write whole buffer'')) else write_all wt (drop k cont) s'
      | (s', Err e) \<Rightarrow> (s', Err e)
      | (s', Panic) \<Rightarrow> (s', Panic))"
  by pat_completeness auto
termination by (relation "measure (\<lambda>(wt, cont, s). length cont)") auto

declare write_all.simps [simp del]

fun write_chunks :: "(bytes \<Rightarrow> 's \<Rightarrow> 's \<times> nat outcome) \<Rightarrow> bytes list \<Rightarrow> 's \<Rightarrow> 's \<times> unit outcome" where
  "write_chunks wt [] s = (s, Ok ())"
| "write_chunks wt (c # cs) s = then_io (write_all wt c s) (\<lambda>s' _. write_chunks wt cs s')"

locale ext_write =
  fixes write_into :: "bytes \<Rightarrow> 's \<Rightarrow> 's \<times> nat outcome"
    and wi :: "'s \<Rightarrow> bytes \<Rightarrow> bool"
  assumes write_some: "wi s p \<Longrightarrow> cont \<noteq> [] \<Longrightarrow>
    \<exists>s' k. write_into cont s = (s', Ok k) \<and> 0 < k \<and> k \<le> length cont \<and> wi s' (p @ take k cont)"
begin

lemma write_all_ok:
  assumes "wi s p"
  shows "\<exists>s'. write_all write_into cont s = (s', Ok ()) \<and> wi s' (p @ cont)"
  using assms
proof (induction cont arbitrary: s p rule: length_induct)
  case (1 cont)
  show ?case
  proof (cases "cont = []")
    case True
    then show ?thesis using 1 by (subst write_all.simps) simp
  next
    case False
    obtain s1 k where k: "write_into cont s = (s1, Ok k)" "0 < k" "k \<le> length cont" "wi s1 (p @ take k cont)"
      using write_some [OF 1(2) False] by blast
    then have "length (drop k cont) < length cont" using False by simp
    with 1(1) k(4) obtain t where "write_all write_into (drop k cont) s1 = (t, Ok ())" "wi t ((p @ take k cont) @ drop k cont)"
      by blast
    then show ?thesis using False k(1,2) by (subst write_all.simps) simp
  qed
qed

lemma write_chunks_ok:
  assumes "wi s p"
  shows "\<exists>s'. write_chunks write_into cs s = (s', Ok ()) \<and> wi s' (p @ concat cs)"
  using assms
proof (induction cs arbitrary: s p)
  case (Cons c cs)
  then obtain s1 where "write_all write_into c s = (s1, Ok ())" "wi s1 (p @ c)" using write_all_ok by blast
  with Cons.IH [OF this(2)] show ?case by simp
qed simp

end

section \<open>Messages\<close>

text \<open>
  A sequence of messages, as \<open>shadower_test\<close> of \<open>mydht-basetest/src/shadow.rs\<close> exchanges one: each is a
  header, the pieces the encoder writes, and the end; the reader reads the pieces its decoder asks
  for, which need not be the same.
\<close>

fun write_msgs ::
    "('s \<Rightarrow> 's \<times> unit outcome) \<Rightarrow> (bytes \<Rightarrow> 's \<Rightarrow> 's \<times> nat outcome) \<Rightarrow> ('s \<Rightarrow> 's \<times> unit outcome) \<Rightarrow> bytes list list \<Rightarrow> 's \<Rightarrow> 's \<times> unit outcome" where
  "write_msgs wh wt we [] s = (s, Ok ())"
| "write_msgs wh wt we (cs # css) s =
     then_io (wh s) (\<lambda>s _. then_io (write_chunks wt cs s) (\<lambda>s _. then_io (we s) (\<lambda>s _. write_msgs wh wt we css s)))"

definition and_some :: "('s \<times> 'x outcome) option \<Rightarrow> ('s \<Rightarrow> 'x \<Rightarrow> ('s \<times> 'y outcome) option) \<Rightarrow> ('s \<times> 'y outcome) option" where
  "and_some m f =
     Option.bind m (\<lambda>r. case r of (s, Ok x) \<Rightarrow> f s x | (s, Err e) \<Rightarrow> Some (s, Err e) | (s, Panic) \<Rightarrow> Some (s, Panic))"

lemma and_some_Ok [simp]: "and_some (Some (s, Ok x)) f = f s x"
  by (simp add: and_some_def)

fun read_msgs ::
    "('s \<Rightarrow> 's \<times> unit outcome) \<Rightarrow> (nat \<Rightarrow> 's \<Rightarrow> ('s \<times> bytes outcome) option) \<Rightarrow> ('s \<Rightarrow> 's \<times> unit outcome) \<Rightarrow> nat list list \<Rightarrow> 's
      \<Rightarrow> ('s \<times> bytes list list outcome) option" where
  "read_msgs rh rf re [] s = Some (s, Ok [])"
| "read_msgs rh rf re (ns # nss) s =
     and_some (Some (rh s)) (\<lambda>s _. and_some (read_pieces rf ns s) (\<lambda>s outs. and_some (Some (re s)) (\<lambda>s _.
     and_some (read_msgs rh rf re nss s) (\<lambda>t oss. Some (t, Ok (outs # oss))))))"

text \<open>
  A layer that writes messages: \<open>idle s ms\<close> after the end of the messages \<open>ms\<close>, and \<open>wi ms s p\<close> in the middle of
  the next one.
\<close>

locale msg_write =
  fixes write_header :: "'s \<Rightarrow> 's \<times> unit outcome" and write_into :: "bytes \<Rightarrow> 's \<Rightarrow> 's \<times> nat outcome"
    and write_end :: "'s \<Rightarrow> 's \<times> unit outcome"
    and idle :: "'s \<Rightarrow> bytes list \<Rightarrow> bool" and wi :: "bytes list \<Rightarrow> 's \<Rightarrow> bytes \<Rightarrow> bool"
  assumes write_header_ok: "idle s ms \<Longrightarrow> \<exists>s'. write_header s = (s', Ok ()) \<and> wi ms s' []"
    and write_into_ok: "wi ms s p \<Longrightarrow> cont \<noteq> [] \<Longrightarrow>
      \<exists>s' k. write_into cont s = (s', Ok k) \<and> 0 < k \<and> k \<le> length cont \<and> wi ms s' (p @ take k cont)"
    and write_end_ok: "wi ms s m \<Longrightarrow> \<exists>s'. write_end s = (s', Ok ()) \<and> idle s' (ms @ [m])"

sublocale msg_write \<subseteq> piece: ext_write write_into "wi ms" for ms
  by unfold_locales (rule write_into_ok)

context msg_write begin

lemma write_msgs_ok:
  assumes "idle s ms"
  shows "\<exists>s'. write_msgs write_header write_into write_end css s = (s', Ok ()) \<and> idle s' (ms @ map concat css)"
  using assms
proof (induction css arbitrary: s ms)
  case (Cons cs css)
  obtain s1 where s1: "write_header s = (s1, Ok ())" "wi ms s1 []" using write_header_ok [OF Cons.prems] by blast
  obtain s2 where s2: "write_chunks write_into cs s1 = (s2, Ok ())" "wi ms s2 (concat cs)"
    using piece.write_chunks_ok [OF s1(2)] by auto
  obtain s3 where s3: "write_end s2 = (s3, Ok ())" "idle s3 (ms @ [concat cs])" using write_end_ok [OF s2(2)] by blast
  from Cons.IH [OF s3(2)] s1(1) s2(1) s3(1) show ?case by simp
qed simp

end

text \<open>
  A layer that reads messages: \<open>ready s ms\<close> when the messages \<open>ms\<close> are to come, and \<open>ri ms s q\<close> when \<open>q\<close> is left of a
  message before them.  A message \<open>m\<close> may come with some more bytes, \<open>pad m\<close>, which nobody asks for.
\<close>

locale msg_read =
  fixes read_header :: "'s \<Rightarrow> 's \<times> unit outcome" and read_from :: "nat \<Rightarrow> 's \<Rightarrow> ('s \<times> bytes outcome) option"
    and read_end :: "'s \<Rightarrow> 's \<times> unit outcome"
    and ready :: "'s \<Rightarrow> bytes list \<Rightarrow> bool" and ri :: "bytes list \<Rightarrow> 's \<Rightarrow> bytes \<Rightarrow> bool" and pad :: "bytes \<Rightarrow> bytes"
  assumes read_header_ok: "ready s (m # ms) \<Longrightarrow> \<exists>s'. read_header s = (s', Ok ()) \<and> ri ms s' (m @ pad m)"
    and read_from_ok: "ri ms s q \<Longrightarrow> 0 < n \<Longrightarrow> n \<le> length q \<Longrightarrow>
      \<exists>s' out q'. read_from n s = Some (s', Ok out) \<and> out \<noteq> [] \<and> length out \<le> n \<and> q = out @ q' \<and> ri ms s' q'"
    and read_end_ok: "ri ms s (pad m) \<Longrightarrow> \<exists>s'. read_end s = (s', Ok ()) \<and> ready s' ms"

sublocale msg_read \<subseteq> piece: ext_read read_from "ri ms" for ms
  by unfold_locales (rule read_from_ok)

context msg_read begin

lemma read_msgs_ok:
  assumes "ready s ms" and "map sum_list nss = map length ms"
  shows "\<exists>s' oss. read_msgs read_header read_from read_end nss s = Some (s', Ok oss) \<and> map concat oss = ms \<and>
    map (map length) oss = nss \<and> ready s' []"
  using assms
proof (induction nss arbitrary: s ms)
  case Nil
  then show ?case by auto
next
  case (Cons ns nss)
  then obtain m ms' where ms: "ms = m # ms'" "sum_list ns = length m" "map sum_list nss = map length ms'" by (cases ms) auto
  obtain s1 where s1: "read_header s = (s1, Ok ())" "ri ms' s1 (m @ pad m)"
    using read_header_ok Cons.prems(1) unfolding ms(1) by blast
  obtain s2 outs where s2: "read_pieces read_from ns s1 = Some (s2, Ok outs)" "concat outs = m" "map length outs = ns" "ri ms' s2 (pad m)"
    using piece.read_pieces_ok [OF s1(2), of ns] ms(2) by auto
  obtain s3 where s3: "read_end s2 = (s3, Ok ())" "ready s3 ms'" using read_end_ok [OF s2(4)] by blast
  from Cons.IH [OF s3(2) ms(3)] s1(1) s2 s3(1) show ?case by (auto simp: ms(1))
qed

end

end
