(* ===== verification/Osslsym.thy ===== *)
theory Osslsym
  imports Extio
begin

text \<open>
  The symmetric shadower of \<open>mydht-openssl/src/rsa_openssl.rs\<close>: \<open>OSSLSym\<close>, its writer \<open>OSSLSymW\<close> and its reader
  \<open>OSSLSymR\<close>, for the three ways to end a message whose length is not a multiple of the block size.

  The cipher of the \<open>openssl\<close> crate is an argument: its calls, each with the length of the buffer for
  the result.  What the round trip relies on of it is \<open>crypter_ok\<close>.
\<close>

section \<open>State\<close>

datatype crypter_padding_mode = NoPadding | Native | UnsizedPadding

text \<open>
  A configuration \<open>OpenSSLSymConf\<close> together with the cipher it names, the digest for the initial vectors,
  the feature \<open>relaxfinalize\<close> and the streams.
\<close>

record ('cr, 'src, 'sink) sym_env =
  block_size :: nat
  iv_len :: "nat option"
  key_len :: nat
  crypter_buff_size :: nat
  padding_mode :: crypter_padding_mode
  relax_finalize :: bool
  cipher_new :: "bool \<Rightarrow> bytes \<Rightarrow> bytes option \<Rightarrow> 'cr outcome"
  cipher_pad :: "bool \<Rightarrow> 'cr \<Rightarrow> 'cr"
  cipher_update :: "'cr \<Rightarrow> bytes \<Rightarrow> nat \<Rightarrow> 'cr \<times> bytes outcome"
  cipher_finalize :: "'cr \<Rightarrow> nat \<Rightarrow> 'cr \<times> bytes outcome"
  hash_shift_iv :: "bytes \<Rightarrow> bytes outcome"
  env_read :: "'src rd"
  env_write :: "'sink wr"

record 'cr ossl_sym =
  crypter :: 'cr
  sym_key :: bytes
  sym_finalize :: bool
  buff :: bytes
  symbuffix :: nat

record 'cr ossl_sym_r =
  sym :: "'cr ossl_sym"
  underbuf :: "bytes option"
  suix :: nat
  euix :: nat

text \<open>Bytes written at the start of a buffer.\<close>

definition overlay :: "bytes \<Rightarrow> bytes \<Rightarrow> bytes" where
  "overlay xs buf = xs @ drop (length xs) buf"

section \<open>Keys\<close>

definition ivl :: "('cr, 'src, 'sink) sym_env \<Rightarrow> nat" where
  "ivl env = (case iv_len env of Some n \<Rightarrow> n | None \<Rightarrow> 0)"

text \<open>Random bytes, given as an argument.\<close>

definition sym_new_key :: "('cr, 'src, 'sink) sym_env \<Rightarrow> (nat \<Rightarrow> u8) \<Rightarrow> bytes" where
  "sym_new_key env rng = map rng [0..<ivl env + key_len env]"

definition shift_iv :: "('cr, 'src, 'sink) sym_env \<Rightarrow> bytes \<Rightarrow> bytes \<times> unit outcome" where
  "shift_iv env iv =
     (case hash_shift_iv env iv of
        Ok d \<Rightarrow>
          let cp = min (length iv) (length d) in
          if cp = length d then (iv, Panic) else (take cp d @ drop cp iv, Ok ())
      | Err e \<Rightarrow> (iv, Err e)
      | Panic \<Rightarrow> (iv, Panic))"

text \<open>The result of \<open>shift_iv\<close> is not looked at, so that its error leaves the initial vector as it is.\<close>

definition new_iv_shift :: "('cr, 'src, 'sink) sym_env \<Rightarrow> bytes \<Rightarrow> bool \<Rightarrow> bool \<Rightarrow> 'cr ossl_sym outcome" where
  "new_iv_shift env key0 send ivshift =
     (if length key0 \<noteq> ivl env + key_len env then Panic
      else
        let iv = take (ivl env) key0; k = drop (ivl env) key0;
            (iv', r) = (if iv \<noteq> [] \<and> ivshift then shift_iv env iv else (iv, Ok ()))
        in if r = Panic then Panic
           else and_then (cipher_new env send k (if iv = [] then None else Some iv')) (\<lambda>cr.
             Ok \<lparr>crypter = cipher_pad env (padding_mode env = Native) cr, sym_key = iv' @ k, sym_finalize = False,
                 buff = replicate (crypter_buff_size env + block_size env) 0, symbuffix = 0\<rparr>))"

definition sym_new :: "('cr, 'src, 'sink) sym_env \<Rightarrow> bytes \<Rightarrow> bool \<Rightarrow> 'cr ossl_sym outcome" where
  "sym_new env key0 send = new_iv_shift env key0 send False"

definition from_read_sym :: "'cr ossl_sym \<Rightarrow> 'cr ossl_sym_r" where
  "from_read_sym s = \<lparr>sym = s, underbuf = None, suix = 0, euix = 0\<rparr>"

definition sym_r_new :: "('cr, 'src, 'sink) sym_env \<Rightarrow> bytes \<Rightarrow> 'cr ossl_sym_r outcome" where
  "sym_r_new env key0 = and_then (sym_new env key0 False) (\<lambda>s. Ok (from_read_sym s))"

definition sym_w_new :: "('cr, 'src, 'sink) sym_env \<Rightarrow> bytes \<Rightarrow> 'cr ossl_sym outcome" where
  "sym_w_new env key0 = sym_new env key0 True"

section \<open>Writing\<close>

text \<open>The cipher applied to some bytes; the result goes to the start of a buffer.\<close>

definition update_buff :: "('cr, 'src, 'sink) sym_env \<Rightarrow> bytes \<Rightarrow> 'cr ossl_sym \<Rightarrow> 'cr ossl_sym \<times> bytes outcome" where
  "update_buff env xs w =
     (case cipher_update env (crypter w) xs (length (buff w)) of
        (cr, Ok out) \<Rightarrow> (w\<lparr>crypter := cr, buff := overlay out (buff w)\<rparr>, Ok out)
      | (cr, r) \<Rightarrow> (w\<lparr>crypter := cr\<rparr>, r))"

definition sym_write_header :: "('cr, 'src, 'sink) sym_env \<Rightarrow> 'cr ossl_sym \<times> 'sink \<Rightarrow> ('cr ossl_sym \<times> 'sink) \<times> unit outcome" where
  "sym_write_header env = (\<lambda>(w, snk).
     if padding_mode env = Native \<and> sym_finalize w
     then (case new_iv_shift env (sym_key w) True True of
             Ok nc \<Rightarrow> ((nc, snk), Ok ())
           | Err e \<Rightarrow> ((w\<lparr>sym_key := []\<rparr>, snk), Err e)
           | Panic \<Rightarrow> ((w\<lparr>sym_key := []\<rparr>, snk), Panic))
     else ((w, snk), Ok ()))"

text \<open>The buffer is never shorter than a block.\<close>

definition sym_write_into ::
    "('cr, 'src, 'sink) sym_env \<Rightarrow> bytes \<Rightarrow> 'cr ossl_sym \<times> 'sink \<Rightarrow> ('cr ossl_sym \<times> 'sink) \<times> nat outcome" where
  "sym_write_into env cont = (\<lambda>(w, snk).
     let swrite = min (length cont) (length (buff w) - block_size env) in
     case update_buff env (take swrite cont) w of
       (w1, Ok out) \<Rightarrow>
         let w2 = w1\<lparr>symbuffix := (symbuffix w1 + swrite) mod block_size env\<rparr> in
         if out \<noteq> [] then (case env_write env snk out of (snk', r) \<Rightarrow> ((w2, snk'), and_then r (\<lambda>_. Ok swrite)))
         else ((w2, snk), Ok swrite)
     | (w1, Err e) \<Rightarrow> ((w1, snk), Err e)
     | (w1, Panic) \<Rightarrow> ((w1, snk), Panic))"

definition sym_flush_into :: "'cr ossl_sym \<times> 'sink \<Rightarrow> ('cr ossl_sym \<times> 'sink) \<times> unit outcome" where
  "sym_flush_into s = (s, Ok ())"

definition sym_write_end :: "('cr, 'src, 'sink) sym_env \<Rightarrow> 'cr ossl_sym \<times> 'sink \<Rightarrow> ('cr ossl_sym \<times> 'sink) \<times> unit outcome" where
  "sym_write_end env = (\<lambda>(w, snk).
     case padding_mode env of
       Native \<Rightarrow>
         if sym_finalize w then ((w, snk), Ok ())
         else (case cipher_finalize env (crypter w) (length (buff w)) of
                 (cr, Ok out) \<Rightarrow>
                   let w1 = w\<lparr>sym_finalize := True, crypter := cr, buff := overlay out (buff w), symbuffix := 0\<rparr> in
                   if out \<noteq> [] then (case env_write env snk out of (snk', r) \<Rightarrow> ((w1, snk'), r)) else ((w1, snk), Ok ())
               | (cr, Err e) \<Rightarrow> ((w\<lparr>sym_finalize := True, crypter := cr\<rparr>, snk), Err e)
               | (cr, Panic) \<Rightarrow> ((w\<lparr>sym_finalize := True, crypter := cr\<rparr>, snk), Panic))
     | UnsizedPadding \<Rightarrow>
         if symbuffix w \<noteq> 0
         then let s = block_size env - symbuffix w in
           (case update_buff env (replicate s (of_nat s)) w of
              (w1, Ok out) \<Rightarrow>
                if length out \<noteq> block_size env then ((w1, snk), Panic)
                else (case env_write env snk out of
                        (snk', Ok _) \<Rightarrow> ((w1\<lparr>symbuffix := 0\<rparr>, snk'), Ok ())
                      | (snk', r) \<Rightarrow> ((w1, snk'), r))
            | (w1, Err e) \<Rightarrow> ((w1, snk), Err e)
            | (w1, Panic) \<Rightarrow> ((w1, snk), Panic))
         else ((w, snk), Ok ())
     | NoPadding \<Rightarrow> ((w, snk), Ok ()))"

section \<open>Reading\<close>

definition with_underbuf :: "('cr, 'src, 'sink) sym_env \<Rightarrow> 'cr ossl_sym_r \<Rightarrow> 'cr ossl_sym_r" where
  "with_underbuf env r =
     (if underbuf r = None then r\<lparr>underbuf := Some (replicate (block_size env + block_size env) 0)\<rparr> else r)"

text \<open>
  The next message after one that was finalised: a new cipher, which gets the bytes that were read
  too far, of the next message already.
\<close>

definition sym_read_header :: "('cr, 'src, 'sink) sym_env \<Rightarrow> 'cr ossl_sym_r \<times> 'src \<Rightarrow> ('cr ossl_sym_r \<times> 'src) \<times> unit outcome" where
  "sym_read_header env = (\<lambda>(r, src).
     if padding_mode env = Native \<and> sym_finalize (sym r)
     then
       let r0 = r\<lparr>suix := 0, euix := 0\<rparr> in
       (case new_iv_shift env (sym_key (sym r)) False True of
          Ok nc \<Rightarrow>
            if 0 < symbuffix (sym r)
            then let r1 = with_underbuf env r0 in
              (case cipher_update env (crypter nc) (take (symbuffix (sym r)) (buff (sym r))) (length (the (underbuf r1))) of
                 (cr, Ok out) \<Rightarrow>
                   ((r1\<lparr>underbuf := Some (overlay out (the (underbuf r1))), euix := length out, sym := nc\<lparr>crypter := cr\<rparr>\<rparr>, src), Ok ())
               | (cr, Err e) \<Rightarrow> ((r1\<lparr>sym := (sym r)\<lparr>sym_key := []\<rparr>\<rparr>, src), Err e)
               | (cr, Panic) \<Rightarrow> ((r1\<lparr>sym := (sym r)\<lparr>sym_key := []\<rparr>\<rparr>, src), Panic))
            else ((r0\<lparr>sym := nc\<rparr>, src), Ok ())
        | Err e \<Rightarrow> ((r0\<lparr>sym := (sym r)\<lparr>sym_key := []\<rparr>\<rparr>, src), Err e)
        | Panic \<Rightarrow> ((r0\<lparr>sym := (sym r)\<lparr>sym_key := []\<rparr>\<rparr>, src), Panic))
     else ((r, src), Ok ()))"

text \<open>A block that was read, or the end of the stream: what the cipher gives, and whether to go on.\<close>

definition decrypt_block ::
    "('cr, 'src, 'sink) sym_env \<Rightarrow> bytes \<Rightarrow> nat \<Rightarrow> 'cr ossl_sym \<Rightarrow> 'cr ossl_sym \<times> (bytes \<times> bool) outcome" where
  "decrypt_block env got dlen s =
     (if length got = block_size env
      then (case cipher_update env (crypter s) got dlen of
              (cr, Ok out) \<Rightarrow>
                (s\<lparr>crypter := cr, symbuffix := (symbuffix s + (if padding_mode env = Native then length got else length out)) mod block_size env\<rparr>,
                 Ok (out, out = []))
            | (cr, Err e) \<Rightarrow> (s\<lparr>crypter := cr\<rparr>, Err e)
            | (cr, Panic) \<Rightarrow> (s\<lparr>crypter := cr\<rparr>, Panic))
      else if padding_mode env = Native \<and> \<not> sym_finalize s
      then (case cipher_finalize env (crypter s) dlen of
              (cr, fr) \<Rightarrow>
                let s1 = s\<lparr>crypter := cr, sym_finalize := True, symbuffix := symbuffix s + length got\<rparr> in
                (case fr of
                   Ok out \<Rightarrow> (s1, Ok (out, False))
                 | Err e \<Rightarrow> if relax_finalize env then (s1, Ok ([], False)) else (s1, Err e)
                 | Panic \<Rightarrow> (s1, Panic)))
      else (s, Ok ([], False)))"

definition sym_read_step ::
    "('cr, 'src, 'sink) sym_env \<Rightarrow> nat \<Rightarrow> 'cr ossl_sym_r \<times> 'src \<Rightarrow> ('cr ossl_sym_r \<times> 'src) \<times> (bytes \<times> bool) outcome" where
  "sym_read_step env n = (\<lambda>(r, src).
     if n = 0 then ((r, src), Ok ([], False))
     else if euix r > suix r
     then let tocopy = min n (euix r - suix r) in
       (case underbuf r of
          None \<Rightarrow> ((r, src), Panic)
        | Some ub \<Rightarrow> ((r\<lparr>suix := suix r + tocopy\<rparr>, src), Ok (take tocopy (drop (suix r) ub), False)))
     else if sym_finalize (sym r) then ((r, src), Ok ([], False))
     else
       let bs = block_size env; big = (n > bs + bs);
           r1 = (if big then r else with_underbuf env r);
           dlen = (if big then n else length (the (underbuf r1)))
       in (case fill (env_read env) bs [] src of ((src', got), fr) \<Rightarrow>
         let r2 = r1\<lparr>sym := (sym r1)\<lparr>buff := overlay got (buff (sym r1))\<rparr>\<rparr> in
         (case fr of
            Err e \<Rightarrow> ((r2, src'), Err e)
          | Panic \<Rightarrow> ((r2, src'), Panic)
          | Ok _ \<Rightarrow>
              (case decrypt_block env got dlen (sym r2) of
                 (s', Ok (out, again)) \<Rightarrow>
                   let r3 = r2\<lparr>sym := s'\<rparr> in
                   if n \<le> bs + bs \<and> out \<noteq> []
                   then ((r3\<lparr>underbuf := Some (overlay out (the (underbuf r3))), euix := length out, suix := min n (length out)\<rparr>, src'),
                         Ok (take n out, False))
                   else ((r3, src'), Ok (out, again))
               | (s', Err e) \<Rightarrow> ((r2\<lparr>sym := s'\<rparr>, src'), Err e)
               | (s', Panic) \<Rightarrow> ((r2\<lparr>sym := s'\<rparr>, src'), Panic)))))"

partial_function (option) sym_read_from ::
    "('cr, 'src, 'sink) sym_env \<Rightarrow> nat \<Rightarrow> 'cr ossl_sym_r \<times> 'src \<Rightarrow> (('cr ossl_sym_r \<times> 'src) \<times> bytes outcome) option" where
  "sym_read_from env n s =
     (case sym_read_step env n s of
        (s', Ok (out, again)) \<Rightarrow> if again then sym_read_from env n s' else Some (s', Ok out)
      | (s', Err e) \<Rightarrow> Some (s', Err e)
      | (s', Panic) \<Rightarrow> Some (s', Panic))"

declare sym_read_from.simps [code]

definition sym_read_end :: "('cr, 'src, 'sink) sym_env \<Rightarrow> 'cr ossl_sym_r \<times> 'src \<Rightarrow> ('cr ossl_sym_r \<times> 'src) \<times> unit outcome" where
  "sym_read_end env = (\<lambda>(r, src).
     case padding_mode env of
       Native \<Rightarrow>
         let r0 = r\<lparr>suix := 0, euix := 0\<rparr> in
         if sym_finalize (sym r) then ((r0, src), Ok ())
         else if symbuffix (sym r) = 0
         then let r1 = with_underbuf env r0 in
           (case cipher_finalize env (crypter (sym r)) (length (the (underbuf r1))) of
              (cr, Ok out) \<Rightarrow>
                ((r1\<lparr>underbuf := Some (overlay out (the (underbuf r1))),
                     sym := (sym r)\<lparr>crypter := cr, sym_finalize := True, symbuffix := length out\<rparr>\<rparr>, src), Ok ())
            | (cr, Err e) \<Rightarrow>
                ((r1\<lparr>sym := (sym r)\<lparr>crypter := cr, sym_finalize := True, symbuffix := block_size env\<rparr>\<rparr>, src), Ok ())
            | (cr, Panic) \<Rightarrow> ((r1\<lparr>sym := (sym r)\<lparr>crypter := cr, sym_finalize := True\<rparr>\<rparr>, src), Panic))
         else ((r0\<lparr>sym := (sym r)\<lparr>sym_finalize := True\<rparr>\<rparr>, src), Ok ())
     | NoPadding \<Rightarrow> ((r, src), Ok ())
     | UnsizedPadding \<Rightarrow> ((r\<lparr>suix := 0, euix := 0\<rparr>, src), Ok ()))"

section \<open>Block ciphers\<close>

text \<open>A function on blocks with a state, applied to all whole blocks; the rest is kept.\<close>

function blocks :: "nat \<Rightarrow> ('st \<Rightarrow> bytes \<Rightarrow> 'st \<times> bytes) \<Rightarrow> 'st \<Rightarrow> bytes \<Rightarrow> 'st \<times> bytes \<times> bytes" where
  "blocks bs f st xs =
     (if bs = 0 \<or> length xs < bs then (st, [], xs)
      else case f st (take bs xs) of (st', y) \<Rightarrow> (case blocks bs f st' (drop bs xs) of (s2, out, rest) \<Rightarrow> (s2, y @ out, rest)))"
  by pat_completeness auto
termination by (relation "measure (\<lambda>(bs, f, st, xs). length xs)") auto

declare blocks.simps [simp del]

lemma blocks_short: "length xs < bs \<Longrightarrow> blocks bs f st xs = (st, [], xs)"
  by (subst blocks.simps) simp

lemma blocks_step:
  "0 < bs \<Longrightarrow> bs \<le> length xs \<Longrightarrow> blocks bs f st xs =
    (case f st (take bs xs) of (st', y) \<Rightarrow> (case blocks bs f st' (drop bs xs) of (s2, out, rest) \<Rightarrow> (s2, y @ out, rest)))"
  by (subst blocks.simps) simp

lemma blocks_append:
  assumes "0 < bs" and "blocks bs f st xs = (st1, o1, r1)"
  shows "blocks bs f st (xs @ ys) = (case blocks bs f st1 (r1 @ ys) of (s2, o2, r2) \<Rightarrow> (s2, o1 @ o2, r2))"
  using assms(2)
proof (induction xs arbitrary: st o1 rule: length_induct)
  case (1 xs)
  show ?case
  proof (cases "length xs < bs")
    case True
    then show ?thesis using 1(2) by (auto simp: blocks_short split: prod.splits)
  next
    case False
    obtain st' y where y: "f st (take bs xs) = (st', y)" by fastforce
    obtain s2 out rest where d: "blocks bs f st' (drop bs xs) = (s2, out, rest)" by (cases "blocks bs f st' (drop bs xs)")
    have eq: "s2 = st1" "o1 = y @ out" "rest = r1"
      using 1(2) y d False assms(1) by (simp_all add: blocks_step)
    have "length (drop bs xs) < length xs" using False assms(1) by simp
    with 1(1) d eq have "blocks bs f st' (drop bs xs @ ys) = (case blocks bs f st1 (r1 @ ys) of (s2, o2, r2) \<Rightarrow> (s2, out @ o2, r2))"
      by blast
    then show ?thesis using y eq False assms(1) by (simp add: blocks_step split: prod.splits)
  qed
qed

lemma blocks_rest: "0 < bs \<Longrightarrow> blocks bs f st xs = (st', out, rest) \<Longrightarrow> length rest = length xs mod bs"
proof (induction xs arbitrary: st out rule: length_induct)
  case (1 xs)
  show ?case
  proof (cases "length xs < bs")
    case True
    then show ?thesis using 1(3) by (simp add: blocks_short)
  next
    case False
    obtain s1 y where y: "f st (take bs xs) = (s1, y)" by fastforce
    obtain out' where "blocks bs f s1 (drop bs xs) = (st', out', rest)"
      using 1(3) y False \<open>0 < bs\<close> by (auto simp: blocks_step split: prod.splits)
    moreover have "length (drop bs xs) < length xs" using False \<open>0 < bs\<close> by simp
    ultimately have "length rest = length (drop bs xs) mod bs" using 1(1) \<open>0 < bs\<close> by blast
    then show ?thesis using False by (simp add: le_mod_geq)
  qed
qed

text \<open>A cipher: deciphering a block gives it back and moves the state as enciphering did.\<close>

definition inverse_blocks :: "nat \<Rightarrow> ('st \<Rightarrow> bytes \<Rightarrow> 'st \<times> bytes) \<Rightarrow> ('st \<Rightarrow> bytes \<Rightarrow> 'st \<times> bytes) \<Rightarrow> bool" where
  "inverse_blocks bs eb db \<longleftrightarrow>
     (\<forall>st b. length b = bs \<longrightarrow> length (snd (eb st b)) = bs \<and> db st (snd (eb st b)) = (fst (eb st b), b))"

lemma first_block:
  assumes "inverse_blocks bs eb db" and "0 < bs" and "blocks bs eb st xs = (st', ys, [])" and "xs \<noteq> []"
  shows "\<exists>st1 ys'. bs \<le> length xs \<and> bs \<le> length ys \<and> db st (take bs ys) = (st1, take bs xs) \<and>
    drop bs ys = ys' \<and> blocks bs eb st1 (drop bs xs) = (st', ys', [])"
proof -
  have l: "bs \<le> length xs" using assms(3,4) by (cases "length xs < bs") (auto simp: blocks_short)
  obtain st1 y where y: "eb st (take bs xs) = (st1, y)" by fastforce
  then obtain ys' where ys: "blocks bs eb st1 (drop bs xs) = (st', ys', [])" "ys = y @ ys'"
    using assms(2,3) l by (auto simp: blocks_step split: prod.splits)
  have "length y = bs" "db st y = (st1, take bs xs)"
    using assms(1) l y unfolding inverse_blocks_def by (metis fst_conv length_take min.absorb2 snd_conv)+
  then show ?thesis using ys l by auto
qed

text \<open>
  What is relied on of the cipher without padding: \<open>view\<close> gives its direction, the state of the blocks
  and the bytes that wait for a whole block; a cipher and the one that inverts it start in the
  same state, and \<open>update\<close> passes all whole blocks on when the buffer has room for them and one more.
\<close>

definition cipher_ok ::
    "('cr, 'src, 'sink) sym_env \<Rightarrow> ('cr \<Rightarrow> bool \<times> 'st \<times> bytes) \<Rightarrow> ('st \<Rightarrow> bytes \<Rightarrow> 'st \<times> bytes) \<Rightarrow> ('st \<Rightarrow> bytes \<Rightarrow> 'st \<times> bytes) \<Rightarrow> bool" where
  "cipher_ok env view eb db \<longleftrightarrow>
     0 < block_size env \<and> block_size env \<le> crypter_buff_size env \<and> inverse_blocks (block_size env) eb db \<and>
     (\<forall>k iv. length k = key_len env \<longrightarrow> length (case iv of None \<Rightarrow> [] | Some v \<Rightarrow> v) = ivl env \<longrightarrow>
       (\<exists>st. \<forall>send. \<exists>cr. cipher_new env send k iv = Ok cr \<and> view (cipher_pad env False cr) = (send, st, []))) \<and>
     (\<forall>cr xs n send st p. view cr = (send, st, p) \<longrightarrow> length xs + block_size env \<le> n \<longrightarrow>
       (case blocks (block_size env) (if send then eb else db) st (p @ xs) of (st', out, rest) \<Rightarrow>
          \<exists>cr'. cipher_update env cr xs n = (cr', Ok out) \<and> view cr' = (send, st', rest)))"

lemma cipher_okD:
  assumes "cipher_ok env view eb db"
  shows "0 < block_size env" "block_size env \<le> crypter_buff_size env" "inverse_blocks (block_size env) eb db"
  using assms by (simp_all add: cipher_ok_def)

lemma cipher_updateD:
  assumes "cipher_ok env view eb db" and "view cr = (send, st, p)" and "length xs + block_size env \<le> n"
    and "blocks (block_size env) (if send then eb else db) st (p @ xs) = (st', out, rest)"
  shows "\<exists>cr'. cipher_update env cr xs n = (cr', Ok out) \<and> view cr' = (send, st', rest)"
proof -
  have "case blocks (block_size env) (if send then eb else db) st (p @ xs) of (st', out, rest) \<Rightarrow>
          \<exists>cr'. cipher_update env cr xs n = (cr', Ok out) \<and> view cr' = (send, st', rest)"
    using assms(1) [unfolded cipher_ok_def, THEN conjunct2, THEN conjunct2, THEN conjunct2, THEN conjunct2, rule_format, OF assms(2,3)] .
  then show ?thesis using assms(4) by simp
qed

lemma length_overlay [simp]: "length xs \<le> length buf \<Longrightarrow> length (overlay xs buf) = length buf"
  by (simp add: overlay_def)

section \<open>Writing a message\<close>

text \<open>
  \<open>p\<close> was written since the cipher was in the state \<open>st0\<close> and the stream had the content \<open>c0\<close>: the whole
  blocks of \<open>p\<close> are on the stream, the rest waits in the cipher.
\<close>

definition sym_wi ::
    "('cr, 'src, 'sink) sym_env \<Rightarrow> ('sink \<Rightarrow> bytes) \<Rightarrow> ('cr \<Rightarrow> bool \<times> 'st \<times> bytes) \<Rightarrow> ('st \<Rightarrow> bytes \<Rightarrow> 'st \<times> bytes)
      \<Rightarrow> ('st \<Rightarrow> bytes \<Rightarrow> 'st \<times> bytes) \<Rightarrow> 'st \<Rightarrow> bytes \<Rightarrow> 'cr ossl_sym \<times> 'sink \<Rightarrow> bytes \<Rightarrow> bool" where
  "sym_wi env cont view eb db st0 c0 = (\<lambda>(w, snk) p.
     cipher_ok env view eb db \<and> writes_ok (env_write env) cont \<and> padding_mode env = UnsizedPadding \<and>
     length (buff w) = crypter_buff_size env + block_size env \<and>
     (\<exists>st out rest. blocks (block_size env) eb st0 p = (st, out, rest) \<and> view (crypter w) = (True, st, rest) \<and>
        cont snk = c0 @ out \<and> symbuffix w = length rest))"

lemma blocks_length:
  assumes "inverse_blocks bs eb db" and "0 < bs" and "blocks bs eb st xs = (st', out, rest)"
  shows "length out + length rest = length xs"
  using assms(3)
proof (induction xs arbitrary: st out rule: length_induct)
  case (1 xs)
  show ?case
  proof (cases "length xs < bs")
    case True
    then show ?thesis using 1(2) by (simp add: blocks_short)
  next
    case False
    obtain s1 y where y: "eb st (take bs xs) = (s1, y)" by fastforce
    then have ly: "length y = bs"
      using assms(1) False unfolding inverse_blocks_def by (metis length_take min.absorb2 not_less snd_conv)
    obtain out' where o: "blocks bs eb s1 (drop bs xs) = (st', out', rest)" "out = y @ out'"
      using 1(2) y False assms(2) by (auto simp: blocks_step split: prod.splits)
    have "length (drop bs xs) < length xs" using False assms(2) by simp
    with 1(1) o(1) have "length out' + length rest = length (drop bs xs)" by blast
    then show ?thesis using o(2) ly False by simp
  qed
qed

text \<open>An update of the writer: what follows \<open>p\<close> is enciphered, and no more than the buffer holds comes out.\<close>

lemma sym_wi_update:
  assumes "sym_wi env cont view eb db st0 c0 (w, snk) p" and "length xs \<le> crypter_buff_size env"
  shows "\<exists>w1 out. update_buff env xs w = (w1, Ok out) \<and> symbuffix w1 = symbuffix w \<and>
    (\<forall>snk'. cont snk' = cont snk @ out \<longrightarrow>
       sym_wi env cont view eb db st0 c0 (w1\<lparr>symbuffix := (symbuffix w + length xs) mod block_size env\<rparr>, snk') (p @ xs)) \<and>
    length out + (symbuffix w + length xs) mod block_size env = symbuffix w + length xs"
proof -
  let ?bs = "block_size env"
  obtain st out0 rest where b: "blocks ?bs eb st0 p = (st, out0, rest)" "view (crypter w) = (True, st, rest)"
      "cont snk = c0 @ out0" "symbuffix w = length rest"
    and k: "cipher_ok env view eb db" "length (buff w) = crypter_buff_size env + ?bs"
    using assms(1) by (auto simp: sym_wi_def)
  note bs = cipher_okD [OF k(1)]
  obtain st2 out rest2 where b2: "blocks ?bs eb st (rest @ xs) = (st2, out, rest2)" by (cases "blocks ?bs eb st (rest @ xs)")
  obtain cr where cr: "cipher_update env (crypter w) xs (length (buff w)) = (cr, Ok out)" "view cr = (True, st2, rest2)"
    using cipher_updateD [OF k(1) b(2), of xs "length (buff w)" st2 out rest2] b2 assms(2) k(2) by auto
  have r2: "length rest2 = (length rest + length xs) mod ?bs" using blocks_rest [OF bs(1) b2] by simp
  have lo: "length out + length rest2 = length rest + length xs" using blocks_length [OF bs(3,1) b2] by simp
  have "length rest < ?bs" using blocks_rest [OF bs(1) b(1)] bs(1) by simp
  then have "length out \<le> length (buff w)" using lo assms(2) k(2) by linarith
  moreover have "blocks ?bs eb st0 (p @ xs) = (st2, out0 @ out, rest2)" using blocks_append [OF bs(1) b(1), of xs] b2 by simp
  ultimately show ?thesis using assms(1) b(3,4) cr r2 lo by (auto simp: update_buff_def sym_wi_def)
qed

lemma sym_write_some:
  assumes "sym_wi env cont view eb db st0 c0 s p" and "xs \<noteq> []"
  shows "\<exists>s' k. sym_write_into env xs s = (s', Ok k) \<and> 0 < k \<and> k \<le> length xs \<and> sym_wi env cont view eb db st0 c0 s' (p @ take k xs)"
proof -
  obtain w snk where s: "s = (w, snk)" by fastforce
  let ?k = "min (length xs) (length (buff w) - block_size env)"
  have k: "length (buff w) = crypter_buff_size env + block_size env" "cipher_ok env view eb db" "writes_ok (env_write env) cont"
    using assms(1) by (simp_all add: s sym_wi_def)
  obtain w1 out where u: "update_buff env (take ?k xs) w = (w1, Ok out)" "symbuffix w1 = symbuffix w"
    "\<And>snk'. cont snk' = cont snk @ out \<Longrightarrow>
       sym_wi env cont view eb db st0 c0 (w1\<lparr>symbuffix := (symbuffix w + ?k) mod block_size env\<rparr>, snk') (p @ take ?k xs)"
    using sym_wi_update [OF assms(1) [unfolded s], of "take ?k xs"] k(1) by auto
  obtain snk' where "env_write env snk out = (snk', Ok ())" "cont snk' = cont snk @ out"
    using k(3) unfolding writes_ok_def by blast
  moreover have "0 < ?k" using assms(2) k(1) cipher_okD(1,2) [OF k(2)] by simp
  ultimately show ?thesis using u(1,2) u(3) [of snk'] u(3) [of snk]
    by (cases "out = []") (auto simp: s sym_write_into_def Let_def)
qed

text \<open>The bytes that fill the last block.\<close>

definition filling :: "nat \<Rightarrow> bytes \<Rightarrow> bytes" where
  "filling bs m = (if length m mod bs = 0 then [] else replicate (bs - length m mod bs) (of_nat (bs - length m mod bs)))"

lemma filling_block:
  assumes "0 < bs"
  shows "length (m @ filling bs m) mod bs = 0"
proof (cases "length m mod bs = 0")
  case False
  let ?r = "length m mod bs"
  have "(length m + (bs - ?r)) mod bs = (?r + (bs - ?r)) mod bs" by (simp only: mod_add_left_eq)
  also have "?r + (bs - ?r) = bs" using mod_less_divisor [OF assms, of "length m"] by simp
  finally show ?thesis using False by (simp add: filling_def)
qed (simp add: filling_def)

lemma filling_short: "0 < bs \<Longrightarrow> length (filling bs m) < bs"
  by (simp add: filling_def)

lemma sym_write_end_ok:
  assumes "sym_wi env cont view eb db st0 c0 s m"
  shows "\<exists>s'. sym_write_end env s = (s', Ok ()) \<and> sym_wi env cont view eb db st0 c0 s' (m @ filling (block_size env) m)"
proof -
  obtain w snk where s: "s = (w, snk)" by fastforce
  let ?bs = "block_size env"
  have k: "cipher_ok env view eb db" "writes_ok (env_write env) cont" "padding_mode env = UnsizedPadding"
    using assms by (simp_all add: s sym_wi_def)
  have bs: "0 < ?bs" "?bs \<le> crypter_buff_size env" using cipher_okD [OF k(1)] by simp_all
  have ix: "symbuffix w = length m mod ?bs" using assms blocks_rest [OF bs(1)] by (auto simp: s sym_wi_def)
  show ?thesis
  proof (cases "symbuffix w = 0")
    case True
    then show ?thesis using assms ix k(3) by (simp add: s sym_write_end_def filling_def)
  next
    case False
    define n where "n = ?bs - symbuffix w"
    define xs :: bytes where "xs = replicate n (of_nat n)"
    have lt: "symbuffix w < ?bs" using ix bs(1) by simp
    then have f: "filling ?bs m = xs" "length xs \<le> crypter_buff_size env" "symbuffix w + length xs = ?bs"
      using False ix bs(2) by (simp_all add: filling_def n_def xs_def)
    obtain w1 out where u: "update_buff env xs w = (w1, Ok out)"
      "\<And>snk'. cont snk' = cont snk @ out \<Longrightarrow> sym_wi env cont view eb db st0 c0 (w1\<lparr>symbuffix := 0\<rparr>, snk') (m @ xs)"
      "length out = ?bs"
      using sym_wi_update [OF assms [unfolded s] f(2)] f(3) by auto
    obtain snk' where "env_write env snk out = (snk', Ok ())" "cont snk' = cont snk @ out"
      using k(2) unfolding writes_ok_def by blast
    then show ?thesis using u f(1) False k(3) by (simp add: s sym_write_end_def Let_def flip: n_def xs_def)
  qed
qed

section \<open>Reading a message\<close>

text \<open>
  \<open>q\<close> is left of the message: the part of the last block in \<open>underbuf\<close> and the blocks that are still on the
  stream, before the bytes \<open>rest\<close> of later messages; after them the cipher is in the state \<open>st'\<close>.
\<close>

definition under :: "'cr ossl_sym_r \<Rightarrow> bytes" where
  "under r = (case underbuf r of None \<Rightarrow> [] | Some ub \<Rightarrow> take (euix r - suix r) (drop (suix r) ub))"

definition sym_ri ::
    "('cr, 'src, 'sink) sym_env \<Rightarrow> ('src \<Rightarrow> bytes) \<Rightarrow> ('cr \<Rightarrow> bool \<times> 'st \<times> bytes) \<Rightarrow> ('st \<Rightarrow> bytes \<Rightarrow> 'st \<times> bytes)
      \<Rightarrow> ('st \<Rightarrow> bytes \<Rightarrow> 'st \<times> bytes) \<Rightarrow> 'st \<Rightarrow> bytes \<Rightarrow> 'cr ossl_sym_r \<times> 'src \<Rightarrow> bytes \<Rightarrow> bool" where
  "sym_ri env cont view eb db st' rest = (\<lambda>(r, src) q.
     cipher_ok env view eb db \<and> reads_ok (env_read env) cont \<and> padding_mode env = UnsizedPadding \<and>
     \<not> sym_finalize (sym r) \<and> (suix r < euix r \<longrightarrow> underbuf r \<noteq> None) \<and>
     (\<forall>ub. underbuf r = Some ub \<longrightarrow> length ub = block_size env + block_size env \<and> euix r \<le> length ub) \<and>
     length (under r) < block_size env \<and>
     (\<exists>xs st zs. q = under r @ xs \<and> view (crypter (sym r)) = (False, st, []) \<and>
        blocks (block_size env) eb st xs = (st', zs, []) \<and> cont src = zs @ rest))"

lemma sym_ri_again:
  assumes "sym_ri env cont view eb db st' rest s q" and "\<not> sym_finalize (sym r)" and "underbuf r = Some ub"
    and "length ub = block_size env + block_size env" and "euix r \<le> length ub" and "view (crypter (sym r)) = (False, st, [])"
    and "blocks (block_size env) eb st xs = (st', zs, [])" and "cont src = zs @ rest" and "length (under r) < block_size env"
  shows "sym_ri env cont view eb db st' rest (r, src) (under r @ xs)"
  using assms by (auto simp: sym_ri_def)

text \<open>A read when nothing is left of the last block: the next one is deciphered.\<close>

lemma sym_read_next:
  assumes "sym_ri env cont view eb db st' rest (r, src) q" and "\<not> suix r < euix r" and "q \<noteq> []" and "0 < n"
  shows "\<exists>s' out q'. sym_read_step env n (r, src) = (s', Ok (out, False)) \<and> out \<noteq> [] \<and> length out \<le> n \<and> q = out @ q' \<and>
    sym_ri env cont view eb db st' rest s' q'"
proof -
  let ?bs = "block_size env"
  have u0: "under r = []" using assms(2) by (simp add: under_def split: option.split)
  obtain st zs where b: "view (crypter (sym r)) = (False, st, [])" "blocks ?bs eb st q = (st', zs, [])" "cont src = zs @ rest"
    and k: "cipher_ok env view eb db" "reads_ok (env_read env) cont" "padding_mode env = UnsizedPadding" "\<not> sym_finalize (sym r)"
      "\<And>ub. underbuf r = Some ub \<Longrightarrow> length ub = ?bs + ?bs"
    using assms(1) u0 by (auto simp: sym_ri_def)
  note bs = cipher_okD [OF k(1)]
  obtain st1 where f: "?bs \<le> length q" "?bs \<le> length zs" "db st (take ?bs zs) = (st1, take ?bs q)"
    "blocks ?bs eb st1 (drop ?bs q) = (st', drop ?bs zs, [])"
    using first_block [OF bs(3,1) b(2) assms(3)] by blast
  let ?got = "take ?bs zs" and ?out = "take ?bs q"
  obtain src' where src: "fill (env_read env) ?bs [] src = ((src', ?got), Ok ())" "cont src' = drop ?bs zs @ rest"
    using fill_ok [OF k(2), of "[]" ?bs src] b(3) f(2) by auto
  have lo: "length ?out = ?bs" "length ?got = ?bs" "?out \<noteq> []" using f(1,2) bs(1) by auto
  have dec: "\<exists>cr. cipher_update env (crypter (sym r)) ?got m = (cr, Ok ?out) \<and> view cr = (False, st1, [])" if "?bs + ?bs \<le> m" for m
    using cipher_updateD [OF k(1) b(1), of ?got m st1 ?out "[]"] that f(3) lo bs(1) by (simp add: blocks_step blocks_short)
  show ?thesis
  proof (cases "?bs + ?bs < n")
    case True
    obtain cr where cr: "cipher_update env (crypter (sym r)) ?got n = (cr, Ok ?out)" "view cr = (False, st1, [])"
      using dec [of n] True by auto
    let ?r = "r\<lparr>sym := (sym r)\<lparr>crypter := cr, buff := overlay ?got (buff (sym r)),
        symbuffix := (symbuffix (sym r) + ?bs) mod ?bs\<rparr>\<rparr>"
    have "sym_read_step env n (r, src) = ((?r, src'), Ok (?out, False))"
      using True assms(2,4) k(3,4) src(1) cr(1) lo by (simp add: sym_read_step_def decrypt_block_def Let_def)
    moreover have "under ?r = []" using assms(2) by (simp add: under_def split: option.split)
    then have "sym_ri env cont view eb db st' rest (?r, src') (drop ?bs q)"
      using assms(1) cr(2) f(4) src(2) bs(1) by (auto simp: sym_ri_def)
    ultimately show ?thesis using lo True by (intro exI conjI) (auto simp: append_take_drop_id)
  next
    case False
    let ?r1 = "with_underbuf env r"
    obtain ub where ub: "underbuf ?r1 = Some ub" "length ub = ?bs + ?bs"
      using k(5) by (cases "underbuf r") (auto simp: with_underbuf_def)
    have same: "sym ?r1 = sym r" "euix ?r1 = euix r" "suix ?r1 = suix r" by (simp_all add: with_underbuf_def)
    obtain cr where cr: "cipher_update env (crypter (sym r)) ?got (length ub) = (cr, Ok ?out)" "view cr = (False, st1, [])"
      using dec [of "length ub"] ub(2) by auto
    let ?r = "?r1\<lparr>sym := (sym r)\<lparr>crypter := cr, buff := overlay ?got (buff (sym r)),
        symbuffix := (symbuffix (sym r) + ?bs) mod ?bs\<rparr>, underbuf := Some (overlay ?out ub), euix := ?bs, suix := min n ?bs\<rparr>"
    have "sym_read_step env n (r, src) = ((?r, src'), Ok (take n ?out, False))"
      using False assms(2,4) k(3,4) src(1) cr(1) lo ub same by (simp add: sym_read_step_def decrypt_block_def Let_def)
    moreover have "under ?r = drop n ?out" using lo by (simp add: under_def overlay_def min_def)
    moreover from this have "sym_ri env cont view eb db st' rest (?r, src') (drop n ?out @ drop ?bs q)"
      using assms(1,4) ub(2) cr(2) f(4) src(2) same lo bs(1) by (simp add: sym_ri_def overlay_def)
    moreover have "q = take n ?out @ drop n ?out @ drop ?bs q" by (metis append_assoc append_take_drop_id)
    moreover have "take n ?out \<noteq> []" "length (take n ?out) \<le> n"
      using lo assms(4) by simp_all
    ultimately show ?thesis by metis
  qed
qed

lemma sym_read_some:
  assumes "sym_ri env cont view eb db st' rest (r, src) q" and "q \<noteq> []" and "0 < n"
  shows "\<exists>s' out q'. sym_read_from env n (r, src) = Some (s', Ok out) \<and> out \<noteq> [] \<and> length out \<le> n \<and> q = out @ q' \<and>
    sym_ri env cont view eb db st' rest s' q'"
proof -
  have "\<exists>s' out q'. sym_read_step env n (r, src) = (s', Ok (out, False)) \<and> out \<noteq> [] \<and> length out \<le> n \<and> q = out @ q' \<and>
    sym_ri env cont view eb db st' rest s' q'"
  proof (cases "suix r < euix r")
    case False
    then show ?thesis using assms by (intro sym_read_next)
  next
    case True
    let ?k = "min n (euix r - suix r)" and ?r = "r\<lparr>suix := suix r + min n (euix r - suix r)\<rparr>"
    have "underbuf r \<noteq> None" using assms(1) True unfolding sym_ri_def prod.case by blast
    then obtain ub where ub1: "underbuf r = Some ub" by blast
    then have ub: "underbuf r = Some ub" "euix r \<le> length ub" using assms(1) unfolding sym_ri_def prod.case by blast+
    have u: "under r = take ?k (drop (suix r) ub) @ under ?r"
      using ub(1) take_in_two [of ?k "euix r" "suix r" ub] by (simp add: under_def)
    obtain xs st zs where xs: "q = under r @ xs" "view (crypter (sym r)) = (False, st, [])"
      "blocks (block_size env) eb st xs = (st', zs, [])" "cont src = zs @ rest" "\<not> sym_finalize (sym r)"
      using assms(1) unfolding sym_ri_def prod.case by blast
    have l: "length ub = block_size env + block_size env" using assms(1) ub(1) unfolding sym_ri_def prod.case by blast
    have "length (under r) < block_size env" using assms(1) unfolding sym_ri_def prod.case by blast
    then have short: "length (under ?r) < block_size env" using u by simp
    have ri: "sym_ri env cont view eb db st' rest (?r, src) (under ?r @ xs)"
      by (rule sym_ri_again [OF assms(1) _ _ l _ _ xs(3,4) short]) (use xs ub in simp_all)
    have "sym_read_step env n (r, src) = ((?r, src), Ok (take ?k (drop (suix r) ub), False))"
      using True assms(3) ub(1) by (simp add: sym_read_step_def Let_def)
    moreover have "take ?k (drop (suix r) ub) \<noteq> []" "length (take ?k (drop (suix r) ub)) \<le> n" using ub(2) True assms(3) by auto
    ultimately show ?thesis using xs(1) u ri by (intro exI conjI) auto
  qed
  then obtain s' out q' where "sym_read_step env n (r, src) = (s', Ok (out, False))" "out \<noteq> []" "length out \<le> n" "q = out @ q'"
    "sym_ri env cont view eb db st' rest s' q'" by blast
  then show ?thesis by (subst sym_read_from.simps) auto
qed

section \<open>Messages\<close>

text \<open>Messages one after the other, each filled up to whole blocks.\<close>

definition flat :: "nat \<Rightarrow> bytes list \<Rightarrow> bytes" where
  "flat bs ms = concat (map (\<lambda>m. m @ filling bs m) ms)"

lemma flat_simps [simp]: "flat bs [] = []" "flat bs (m # ms) = m @ filling bs m @ flat bs ms" "flat bs (ms @ [m]) = flat bs ms @ m @ filling bs m"
  by (simp_all add: flat_def)

lemma flat_block: "0 < bs \<Longrightarrow> length (flat bs ms) mod bs = 0"
proof (induction ms)
  case (Cons m ms)
  have "length (flat bs (m # ms)) mod bs = (length (m @ filling bs m) mod bs + length (flat bs ms) mod bs) mod bs"
    by (simp add: mod_add_eq flip: add.assoc)
  then show ?case using Cons filling_block by simp
qed simp

lemma filling_flat: "0 < bs \<Longrightarrow> filling bs (flat bs ms @ m) = filling bs m"
  using flat_block [of bs ms] mod_add_left_eq [of "length (flat bs ms)" bs "length m"] by (simp add: filling_def)

abbreviation sym_mwi where
  "sym_mwi env cont view eb db st0 c0 ms s p \<equiv> sym_wi env cont view eb db st0 c0 s (flat (block_size env) ms @ p)"

abbreviation sym_mri where
  "sym_mri env cont view eb db st' rest ms s q \<equiv> sym_ri env cont view eb db st' rest s (q @ flat (block_size env) ms)"

definition sym_idle where
  "sym_idle env cont view eb db st0 c0 s ms = sym_wi env cont view eb db st0 c0 s (flat (block_size env) ms)"

definition sym_ready where
  "sym_ready env cont view eb db st' rest s ms \<longleftrightarrow> sym_ri env cont view eb db st' rest s (flat (block_size env) ms) \<and> under (fst s) = []"

lemma sym_wiD:
  assumes "sym_wi env cont view eb db st0 c0 s p"
  shows "padding_mode env = UnsizedPadding" "cipher_ok env view eb db"
  using assms by (auto simp: sym_wi_def)

lemma sym_riD:
  assumes "sym_ri env cont view eb db st' rest (r, src) q"
  shows "padding_mode env = UnsizedPadding" "cipher_ok env view eb db" "length (under r) < block_size env"
    "length q mod block_size env = length (under r) mod block_size env" "\<exists>xs. q = under r @ xs"
proof -
  show k: "padding_mode env = UnsizedPadding" "cipher_ok env view eb db" "length (under r) < block_size env" "\<exists>xs. q = under r @ xs"
    using assms unfolding sym_ri_def prod.case by blast+
  obtain xs st zs where "q = under r @ xs" "blocks (block_size env) eb st xs = (st', zs, [])"
    using assms unfolding sym_ri_def prod.case by blast
  then show "length q mod block_size env = length (under r) mod block_size env"
    using blocks_rest [OF cipher_okD(1) [OF k(2)], of eb st xs st' zs "[]"] by (simp add: mod_add_right_eq [symmetric])
qed

lemma sym_mread_some:
  assumes "sym_mri env cont view eb db st' rest ms s q" and "0 < n" and "n \<le> length q"
  shows "\<exists>s' out q'. sym_read_from env n s = Some (s', Ok out) \<and> out \<noteq> [] \<and> length out \<le> n \<and> q = out @ q' \<and>
    sym_mri env cont view eb db st' rest ms s' q'"
proof -
  obtain r src where s: "s = (r, src)" by fastforce
  have "q @ flat (block_size env) ms \<noteq> []" using assms(2,3) by auto
  then obtain s' out q2 where r: "sym_read_from env n s = Some (s', Ok out)" "out \<noteq> []" "length out \<le> n"
    "q @ flat (block_size env) ms = out @ q2" "sym_ri env cont view eb db st' rest s' q2"
    using sym_read_some [OF assms(1) [unfolded s]] assms(2) s by blast
  moreover obtain q' where "q = out @ q'" "q2 = q' @ flat (block_size env) ms"
    using split_prefix [OF r(4)] r(3) assms(3) by auto
  ultimately show ?thesis by blast
qed

lemma sym_mread_end:
  assumes "sym_mri env cont view eb db st' rest ms s (filling (block_size env) m)"
  shows "\<exists>s'. sym_read_end env s = (s', Ok ()) \<and> sym_ready env cont view eb db st' rest s' ms"
proof -
  obtain r src where s: "s = (r, src)" by fastforce
  let ?bs = "block_size env" and ?f = "filling (block_size env) m"
  note d = sym_riD [OF assms [unfolded s]]
  have bs: "0 < ?bs" using cipher_okD(1) [OF d(2)] .
  have "length (under r) = length ?f"
    using d(3,4) flat_block [OF bs, of ms] filling_short [OF bs, of m] by (simp add: mod_add_right_eq [symmetric])
  then have u: "?f = under r" "\<And>xs. ?f @ flat ?bs ms = under r @ xs \<Longrightarrow> xs = flat ?bs ms" using d(5) by auto
  let ?r = "r\<lparr>suix := 0, euix := 0\<rparr>"
  have u0: "under ?r = []" by (simp add: under_def split: option.split)
  have "sym_ri env cont view eb db st' rest (?r, src) (flat ?bs ms)"
    using assms u u0 bs unfolding s sym_ri_def prod.case by auto
  then show ?thesis using d(1) u0 by (simp add: s sym_read_end_def sym_ready_def)
qed

lemma sym_mwrite_header:
  assumes "sym_idle env cont view eb db st0 c0 s ms"
  shows "\<exists>s'. sym_write_header env s = (s', Ok ()) \<and> sym_mwi env cont view eb db st0 c0 ms s' []"
  using assms sym_wiD(1) [OF assms [unfolded sym_idle_def]] by (cases s) (simp add: sym_idle_def sym_write_header_def)

lemma sym_mwrite_some:
  assumes "sym_mwi env cont view eb db st0 c0 ms s p" and "xs \<noteq> []"
  shows "\<exists>s' k. sym_write_into env xs s = (s', Ok k) \<and> 0 < k \<and> k \<le> length xs \<and> sym_mwi env cont view eb db st0 c0 ms s' (p @ take k xs)"
  using sym_write_some [OF assms] by simp

lemma sym_mwrite_end:
  assumes "sym_mwi env cont view eb db st0 c0 ms s m"
  shows "\<exists>s'. sym_write_end env s = (s', Ok ()) \<and> sym_idle env cont view eb db st0 c0 s' (ms @ [m])"
  using sym_write_end_ok [OF assms] filling_flat [OF cipher_okD(1) [OF sym_wiD(2) [OF assms]], of ms m]
  by (simp add: sym_idle_def)

lemma sym_mread_header:
  assumes "sym_ready env cont view eb db st' rest s (m # ms)"
  shows "\<exists>s'. sym_read_header env s = (s', Ok ()) \<and> sym_mri env cont view eb db st' rest ms s' (m @ filling (block_size env) m)"
proof -
  obtain r src where s: "s = (r, src)" by fastforce
  have "padding_mode env = UnsizedPadding" by (rule sym_riD(1)) (rule conjunct1 [OF assms [unfolded s sym_ready_def]])
  with assms show ?thesis by (simp add: s sym_ready_def sym_read_header_def)
qed

interpretation symw: msg_write "sym_write_header env" "sym_write_into env" "sym_write_end env"
  "sym_idle env cont view eb db st0 c0" "sym_mwi env cont view eb db st0 c0" for env cont view eb db st0 c0
  by unfold_locales (rule sym_mwrite_header sym_mwrite_some sym_mwrite_end, assumption+)+

interpretation symr: msg_read "sym_read_header env" "sym_read_from env" "sym_read_end env"
  "sym_ready env cont view eb db st' rest" "sym_mri env cont view eb db st' rest" "filling (block_size env)" for env cont view eb db st' rest
  by unfold_locales (rule sym_mread_header sym_mread_some sym_mread_end, assumption+)+

text \<open>A writer and a reader with the same key start in the same state of the cipher.\<close>

lemma sym_start:
  assumes "cipher_ok env view eb db" and "padding_mode env = UnsizedPadding" and "length k = ivl env + key_len env"
  shows "\<exists>w r st. sym_w_new env k = Ok w \<and> sym_r_new env k = Ok r \<and> sym_key w = k \<and>
    (\<forall>cont snk. writes_ok (env_write env) cont \<longrightarrow> sym_idle env cont view eb db st (cont snk) (w, snk) []) \<and>
    (\<forall>cont src ms st' zs rest. reads_ok (env_read env) cont \<longrightarrow> blocks (block_size env) eb st (flat (block_size env) ms) = (st', zs, []) \<longrightarrow>
       cont src = zs @ rest \<longrightarrow> sym_ready env cont view eb db st' rest (r, src) ms)"
proof -
  let ?iv = "take (ivl env) k"
  let ?o = "if ?iv = [] then None else Some ?iv"
  have "length (drop (ivl env) k) = key_len env" "length (case ?o of None \<Rightarrow> [] | Some v \<Rightarrow> v) = ivl env"
    using assms(3) by auto
  then obtain st where "\<forall>send. \<exists>cr. cipher_new env send (drop (ivl env) k) ?o = Ok cr \<and> view (cipher_pad env False cr) = (send, st, [])"
    using assms(1) unfolding cipher_ok_def by blast
  then obtain ce cd where c: "cipher_new env True (drop (ivl env) k) ?o = Ok ce" "view (cipher_pad env False ce) = (True, st, [])"
    "cipher_new env False (drop (ivl env) k) ?o = Ok cd" "view (cipher_pad env False cd) = (False, st, [])" by blast
  have bs: "0 < block_size env" using cipher_okD(1) [OF assms(1)] .
  let ?s = "\<lambda>cr. \<lparr>crypter = cipher_pad env False cr, sym_key = k, sym_finalize = False,
      buff = replicate (crypter_buff_size env + block_size env) 0, symbuffix = 0\<rparr>"
  have n: "new_iv_shift env k True False = Ok (?s ce)" "new_iv_shift env k False False = Ok (?s cd)"
    using c assms(2,3) by (simp_all add: new_iv_shift_def Let_def split: if_splits)
  then show ?thesis using c assms(1,2) bs
    by (intro exI [of _ "?s ce"] exI [of _ "from_read_sym (?s cd)"] exI [of _ st])
      (auto simp: sym_w_new_def sym_r_new_def sym_new_def sym_idle_def sym_wi_def blocks_short sym_ready_def from_read_sym_def under_def sym_ri_def)
qed

text \<open>What a writer has put on the stream is what a reader can read.\<close>

lemma sym_idle_content:
  assumes "sym_idle env cont view eb db st0 c0 (w, snk) ms"
  shows "\<exists>st' zs. blocks (block_size env) eb st0 (flat (block_size env) ms) = (st', zs, []) \<and> cont snk = c0 @ zs"
proof -
  obtain st out rest where b: "blocks (block_size env) eb st0 (flat (block_size env) ms) = (st, out, rest)" "cont snk = c0 @ out"
    using assms by (auto simp: sym_idle_def sym_wi_def)
  have bs: "0 < block_size env" using assms cipher_okD(1) [OF sym_wiD(2)] by (auto simp: sym_idle_def)
  have "rest = []" using blocks_rest [OF bs b(1)] flat_block [OF bs, of ms] by simp
  then show ?thesis using b by blast
qed

end
