(* ===== verification/Osslshadow.thy ===== *)
theory Osslshadow
  imports Osslsym Peer
begin

text \<open>
  The shadowers of \<open>mydht-openssl/src/rsa_openssl.rs\<close> that peers with an RSA key use: \<open>OSSLMixR\<close> and \<open>OSSLMixW\<close>
  exchange the key of a symmetric cipher in the first header, \<open>OSSLShadowerR\<close> and \<open>OSSLShadowerW\<close> choose
  between them, RSA on all of the content, and no encryption.  Also the peer \<open>RSAPeer\<close> and the signatures of
  \<open>RSAPeerMgmt\<close>.

  The RSA operations of the \<open>openssl\<close> crate are arguments, with the length of the buffer for their result.
  Enciphering uses random bytes, so its result may depend on everything written before.
\<close>

section \<open>Configuration and keys\<close>

record ('rsa, 'cr, 'src, 'sink) ossl_env =
  sym_conf :: "('cr, 'src, 'sink) sym_env"
  crypter_key_enc_size :: nat
  asym_enc_size :: nat
  asym_dec_size :: nat
  env_write1 :: "'sink \<Rightarrow> bytes \<Rightarrow> 'sink \<times> nat outcome"
  os_rng :: "'sink \<Rightarrow> (nat \<Rightarrow> u8) outcome"
  rsa_size :: "'rsa \<Rightarrow> nat"
  public_encrypt :: "'rsa \<Rightarrow> 'sink \<Rightarrow> bytes \<Rightarrow> nat \<Rightarrow> bytes outcome"
  private_decrypt :: "'rsa \<Rightarrow> bytes \<Rightarrow> nat \<Rightarrow> bytes outcome"
  private_encrypt :: "'rsa \<Rightarrow> bytes \<Rightarrow> nat \<Rightarrow> bytes outcome"
  public_decrypt :: "'rsa \<Rightarrow> bytes \<Rightarrow> nat \<Rightarrow> bytes outcome"
  public_key_to_der :: "'rsa \<Rightarrow> bytes outcome"
  private_key_to_der :: "'rsa \<Rightarrow> bytes outcome"
  hash_key :: "bytes \<Rightarrow> bytes outcome"

record 'rsa pkey_ext =
  pk_pub :: bytes
  pk_rsa :: 'rsa
  pk_write_private :: bool

text \<open>\<open>unwrap\<close> of a result.\<close>

fun or_panic :: "'x outcome \<Rightarrow> 'x outcome" where
  "or_panic (Ok x) = Ok x"
| "or_panic _ = Panic"

definition pkey_new :: "('rsa, 'cr, 'src, 'sink) ossl_env \<Rightarrow> 'rsa \<Rightarrow> 'rsa pkey_ext outcome" where
  "pkey_new env pk = and_then (or_panic (public_key_to_der env pk)) (\<lambda>pubk. Ok \<lparr>pk_pub = pubk, pk_rsa = pk, pk_write_private = False\<rparr>)"

definition derive_key :: "('rsa, 'cr, 'src, 'sink) ossl_env \<Rightarrow> 'rsa pkey_ext \<Rightarrow> bytes outcome" where
  "derive_key env pk = hash_key env (pk_pub pk)"

definition pkey_eq :: "'rsa pkey_ext \<Rightarrow> 'rsa pkey_ext \<Rightarrow> bool" where
  "pkey_eq a b \<longleftrightarrow> pk_pub a = pk_pub b"

section \<open>Exchange of a symmetric key\<close>

record ('rsa, 'cr) mix_r =
  keyexch :: "'rsa pkey_ext"
  mr_sym :: "'cr ossl_sym_r option"

record ('rsa, 'cr) mix_w =
  mw_dest :: "'rsa pkey_ext"
  mw_sym :: "'cr ossl_sym option"

definition mix_r_new :: "'rsa pkey_ext \<Rightarrow> ('rsa, 'cr) mix_r" where
  "mix_r_new pk = \<lparr>keyexch = pk, mr_sym = None\<rparr>"

definition mix_w_new :: "'rsa pkey_ext \<Rightarrow> ('rsa, 'cr) mix_w" where
  "mix_w_new pk = \<lparr>mw_dest = pk, mw_sym = None\<rparr>"

definition not_init :: error_kind where
  "not_init = Io ''Non initialize sym cipher''"

definition with_sym_r ::
    "('rsa, 'cr) mix_r \<Rightarrow> ('cr ossl_sym_r \<times> 'src) \<times> 'x outcome \<Rightarrow> (('rsa, 'cr) mix_r \<times> 'src) \<times> 'x outcome" where
  "with_sym_r m = (\<lambda>((s, src), r). ((m\<lparr>mr_sym := Some s\<rparr>, src), r))"

definition read_sym_key :: "('rsa, 'cr, 'src, 'sink) ossl_env \<Rightarrow> 'rsa pkey_ext \<Rightarrow> 'src \<Rightarrow> 'src \<times> bytes outcome" where
  "read_sym_key env pk src =
     (let is = ivl (sym_conf env); ks = key_len (sym_conf env); ksbuf = max ks (rsa_size env (pk_rsa pk)) in
      then_io (raw_read_exact (env_read (sym_conf env)) is src) (\<lambda>src iv.
      then_io (raw_read_exact (env_read (sym_conf env)) (crypter_key_enc_size env) src) (\<lambda>src enckey.
      (src, and_then (private_decrypt env (pk_rsa pk) enckey ksbuf) (\<lambda>k.
        if length k \<noteq> ks then Err (Io ''Cannot read Rsa Shadow key'') else Ok (iv @ k))))))"

definition mix_read_header ::
    "('rsa, 'cr, 'src, 'sink) ossl_env \<Rightarrow> ('rsa, 'cr) mix_r \<times> 'src \<Rightarrow> (('rsa, 'cr) mix_r \<times> 'src) \<times> unit outcome" where
  "mix_read_header env = (\<lambda>(m, src).
     case mr_sym m of
       Some s \<Rightarrow> with_sym_r m (sym_read_header (sym_conf env) (s, src))
     | None \<Rightarrow>
         (case read_sym_key env (keyexch m) src of (src', r) \<Rightarrow>
            (case and_then r (sym_r_new (sym_conf env)) of
               Ok s \<Rightarrow> ((m\<lparr>mr_sym := Some s\<rparr>, src'), Ok ())
             | Err e \<Rightarrow> ((m, src'), Err e)
             | Panic \<Rightarrow> ((m, src'), Panic))))"

definition mix_read_from ::
    "('rsa, 'cr, 'src, 'sink) ossl_env \<Rightarrow> nat \<Rightarrow> ('rsa, 'cr) mix_r \<times> 'src \<Rightarrow> ((('rsa, 'cr) mix_r \<times> 'src) \<times> bytes outcome) option" where
  "mix_read_from env n = (\<lambda>(m, src).
     case mr_sym m of
       Some s \<Rightarrow> map_option (with_sym_r m) (sym_read_from (sym_conf env) n (s, src))
     | None \<Rightarrow> Some ((m, src), Err not_init))"

definition mix_read_exact_from ::
    "('rsa, 'cr, 'src, 'sink) ossl_env \<Rightarrow> nat \<Rightarrow> ('rsa, 'cr) mix_r \<times> 'src \<Rightarrow> ((('rsa, 'cr) mix_r \<times> 'src) \<times> bytes outcome) option" where
  "mix_read_exact_from env n = (\<lambda>(m, src).
     case mr_sym m of
       Some s \<Rightarrow> map_option (with_sym_r m) (read_exact (sym_read_from (sym_conf env)) n (s, src))
     | None \<Rightarrow> Some ((m, src), Err not_init))"

definition mix_read_end ::
    "('rsa, 'cr, 'src, 'sink) ossl_env \<Rightarrow> ('rsa, 'cr) mix_r \<times> 'src \<Rightarrow> (('rsa, 'cr) mix_r \<times> 'src) \<times> unit outcome" where
  "mix_read_end env = (\<lambda>(m, src).
     case mr_sym m of
       Some s \<Rightarrow> with_sym_r m (sym_read_end (sym_conf env) (s, src))
     | None \<Rightarrow> ((m, src), Err not_init))"

definition with_sym_w ::
    "('rsa, 'cr) mix_w \<Rightarrow> ('cr ossl_sym \<times> 'sink) \<times> 'x outcome \<Rightarrow> (('rsa, 'cr) mix_w \<times> 'sink) \<times> 'x outcome" where
  "with_sym_w m = (\<lambda>((s, snk), r). ((m\<lparr>mw_sym := Some s\<rparr>, snk), r))"

text \<open>The initial vector goes in clear, the key enciphered for the peer.\<close>

definition write_sym_key :: "('rsa, 'cr, 'src, 'sink) ossl_env \<Rightarrow> 'rsa pkey_ext \<Rightarrow> 'sink \<Rightarrow> 'sink \<times> bytes outcome" where
  "write_sym_key env pk snk =
     (let is = ivl (sym_conf env) in
      then_io (snk, and_then (os_rng env snk) (\<lambda>rng. Ok (sym_new_key (sym_conf env) rng))) (\<lambda>snk ivk.
      then_io (env_write (sym_conf env) snk (take is ivk)) (\<lambda>snk _.
      then_io (snk, and_then (public_encrypt env (pk_rsa pk) snk (drop is ivk) (crypter_key_enc_size env)) (\<lambda>enckey.
        if length enckey \<noteq> crypter_key_enc_size env then Panic else Ok enckey)) (\<lambda>snk enckey.
      then_io (env_write (sym_conf env) snk enckey) (\<lambda>snk _. (snk, Ok ivk))))))"

definition mix_write_header ::
    "('rsa, 'cr, 'src, 'sink) ossl_env \<Rightarrow> ('rsa, 'cr) mix_w \<times> 'sink \<Rightarrow> (('rsa, 'cr) mix_w \<times> 'sink) \<times> unit outcome" where
  "mix_write_header env = (\<lambda>(m, snk).
     case mw_sym m of
       Some s \<Rightarrow> with_sym_w m (sym_write_header (sym_conf env) (s, snk))
     | None \<Rightarrow>
         (case write_sym_key env (mw_dest m) snk of (snk', r) \<Rightarrow>
            (case and_then r (sym_w_new (sym_conf env)) of
               Ok s \<Rightarrow> ((m\<lparr>mw_sym := Some s\<rparr>, snk'), Ok ())
             | Err e \<Rightarrow> ((m, snk'), Err e)
             | Panic \<Rightarrow> ((m, snk'), Panic))))"

definition mix_write_into ::
    "('rsa, 'cr, 'src, 'sink) ossl_env \<Rightarrow> bytes \<Rightarrow> ('rsa, 'cr) mix_w \<times> 'sink \<Rightarrow> (('rsa, 'cr) mix_w \<times> 'sink) \<times> nat outcome" where
  "mix_write_into env xs = (\<lambda>(m, snk).
     case mw_sym m of
       Some s \<Rightarrow> with_sym_w m (sym_write_into (sym_conf env) xs (s, snk))
     | None \<Rightarrow> ((m, snk), Err not_init))"

definition mix_write_all_into ::
    "('rsa, 'cr, 'src, 'sink) ossl_env \<Rightarrow> bytes \<Rightarrow> ('rsa, 'cr) mix_w \<times> 'sink \<Rightarrow> (('rsa, 'cr) mix_w \<times> 'sink) \<times> unit outcome" where
  "mix_write_all_into env xs = (\<lambda>(m, snk).
     case mw_sym m of
       Some s \<Rightarrow> with_sym_w m (write_all (sym_write_into (sym_conf env)) xs (s, snk))
     | None \<Rightarrow> ((m, snk), Err not_init))"

definition mix_flush_into ::
    "('rsa, 'cr) mix_w \<times> 'sink \<Rightarrow> (('rsa, 'cr) mix_w \<times> 'sink) \<times> unit outcome" where
  "mix_flush_into = (\<lambda>(m, snk).
     case mw_sym m of
       Some s \<Rightarrow> with_sym_w m (sym_flush_into (s, snk))
     | None \<Rightarrow> ((m, snk), Err not_init))"

definition mix_write_end ::
    "('rsa, 'cr, 'src, 'sink) ossl_env \<Rightarrow> ('rsa, 'cr) mix_w \<times> 'sink \<Rightarrow> (('rsa, 'cr) mix_w \<times> 'sink) \<times> unit outcome" where
  "mix_write_end env = (\<lambda>(m, snk).
     case mw_sym m of
       Some s \<Rightarrow> with_sym_w m (sym_write_end (sym_conf env) (s, snk))
     | None \<Rightarrow> ((m, snk), Err not_init))"

section \<open>Shadowers\<close>

datatype asym_sym_mode = ASymSym | ASymOnly | NoASym

definition SMODE_ASYM_ONLY_ENABLE :: u8 where "SMODE_ASYM_ONLY_ENABLE = 2"
definition SMODE_ENABLE :: u8 where "SMODE_ENABLE = 1"
definition SMODE_DISABLE :: u8 where "SMODE_DISABLE = 0"

record ('rsa, 'cr) shad_r =
  sr_inner :: "('rsa, 'cr) mix_r"
  sr_mode :: asym_sym_mode
  sr_asymbufs :: "(bytes \<times> nat \<times> bytes \<times> nat) option"
  sr_init :: bool

record ('rsa, 'cr) shad_w =
  sw_inner :: "('rsa, 'cr) mix_w"
  sw_mode :: asym_sym_mode
  sw_asymbufs :: "(bytes \<times> nat \<times> bytes \<times> nat) option"
  sw_init :: bool

definition shad_r_new :: "'rsa pkey_ext \<Rightarrow> ('rsa, 'cr) shad_r" where
  "shad_r_new pk = \<lparr>sr_inner = mix_r_new pk, sr_mode = ASymSym, sr_asymbufs = None, sr_init = False\<rparr>"

definition shad_w_new :: "'rsa pkey_ext \<Rightarrow> ('rsa, 'cr) shad_w" where
  "shad_w_new pk = \<lparr>sw_inner = mix_w_new pk, sw_mode = ASymSym, sw_asymbufs = None, sw_init = False\<rparr>"

definition asym_err :: error_kind where
  "asym_err = Io ''Asym buf reader''"

definition with_inner_r ::
    "('rsa, 'cr) shad_r \<Rightarrow> (('rsa, 'cr) mix_r \<times> 'src) \<times> 'x outcome \<Rightarrow> (('rsa, 'cr) shad_r \<times> 'src) \<times> 'x outcome" where
  "with_inner_r s = (\<lambda>((m, src), r). ((s\<lparr>sr_inner := m\<rparr>, src), r))"

definition with_inner_w ::
    "('rsa, 'cr) shad_w \<Rightarrow> (('rsa, 'cr) mix_w \<times> 'sink) \<times> 'x outcome \<Rightarrow> (('rsa, 'cr) shad_w \<times> 'sink) \<times> 'x outcome" where
  "with_inner_w s = (\<lambda>((m, snk), r). ((s\<lparr>sw_inner := m\<rparr>, snk), r))"

text \<open>The mode is the first byte of a connection; when nothing can be read it is taken to be zero.\<close>

definition shad_read_header ::
    "('rsa, 'cr, 'src, 'sink) ossl_env \<Rightarrow> ('rsa, 'cr) shad_r \<times> 'src \<Rightarrow> (('rsa, 'cr) shad_r \<times> 'src) \<times> unit outcome" where
  "shad_read_header env = (\<lambda>(s, src).
     if \<not> sr_init s
     then (case env_read (sym_conf env) src 1 of
             (src', Ok xs) \<Rightarrow>
               let tag = (if xs = [] then 0 else hd xs) in
               if tag = SMODE_ENABLE
               then then_io (with_inner_r (s\<lparr>sr_mode := ASymSym\<rparr>) (mix_read_header env (sr_inner s, src')))
                      (\<lambda>(s, src) _. ((s\<lparr>sr_init := True\<rparr>, src), Ok ()))
               else if tag = SMODE_ASYM_ONLY_ENABLE
               then let bufs = (if sr_asymbufs s = None
                                then Some (replicate (asym_enc_size env) 0, 0, replicate (max (asym_dec_size env) (asym_enc_size env)) 0, 0)
                                else sr_asymbufs s)
                    in ((s\<lparr>sr_mode := ASymOnly, sr_asymbufs := bufs, sr_init := True\<rparr>, src'), Ok ())
               else ((s\<lparr>sr_mode := NoASym, sr_init := True\<rparr>, src'), Ok ())
           | (src', Err e) \<Rightarrow> ((s, src'), Err e)
           | (src', Panic) \<Rightarrow> ((s, src'), Panic))
     else (case sr_mode s of
             ASymSym \<Rightarrow> with_inner_r s (mix_read_header env (sr_inner s, src))
           | _ \<Rightarrow> ((s, src), Ok ())))"

text \<open>The loop that fills the buffer of the ciphertext ends with a read of nothing.\<close>

function drain :: "'src rd \<Rightarrow> nat \<Rightarrow> bytes \<Rightarrow> 'src \<Rightarrow> ('src \<times> bytes) \<times> unit outcome" where
  "drain rd n got s =
     (case rd s (n - length got) of
        (s', Ok xs) \<Rightarrow>
          let ys = take (n - length got) xs in
          if ys \<noteq> [] then drain rd n (got @ ys) s' else ((s', got), Ok ())
      | (s', Err e) \<Rightarrow> ((s', got), Err e)
      | (s', Panic) \<Rightarrow> ((s', got), Panic))"
  by pat_completeness auto
termination
proof (relation "measure (\<lambda>(rd, n, got, s). n - length got)", goal_cases)
  case (2 rd n got s s' y xs ys)
  define k where "k = length ys"
  have "0 < k" using 2(4) unfolding k_def by blast
  moreover have "k \<le> n - length got" using 2(3) by (simp add: k_def)
  ultimately show ?case by (simp flip: k_def)
qed simp

declare drain.simps [simp del]

text \<open>The plaintext of the next ciphertext, when all of the last one was given out.\<close>

definition asym_next ::
    "('rsa, 'cr, 'src, 'sink) ossl_env \<Rightarrow> 'rsa \<Rightarrow> bytes \<times> nat \<times> bytes \<times> nat \<Rightarrow> 'src \<Rightarrow> ((bytes \<times> nat \<times> bytes \<times> nat) \<times> 'src) \<times> bool outcome" where
  "asym_next env rsa = (\<lambda>(benc, st, bdec, en) src.
     if en \<noteq> st then (((benc, st, bdec, en), src), Ok True)
     else (case drain (env_read (sym_conf env)) (length benc) [] src of
             ((src', got), Ok _) \<Rightarrow>
               if got = [] then (((benc, 0, bdec, 0), src'), Ok False)
               else (case private_decrypt env rsa got (length bdec) of
                       Ok out \<Rightarrow> (((overlay got benc, 0, overlay out bdec, length out), src'), Ok True)
                     | Err e \<Rightarrow> (((overlay got benc, 0, bdec, 0), src'), Err e)
                     | Panic \<Rightarrow> (((overlay got benc, 0, bdec, 0), src'), Panic))
           | ((src', got), Err e) \<Rightarrow> (((overlay got benc, 0, bdec, 0), src'), Err e)
           | ((src', got), Panic) \<Rightarrow> (((overlay got benc, 0, bdec, 0), src'), Panic)))"

definition shad_read_from ::
    "('rsa, 'cr, 'src, 'sink) ossl_env \<Rightarrow> nat \<Rightarrow> ('rsa, 'cr) shad_r \<times> 'src \<Rightarrow> ((('rsa, 'cr) shad_r \<times> 'src) \<times> bytes outcome) option" where
  "shad_read_from env n = (\<lambda>(s, src).
     case sr_mode s of
       ASymSym \<Rightarrow> map_option (with_inner_r s) (mix_read_from env n (sr_inner s, src))
     | ASymOnly \<Rightarrow> Some (
         case sr_asymbufs s of
           None \<Rightarrow> ((s, src), Err asym_err)
         | Some bufs \<Rightarrow>
             (case asym_next env (pk_rsa (keyexch (sr_inner s))) bufs src of
                (((benc, st, bdec, en), src'), r) \<Rightarrow>
                  let s1 = s\<lparr>sr_asymbufs := Some (benc, st, bdec, en)\<rparr> in
                  (case r of
                     Ok True \<Rightarrow>
                       let tocopy = min n (en - st) in
                       ((s\<lparr>sr_asymbufs := Some (benc, st + tocopy, bdec, en)\<rparr>, src'), Ok (take tocopy (drop st bdec)))
                   | Ok False \<Rightarrow> ((s1, src'), Ok [])
                   | Err e \<Rightarrow> ((s1, src'), Err e)
                   | Panic \<Rightarrow> ((s1, src'), Panic))))
     | NoASym \<Rightarrow> Some (case env_read (sym_conf env) src n of (src', r) \<Rightarrow> ((s, src'), r)))"

definition shad_read_exact_from ::
    "('rsa, 'cr, 'src, 'sink) ossl_env \<Rightarrow> nat \<Rightarrow> ('rsa, 'cr) shad_r \<times> 'src \<Rightarrow> ((('rsa, 'cr) shad_r \<times> 'src) \<times> bytes outcome) option" where
  "shad_read_exact_from env n = (\<lambda>(s, src).
     case sr_mode s of
       ASymSym \<Rightarrow> map_option (with_inner_r s) (mix_read_exact_from env n (sr_inner s, src))
     | ASymOnly \<Rightarrow> read_exact (shad_read_from env) n (s, src)
     | NoASym \<Rightarrow> Some (case raw_read_exact (env_read (sym_conf env)) n src of (src', r) \<Rightarrow> ((s, src'), r)))"

definition shad_read_end ::
    "('rsa, 'cr, 'src, 'sink) ossl_env \<Rightarrow> ('rsa, 'cr) shad_r \<times> 'src \<Rightarrow> (('rsa, 'cr) shad_r \<times> 'src) \<times> unit outcome" where
  "shad_read_end env = (\<lambda>(s, src).
     case sr_mode s of
       ASymSym \<Rightarrow> with_inner_r s (mix_read_end env (sr_inner s, src))
     | _ \<Rightarrow> ((s, src), Ok ()))"

definition write_tag :: "('rsa, 'cr, 'src, 'sink) ossl_env \<Rightarrow> u8 \<Rightarrow> 'sink \<Rightarrow> 'sink \<times> nat outcome" where
  "write_tag env tag snk = env_write1 env snk [tag]"

definition shad_write_header ::
    "('rsa, 'cr, 'src, 'sink) ossl_env \<Rightarrow> ('rsa, 'cr) shad_w \<times> 'sink \<Rightarrow> (('rsa, 'cr) shad_w \<times> 'sink) \<times> unit outcome" where
  "shad_write_header env = (\<lambda>(s, snk).
     if \<not> sw_init s
     then (case write_tag env (case sw_mode s of ASymSym \<Rightarrow> SMODE_ENABLE | ASymOnly \<Rightarrow> SMODE_ASYM_ONLY_ENABLE | NoASym \<Rightarrow> SMODE_DISABLE) snk of
             (snk', Ok _) \<Rightarrow>
               (case sw_mode s of
                  ASymSym \<Rightarrow> then_io (with_inner_w s (mix_write_header env (sw_inner s, snk'))) (\<lambda>(s, snk) _. ((s\<lparr>sw_init := True\<rparr>, snk), Ok ()))
                | ASymOnly \<Rightarrow>
                    let bufs = (if sw_asymbufs s = None
                                then Some (replicate (asym_enc_size env) 0, 0, replicate (asym_dec_size env) 0, 0) else sw_asymbufs s)
                    in ((s\<lparr>sw_asymbufs := bufs, sw_init := True\<rparr>, snk'), Ok ())
                | NoASym \<Rightarrow> ((s\<lparr>sw_init := True\<rparr>, snk'), Ok ()))
           | (snk', Err e) \<Rightarrow> ((s, snk'), Err e)
           | (snk', Panic) \<Rightarrow> ((s, snk'), Panic))
     else (case sw_mode s of
             ASymSym \<Rightarrow> with_inner_w s (mix_write_header env (sw_inner s, snk))
           | _ \<Rightarrow> ((s, snk), Ok ())))"

text \<open>The first \<open>n\<close> bytes of the buffer enciphered and written.\<close>

definition asym_emit ::
    "('rsa, 'cr, 'src, 'sink) ossl_env \<Rightarrow> nat \<Rightarrow> ('rsa, 'cr) shad_w \<times> 'sink \<Rightarrow> (('rsa, 'cr) shad_w \<times> 'sink) \<times> unit outcome" where
  "asym_emit env n = (\<lambda>(s, snk).
     case sw_asymbufs s of
       None \<Rightarrow> ((s, snk), Err asym_err)
     | Some (benc, d, bdec, en) \<Rightarrow>
         (case public_encrypt env (pk_rsa (mw_dest (sw_inner s))) snk (take n bdec) (length benc) of
            Ok c \<Rightarrow> (case env_write (sym_conf env) snk c of (snk', r) \<Rightarrow> ((s\<lparr>sw_asymbufs := Some (overlay c benc, d, bdec, 0)\<rparr>, snk'), r))
          | Err e \<Rightarrow> ((s, snk), Err e)
          | Panic \<Rightarrow> ((s, snk), Panic)))"

definition shad_flush_into ::
    "('rsa, 'cr, 'src, 'sink) ossl_env \<Rightarrow> ('rsa, 'cr) shad_w \<times> 'sink \<Rightarrow> (('rsa, 'cr) shad_w \<times> 'sink) \<times> unit outcome" where
  "shad_flush_into env = (\<lambda>(s, snk).
     case sw_mode s of
       ASymSym \<Rightarrow> with_inner_w s (mix_flush_into (sw_inner s, snk))
     | ASymOnly \<Rightarrow>
         (case sw_asymbufs s of
            None \<Rightarrow> ((s, snk), Err asym_err)
          | Some (benc, d, bdec, en) \<Rightarrow> if en = length bdec then asym_emit env (length bdec) (s, snk) else ((s, snk), Ok ()))
     | NoASym \<Rightarrow> ((s, snk), Ok ()))"

definition shad_write_into ::
    "('rsa, 'cr, 'src, 'sink) ossl_env \<Rightarrow> bytes \<Rightarrow> ('rsa, 'cr) shad_w \<times> 'sink \<Rightarrow> (('rsa, 'cr) shad_w \<times> 'sink) \<times> nat outcome" where
  "shad_write_into env xs = (\<lambda>(s, snk).
     case sw_mode s of
       ASymSym \<Rightarrow> with_inner_w s (mix_write_into env xs (sw_inner s, snk))
     | ASymOnly \<Rightarrow> then_io (shad_flush_into env (s, snk)) (\<lambda>(s, snk) _.
         case sw_asymbufs s of
           None \<Rightarrow> ((s, snk), Err asym_err)
         | Some (benc, d, bdec, en) \<Rightarrow>
             let tocopy = min (length bdec - en) (length xs) in
             ((s\<lparr>sw_asymbufs := Some (benc, d, take en bdec @ take tocopy xs @ drop (en + tocopy) bdec, en + tocopy)\<rparr>, snk), Ok tocopy))
     | NoASym \<Rightarrow> (case env_write1 env snk xs of (snk', r) \<Rightarrow> ((s, snk'), r)))"

definition shad_write_end ::
    "('rsa, 'cr, 'src, 'sink) ossl_env \<Rightarrow> ('rsa, 'cr) shad_w \<times> 'sink \<Rightarrow> (('rsa, 'cr) shad_w \<times> 'sink) \<times> unit outcome" where
  "shad_write_end env = (\<lambda>(s, snk).
     case sw_mode s of
       ASymSym \<Rightarrow> with_inner_w s (mix_write_end env (sw_inner s, snk))
     | ASymOnly \<Rightarrow> then_io (shad_flush_into env (s, snk)) (\<lambda>(s, snk) _.
         case sw_asymbufs s of
           None \<Rightarrow> ((s, snk), Err asym_err)
         | Some (benc, d, bdec, en) \<Rightarrow> if en \<noteq> 0 then asym_emit env en (s, snk) else ((s, snk), Ok ()))
     | NoASym \<Rightarrow> ((s, snk), Ok ()))"

section \<open>Peers\<close>

record ('rsa, 'a, 'i) rsa_peer =
  rp_key :: bytes
  publickey :: "'rsa pkey_ext"
  rp_address :: 'a
  peerinfo :: 'i

definition rsa_peer_new ::
    "('rsa, 'cr, 'src, 'sink) ossl_env \<Rightarrow> 'rsa outcome \<Rightarrow> 'a \<Rightarrow> 'i \<Rightarrow> ('rsa, 'a, 'i) rsa_peer outcome" where
  "rsa_peer_new env generated ad info =
     and_then generated (\<lambda>pkeyrsa. and_then (pkey_new env pkeyrsa) (\<lambda>pkeyext. and_then (derive_key env pkeyext) (\<lambda>k.
       Ok \<lparr>rp_key = k, publickey = pkeyext, rp_address = ad, peerinfo = info\<rparr>)))"

definition get_shadower_r_auth :: "('rsa, 'a, 'i) rsa_peer \<Rightarrow> ('rsa, 'cr) shad_r" where
  "get_shadower_r_auth p = (shad_r_new (publickey p))\<lparr>sr_mode := ASymOnly\<rparr>"

definition get_shadower_r_msg :: "('rsa, 'a, 'i) rsa_peer \<Rightarrow> ('rsa, 'cr) shad_r" where
  "get_shadower_r_msg p = shad_r_new (publickey p)"

definition get_shadower_w_auth :: "('rsa, 'a, 'i) rsa_peer \<Rightarrow> ('rsa, 'cr) shad_w" where
  "get_shadower_w_auth p = (shad_w_new (publickey p))\<lparr>sw_mode := ASymOnly\<rparr>"

definition get_shadower_w_msg :: "('rsa, 'a, 'i) rsa_peer \<Rightarrow> ('rsa, 'cr) shad_w" where
  "get_shadower_w_msg p = shad_w_new (publickey p)"

definition is_write_private :: "('rsa, 'a, 'i) rsa_peer \<Rightarrow> bool" where
  "is_write_private p = pk_write_private (publickey p)"

definition set_write_private :: "bool \<Rightarrow> ('rsa, 'a, 'i) rsa_peer \<Rightarrow> ('rsa, 'a, 'i) rsa_peer" where
  "set_write_private v p = p\<lparr>publickey := (publickey p)\<lparr>pk_write_private := v\<rparr>\<rparr>"

definition get_pub_key_ref :: "('rsa, 'a, 'i) rsa_peer \<Rightarrow> bytes" where
  "get_pub_key_ref p = pk_pub (publickey p)"

definition get_pri_key :: "('rsa, 'cr, 'src, 'sink) ossl_env \<Rightarrow> ('rsa, 'a, 'i) rsa_peer \<Rightarrow> bytes outcome" where
  "get_pri_key env p = or_panic (private_key_to_der env (pk_rsa (publickey p)))"

text \<open>Challenges and signatures; a failure of \<open>openssl\<close> is a panic.\<close>

definition rsa_challenge :: "('rsa, 'cr, 'src, 'sink) ossl_env \<Rightarrow> (nat \<Rightarrow> bytes outcome) \<Rightarrow> bytes outcome" where
  "rsa_challenge env rand_bytes = or_panic (rand_bytes (asym_dec_size env))"

definition rsa_signmsg :: "('rsa, 'cr, 'src, 'sink) ossl_env \<Rightarrow> ('rsa, 'a, 'i) rsa_peer \<Rightarrow> bytes \<Rightarrow> bytes outcome" where
  "rsa_signmsg env p chal =
     and_then (or_panic (private_encrypt env (pk_rsa (publickey p)) chal (asym_enc_size env))) (\<lambda>sign.
       if length sign \<noteq> asym_enc_size env then Panic else Ok sign)"

definition rsa_checkmsg :: "('rsa, 'cr, 'src, 'sink) ossl_env \<Rightarrow> ('rsa, 'a, 'i) rsa_peer \<Rightarrow> bytes \<Rightarrow> bytes \<Rightarrow> bool outcome" where
  "rsa_checkmsg env p challenge sig =
     and_then (or_panic (public_decrypt env (pk_rsa (publickey p)) sig (asym_enc_size env))) (\<lambda>chal.
       if length chal \<noteq> asym_dec_size env then Panic else Ok (chal = challenge))"

definition rsa_accept :: "('rsa, 'a, 'i) rsa_peer \<Rightarrow> peer_priority option" where
  "rsa_accept p = Some Normal"

section \<open>What is relied on\<close>

lemma drain_ok:
  assumes "reads_ok rd content" and "length got \<le> n"
  shows "\<exists>s'. drain rd n got s = ((s', got @ take (n - length got) (content s)), Ok ()) \<and>
    content s' = drop (n - length got) (content s)"
  using assms(2)
proof (induction "n - length got" arbitrary: got s rule: less_induct)
  case less
  let ?k = "n - length got"
  obtain s1 xs where r: "rd s ?k = (s1, Ok xs)" "content s = xs @ content s1" "length xs \<le> ?k"
    "0 < ?k \<Longrightarrow> content s \<noteq> [] \<Longrightarrow> xs \<noteq> []"
    using assms(1) unfolding reads_ok_def by metis
  have t: "take ?k xs = xs" using r(3) by simp
  show ?case
  proof (cases "xs = []")
    case True
    then have "drain rd n got s = ((s1, got), Ok ())" using r(1) by (subst drain.simps) simp
    moreover have "?k = 0 \<or> content s = []" using True r(4) by blast
    ultimately show ?thesis using r(2) True by auto
  next
    case False
    then have "drain rd n got s = drain rd n (got @ xs) s1" using r(1,3) t by (subst drain.simps) auto
    moreover have "n - length (got @ xs) < ?k" using False r(3) by (cases xs) auto
    moreover have "length (got @ xs) \<le> n" using r(3) less.prems by simp
    ultimately show ?thesis using less.hyps [of "got @ xs" s1] r(2,3) by simp
  qed
qed

text \<open>
  The two keys of a pair: what is enciphered for \<open>rw\<close> has the length of the key and \<open>rr\<close> deciphers it, for
  content short enough for the padding of RSA.
\<close>

definition rsa_ok :: "('rsa, 'cr, 'src, 'sink) ossl_env \<Rightarrow> 'rsa \<Rightarrow> 'rsa \<Rightarrow> bool" where
  "rsa_ok env rw rr \<longleftrightarrow>
     0 < asym_dec_size env \<and> 0 < asym_enc_size env \<and> crypter_key_enc_size env = asym_enc_size env \<and> rsa_size env rr = asym_enc_size env \<and>
     (\<forall>snk xs. length xs \<le> max (key_len (sym_conf env)) (asym_dec_size env) \<longrightarrow>
        (\<exists>c. public_encrypt env rw snk xs (asym_enc_size env) = Ok c \<and> length c = asym_enc_size env \<and>
           (\<forall>n. asym_enc_size env \<le> n \<longrightarrow> private_decrypt env rr c n = Ok xs)))"

definition ossl_ok ::
    "('rsa, 'cr, 'src, 'sink) ossl_env \<Rightarrow> ('sink \<Rightarrow> bytes) \<Rightarrow> ('src \<Rightarrow> bytes) \<Rightarrow> ('cr \<Rightarrow> bool \<times> 'st \<times> bytes)
      \<Rightarrow> ('st \<Rightarrow> bytes \<Rightarrow> 'st \<times> bytes) \<Rightarrow> ('st \<Rightarrow> bytes \<Rightarrow> 'st \<times> bytes) \<Rightarrow> 'rsa \<Rightarrow> 'rsa \<Rightarrow> bool" where
  "ossl_ok env cw cr view eb db rw rr \<longleftrightarrow>
     cipher_ok (sym_conf env) view eb db \<and> padding_mode (sym_conf env) = UnsizedPadding \<and>
     writes_ok (env_write (sym_conf env)) cw \<and> reads_ok (env_read (sym_conf env)) cr \<and> rsa_ok env rw rr \<and>
     (\<forall>snk. \<exists>rng. os_rng env snk = Ok rng) \<and>
     (\<forall>snk xs. xs \<noteq> [] \<longrightarrow> (\<exists>snk' k. env_write1 env snk xs = (snk', Ok k) \<and> 0 < k \<and> k \<le> length xs \<and> cw snk' = cw snk @ take k xs))"

lemma ossl_okD:
  assumes "ossl_ok env cw cr view eb db rw rr"
  shows "cipher_ok (sym_conf env) view eb db" "padding_mode (sym_conf env) = UnsizedPadding"
    "writes_ok (env_write (sym_conf env)) cw" "reads_ok (env_read (sym_conf env)) cr" "rsa_ok env rw rr"
  using assms by (simp_all add: ossl_ok_def)

lemma write_ok:
  assumes "ossl_ok env cw cr view eb db rw rr"
  shows "\<exists>snk'. env_write (sym_conf env) snk xs = (snk', Ok ()) \<and> cw snk' = cw snk @ xs"
  using assms by (simp add: ossl_ok_def writes_ok_def)

lemma encrypt_ok:
  assumes "ossl_ok env cw cr view eb db rw rr" and "length xs \<le> max (key_len (sym_conf env)) (asym_dec_size env)"
  shows "\<exists>c. public_encrypt env rw snk xs (asym_enc_size env) = Ok c \<and> length c = asym_enc_size env \<and>
    (\<forall>n. asym_enc_size env \<le> n \<longrightarrow> private_decrypt env rr c n = Ok xs)"
  using ossl_okD(5) [OF assms(1)] assms(2) unfolding rsa_ok_def by blast

section \<open>The key in the header\<close>

text \<open>A header for the key \<open>ivk\<close>, and the state in which writer and reader start with it.\<close>

definition key_header :: "('rsa, 'cr, 'src, 'sink) ossl_env \<Rightarrow> 'rsa \<Rightarrow> bytes \<Rightarrow> bytes \<Rightarrow> bool" where
  "key_header env rr ivk hdr \<longleftrightarrow>
     length ivk = ivl (sym_conf env) + key_len (sym_conf env) \<and>
     (\<exists>ek. hdr = take (ivl (sym_conf env)) ivk @ ek \<and> length ek = asym_enc_size env \<and>
        (\<forall>n. asym_enc_size env \<le> n \<longrightarrow> private_decrypt env rr ek n = Ok (drop (ivl (sym_conf env)) ivk)))"

definition starts ::
    "('cr, 'src, 'sink) sym_env \<Rightarrow> ('sink \<Rightarrow> bytes) \<Rightarrow> ('src \<Rightarrow> bytes) \<Rightarrow> ('cr \<Rightarrow> bool \<times> 'st \<times> bytes)
      \<Rightarrow> ('st \<Rightarrow> bytes \<Rightarrow> 'st \<times> bytes) \<Rightarrow> ('st \<Rightarrow> bytes \<Rightarrow> 'st \<times> bytes) \<Rightarrow> bytes \<Rightarrow> 'st \<Rightarrow> bool" where
  "starts conf cw cr view eb db ivk st \<longleftrightarrow>
     (\<exists>w. sym_w_new conf ivk = Ok w \<and> (\<forall>snk. sym_idle conf cw view eb db st (cw snk) (w, snk) [])) \<and>
     (\<exists>r. sym_r_new conf ivk = Ok r \<and> (\<forall>src ms st' zs rest. blocks (block_size conf) eb st (flat (block_size conf) ms) = (st', zs, []) \<longrightarrow>
        cr src = zs @ rest \<longrightarrow> sym_ready conf cr view eb db st' rest (r, src) ms))"

lemma starts_ex:
  assumes "ossl_ok env cw cr view eb db rw rr" and "length ivk = ivl (sym_conf env) + key_len (sym_conf env)"
  shows "\<exists>st. starts (sym_conf env) cw cr view eb db ivk st"
  using sym_start [OF ossl_okD(1,2) [OF assms(1)] assms(2)] ossl_okD(3,4) [OF assms(1)] unfolding starts_def by blast

lemma write_sym_key_ok:
  assumes "ossl_ok env cw cr view eb db (pk_rsa pk) rr"
  shows "\<exists>snk' ivk hdr. write_sym_key env pk snk = (snk', Ok ivk) \<and> key_header env rr ivk hdr \<and> cw snk' = cw snk @ hdr"
proof -
  let ?c = "sym_conf env"
  obtain rng where rng: "os_rng env snk = Ok rng" using assms unfolding ossl_ok_def by blast
  define ivk where "ivk = sym_new_key ?c rng"
  have l: "length ivk = ivl ?c + key_len ?c" by (simp add: ivk_def sym_new_key_def)
  have enc: "crypter_key_enc_size env = asym_enc_size env" using ossl_okD(5) [OF assms] by (simp add: rsa_ok_def)
  obtain s1 where s1: "env_write ?c snk (take (ivl ?c) ivk) = (s1, Ok ())" "cw s1 = cw snk @ take (ivl ?c) ivk"
    using write_ok [OF assms] by blast
  obtain c where c: "public_encrypt env (pk_rsa pk) s1 (drop (ivl ?c) ivk) (asym_enc_size env) = Ok c" "length c = asym_enc_size env"
    "\<forall>n. asym_enc_size env \<le> n \<longrightarrow> private_decrypt env rr c n = Ok (drop (ivl ?c) ivk)"
    using encrypt_ok [OF assms, of "drop (ivl ?c) ivk" s1] l by auto
  obtain s2 where s2: "env_write ?c s1 c = (s2, Ok ())" "cw s2 = cw s1 @ c" using write_ok [OF assms] by blast
  have "write_sym_key env pk snk = (s2, Ok ivk)"
    using rng s1(1) c(1,2) s2(1) enc by (simp add: write_sym_key_def Let_def flip: ivk_def)
  moreover have "key_header env rr ivk (take (ivl ?c) ivk @ c)" using l c by (auto simp: key_header_def)
  ultimately show ?thesis using s1(2) s2(2) by auto
qed

lemma read_sym_key_ok:
  assumes "ossl_ok env cw cr view eb db rw (pk_rsa pk)" and "key_header env (pk_rsa pk) ivk hdr" and "cr src = hdr @ rest"
  shows "\<exists>src'. read_sym_key env pk src = (src', Ok ivk) \<and> cr src' = rest"
proof -
  let ?c = "sym_conf env"
  obtain ek where ek: "hdr = take (ivl ?c) ivk @ ek" "length ek = asym_enc_size env" "length ivk = ivl ?c + key_len ?c"
    "\<forall>n. asym_enc_size env \<le> n \<longrightarrow> private_decrypt env (pk_rsa pk) ek n = Ok (drop (ivl ?c) ivk)"
    using assms(2) by (auto simp: key_header_def)
  have sz: "crypter_key_enc_size env = asym_enc_size env" "rsa_size env (pk_rsa pk) = asym_enc_size env"
    using ossl_okD(5) [OF assms(1)] by (simp_all add: rsa_ok_def)
  obtain s1 where s1: "raw_read_exact (env_read ?c) (ivl ?c) src = (s1, Ok (take (ivl ?c) ivk))" "cr s1 = ek @ rest"
    using raw_read_exact_ok [OF ossl_okD(4) [OF assms(1)], of src "take (ivl ?c) ivk" "ek @ rest"] ek assms(3) by auto
  obtain s2 where s2: "raw_read_exact (env_read ?c) (asym_enc_size env) s1 = (s2, Ok ek)" "cr s2 = rest"
    using raw_read_exact_ok [OF ossl_okD(4) [OF assms(1)] s1(2) ek(2)] by auto
  have "read_sym_key env pk src = (s2, Ok (take (ivl ?c) ivk @ drop (ivl ?c) ivk))"
    using s1(1) s2(1) ek(3,4) sz by (simp add: read_sym_key_def Let_def)
  then show ?thesis using s2(2) by auto
qed

section \<open>Messages with an exchanged key\<close>

text \<open>
  The invariants of the layer: before the first header nothing was written; after it the stream has
  the header of a key, and the symmetric cipher of that key is between or in the middle of messages.
\<close>

definition mix_wsym where
  "mix_wsym env cw cr view eb db rw rr c0 P m \<longleftrightarrow>
     ossl_ok env cw cr view eb db rw rr \<and> pk_rsa (mw_dest m) = rw \<and>
     (\<exists>w ivk hdr st. mw_sym m = Some w \<and> key_header env rr ivk hdr \<and> starts (sym_conf env) cw cr view eb db ivk st \<and> P st (c0 @ hdr) w)"

definition mix_idle where
  "mix_idle env cw cr view eb db rw rr c0 = (\<lambda>(m, snk) ms.
     ossl_ok env cw cr view eb db rw rr \<and> pk_rsa (mw_dest m) = rw \<and>
     (if mw_sym m = None then ms = [] \<and> cw snk = c0
      else mix_wsym env cw cr view eb db rw rr c0 (\<lambda>st c w. sym_idle (sym_conf env) cw view eb db st c (w, snk) ms) m))"

definition mix_wi where
  "mix_wi env cw cr view eb db rw rr c0 ms = (\<lambda>(m, snk) p.
     mix_wsym env cw cr view eb db rw rr c0 (\<lambda>st c w. sym_mwi (sym_conf env) cw view eb db st c ms (w, snk) p) m)"

definition wire where
  "wire env cw cr view eb db rr ms c \<longleftrightarrow>
     (\<exists>ivk hdr st st' zs. key_header env rr ivk hdr \<and> starts (sym_conf env) cw cr view eb db ivk st \<and>
        blocks (block_size (sym_conf env)) eb st (flat (block_size (sym_conf env)) ms) = (st', zs, []) \<and> c = hdr @ zs)"

definition mix_ready where
  "mix_ready env cw cr view eb db rw rr = (\<lambda>(m, src) ms.
     ossl_ok env cw cr view eb db rw rr \<and> pk_rsa (keyexch m) = rr \<and>
     (case mr_sym m of
        None \<Rightarrow> ms = [] \<or> wire env cw cr view eb db rr ms (cr src)
      | Some r \<Rightarrow> \<exists>st'. sym_ready (sym_conf env) cr view eb db st' [] (r, src) ms))"

definition mix_ri where
  "mix_ri env cw cr view eb db rw rr ms = (\<lambda>(m, src) q.
     ossl_ok env cw cr view eb db rw rr \<and> pk_rsa (keyexch m) = rr \<and>
     (\<exists>r st'. mr_sym m = Some r \<and> sym_mri (sym_conf env) cr view eb db st' [] ms (r, src) q))"

lemma mix_write_header_ok:
  assumes "mix_idle env cw cr view eb db rw rr c0 (m, snk) ms"
  shows "\<exists>s'. mix_write_header env (m, snk) = (s', Ok ()) \<and> mix_wi env cw cr view eb db rw rr c0 ms s' []"
proof (cases "mw_sym m")
  case None
  then have o: "ossl_ok env cw cr view eb db rw rr" "pk_rsa (mw_dest m) = rw" "ms = []" "cw snk = c0"
    using assms by (simp_all add: mix_idle_def)
  obtain snk' ivk hdr where k: "write_sym_key env (mw_dest m) snk = (snk', Ok ivk)" "key_header env rr ivk hdr" "cw snk' = cw snk @ hdr"
    using write_sym_key_ok [of env cw cr view eb db "mw_dest m" rr snk] o(1,2) by blast
  obtain st where st: "starts (sym_conf env) cw cr view eb db ivk st"
    using starts_ex [OF o(1)] k(2) by (auto simp: key_header_def)
  then obtain w where "sym_w_new (sym_conf env) ivk = Ok w" "sym_idle (sym_conf env) cw view eb db st (cw snk') (w, snk') []"
    unfolding starts_def by blast
  then show ?thesis using None k st o
    by (auto simp: mix_write_header_def mix_wi_def mix_wsym_def sym_idle_def)
next
  case (Some w)
  then obtain ivk hdr st where o: "ossl_ok env cw cr view eb db rw rr" "pk_rsa (mw_dest m) = rw"
    "key_header env rr ivk hdr" "starts (sym_conf env) cw cr view eb db ivk st"
    "sym_idle (sym_conf env) cw view eb db st (c0 @ hdr) (w, snk) ms"
    using assms by (auto simp: mix_idle_def mix_wsym_def)
  obtain w' snk' where "sym_write_header (sym_conf env) (w, snk) = ((w', snk'), Ok ())"
    "sym_mwi (sym_conf env) cw view eb db st (c0 @ hdr) ms (w', snk') []"
    using sym_mwrite_header [OF o(5)] by (metis surj_pair)
  then show ?thesis using Some o by (auto simp: mix_write_header_def with_sym_w_def mix_wi_def mix_wsym_def)
qed

lemma mix_write_into_ok:
  assumes "mix_wi env cw cr view eb db rw rr c0 ms (m, snk) p" and "xs \<noteq> []"
  shows "\<exists>s' k. mix_write_into env xs (m, snk) = (s', Ok k) \<and> 0 < k \<and> k \<le> length xs \<and>
    mix_wi env cw cr view eb db rw rr c0 ms s' (p @ take k xs)"
proof -
  obtain w ivk hdr st where o: "mw_sym m = Some w" "ossl_ok env cw cr view eb db rw rr" "pk_rsa (mw_dest m) = rw"
    "key_header env rr ivk hdr" "starts (sym_conf env) cw cr view eb db ivk st"
    "sym_mwi (sym_conf env) cw view eb db st (c0 @ hdr) ms (w, snk) p"
    using assms(1) by (auto simp: mix_wi_def mix_wsym_def)
  obtain w' snk' k where "sym_write_into (sym_conf env) xs (w, snk) = ((w', snk'), Ok k)" "0 < k" "k \<le> length xs"
    "sym_mwi (sym_conf env) cw view eb db st (c0 @ hdr) ms (w', snk') (p @ take k xs)"
    using sym_mwrite_some [OF o(6) assms(2)] by (metis surj_pair)
  then show ?thesis using o by (auto simp: mix_write_into_def with_sym_w_def mix_wi_def mix_wsym_def)
qed

lemma mix_write_end_ok:
  assumes "mix_wi env cw cr view eb db rw rr c0 ms (m, snk) p"
  shows "\<exists>s'. mix_write_end env (m, snk) = (s', Ok ()) \<and> mix_idle env cw cr view eb db rw rr c0 s' (ms @ [p])"
proof -
  obtain w ivk hdr st where o: "mw_sym m = Some w" "ossl_ok env cw cr view eb db rw rr" "pk_rsa (mw_dest m) = rw"
    "key_header env rr ivk hdr" "starts (sym_conf env) cw cr view eb db ivk st"
    "sym_mwi (sym_conf env) cw view eb db st (c0 @ hdr) ms (w, snk) p"
    using assms by (auto simp: mix_wi_def mix_wsym_def)
  obtain w' snk' where "sym_write_end (sym_conf env) (w, snk) = ((w', snk'), Ok ())"
    "sym_idle (sym_conf env) cw view eb db st (c0 @ hdr) (w', snk') (ms @ [p])"
    using sym_mwrite_end [OF o(6)] by (metis surj_pair)
  then show ?thesis using o by (auto simp: mix_write_end_def with_sym_w_def mix_idle_def mix_wsym_def)
qed

lemma mix_read_header_ok:
  assumes "mix_ready env cw cr view eb db rw rr (m, src) (x # ms)"
  shows "\<exists>s'. mix_read_header env (m, src) = (s', Ok ()) \<and>
    mix_ri env cw cr view eb db rw rr ms s' (x @ filling (block_size (sym_conf env)) x)"
proof -
  have o: "ossl_ok env cw cr view eb db rw rr" "pk_rsa (keyexch m) = rr" using assms by (simp_all add: mix_ready_def)
  show ?thesis
  proof (cases "mr_sym m")
    case None
    then obtain ivk hdr st st' zs where h: "key_header env rr ivk hdr" "starts (sym_conf env) cw cr view eb db ivk st"
      "blocks (block_size (sym_conf env)) eb st (flat (block_size (sym_conf env)) (x # ms)) = (st', zs, [])" "cr src = hdr @ zs"
      using assms by (auto simp: mix_ready_def wire_def simp del: flat_simps)
    obtain src' where k: "read_sym_key env (keyexch m) src = (src', Ok ivk)" "cr src' = zs"
      using read_sym_key_ok [of env cw cr view eb db rw "keyexch m" ivk hdr src zs] o h(1,4) by blast
    obtain r where "sym_r_new (sym_conf env) ivk = Ok r" "sym_ready (sym_conf env) cr view eb db st' [] (r, src') (x # ms)"
      using h(2,3) k(2) unfolding starts_def by (metis append_Nil2)
    then show ?thesis using None k(1) o by (auto simp: mix_read_header_def mix_ri_def sym_ready_def)
  next
    case (Some r)
    then obtain st' where "sym_ready (sym_conf env) cr view eb db st' [] (r, src) (x # ms)" using assms by (auto simp: mix_ready_def)
    from sym_mread_header [OF this] obtain r' src' where "sym_read_header (sym_conf env) (r, src) = ((r', src'), Ok ())"
      "sym_mri (sym_conf env) cr view eb db st' [] ms (r', src') (x @ filling (block_size (sym_conf env)) x)" by (metis surj_pair)
    then show ?thesis using Some o by (auto simp: mix_read_header_def with_sym_r_def mix_ri_def)
  qed
qed

lemma mix_read_from_ok:
  assumes "mix_ri env cw cr view eb db rw rr ms (m, src) q" and "0 < n" and "n \<le> length q"
  shows "\<exists>s' out q'. mix_read_from env n (m, src) = Some (s', Ok out) \<and> out \<noteq> [] \<and> length out \<le> n \<and> q = out @ q' \<and>
    mix_ri env cw cr view eb db rw rr ms s' q'"
proof -
  obtain r st' where o: "ossl_ok env cw cr view eb db rw rr" "pk_rsa (keyexch m) = rr" "mr_sym m = Some r"
    "sym_mri (sym_conf env) cr view eb db st' [] ms (r, src) q"
    using assms(1) by (auto simp: mix_ri_def)
  obtain r' src' out q' where "sym_read_from (sym_conf env) n (r, src) = Some ((r', src'), Ok out)" "out \<noteq> []" "length out \<le> n" "q = out @ q'"
    "sym_mri (sym_conf env) cr view eb db st' [] ms (r', src') q'"
    using sym_mread_some [OF o(4) assms(2,3)] by (metis surj_pair)
  then show ?thesis using o by (auto simp: mix_read_from_def with_sym_r_def mix_ri_def)
qed

lemma mix_read_end_ok:
  assumes "mix_ri env cw cr view eb db rw rr ms (m, src) (filling (block_size (sym_conf env)) x)"
  shows "\<exists>s'. mix_read_end env (m, src) = (s', Ok ()) \<and> mix_ready env cw cr view eb db rw rr s' ms"
proof -
  obtain r st' where o: "ossl_ok env cw cr view eb db rw rr" "pk_rsa (keyexch m) = rr" "mr_sym m = Some r"
    "sym_mri (sym_conf env) cr view eb db st' [] ms (r, src) (filling (block_size (sym_conf env)) x)"
    using assms by (auto simp: mix_ri_def)
  obtain r' src' where "sym_read_end (sym_conf env) (r, src) = ((r', src'), Ok ())" "sym_ready (sym_conf env) cr view eb db st' [] (r', src') ms"
    using sym_mread_end [OF o(4)] by (metis surj_pair)
  then show ?thesis using o by (auto simp: mix_read_end_def with_sym_r_def mix_ready_def)
qed

interpretation mixw: msg_write "mix_write_header env" "mix_write_into env" "mix_write_end env"
  "mix_idle env cw cr view eb db rw rr c0" "mix_wi env cw cr view eb db rw rr c0" for env cw cr view eb db rw rr c0
  by (unfold_locales; clarify) (rule mix_write_header_ok mix_write_into_ok mix_write_end_ok, assumption+)+

interpretation mixr: msg_read "mix_read_header env" "mix_read_from env" "mix_read_end env"
  "mix_ready env cw cr view eb db rw rr" "mix_ri env cw cr view eb db rw rr" "filling (block_size (sym_conf env))" for env cw cr view eb db rw rr
  by (unfold_locales; clarify) (rule mix_read_header_ok mix_read_from_ok mix_read_end_ok, assumption+)+

lemma mix_idle_wire:
  assumes "mix_idle env cw cr view eb db rw rr c0 (m, snk) ms" and "ms \<noteq> []"
  shows "\<exists>c. cw snk = c0 @ c \<and> wire env cw cr view eb db rr ms c"
proof -
  obtain w ivk hdr st where o: "key_header env rr ivk hdr" "starts (sym_conf env) cw cr view eb db ivk st"
    "sym_idle (sym_conf env) cw view eb db st (c0 @ hdr) (w, snk) ms"
    using assms by (auto simp: mix_idle_def mix_wsym_def split: if_splits)
  then show ?thesis using sym_idle_content [OF o(3)] unfolding wire_def by (metis append.assoc)
qed

section \<open>The mode of a connection\<close>

text \<open>A writer before its first header, and what it does with it.\<close>

definition shad_fresh where
  "shad_fresh env cw cr view eb db rw rr c0 md s snk \<longleftrightarrow>
     ossl_ok env cw cr view eb db rw rr \<and> pk_rsa (mw_dest (sw_inner s)) = rw \<and> sw_mode s = md \<and> \<not> sw_init s \<and>
     mw_sym (sw_inner s) = None \<and> sw_asymbufs s = None \<and> cw snk = c0"

lemma write_tag_ok:
  assumes "ossl_ok env cw cr view eb db rw rr"
  shows "\<exists>snk'. write_tag env tag snk = (snk', Ok 1) \<and> cw snk' = cw snk @ [tag]"
proof -
  have "\<exists>snk' k. env_write1 env snk [tag] = (snk', Ok k) \<and> 0 < k \<and> k \<le> length [tag] \<and> cw snk' = cw snk @ take k [tag]"
    using assms unfolding ossl_ok_def by blast
  then obtain snk' k where k: "env_write1 env snk [tag] = (snk', Ok k)" "0 < k" "k \<le> 1" "cw snk' = cw snk @ take k [tag]" by auto
  then have "k = 1" by simp
  with k show ?thesis by (simp add: write_tag_def)
qed

text \<open>A reader before its first header: nothing was read, and the first byte tells the mode.\<close>

definition shad_unread where
  "shad_unread env cw cr view eb db rw rr s \<longleftrightarrow>
     ossl_ok env cw cr view eb db rw rr \<and> pk_rsa (keyexch (sr_inner s)) = rr \<and> \<not> sr_init s \<and>
     mr_sym (sr_inner s) = None \<and> sr_asymbufs s = None"

lemma read_tag_ok:
  assumes "ossl_ok env cw cr view eb db rw rr" and "cr src = tag # c"
  shows "\<exists>src'. env_read (sym_conf env) src 1 = (src', Ok [tag]) \<and> cr src' = c"
  by (rule read_one [OF ossl_okD(4) [OF assms(1)] assms(2)])

lemmas mode_tags = SMODE_ENABLE_def SMODE_ASYM_ONLY_ENABLE_def SMODE_DISABLE_def

section \<open>Messages with a symmetric cipher\<close>

definition ss_idle where
  "ss_idle env cw cr view eb db rw rr c0 = (\<lambda>(s, snk) ms.
     if sw_init s then sw_mode s = ASymSym \<and> mix_idle env cw cr view eb db rw rr (c0 @ [SMODE_ENABLE]) (sw_inner s, snk) ms
     else ms = [] \<and> shad_fresh env cw cr view eb db rw rr c0 ASymSym s snk)"

definition ss_wi where
  "ss_wi env cw cr view eb db rw rr c0 ms = (\<lambda>(s, snk) p.
     sw_init s \<and> sw_mode s = ASymSym \<and> mix_wi env cw cr view eb db rw rr (c0 @ [SMODE_ENABLE]) ms (sw_inner s, snk) p)"

definition ss_ready where
  "ss_ready env cw cr view eb db rw rr = (\<lambda>(s, src) ms.
     if sr_init s then sr_mode s = ASymSym \<and> mix_ready env cw cr view eb db rw rr (sr_inner s, src) ms
     else shad_unread env cw cr view eb db rw rr s \<and> (ms = [] \<or> (\<exists>c. cr src = SMODE_ENABLE # c \<and> wire env cw cr view eb db rr ms c)))"

definition ss_ri where
  "ss_ri env cw cr view eb db rw rr ms = (\<lambda>(s, src) q.
     sr_init s \<and> sr_mode s = ASymSym \<and> mix_ri env cw cr view eb db rw rr ms (sr_inner s, src) q)"

lemma ss_write_header_ok:
  assumes "ss_idle env cw cr view eb db rw rr c0 (s, snk) ms"
  shows "\<exists>s'. shad_write_header env (s, snk) = (s', Ok ()) \<and> ss_wi env cw cr view eb db rw rr c0 ms s' []"
proof (cases "sw_init s")
  case True
  then have i: "sw_mode s = ASymSym" "mix_idle env cw cr view eb db rw rr (c0 @ [SMODE_ENABLE]) (sw_inner s, snk) ms"
    using assms by (simp_all add: ss_idle_def)
  obtain m' snk' where "mix_write_header env (sw_inner s, snk) = ((m', snk'), Ok ())"
    "mix_wi env cw cr view eb db rw rr (c0 @ [SMODE_ENABLE]) ms (m', snk') []"
    using mix_write_header_ok [OF i(2)] by (metis surj_pair)
  then show ?thesis using True i(1) by (auto simp: shad_write_header_def with_inner_w_def ss_wi_def)
next
  case False
  then have f: "ms = []" "shad_fresh env cw cr view eb db rw rr c0 ASymSym s snk" using assms by (simp_all add: ss_idle_def)
  then have o: "ossl_ok env cw cr view eb db rw rr" by (simp add: shad_fresh_def)
  obtain snk1 where t: "write_tag env SMODE_ENABLE snk = (snk1, Ok 1)" "cw snk1 = cw snk @ [SMODE_ENABLE]"
    using write_tag_ok [OF o] by blast
  have "mix_idle env cw cr view eb db rw rr (c0 @ [SMODE_ENABLE]) (sw_inner s, snk1) []"
    using f(2) t(2) by (simp add: mix_idle_def shad_fresh_def)
  from mix_write_header_ok [OF this] obtain m' snk' where "mix_write_header env (sw_inner s, snk1) = ((m', snk'), Ok ())"
    "mix_wi env cw cr view eb db rw rr (c0 @ [SMODE_ENABLE]) [] (m', snk') []" by (metis surj_pair)
  then show ?thesis using False t f by (auto simp: shad_write_header_def with_inner_w_def ss_wi_def shad_fresh_def)
qed

lemma ss_write_into_ok:
  assumes "ss_wi env cw cr view eb db rw rr c0 ms (s, snk) p" and "xs \<noteq> []"
  shows "\<exists>s' k. shad_write_into env xs (s, snk) = (s', Ok k) \<and> 0 < k \<and> k \<le> length xs \<and>
    ss_wi env cw cr view eb db rw rr c0 ms s' (p @ take k xs)"
proof -
  have i: "sw_init s" "sw_mode s = ASymSym" "mix_wi env cw cr view eb db rw rr (c0 @ [SMODE_ENABLE]) ms (sw_inner s, snk) p"
    using assms by (simp_all add: ss_wi_def)
  obtain m' snk' k where "mix_write_into env xs (sw_inner s, snk) = ((m', snk'), Ok k)" "0 < k" "k \<le> length xs"
    "mix_wi env cw cr view eb db rw rr (c0 @ [SMODE_ENABLE]) ms (m', snk') (p @ take k xs)"
    using mix_write_into_ok [OF i(3) assms(2)] by (metis surj_pair)
  then show ?thesis using i by (auto simp: shad_write_into_def with_inner_w_def ss_wi_def)
qed

lemma ss_write_end_ok:
  assumes "ss_wi env cw cr view eb db rw rr c0 ms (s, snk) p"
  shows "\<exists>s'. shad_write_end env (s, snk) = (s', Ok ()) \<and> ss_idle env cw cr view eb db rw rr c0 s' (ms @ [p])"
proof -
  have i: "sw_init s" "sw_mode s = ASymSym" "mix_wi env cw cr view eb db rw rr (c0 @ [SMODE_ENABLE]) ms (sw_inner s, snk) p"
    using assms by (simp_all add: ss_wi_def)
  obtain m' snk' where "mix_write_end env (sw_inner s, snk) = ((m', snk'), Ok ())"
    "mix_idle env cw cr view eb db rw rr (c0 @ [SMODE_ENABLE]) (m', snk') (ms @ [p])"
    using mix_write_end_ok [OF i(3)] by (metis surj_pair)
  then show ?thesis using i by (auto simp: shad_write_end_def with_inner_w_def ss_idle_def)
qed

lemma ss_read_header_ok:
  assumes "ss_ready env cw cr view eb db rw rr (s, src) (x # ms)"
  shows "\<exists>s'. shad_read_header env (s, src) = (s', Ok ()) \<and>
    ss_ri env cw cr view eb db rw rr ms s' (x @ filling (block_size (sym_conf env)) x)"
proof (cases "sr_init s")
  case True
  then have i: "sr_mode s = ASymSym" "mix_ready env cw cr view eb db rw rr (sr_inner s, src) (x # ms)"
    using assms by (simp_all add: ss_ready_def)
  obtain m' src' where "mix_read_header env (sr_inner s, src) = ((m', src'), Ok ())"
    "mix_ri env cw cr view eb db rw rr ms (m', src') (x @ filling (block_size (sym_conf env)) x)"
    using mix_read_header_ok [OF i(2)] by (metis surj_pair)
  then show ?thesis using True i(1) by (auto simp: shad_read_header_def with_inner_r_def ss_ri_def)
next
  case False
  then obtain c where u: "shad_unread env cw cr view eb db rw rr s" "cr src = SMODE_ENABLE # c" "wire env cw cr view eb db rr (x # ms) c"
    using assms by (auto simp: ss_ready_def)
  then have o: "ossl_ok env cw cr view eb db rw rr" by (simp add: shad_unread_def)
  obtain src1 where t: "env_read (sym_conf env) src 1 = (src1, Ok [SMODE_ENABLE])" "cr src1 = c" using read_tag_ok [OF o u(2)] by blast
  have "mix_ready env cw cr view eb db rw rr (sr_inner s, src1) (x # ms)" using u t(2) by (simp add: mix_ready_def shad_unread_def)
  from mix_read_header_ok [OF this] obtain m' src' where "mix_read_header env (sr_inner s, src1) = ((m', src'), Ok ())"
    "mix_ri env cw cr view eb db rw rr ms (m', src') (x @ filling (block_size (sym_conf env)) x)" by (metis surj_pair)
  then show ?thesis using False t(1) by (auto simp: shad_read_header_def with_inner_r_def ss_ri_def)
qed

lemma ss_read_from_ok:
  assumes "ss_ri env cw cr view eb db rw rr ms (s, src) q" and "0 < n" and "n \<le> length q"
  shows "\<exists>s' out q'. shad_read_from env n (s, src) = Some (s', Ok out) \<and> out \<noteq> [] \<and> length out \<le> n \<and> q = out @ q' \<and>
    ss_ri env cw cr view eb db rw rr ms s' q'"
proof -
  have i: "sr_init s" "sr_mode s = ASymSym" "mix_ri env cw cr view eb db rw rr ms (sr_inner s, src) q"
    using assms(1) by (simp_all add: ss_ri_def)
  obtain m' src' out q' where "mix_read_from env n (sr_inner s, src) = Some ((m', src'), Ok out)" "out \<noteq> []" "length out \<le> n" "q = out @ q'"
    "mix_ri env cw cr view eb db rw rr ms (m', src') q'"
    using mix_read_from_ok [OF i(3) assms(2,3)] by (metis surj_pair)
  then show ?thesis using i by (auto simp: shad_read_from_def with_inner_r_def ss_ri_def)
qed

lemma ss_read_end_ok:
  assumes "ss_ri env cw cr view eb db rw rr ms (s, src) (filling (block_size (sym_conf env)) x)"
  shows "\<exists>s'. shad_read_end env (s, src) = (s', Ok ()) \<and> ss_ready env cw cr view eb db rw rr s' ms"
proof -
  have i: "sr_init s" "sr_mode s = ASymSym" "mix_ri env cw cr view eb db rw rr ms (sr_inner s, src) (filling (block_size (sym_conf env)) x)"
    using assms by (simp_all add: ss_ri_def)
  obtain m' src' where "mix_read_end env (sr_inner s, src) = ((m', src'), Ok ())" "mix_ready env cw cr view eb db rw rr (m', src') ms"
    using mix_read_end_ok [OF i(3)] by (metis surj_pair)
  then show ?thesis using i by (auto simp: shad_read_end_def with_inner_r_def ss_ready_def)
qed

interpretation ssw: msg_write "shad_write_header env" "shad_write_into env" "shad_write_end env"
  "ss_idle env cw cr view eb db rw rr c0" "ss_wi env cw cr view eb db rw rr c0" for env cw cr view eb db rw rr c0
  by (unfold_locales; clarify) (rule ss_write_header_ok ss_write_into_ok ss_write_end_ok, assumption+)+

interpretation ssr: msg_read "shad_read_header env" "shad_read_from env" "shad_read_end env"
  "ss_ready env cw cr view eb db rw rr" "ss_ri env cw cr view eb db rw rr" "filling (block_size (sym_conf env))" for env cw cr view eb db rw rr
  by (unfold_locales; clarify) (rule ss_read_header_ok ss_read_from_ok ss_read_end_ok, assumption+)+

end
