(* ===== verification/Osslasym.thy ===== *)
theory Osslasym
  imports Osslshadow
begin

text \<open>
  The shadowers of \<open>mydht-openssl/src/rsa_openssl.rs\<close> with RSA on all of the content, as the
  authentication messages use them, and without encryption; and the round trip of messages for
  all three modes.
\<close>

section \<open>RSA on all of the content\<close>

text \<open>Ciphertexts and their plaintexts.\<close>

definition chunks :: "('rsa, 'cr, 'src, 'sink) ossl_env \<Rightarrow> 'rsa \<Rightarrow> bytes list \<Rightarrow> bytes list \<Rightarrow> bool" where
  "chunks env rr = list_all2 (\<lambda>c p. length c = asym_enc_size env \<and> p \<noteq> [] \<and> length p \<le> asym_dec_size env \<and>
     (\<forall>n. asym_enc_size env \<le> n \<longrightarrow> private_decrypt env rr c n = Ok p))"

definition as_state where
  "as_state env cw cr view eb db rw rr c0 s snk en p \<longleftrightarrow>
     ossl_ok env cw cr view eb db rw rr \<and> pk_rsa (mw_dest (sw_inner s)) = rw \<and> sw_mode s = ASymOnly \<and> sw_init s \<and>
     (\<exists>benc d bdec cs ps. sw_asymbufs s = Some (benc, d, bdec, en) \<and> length benc = asym_enc_size env \<and> length bdec = asym_dec_size env \<and>
        en \<le> asym_dec_size env \<and> cw snk = c0 @ SMODE_ASYM_ONLY_ENABLE # concat cs \<and> chunks env rr cs ps \<and> concat ps @ take en bdec = p)"

definition as_idle where
  "as_idle env cw cr view eb db rw rr c0 = (\<lambda>(s, snk) ms.
     if sw_init s then as_state env cw cr view eb db rw rr c0 s snk 0 (concat ms)
     else ms = [] \<and> shad_fresh env cw cr view eb db rw rr c0 ASymOnly s snk)"

definition as_wi where
  "as_wi env cw cr view eb db rw rr c0 ms = (\<lambda>(s, snk) p. \<exists>en. as_state env cw cr view eb db rw rr c0 s snk en (concat ms @ p))"

definition as_ri where
  "as_ri env cw cr view eb db rw rr ms = (\<lambda>(s, src) q.
     ossl_ok env cw cr view eb db rw rr \<and> pk_rsa (keyexch (sr_inner s)) = rr \<and> sr_mode s = ASymOnly \<and> sr_init s \<and>
     (\<exists>benc st bdec en cs ps. sr_asymbufs s = Some (benc, st, bdec, en) \<and> length benc = asym_enc_size env \<and>
        length bdec = max (asym_dec_size env) (asym_enc_size env) \<and> st \<le> en \<and> en \<le> length bdec \<and>
        cr src = concat cs \<and> chunks env rr cs ps \<and> take (en - st) (drop st bdec) @ concat ps = q @ concat ms))"

definition as_ready where
  "as_ready env cw cr view eb db rw rr = (\<lambda>(s, src) ms.
     if sr_init s then as_ri env cw cr view eb db rw rr ms (s, src) []
     else shad_unread env cw cr view eb db rw rr s \<and>
       (ms = [] \<or> (\<exists>cs ps. cr src = SMODE_ASYM_ONLY_ENABLE # concat cs \<and> chunks env rr cs ps \<and> concat ps = concat ms)))"

lemma as_stateI:
  assumes "ossl_ok env cw cr view eb db rw rr" and "pk_rsa (mw_dest (sw_inner s)) = rw" and "sw_mode s = ASymOnly" and "sw_init s"
    and "sw_asymbufs s = Some (benc, d, bdec, en)" and "length benc = asym_enc_size env" and "length bdec = asym_dec_size env"
    and "en \<le> asym_dec_size env" and "cw snk = c0 @ SMODE_ASYM_ONLY_ENABLE # concat cs" and "chunks env rr cs ps"
    and "concat ps @ take en bdec = p"
  shows "as_state env cw cr view eb db rw rr c0 s snk en p"
  using assms unfolding as_state_def by blast

lemma as_riI:
  assumes "ossl_ok env cw cr view eb db rw rr" and "pk_rsa (keyexch (sr_inner s)) = rr" and "sr_mode s = ASymOnly" and "sr_init s"
    and "sr_asymbufs s = Some (benc, st, bdec, en)" and "length benc = asym_enc_size env"
    and "length bdec = max (asym_dec_size env) (asym_enc_size env)" and "st \<le> en" and "en \<le> length bdec"
    and "cr src = concat cs" and "chunks env rr cs ps" and "take (en - st) (drop st bdec) @ concat ps = q @ concat ms"
  shows "as_ri env cw cr view eb db rw rr ms (s, src) q"
  using assms unfolding as_ri_def prod.case by blast

text \<open>A ciphertext is written: the buffer is empty then.\<close>

lemma as_emit:
  assumes "as_state env cw cr view eb db rw rr c0 s snk en p" and "0 < en"
  shows "\<exists>s' snk'. asym_emit env en (s, snk) = ((s', snk'), Ok ()) \<and> as_state env cw cr view eb db rw rr c0 s' snk' 0 p"
proof -
  obtain benc d bdec cs ps where b: "sw_asymbufs s = Some (benc, d, bdec, en)" "length benc = asym_enc_size env"
      "length bdec = asym_dec_size env" "en \<le> asym_dec_size env" "cw snk = c0 @ SMODE_ASYM_ONLY_ENABLE # concat cs"
      "chunks env rr cs ps" "concat ps @ take en bdec = p"
    and o: "ossl_ok env cw cr view eb db rw rr" "pk_rsa (mw_dest (sw_inner s)) = rw" "sw_mode s = ASymOnly" "sw_init s"
    using assms(1) unfolding as_state_def by blast
  obtain c where c: "public_encrypt env rw snk (take en bdec) (asym_enc_size env) = Ok c" "length c = asym_enc_size env"
    "\<forall>n. asym_enc_size env \<le> n \<longrightarrow> private_decrypt env rr c n = Ok (take en bdec)"
    using encrypt_ok [OF o(1), of "take en bdec" snk] b(3,4) by (fastforce simp: le_max_iff_disj)
  obtain snk' where w: "env_write (sym_conf env) snk c = (snk', Ok ())" "cw snk' = cw snk @ c" using write_ok [OF o(1)] by blast
  let ?s = "s\<lparr>sw_asymbufs := Some (overlay c benc, d, bdec, 0)\<rparr>"
  have "asym_emit env en (s, snk) = ((?s, snk'), Ok ())" using b(1,2) c(1) w(1) o(2) by (simp add: asym_emit_def)
  moreover have "chunks env rr (cs @ [c]) (ps @ [take en bdec])"
    using b(3,4,6) c(2,3) assms(2) by (auto simp: chunks_def intro!: list_all2_appendI)
  then have "as_state env cw cr view eb db rw rr c0 ?s snk' 0 p"
    by (intro as_stateI [where benc = "overlay c benc" and d = d and bdec = bdec and cs = "cs @ [c]" and ps = "ps @ [take en bdec]"]) (use o b c(2) w(2) in simp_all)
  ultimately show ?thesis by blast
qed

lemma as_flush:
  assumes "as_state env cw cr view eb db rw rr c0 s snk en p"
  shows "\<exists>s' snk' en'. shad_flush_into env (s, snk) = ((s', snk'), Ok ()) \<and> as_state env cw cr view eb db rw rr c0 s' snk' en' p \<and>
    en' < asym_dec_size env"
proof -
  obtain benc d bdec where b: "sw_asymbufs s = Some (benc, d, bdec, en)" "length bdec = asym_dec_size env" "en \<le> asym_dec_size env"
    "sw_mode s = ASymOnly" "rsa_ok env rw rr"
    using assms ossl_okD(5) unfolding as_state_def by metis
  then have pos: "0 < asym_dec_size env" by (simp add: rsa_ok_def)
  show ?thesis
  proof (cases "en = asym_dec_size env")
    case True
    then show ?thesis using as_emit [OF assms] b pos by (auto simp: shad_flush_into_def)
  next
    case False
    then show ?thesis using assms b by (auto simp: shad_flush_into_def)
  qed
qed

lemma as_write_header_ok:
  assumes "as_idle env cw cr view eb db rw rr c0 (s, snk) ms"
  shows "\<exists>s'. shad_write_header env (s, snk) = (s', Ok ()) \<and> as_wi env cw cr view eb db rw rr c0 ms s' []"
proof (cases "sw_init s")
  case True
  then have "as_state env cw cr view eb db rw rr c0 s snk 0 (concat ms)" using assms by (simp add: as_idle_def)
  moreover from this have "sw_mode s = ASymOnly" by (simp add: as_state_def)
  ultimately show ?thesis using True by (auto simp: as_wi_def shad_write_header_def)
next
  case False
  then have f: "ms = []" "shad_fresh env cw cr view eb db rw rr c0 ASymOnly s snk" using assms by (simp_all add: as_idle_def)
  then have o: "ossl_ok env cw cr view eb db rw rr" by (simp add: shad_fresh_def)
  obtain snk1 where t: "write_tag env SMODE_ASYM_ONLY_ENABLE snk = (snk1, Ok 1)" "cw snk1 = cw snk @ [SMODE_ASYM_ONLY_ENABLE]"
    using write_tag_ok [OF o] by blast
  let ?s = "s\<lparr>sw_asymbufs := Some (replicate (asym_enc_size env) 0, 0, replicate (asym_dec_size env) 0, 0), sw_init := True\<rparr>"
  have "as_state env cw cr view eb db rw rr c0 ?s snk1 0 []"
    by (intro as_stateI [where benc = "replicate (asym_enc_size env) 0" and bdec = "replicate (asym_dec_size env) 0" and cs = "[]" and ps = "[]"]) (use f(2) t(2) in \<open>simp_all add: shad_fresh_def chunks_def\<close>)
  then show ?thesis using False t(1) f by (auto simp: shad_write_header_def as_wi_def shad_fresh_def)
qed

lemma as_write_into_ok:
  assumes "as_wi env cw cr view eb db rw rr c0 ms (s, snk) p" and "xs \<noteq> []"
  shows "\<exists>s' k. shad_write_into env xs (s, snk) = (s', Ok k) \<and> 0 < k \<and> k \<le> length xs \<and>
    as_wi env cw cr view eb db rw rr c0 ms s' (p @ take k xs)"
proof -
  obtain en0 where a0: "as_state env cw cr view eb db rw rr c0 s snk en0 (concat ms @ p)" using assms(1) by (auto simp: as_wi_def)
  then have m: "sw_mode s = ASymOnly" by (simp add: as_state_def)
  obtain s1 snk1 en where f: "shad_flush_into env (s, snk) = ((s1, snk1), Ok ())"
    "as_state env cw cr view eb db rw rr c0 s1 snk1 en (concat ms @ p)" "en < asym_dec_size env"
    using as_flush [OF a0] by blast
  obtain benc d bdec cs ps where b: "sw_asymbufs s1 = Some (benc, d, bdec, en)" "length benc = asym_enc_size env"
      "length bdec = asym_dec_size env" "cw snk1 = c0 @ SMODE_ASYM_ONLY_ENABLE # concat cs"
      "chunks env rr cs ps" "concat ps @ take en bdec = concat ms @ p"
    and o: "ossl_ok env cw cr view eb db rw rr" "pk_rsa (mw_dest (sw_inner s1)) = rw" "sw_mode s1 = ASymOnly" "sw_init s1"
    using f(2) unfolding as_state_def by blast
  let ?k = "min (length bdec - en) (length xs)"
  let ?b = "take en bdec @ take ?k xs @ drop (en + ?k) bdec"
  let ?s = "s1\<lparr>sw_asymbufs := Some (benc, d, ?b, en + ?k)\<rparr>"
  have k: "0 < ?k" "?k \<le> length xs" "en + ?k \<le> asym_dec_size env" using f(3) b(3) assms(2) by auto
  have "shad_write_into env xs (s, snk) = ((?s, snk1), Ok ?k)" using m f(1) b(1) by (simp add: shad_write_into_def Let_def)
  moreover have "length ?b = asym_dec_size env" "take (en + ?k) ?b = take en bdec @ take ?k xs" using b(3) k(3) f(3) by auto
  then have "as_state env cw cr view eb db rw rr c0 ?s snk1 (en + ?k) (concat ms @ p @ take ?k xs)"
    by (intro as_stateI [where benc = benc and d = d and bdec = ?b and cs = cs and ps = ps]) (use o b k(3) in \<open>simp_all flip: append_assoc\<close>)
  ultimately show ?thesis using k by (auto simp: as_wi_def)
qed

lemma as_write_end_ok:
  assumes "as_wi env cw cr view eb db rw rr c0 ms (s, snk) p"
  shows "\<exists>s'. shad_write_end env (s, snk) = (s', Ok ()) \<and> as_idle env cw cr view eb db rw rr c0 s' (ms @ [p])"
proof -
  obtain en0 where a0: "as_state env cw cr view eb db rw rr c0 s snk en0 (concat ms @ p)" using assms(1) by (auto simp: as_wi_def)
  then have m: "sw_mode s = ASymOnly" by (simp add: as_state_def)
  obtain s1 snk1 en where f: "shad_flush_into env (s, snk) = ((s1, snk1), Ok ())"
    "as_state env cw cr view eb db rw rr c0 s1 snk1 en (concat ms @ p)"
    using as_flush [OF a0] by blast
  obtain benc d bdec where b: "sw_asymbufs s1 = Some (benc, d, bdec, en)" using f(2) unfolding as_state_def by blast
  have idle: "as_idle env cw cr view eb db rw rr c0 (t, snk2) (ms @ [p])" if "as_state env cw cr view eb db rw rr c0 t snk2 0 (concat ms @ p)" for t snk2
    using that by (simp add: as_idle_def as_state_def)
  show ?thesis
  proof (cases "en = 0")
    case True
    then show ?thesis using m f b idle by (auto simp: shad_write_end_def)
  next
    case False
    then obtain s2 snk2 where "asym_emit env en (s1, snk1) = ((s2, snk2), Ok ())" "as_state env cw cr view eb db rw rr c0 s2 snk2 0 (concat ms @ p)"
      using as_emit [OF f(2)] by blast
    then show ?thesis using m f b idle False by (auto simp: shad_write_end_def)
  qed
qed

lemma chunks_Cons: "chunks env rr cs (p # ps) \<longleftrightarrow> (\<exists>c cs'. cs = c # cs' \<and> length c = asym_enc_size env \<and> p \<noteq> [] \<and>
    length p \<le> asym_dec_size env \<and> (\<forall>n. asym_enc_size env \<le> n \<longrightarrow> private_decrypt env rr c n = Ok p) \<and> chunks env rr cs' ps)"
  by (auto simp: chunks_def list_all2_Cons2)

lemma as_read_header_ok:
  assumes "as_ready env cw cr view eb db rw rr (s, src) (x # ms)"
  shows "\<exists>s'. shad_read_header env (s, src) = (s', Ok ()) \<and> as_ri env cw cr view eb db rw rr ms s' x"
proof (cases "sr_init s")
  case True
  then have "as_ri env cw cr view eb db rw rr (x # ms) (s, src) []" using assms by (simp add: as_ready_def)
  then have "as_ri env cw cr view eb db rw rr ms (s, src) x" "sr_mode s = ASymOnly" by (simp_all add: as_ri_def)
  then show ?thesis using True by (simp add: shad_read_header_def)
next
  case False
  then obtain cs ps where u: "shad_unread env cw cr view eb db rw rr s" "cr src = SMODE_ASYM_ONLY_ENABLE # concat cs"
    "chunks env rr cs ps" "concat ps = concat (x # ms)"
    using assms by (auto simp: as_ready_def)
  then have o: "ossl_ok env cw cr view eb db rw rr" "sr_asymbufs s = None" by (simp_all add: shad_unread_def)
  obtain src1 where t: "env_read (sym_conf env) src 1 = (src1, Ok [SMODE_ASYM_ONLY_ENABLE])" "cr src1 = concat cs"
    using read_tag_ok [OF o(1) u(2)] by blast
  let ?s = "s\<lparr>sr_mode := ASymOnly, sr_asymbufs := Some (replicate (asym_enc_size env) 0, 0,
      replicate (max (asym_dec_size env) (asym_enc_size env)) 0, 0), sr_init := True\<rparr>"
  have "shad_read_header env (s, src) = ((?s, src1), Ok ())"
    using False t(1) o(2) by (simp add: shad_read_header_def Let_def mode_tags)
  moreover have "as_ri env cw cr view eb db rw rr ms (?s, src1) x"
    using u t(2) o by (auto simp: as_ri_def shad_unread_def)
  ultimately show ?thesis by blast
qed

text \<open>When nothing is left of the last plaintext the next ciphertext is read.\<close>

lemma as_next:
  assumes "as_ri env cw cr view eb db rw rr ms (s, src) q" and "q \<noteq> []"
  shows "\<exists>benc st bdec en src'. asym_next env (pk_rsa (keyexch (sr_inner s))) (the (sr_asymbufs s)) src = (((benc, st, bdec, en), src'), Ok True) \<and>
    st < en \<and> as_ri env cw cr view eb db rw rr ms (s\<lparr>sr_asymbufs := Some (benc, st, bdec, en)\<rparr>, src') q"
proof -
  obtain benc st bdec en cs ps where b: "sr_asymbufs s = Some (benc, st, bdec, en)" "length benc = asym_enc_size env"
      "length bdec = max (asym_dec_size env) (asym_enc_size env)" "st \<le> en" "en \<le> length bdec"
      "cr src = concat cs" "chunks env rr cs ps" "take (en - st) (drop st bdec) @ concat ps = q @ concat ms"
    and o: "ossl_ok env cw cr view eb db rw rr" "pk_rsa (keyexch (sr_inner s)) = rr" "sr_mode s = ASymOnly" "sr_init s"
    using assms(1) unfolding as_ri_def prod.case by blast
  show ?thesis
  proof (cases "en = st")
    case False
    have e: "s\<lparr>sr_asymbufs := Some (benc, st, bdec, en)\<rparr> = s" using b(1) by simp
    have "as_ri env cw cr view eb db rw rr ms (s\<lparr>sr_asymbufs := Some (benc, st, bdec, en)\<rparr>, src) q"
      using assms(1) by (simp only: e)
    then show ?thesis using b(1,4) False by (auto simp: asym_next_def)
  next
    case True
    then have q: "concat ps = q @ concat ms" using b(8) by simp
    then have "ps \<noteq> []" using assms(2) by auto
    then obtain p1 ps1 where ps: "ps = p1 # ps1" by (cases ps) auto
    obtain c cs1 where c: "cs = c # cs1" "length c = asym_enc_size env" "p1 \<noteq> []" "length p1 \<le> asym_dec_size env"
      "\<forall>n. asym_enc_size env \<le> n \<longrightarrow> private_decrypt env rr c n = Ok p1" "chunks env rr cs1 ps1"
      using b(7) unfolding ps chunks_Cons by blast
    obtain src' where d: "drain (env_read (sym_conf env)) (length benc) [] src = ((src', c), Ok ())" "cr src' = concat cs1"
      using drain_ok [OF ossl_okD(4) [OF o(1)], of "[]" "length benc" src] b(2,6) c(1,2) by auto
    have cne: "c \<noteq> []" using c(2) ossl_okD(5) [OF o(1)] by (auto simp: rsa_ok_def)
    let ?bufs = "(overlay c benc, 0 :: nat, overlay p1 bdec, length p1)"
    have "asym_next env rr (benc, st, bdec, en) src = ((?bufs, src'), Ok True)"
      using True d(1) c(5) b(3) cne by (simp add: asym_next_def)
    moreover have "as_ri env cw cr view eb db rw rr ms (s\<lparr>sr_asymbufs := Some ?bufs\<rparr>, src') q"
      by (intro as_riI [where benc = "overlay c benc" and st = 0 and bdec = "overlay p1 bdec" and en = "length p1" and cs = cs1 and ps = ps1]) (use o b(2,3) c(2,4,6) d(2) q ps in \<open>simp_all add: overlay_def\<close>)
    ultimately show ?thesis using b(1) o(2) c(3) by auto
  qed
qed

lemma as_read_from_ok:
  assumes "as_ri env cw cr view eb db rw rr ms (s, src) q" and "0 < n" and "n \<le> length q"
  shows "\<exists>s' out q'. shad_read_from env n (s, src) = Some (s', Ok out) \<and> out \<noteq> [] \<and> length out \<le> n \<and> q = out @ q' \<and>
    as_ri env cw cr view eb db rw rr ms s' q'"
proof -
  have "q \<noteq> []" using assms(2,3) by auto
  then obtain benc st bdec en src' where x: "asym_next env (pk_rsa (keyexch (sr_inner s))) (the (sr_asymbufs s)) src = (((benc, st, bdec, en), src'), Ok True)"
    "st < en" "as_ri env cw cr view eb db rw rr ms (s\<lparr>sr_asymbufs := Some (benc, st, bdec, en)\<rparr>, src') q"
    using as_next [OF assms(1)] by blast
  have m: "sr_mode s = ASymOnly" "sr_asymbufs s \<noteq> None" using assms(1) by (auto simp: as_ri_def)
  obtain cs ps where b: "length benc = asym_enc_size env" "length bdec = max (asym_dec_size env) (asym_enc_size env)" "en \<le> length bdec"
      "cr src' = concat cs" "chunks env rr cs ps" "take (en - st) (drop st bdec) @ concat ps = q @ concat ms"
    and o: "ossl_ok env cw cr view eb db rw rr" "pk_rsa (keyexch (sr_inner s)) = rr" "sr_mode s = ASymOnly" "sr_init s"
    using x(3) by (auto simp: as_ri_def)
  let ?k = "min n (en - st)"
  let ?out = "take ?k (drop st bdec)" and ?s = "s\<lparr>sr_asymbufs := Some (benc, st + ?k, bdec, en)\<rparr>"
  have r: "shad_read_from env n (s, src) = Some ((?s, src'), Ok ?out)"
    using m x(1) by (auto simp: shad_read_from_def Let_def)
  have lo: "length ?out = ?k" "?out \<noteq> []" using x(2) b(3) assms(2) by auto
  have "take (en - st) (drop st bdec) = ?out @ take (en - (st + ?k)) (drop (st + ?k) bdec)"
    by (rule take_in_two) simp
  then have e: "q @ concat ms = ?out @ (take (en - (st + ?k)) (drop (st + ?k) bdec) @ concat ps)" using b(6) by simp
  have "length ?out \<le> length q" using lo(1) assms(3) by linarith
  then obtain q' where q': "q = ?out @ q'" "take (en - (st + ?k)) (drop (st + ?k) bdec) @ concat ps = q' @ concat ms"
    using split_prefix [OF e] by blast
  have "as_ri env cw cr view eb db rw rr ms (?s, src') q'"
    by (intro as_riI [where benc = benc and st = "st + ?k" and bdec = bdec and en = en and cs = cs and ps = ps]) (use x(2) o b q'(2) in simp_all)
  then show ?thesis using r lo q'(1) by (intro exI conjI) auto
qed

lemma as_read_end_ok:
  assumes "as_ri env cw cr view eb db rw rr ms (s, src) []"
  shows "\<exists>s'. shad_read_end env (s, src) = (s', Ok ()) \<and> as_ready env cw cr view eb db rw rr s' ms"
  using assms by (auto simp: shad_read_end_def as_ready_def as_ri_def)

interpretation asw: msg_write "shad_write_header env" "shad_write_into env" "shad_write_end env"
  "as_idle env cw cr view eb db rw rr c0" "as_wi env cw cr view eb db rw rr c0" for env cw cr view eb db rw rr c0
  by (unfold_locales; clarify) (rule as_write_header_ok as_write_into_ok as_write_end_ok, assumption+)+

interpretation asr: msg_read "shad_read_header env" "shad_read_from env" "shad_read_end env"
  "as_ready env cw cr view eb db rw rr" "as_ri env cw cr view eb db rw rr" "\<lambda>_. []" for env cw cr view eb db rw rr
  by (unfold_locales; (simp only: append_Nil2)?; clarify) (rule as_read_header_ok as_read_from_ok as_read_end_ok, assumption+)+

section \<open>No encryption\<close>

definition pl_idle where
  "pl_idle env cw cr view eb db rw rr c0 = (\<lambda>(s, snk) ms.
     if sw_init s then ossl_ok env cw cr view eb db rw rr \<and> sw_mode s = NoASym \<and> cw snk = c0 @ SMODE_DISABLE # concat ms
     else ms = [] \<and> shad_fresh env cw cr view eb db rw rr c0 NoASym s snk)"

definition pl_wi where
  "pl_wi env cw cr view eb db rw rr c0 ms = (\<lambda>(s, snk) p.
     sw_init s \<and> ossl_ok env cw cr view eb db rw rr \<and> sw_mode s = NoASym \<and> cw snk = c0 @ SMODE_DISABLE # concat ms @ p)"

definition pl_ready where
  "pl_ready env cw cr view eb db rw rr = (\<lambda>(s, src) ms.
     if sr_init s then ossl_ok env cw cr view eb db rw rr \<and> sr_mode s = NoASym \<and> cr src = concat ms
     else shad_unread env cw cr view eb db rw rr s \<and> (ms = [] \<or> cr src = SMODE_DISABLE # concat ms))"

definition pl_ri where
  "pl_ri env cw cr view eb db rw rr ms = (\<lambda>(s, src) q.
     sr_init s \<and> ossl_ok env cw cr view eb db rw rr \<and> sr_mode s = NoASym \<and> cr src = q @ concat ms)"

lemma pl_write_header_ok:
  assumes "pl_idle env cw cr view eb db rw rr c0 (s, snk) ms"
  shows "\<exists>s'. shad_write_header env (s, snk) = (s', Ok ()) \<and> pl_wi env cw cr view eb db rw rr c0 ms s' []"
proof (cases "sw_init s")
  case True
  then show ?thesis using assms by (simp add: pl_idle_def pl_wi_def shad_write_header_def)
next
  case False
  then have f: "ms = []" "shad_fresh env cw cr view eb db rw rr c0 NoASym s snk" using assms by (simp_all add: pl_idle_def)
  then have o: "ossl_ok env cw cr view eb db rw rr" by (simp add: shad_fresh_def)
  obtain snk1 where "write_tag env SMODE_DISABLE snk = (snk1, Ok 1)" "cw snk1 = cw snk @ [SMODE_DISABLE]" using write_tag_ok [OF o] by blast
  then show ?thesis using False f o by (simp add: shad_write_header_def pl_wi_def shad_fresh_def)
qed

lemma pl_write_into_ok:
  assumes "pl_wi env cw cr view eb db rw rr c0 ms (s, snk) p" and "xs \<noteq> []"
  shows "\<exists>s' k. shad_write_into env xs (s, snk) = (s', Ok k) \<and> 0 < k \<and> k \<le> length xs \<and>
    pl_wi env cw cr view eb db rw rr c0 ms s' (p @ take k xs)"
proof -
  have i: "sw_init s" "ossl_ok env cw cr view eb db rw rr" "sw_mode s = NoASym" "cw snk = c0 @ SMODE_DISABLE # concat ms @ p"
    using assms(1) by (simp_all add: pl_wi_def)
  obtain snk' k where "env_write1 env snk xs = (snk', Ok k)" "0 < k" "k \<le> length xs" "cw snk' = cw snk @ take k xs"
    using i(2) assms(2) unfolding ossl_ok_def by blast
  then show ?thesis using i by (simp add: shad_write_into_def pl_wi_def)
qed

lemma pl_write_end_ok:
  assumes "pl_wi env cw cr view eb db rw rr c0 ms (s, snk) p"
  shows "\<exists>s'. shad_write_end env (s, snk) = (s', Ok ()) \<and> pl_idle env cw cr view eb db rw rr c0 s' (ms @ [p])"
  using assms by (simp add: pl_wi_def shad_write_end_def pl_idle_def)

lemma pl_read_header_ok:
  assumes "pl_ready env cw cr view eb db rw rr (s, src) (x # ms)"
  shows "\<exists>s'. shad_read_header env (s, src) = (s', Ok ()) \<and> pl_ri env cw cr view eb db rw rr ms s' x"
proof (cases "sr_init s")
  case True
  then show ?thesis using assms by (simp add: pl_ready_def pl_ri_def shad_read_header_def)
next
  case False
  then have u: "ossl_ok env cw cr view eb db rw rr" "cr src = SMODE_DISABLE # concat (x # ms)"
    using assms by (simp_all add: pl_ready_def shad_unread_def)
  obtain src1 where "env_read (sym_conf env) src 1 = (src1, Ok [SMODE_DISABLE])" "cr src1 = concat (x # ms)" using read_tag_ok [OF u] by blast
  then show ?thesis using False u(1) by (simp add: shad_read_header_def pl_ri_def mode_tags)
qed

lemma pl_read_from_ok:
  assumes "pl_ri env cw cr view eb db rw rr ms (s, src) q" and "0 < n" and "n \<le> length q"
  shows "\<exists>s' out q'. shad_read_from env n (s, src) = Some (s', Ok out) \<and> out \<noteq> [] \<and> length out \<le> n \<and> q = out @ q' \<and>
    pl_ri env cw cr view eb db rw rr ms s' q'"
proof -
  have i: "sr_init s" "ossl_ok env cw cr view eb db rw rr" "sr_mode s = NoASym" "cr src = q @ concat ms"
    using assms(1) by (simp_all add: pl_ri_def)
  obtain src' out where r: "env_read (sym_conf env) src n = (src', Ok out)" "cr src = out @ cr src'" "length out \<le> n"
    "0 < n \<longrightarrow> cr src \<noteq> [] \<longrightarrow> out \<noteq> []"
    using ossl_okD(4) [OF i(2)] unfolding reads_ok_def by blast
  have "q @ concat ms \<noteq> []" using assms(2,3) by auto
  then have ne: "out \<noteq> []" using r(4) i(4) assms(2) by metis
  obtain q' where "q = out @ q'" "cr src' = q' @ concat ms" using split_prefix [of q "concat ms" out "cr src'"] r(2,3) i(4) assms(3) by auto
  then show ?thesis using r(1,3) i ne by (simp add: shad_read_from_def pl_ri_def)
qed

lemma pl_read_end_ok:
  assumes "pl_ri env cw cr view eb db rw rr ms (s, src) []"
  shows "\<exists>s'. shad_read_end env (s, src) = (s', Ok ()) \<and> pl_ready env cw cr view eb db rw rr s' ms"
  using assms by (simp add: pl_ri_def shad_read_end_def pl_ready_def)

interpretation plw: msg_write "shad_write_header env" "shad_write_into env" "shad_write_end env"
  "pl_idle env cw cr view eb db rw rr c0" "pl_wi env cw cr view eb db rw rr c0" for env cw cr view eb db rw rr c0
  by (unfold_locales; clarify) (rule pl_write_header_ok pl_write_into_ok pl_write_end_ok, assumption+)+

interpretation plr: msg_read "shad_read_header env" "shad_read_from env" "shad_read_end env"
  "pl_ready env cw cr view eb db rw rr" "pl_ri env cw cr view eb db rw rr" "\<lambda>_. []" for env cw cr view eb db rw rr
  by (unfold_locales; (simp only: append_Nil2)?; clarify) (rule pl_read_header_ok pl_read_from_ok pl_read_end_ok, assumption+)+

section \<open>Signatures and the first byte\<close>

text \<open>What RSA promises of signatures.\<close>

definition rsa_signs :: "('rsa, 'cr, 'src, 'sink) ossl_env \<Rightarrow> 'rsa \<Rightarrow> 'rsa \<Rightarrow> bool" where
  "rsa_signs env priv pub \<longleftrightarrow>
     (\<forall>xs. length xs = asym_dec_size env \<longrightarrow> (\<exists>sig. private_encrypt env priv xs (asym_enc_size env) = Ok sig \<and> length sig = asym_enc_size env \<and>
        public_decrypt env pub sig (asym_enc_size env) = Ok xs))"

lemma signed_challenge_checks:
  assumes "rsa_signs env (pk_rsa (publickey p)) (pk_rsa (publickey p'))" and "length chal = asym_dec_size env" and "length chal' = asym_dec_size env"
  shows "\<exists>sig. rsa_signmsg env p chal = Ok sig \<and> rsa_checkmsg env p' chal' sig = Ok (chal = chal')"
proof -
  obtain sig where "private_encrypt env (pk_rsa (publickey p)) chal (asym_enc_size env) = Ok sig" "length sig = asym_enc_size env"
    "public_decrypt env (pk_rsa (publickey p')) sig (asym_enc_size env) = Ok chal"
    using assms(1,2) unfolding rsa_signs_def by blast
  then show ?thesis using assms(2) by (simp add: rsa_signmsg_def rsa_checkmsg_def)
qed

text \<open>A signature that RSA refuses, or of other content than a challenge, is a panic and not a refusal.\<close>

lemma bad_signature_panics:
  assumes "public_decrypt env (pk_rsa (publickey p)) sig (asym_enc_size env) = r" and "\<And>xs. r = Ok xs \<Longrightarrow> length xs \<noteq> asym_dec_size env"
  shows "rsa_checkmsg env p chal sig = Panic"
  using assms by (cases r) (simp_all add: rsa_checkmsg_def)

text \<open>A connection that ends before its first byte is read as one without encryption.\<close>

lemma empty_header_disables:
  assumes "env_read (sym_conf env) src 1 = (src', Ok [])"
  shows "shad_read_header env (shad_r_new pk, src) = (((shad_r_new pk)\<lparr>sr_mode := NoASym, sr_init := True\<rparr>, src'), Ok ())"
  using assms by (simp add: shad_read_header_def shad_r_new_def mode_tags)

section \<open>Round trip\<close>

text \<open>What a writer has put on a stream is what a new reader can read, in each mode.\<close>

lemma as_idle_ready:
  assumes "as_idle env cw cr view eb db rw rr c0 (s, snk) ms" and "ms \<noteq> []" and "shad_unread env cw cr view eb db rw rr r"
  shows "\<exists>c. cw snk = c0 @ c \<and> (\<forall>src. cr src = c \<longrightarrow> as_ready env cw cr view eb db rw rr (r, src) ms)"
proof -
  obtain cs ps where "cw snk = c0 @ SMODE_ASYM_ONLY_ENABLE # concat cs" "chunks env rr cs ps" "concat ps = concat ms"
    using assms(1,2) by (auto simp: as_idle_def as_state_def split: if_splits)
  then show ?thesis using assms(3) by (auto simp: as_ready_def shad_unread_def)
qed

lemma ss_idle_ready:
  assumes "ss_idle env cw cr view eb db rw rr c0 (s, snk) ms" and "ms \<noteq> []" and "shad_unread env cw cr view eb db rw rr r"
  shows "\<exists>c. cw snk = c0 @ c \<and> (\<forall>src. cr src = c \<longrightarrow> ss_ready env cw cr view eb db rw rr (r, src) ms)"
proof -
  have "mix_idle env cw cr view eb db rw rr (c0 @ [SMODE_ENABLE]) (sw_inner s, snk) ms"
    using assms(1,2) by (auto simp: ss_idle_def split: if_splits)
  from mix_idle_wire [OF this assms(2)] show ?thesis using assms(3) by (auto simp: ss_ready_def shad_unread_def)
qed

lemma pl_idle_ready:
  assumes "pl_idle env cw cr view eb db rw rr c0 (s, snk) ms" and "ms \<noteq> []" and "shad_unread env cw cr view eb db rw rr r"
  shows "\<exists>c. cw snk = c0 @ c \<and> (\<forall>src. cr src = c \<longrightarrow> pl_ready env cw cr view eb db rw rr (r, src) ms)"
  using assms by (auto simp: pl_idle_def pl_ready_def shad_unread_def split: if_splits)

lemma shad_start:
  assumes "ossl_ok env cw cr view eb db (pk_rsa pw) (pk_rsa pr)"
  shows "shad_fresh env cw cr view eb db (pk_rsa pw) (pk_rsa pr) (cw snk) md ((shad_w_new pw)\<lparr>sw_mode := md\<rparr>) snk"
    "shad_unread env cw cr view eb db (pk_rsa pw) (pk_rsa pr) ((shad_r_new pr)\<lparr>sr_mode := md'\<rparr>)"
  using assms by (simp_all add: shad_fresh_def shad_unread_def shad_w_new_def shad_r_new_def mix_w_new_def mix_r_new_def)

text \<open>
  C16. Messages survive the shadowers: whatever the mode of the writer, messages written in any pieces
  are read back by the owner of the private key in any other pieces, one after the other and with
  nothing lost or added; the reader learns the mode and the key from the stream.  Of the cipher,
  RSA and the streams only their contracts are assumed.
\<close>

theorem shadow_roundtrip:
  fixes env :: "('rsa, 'cr, 'src, 'sink) ossl_env"
  assumes "ossl_ok env cw cr view eb db (pk_rsa pw) (pk_rsa pr)" and "map sum_list nss = map length (map concat css)"
  shows "\<exists>t snk' c. write_msgs (shad_write_header env) (shad_write_into env) (shad_write_end env) css ((shad_w_new pw)\<lparr>sw_mode := md\<rparr>, snk) = ((t, snk'), Ok ()) \<and>
    cw snk' = cw snk @ c \<and>
    (\<forall>src. cr src = c \<longrightarrow> (\<exists>u oss. read_msgs (shad_read_header env) (shad_read_from env) (shad_read_end env) nss ((shad_r_new pr)\<lparr>sr_mode := md'\<rparr>, src) = Some (u, Ok oss) \<and>
       map concat oss = map concat css \<and> map (map length) oss = nss))"
proof (cases "css = []")
  case True
  then show ?thesis using assms(2) by simp
next
  case False
  let ?w = "(shad_w_new pw)\<lparr>sw_mode := md\<rparr> :: ('rsa, 'cr) shad_w"
  note st = shad_start [OF assms(1)]
  have i: "\<not> sw_init ?w" by (simp add: shad_w_new_def)
  have ne: "map concat css \<noteq> []" using False by simp
  show ?thesis
  proof (cases md)
    case ASymSym
    then have "ss_idle env cw cr view eb db (pk_rsa pw) (pk_rsa pr) (cw snk) (?w, snk) []" using st(1) [of snk md] i by (simp add: ss_idle_def)
    from ssw.write_msgs_ok [OF this] obtain t snk' where w: "write_msgs (shad_write_header env) (shad_write_into env) (shad_write_end env) css (?w, snk) = ((t, snk'), Ok ())"
      "ss_idle env cw cr view eb db (pk_rsa pw) (pk_rsa pr) (cw snk) (t, snk') (map concat css)" by (metis append_Nil surj_pair)
    from ss_idle_ready [OF w(2) ne st(2)] ssr.read_msgs_ok [OF _ assms(2)] w(1) show ?thesis by metis
  next
    case ASymOnly
    then have "as_idle env cw cr view eb db (pk_rsa pw) (pk_rsa pr) (cw snk) (?w, snk) []" using st(1) [of snk md] i by (simp add: as_idle_def)
    from asw.write_msgs_ok [OF this] obtain t snk' where w: "write_msgs (shad_write_header env) (shad_write_into env) (shad_write_end env) css (?w, snk) = ((t, snk'), Ok ())"
      "as_idle env cw cr view eb db (pk_rsa pw) (pk_rsa pr) (cw snk) (t, snk') (map concat css)" by (metis append_Nil surj_pair)
    from as_idle_ready [OF w(2) ne st(2)] asr.read_msgs_ok [OF _ assms(2)] w(1) show ?thesis by metis
  next
    case NoASym
    then have "pl_idle env cw cr view eb db (pk_rsa pw) (pk_rsa pr) (cw snk) (?w, snk) []" using st(1) [of snk md] i by (simp add: pl_idle_def)
    from plw.write_msgs_ok [OF this] obtain t snk' where w: "write_msgs (shad_write_header env) (shad_write_into env) (shad_write_end env) css (?w, snk) = ((t, snk'), Ok ())"
      "pl_idle env cw cr view eb db (pk_rsa pw) (pk_rsa pr) (cw snk) (t, snk') (map concat css)" by (metis append_Nil surj_pair)
    from pl_idle_ready [OF w(2) ne st(2)] plr.read_msgs_ok [OF _ assms(2)] w(1) show ?thesis by metis
  qed
qed

section \<open>Witnesses\<close>

text \<open>
  A cipher that adds a counter to the bytes of a block of two, and keys that only frame their
  content.  The stream gives one byte at a time.
\<close>

definition demo_eb :: "u8 \<Rightarrow> bytes \<Rightarrow> u8 \<times> bytes" where
  "demo_eb st b = (st + 1, map (\<lambda>x. x + st) b)"

definition demo_db :: "u8 \<Rightarrow> bytes \<Rightarrow> u8 \<times> bytes" where
  "demo_db st b = (st + 1, map (\<lambda>x. x - st) b)"

definition demo_sym :: "(bool \<times> u8 \<times> bytes, bytes, bytes) sym_env" where
  "demo_sym =
     \<lparr>block_size = 2, iv_len = Some 1, key_len = 2, crypter_buff_size = 3, padding_mode = UnsizedPadding, relax_finalize = False,
      cipher_new = (\<lambda>send k iv. Ok (send, (case iv of Some (x # xs) \<Rightarrow> x | _ \<Rightarrow> 0), [])), cipher_pad = (\<lambda>b cr. cr),
      cipher_update = (\<lambda>cr xs n. case cr of (e, st, p) \<Rightarrow>
        (case blocks 2 (if e then demo_eb else demo_db) st (p @ xs) of (st', out, rest) \<Rightarrow> ((e, st', rest), Ok out))),
      cipher_finalize = (\<lambda>cr n. (cr, Ok [])), hash_shift_iv = Ok,
      env_read = (\<lambda>s n. (drop (min n 1) s, Ok (take (min n 1) s))), env_write = (\<lambda>s xs. (s @ xs, Ok ()))\<rparr>"

definition demo_ossl :: "(unit, bool \<times> u8 \<times> bytes, bytes, bytes) ossl_env" where
  "demo_ossl =
     \<lparr>sym_conf = demo_sym, crypter_key_enc_size = 4, asym_enc_size = 4, asym_dec_size = 2,
      env_write1 = (\<lambda>s xs. (s @ take 1 xs, Ok 1)), os_rng = (\<lambda>s. Ok (\<lambda>i. of_nat (length s) + of_nat i)), rsa_size = (\<lambda>k. 4),
      public_encrypt = (\<lambda>k s xs n. Ok (of_nat (length xs) # xs @ replicate (3 - length xs) 0)),
      private_decrypt = (\<lambda>k c n. Ok (take (unat (hd c)) (tl c))),
      private_encrypt = (\<lambda>k xs n. Ok (0 # 0 # xs)), public_decrypt = (\<lambda>k c n. Ok (drop 2 c)),
      public_key_to_der = (\<lambda>k. Ok []), private_key_to_der = (\<lambda>k. Ok []), hash_key = Ok\<rparr>"

lemma demo_cipher_ok: "cipher_ok demo_sym id demo_eb demo_db"
proof -
  have "inverse_blocks 2 demo_eb demo_db" by (simp add: inverse_blocks_def demo_eb_def demo_db_def comp_def)
  then show ?thesis by (simp add: cipher_ok_def demo_sym_def split: prod.splits)
qed

lemma demo_rsa_ok: "rsa_ok demo_ossl () ()"
proof -
  have "unat (of_nat (length xs) :: u8) = length xs" if "length xs \<le> 2" for xs :: bytes
    using that by (simp add: unat_of_nat)
  then show ?thesis by (auto simp: rsa_ok_def demo_ossl_def demo_sym_def)
qed

lemma demo_ossl_ok: "ossl_ok demo_ossl id id id demo_eb demo_db () ()"
proof -
  have "reads_ok (env_read demo_sym) id" by (auto simp: reads_ok_def demo_sym_def)
  moreover have "writes_ok (env_write demo_sym) id" by (simp add: writes_ok_def demo_sym_def)
  moreover have "sym_conf demo_ossl = demo_sym" "padding_mode demo_sym = UnsizedPadding" by (simp_all add: demo_ossl_def demo_sym_def)
  moreover have "\<exists>snk' k. env_write1 demo_ossl snk xs = (snk', Ok k) \<and> 0 < k \<and> k \<le> length xs \<and> id snk' = id snk @ take k xs" if "xs \<noteq> []" for snk xs
    using that by (cases xs) (simp_all add: demo_ossl_def)
  moreover have "\<exists>rng. os_rng demo_ossl snk = Ok rng" for snk by (simp add: demo_ossl_def)
  ultimately show ?thesis using demo_cipher_ok demo_rsa_ok unfolding ossl_ok_def by simp
qed

abbreviation demo_pkey :: "unit pkey_ext" where
  "demo_pkey \<equiv> \<lparr>pk_pub = [], pk_rsa = (), pk_write_private = False\<rparr>"

text \<open>Two messages, written as \<open>1 2\<close>, \<open>3\<close> and as \<open>4\<close>, and read as \<open>1\<close>, \<open>2 3\<close> and as \<open>4\<close>.\<close>

theorem shadow_roundtrip_witness:
  "\<exists>t snk' c. write_msgs (shad_write_header demo_ossl) (shad_write_into demo_ossl) (shad_write_end demo_ossl) [[[1, 2], [3]], [[4]]]
      ((shad_w_new demo_pkey)\<lparr>sw_mode := ASymSym\<rparr>, []) = ((t, snk'), Ok ()) \<and> snk' = c \<and>
    (\<exists>u oss. read_msgs (shad_read_header demo_ossl) (shad_read_from demo_ossl) (shad_read_end demo_ossl) [[1, 2], [1]]
      ((shad_r_new demo_pkey)\<lparr>sr_mode := ASymOnly\<rparr>, c) = Some (u, Ok oss) \<and> map concat oss = [[1, 2, 3], [4]])"
proof -
  have k: "ossl_ok demo_ossl id id id demo_eb demo_db (pk_rsa demo_pkey) (pk_rsa demo_pkey)" using demo_ossl_ok by simp
  from shadow_roundtrip [OF k, of "[[1, 2], [1]]" "[[[1, 2], [3]], [[4]]]" ASymSym "[]" ASymOnly]
  show ?thesis by (auto simp del: write_msgs.simps read_msgs.simps)
qed

end
