(* ===== verification/Shadowtest.thy ===== *)
theory Shadowtest
  imports Extio
begin

text \<open>
  The shadower of the tests, \<open>ShadowTest\<close> of \<open>mydht-basetest/src/shadow.rs\<close>: it adds the key of the peer,
  and in one mode a key of the message, to every byte.
\<close>

section \<open>Model\<close>

datatype shadow_mode_test = NoShadow | SimpleShift | SimpleShiftNoHead

record shadow_test =
  sh_peer :: u8
  sh_trans :: u8
  sh_mode :: shadow_mode_test

definition shift_up :: "u8 \<Rightarrow> u8 \<Rightarrow> u8" where
  "shift_up init inc = init + inc"

definition shift_down :: "u8 \<Rightarrow> u8 \<Rightarrow> u8" where
  "shift_down init dec = init - dec"

text \<open>The streams: \<open>Read::read\<close>, \<open>Write::write\<close> and the random byte of \<open>shadow_simkey\<close>.\<close>

record ('src, 'sink) shadow_env =
  sh_read :: "'src rd"
  sh_write :: "'sink \<Rightarrow> bytes \<Rightarrow> 'sink \<times> nat outcome"
  shadow_simkey :: "'sink \<Rightarrow> u8"

definition shadow_iter_sim ::
    "('src, 'sink) shadow_env \<Rightarrow> bytes \<Rightarrow> bytes \<Rightarrow> shadow_test \<times> 'sink \<Rightarrow> (shadow_test \<times> 'sink) \<times> nat outcome" where
  "shadow_iter_sim env k vals = (\<lambda>(s, snk).
     case sh_write env snk (if sh_mode s = NoShadow then vals else map (\<lambda>i. shift_up i (k ! 0)) vals) of (snk', r) \<Rightarrow> ((s, snk'), r))"

definition read_shadow_iter_sim ::
    "('src, 'sink) shadow_env \<Rightarrow> bytes \<Rightarrow> nat \<Rightarrow> shadow_test \<times> 'src \<Rightarrow> (shadow_test \<times> 'src) \<times> bytes outcome" where
  "read_shadow_iter_sim env k n = (\<lambda>(s, src).
     case sh_read env src n of (src', r) \<Rightarrow>
       ((s, src'), and_then r (\<lambda>xs. Ok (if xs = [] \<or> sh_mode s = NoShadow then xs else map (\<lambda>i. shift_down i (k ! 0)) xs))))"

definition sh_key :: "shadow_test \<Rightarrow> bytes" where
  "sh_key s = (case sh_mode s of NoShadow \<Rightarrow> [] | SimpleShift \<Rightarrow> [sh_peer s + sh_trans s] | SimpleShiftNoHead \<Rightarrow> [sh_peer s])"

definition send_shadow_simkey :: "('src, 'sink) shadow_env \<Rightarrow> shadow_test \<times> 'sink \<Rightarrow> (shadow_test \<times> 'sink) \<times> unit outcome" where
  "send_shadow_simkey env = (\<lambda>(s, snk). case sh_write env snk [sh_peer s] of (snk', r) \<Rightarrow> ((s, snk'), and_then r (\<lambda>_. Ok ())))"

definition init_from_shadow_simkey :: "('src, 'sink) shadow_env \<Rightarrow> 'src \<Rightarrow> 'src \<times> shadow_test outcome" where
  "init_from_shadow_simkey env src =
     (case sh_read env src 1 of (src', r) \<Rightarrow> (src', and_then r (\<lambda>xs.
        let b = (if xs = [] then 0 else hd xs) in Ok \<lparr>sh_peer = b, sh_trans = b, sh_mode = SimpleShiftNoHead\<rparr>)))"

definition new_shadow_sim :: "u8 \<Rightarrow> shadow_test" where
  "new_shadow_sim shift = \<lparr>sh_peer = shift, sh_trans = shift, sh_mode = SimpleShiftNoHead\<rparr>"

definition sh_write_header :: "('src, 'sink) shadow_env \<Rightarrow> shadow_test \<times> 'sink \<Rightarrow> (shadow_test \<times> 'sink) \<times> unit outcome" where
  "sh_write_header env = (\<lambda>(s, snk).
     case (case sh_mode s of
             NoShadow \<Rightarrow> (s, [0])
           | SimpleShift \<Rightarrow> (s\<lparr>sh_trans := shadow_simkey env snk\<rparr>, [1, shadow_simkey env snk])
           | SimpleShiftNoHead \<Rightarrow> (s, [2])) of (s', hdr) \<Rightarrow>
       (case sh_write env snk hdr of (snk', r) \<Rightarrow> ((s', snk'), and_then r (\<lambda>_. Ok ()))))"

definition sh_write_into :: "('src, 'sink) shadow_env \<Rightarrow> bytes \<Rightarrow> shadow_test \<times> 'sink \<Rightarrow> (shadow_test \<times> 'sink) \<times> nat outcome" where
  "sh_write_into env cont = (\<lambda>(s, snk). shadow_iter_sim env (sh_key s) cont (s, snk))"

definition sh_write_end :: "shadow_test \<times> 'sink \<Rightarrow> (shadow_test \<times> 'sink) \<times> unit outcome" where
  "sh_write_end s = (s, Ok ())"

definition sh_read_header :: "('src, 'sink) shadow_env \<Rightarrow> shadow_test \<times> 'src \<Rightarrow> (shadow_test \<times> 'src) \<times> unit outcome" where
  "sh_read_header env = (\<lambda>(s, src).
     case sh_read env src 1 of
       (src', Ok xs) \<Rightarrow>
         if length xs \<noteq> 1 then ((s, src'), Panic)
         else if hd xs = 0 then ((s\<lparr>sh_mode := NoShadow\<rparr>, src'), Ok ())
         else if hd xs = 1
         then (case sh_read env src' 1 of
                 (src2, Ok ys) \<Rightarrow> if length ys \<noteq> 1 then ((s, src2), Panic) else ((s\<lparr>sh_trans := hd ys, sh_mode := SimpleShift\<rparr>, src2), Ok ())
               | (src2, Err e) \<Rightarrow> ((s, src2), Err e)
               | (src2, Panic) \<Rightarrow> ((s, src2), Panic))
         else if hd xs = 2 then ((s\<lparr>sh_mode := SimpleShiftNoHead\<rparr>, src'), Ok ())
         else ((s, src'), Panic)
     | (src', Err e) \<Rightarrow> ((s, src'), Err e)
     | (src', Panic) \<Rightarrow> ((s, src'), Panic))"

definition sh_read_from :: "('src, 'sink) shadow_env \<Rightarrow> nat \<Rightarrow> shadow_test \<times> 'src \<Rightarrow> ((shadow_test \<times> 'src) \<times> bytes outcome) option" where
  "sh_read_from env n = (\<lambda>(s, src). Some (read_shadow_iter_sim env (sh_key s) n (s, src)))"

definition sh_read_end :: "shadow_test \<times> 'src \<Rightarrow> (shadow_test \<times> 'src) \<times> unit outcome" where
  "sh_read_end s = (s, Ok ())"

section \<open>Messages\<close>

text \<open>What is added to the bytes, the header, and a message on the stream.\<close>

definition sh_shift :: "shadow_test \<Rightarrow> u8" where
  "sh_shift s = (case sh_mode s of NoShadow \<Rightarrow> 0 | SimpleShift \<Rightarrow> sh_peer s + sh_trans s | SimpleShiftNoHead \<Rightarrow> sh_peer s)"

definition sh_header :: "shadow_test \<Rightarrow> bytes" where
  "sh_header s = (case sh_mode s of NoShadow \<Rightarrow> [0] | SimpleShift \<Rightarrow> [1, sh_trans s] | SimpleShiftNoHead \<Rightarrow> [2])"

definition sh_frame :: "u8 \<Rightarrow> bytes \<Rightarrow> bytes \<Rightarrow> bool" where
  "sh_frame k f m \<longleftrightarrow> (\<exists>s. sh_peer s = k \<and> f = sh_header s @ map (\<lambda>x. x + sh_shift s) m)"

definition shadow_ok :: "('src, 'sink) shadow_env \<Rightarrow> ('sink \<Rightarrow> bytes) \<Rightarrow> ('src \<Rightarrow> bytes) \<Rightarrow> bool" where
  "shadow_ok env cw cr \<longleftrightarrow>
     reads_ok (sh_read env) cr \<and> (\<forall>snk xs. \<exists>snk'. sh_write env snk xs = (snk', Ok (length xs)) \<and> cw snk' = cw snk @ xs)"

definition sh_idle where
  "sh_idle env cw cr k c0 = (\<lambda>(s, snk) ms. shadow_ok env cw cr \<and> sh_peer s = k \<and> (\<exists>fs. list_all2 (sh_frame k) fs ms \<and> cw snk = c0 @ concat fs))"

definition sh_wi where
  "sh_wi env cw cr k c0 ms = (\<lambda>(s, snk) p. shadow_ok env cw cr \<and> sh_peer s = k \<and>
     (\<exists>fs. list_all2 (sh_frame k) fs ms \<and> cw snk = c0 @ concat fs @ sh_header s @ map (\<lambda>x. x + sh_shift s) p))"

definition sh_ready where
  "sh_ready env cw cr k = (\<lambda>(s, src) ms. shadow_ok env cw cr \<and> sh_peer s = k \<and> (\<exists>fs. list_all2 (sh_frame k) fs ms \<and> cr src = concat fs))"

definition sh_ri where
  "sh_ri env cw cr k ms = (\<lambda>(s, src) q. shadow_ok env cw cr \<and> sh_peer s = k \<and>
     (\<exists>fs. list_all2 (sh_frame k) fs ms \<and> cr src = map (\<lambda>x. x + sh_shift s) q @ concat fs))"

lemma shadow_okD:
  assumes "shadow_ok env cw cr"
  shows "reads_ok (sh_read env) cr" "\<exists>snk'. sh_write env snk xs = (snk', Ok (length xs)) \<and> cw snk' = cw snk @ xs"
  using assms by (simp_all add: shadow_ok_def)

lemma sh_write_header_ok:
  assumes "sh_idle env cw cr k c0 (s, snk) ms"
  shows "\<exists>s'. sh_write_header env (s, snk) = (s', Ok ()) \<and> sh_wi env cw cr k c0 ms s' []"
proof -
  define s' where "s' = (if sh_mode s = SimpleShift then s\<lparr>sh_trans := shadow_simkey env snk\<rparr> else s)"
  have o: "shadow_ok env cw cr" using assms by (simp add: sh_idle_def)
  obtain snk' where w: "sh_write env snk (sh_header s') = (snk', Ok (length (sh_header s')))" "cw snk' = cw snk @ sh_header s'"
    using shadow_okD(2) [OF o] by blast
  have "sh_write_header env (s, snk) = ((s', snk'), Ok ())"
    using w(1) by (cases "sh_mode s") (simp_all add: sh_write_header_def s'_def sh_header_def)
  moreover have "sh_wi env cw cr k c0 ms (s', snk') []" using assms w(2) by (auto simp: sh_idle_def sh_wi_def s'_def)
  ultimately show ?thesis by blast
qed

lemma sh_write_into_ok:
  assumes "sh_wi env cw cr k c0 ms (s, snk) p" and "xs \<noteq> []"
  shows "\<exists>s' n. sh_write_into env xs (s, snk) = (s', Ok n) \<and> 0 < n \<and> n \<le> length xs \<and> sh_wi env cw cr k c0 ms s' (p @ take n xs)"
proof -
  let ?ys = "map (\<lambda>x. x + sh_shift s) xs"
  have o: "shadow_ok env cw cr" using assms by (simp add: sh_wi_def)
  obtain snk' where w: "sh_write env snk ?ys = (snk', Ok (length ?ys))" "cw snk' = cw snk @ ?ys" using shadow_okD(2) [OF o] by blast
  have "sh_write_into env xs (s, snk) = ((s, snk'), Ok (length xs))"
    using w(1) by (cases "sh_mode s") (simp_all add: sh_write_into_def shadow_iter_sim_def sh_key_def sh_shift_def shift_up_def)
  moreover have "sh_wi env cw cr k c0 ms (s, snk') (p @ take (length xs) xs)" using assms(1) w(2) by (auto simp: sh_wi_def)
  ultimately show ?thesis using assms(2) by blast
qed

lemma sh_write_end_ok:
  assumes "sh_wi env cw cr k c0 ms (s, snk) p"
  shows "\<exists>s'. sh_write_end (s, snk) = (s', Ok ()) \<and> sh_idle env cw cr k c0 s' (ms @ [p])"
proof -
  obtain fs where fs: "list_all2 (sh_frame k) fs ms" "cw snk = c0 @ concat fs @ sh_header s @ map (\<lambda>x. x + sh_shift s) p" "sh_peer s = k"
    using assms by (auto simp: sh_wi_def)
  let ?f = "sh_header s @ map (\<lambda>x. x + sh_shift s) p"
  have "sh_frame k ?f p" using fs(3) by (auto simp: sh_frame_def)
  then have "list_all2 (sh_frame k) (fs @ [?f]) (ms @ [p])" using fs(1) by (simp add: list_all2_appendI)
  moreover have "cw snk = c0 @ concat (fs @ [?f])" using fs(2) by simp
  ultimately show ?thesis using assms unfolding sh_write_end_def sh_idle_def sh_wi_def prod.case by blast
qed

lemma sh_read_header_ok:
  assumes "sh_ready env cw cr k (s, src) (m # ms)"
  shows "\<exists>s'. sh_read_header env (s, src) = (s', Ok ()) \<and> sh_ri env cw cr k ms s' m"
proof -
  obtain f fs w where f: "list_all2 (sh_frame k) fs ms" "sh_peer w = k" "f = sh_header w @ map (\<lambda>x. x + sh_shift w) m"
      "cr src = f @ concat fs" "sh_peer s = k" "shadow_ok env cw cr"
    using assms by (auto simp: sh_ready_def list_all2_Cons2 sh_frame_def)
  let ?rest = "map (\<lambda>x. x + sh_shift w) m @ concat fs"
  define s' where "s' = (if sh_mode w = SimpleShift then s\<lparr>sh_trans := sh_trans w, sh_mode := SimpleShift\<rparr> else s\<lparr>sh_mode := sh_mode w\<rparr>)"
  have sh: "sh_shift s' = sh_shift w" "sh_peer s' = k" using f(2,5) by (cases "sh_mode w"; simp add: s'_def sh_shift_def)+
  have "\<exists>src'. sh_read_header env (s, src) = ((s', src'), Ok ()) \<and> cr src' = ?rest"
  proof (cases "sh_mode w = SimpleShift")
    case False
    obtain x where x: "sh_header w = [x]" "x = 0 \<and> sh_mode w = NoShadow \<or> x = 2 \<and> sh_mode w = SimpleShiftNoHead"
      using False by (cases "sh_mode w") (auto simp: sh_header_def)
    obtain src' where "sh_read env src 1 = (src', Ok [x])" "cr src' = ?rest"
      using read_one [OF shadow_okD(1) [OF f(6)], of src x ?rest] f(3,4) x(1) by auto
    then show ?thesis using x(2) by (auto simp: sh_read_header_def s'_def)
  next
    case True
    then have h: "cr src = 1 # sh_trans w # ?rest" using f(3,4) by (simp add: sh_header_def)
    obtain src1 where 1: "sh_read env src 1 = (src1, Ok [1])" "cr src1 = sh_trans w # ?rest"
      using read_one [OF shadow_okD(1) [OF f(6)] h] by blast
    obtain src2 where 2: "sh_read env src1 1 = (src2, Ok [sh_trans w])" "cr src2 = ?rest"
      using read_one [OF shadow_okD(1) [OF f(6)] 1(2)] by blast
    show ?thesis using 1(1) 2 True by (auto simp: sh_read_header_def s'_def)
  qed
  then obtain src' where "sh_read_header env (s, src) = ((s', src'), Ok ())" "cr src' = ?rest" by blast
  then show ?thesis using f(1,6) sh by (auto simp: sh_ri_def)
qed

lemma sh_read_from_ok:
  assumes "sh_ri env cw cr k ms (s, src) q" and "0 < n" and "n \<le> length q"
  shows "\<exists>s' out q'. sh_read_from env n (s, src) = Some (s', Ok out) \<and> out \<noteq> [] \<and> length out \<le> n \<and> q = out @ q' \<and> sh_ri env cw cr k ms s' q'"
proof -
  obtain fs where f: "list_all2 (sh_frame k) fs ms" "cr src = map (\<lambda>x. x + sh_shift s) q @ concat fs" "shadow_ok env cw cr" "sh_peer s = k"
    using assms(1) by (auto simp: sh_ri_def)
  obtain src' xs where r: "sh_read env src n = (src', Ok xs)" "cr src = xs @ cr src'" "length xs \<le> n" "0 < n \<longrightarrow> cr src \<noteq> [] \<longrightarrow> xs \<noteq> []"
    using shadow_okD(1) [OF f(3)] unfolding reads_ok_def by blast
  have "cr src \<noteq> []" using f(2) assms(2,3) by auto
  then have ne: "xs \<noteq> []" using r(4) assms(2) by blast
  obtain ys where ys: "map (\<lambda>x. x + sh_shift s) q = xs @ ys" "cr src' = ys @ concat fs"
    using split_prefix [of "map (\<lambda>x. x + sh_shift s) q" "concat fs" xs "cr src'"] f(2) r(2,3) assms(3) by auto
  then obtain out q' where q: "q = out @ q'" "xs = map (\<lambda>x. x + sh_shift s) out" "ys = map (\<lambda>x. x + sh_shift s) q'"
    by (auto simp: map_eq_append_conv)
  have "map (\<lambda>i. i - sh_shift s) xs = out" using q(2) by (simp add: comp_def)
  then have "sh_read_from env n (s, src) = Some ((s, src'), Ok out)"
    using r(1) ne by (cases "sh_mode s") (auto simp: sh_read_from_def read_shadow_iter_sim_def sh_key_def sh_shift_def shift_down_def)
  moreover have "sh_ri env cw cr k ms (s, src') q'" using f ys(2) q(3) by (auto simp: sh_ri_def)
  ultimately show ?thesis using q ne r(3) by (intro exI conjI) auto
qed

lemma sh_read_end_ok:
  assumes "sh_ri env cw cr k ms (s, src) []"
  shows "\<exists>s'. sh_read_end (s, src) = (s', Ok ()) \<and> sh_ready env cw cr k s' ms"
  using assms by (simp add: sh_read_end_def sh_ri_def sh_ready_def)

interpretation shw: msg_write "sh_write_header env" "sh_write_into env" sh_write_end "sh_idle env cw cr k c0" "sh_wi env cw cr k c0" for env cw cr k c0
  by (unfold_locales; clarify) (rule sh_write_header_ok sh_write_into_ok sh_write_end_ok, assumption+)+

interpretation shr: msg_read "sh_read_header env" "sh_read_from env" sh_read_end "sh_ready env cw cr k" "sh_ri env cw cr k" "\<lambda>_. []" for env cw cr k
  by (unfold_locales; (simp only: append_Nil2)?; clarify) (rule sh_read_header_ok sh_read_from_ok sh_read_end_ok, assumption+)+

text \<open>Messages are read back by a shadower with the same key of the peer, whatever its mode was before.\<close>

lemma shadow_test_roundtrip:
  assumes "shadow_ok env cw cr" and "sh_peer s = sh_peer r" and "map sum_list nss = map length (map concat css)"
  shows "\<exists>t snk' c. write_msgs (sh_write_header env) (sh_write_into env) sh_write_end css (s, snk) = ((t, snk'), Ok ()) \<and> cw snk' = cw snk @ c \<and>
    (\<forall>src. cr src = c \<longrightarrow> (\<exists>u oss. read_msgs (sh_read_header env) (sh_read_from env) sh_read_end nss (r, src) = Some (u, Ok oss) \<and> map concat oss = map concat css))"
proof -
  have "sh_idle env cw cr (sh_peer s) (cw snk) (s, snk) []" using assms(1) by (simp add: sh_idle_def)
  from shw.write_msgs_ok [OF this] obtain t snk' where w: "write_msgs (sh_write_header env) (sh_write_into env) sh_write_end css (s, snk) = ((t, snk'), Ok ())"
    "sh_idle env cw cr (sh_peer s) (cw snk) (t, snk') (map concat css)" by (metis append_Nil surj_pair)
  then obtain fs where fs: "list_all2 (sh_frame (sh_peer s)) fs (map concat css)" "cw snk' = cw snk @ concat fs" by (auto simp: sh_idle_def)
  have "sh_ready env cw cr (sh_peer s) (r, src) (map concat css)" if "cr src = concat fs" for src
    using fs(1) that assms(1,2) by (auto simp: sh_ready_def)
  with shr.read_msgs_ok [OF _ assms(3)] w(1) fs(2) show ?thesis by metis
qed

end
