(* ===== verification/Oneresult.thy ===== *)
theory Oneresult
  imports Prelude
begin

text \<open>
  \<open>OneResult\<close> of \<open>mydht-base/src/utils.rs\<close>, a value with a flag under a mutex and a condition variable, by
  which a caller waits for the result of another thread.

  What a thread does while it holds the mutex is one step, and so is a notification, which comes
  after the mutex was given back: other threads may go on in between.  A thread that waits on the condition
  variable sleeps until it is woken by a notification or spuriously, or its time is over; it then
  takes the mutex again and goes on.
\<close>

section \<open>State\<close>

text \<open>A wait that was entered: its thread, the value to put in place of the result, and whether it has a time limit.\<close>

record 'v waiting =
  w_tid :: nat
  w_newval :: "'v option"
  w_timed :: bool

text \<open>
  The value and the flag, whether the mutex is poisoned, the waits that sleep and those woken up, and
  the number of threads that have set the flag and have yet to notify.
\<close>

record 'v oneres =
  or_val :: 'v
  or_flag :: bool
  or_poisoned :: bool
  or_asleep :: "'v waiting list"
  or_woken :: "'v waiting list"
  or_notify :: nat

definition new_oneresult :: "'v \<Rightarrow> 'v oneres" where
  "new_oneresult v = \<lparr>or_val = v, or_flag = False, or_poisoned = False, or_asleep = [], or_woken = [], or_notify = 0\<rparr>"

text \<open>The notification that ends \<open>ret_one_result\<close> and \<open>unlock_one_result\<close>.\<close>

definition notify_all :: "'v oneres \<Rightarrow> 'v oneres" where
  "notify_all m = m\<lparr>or_woken := or_woken m @ or_asleep m, or_asleep := [], or_notify := or_notify m - 1\<rparr>"

section \<open>Access\<close>

definition one_result_val_clone :: "'v oneres \<Rightarrow> 'v option" where
  "one_result_val_clone m = (if or_poisoned m then None else Some (or_val m))"

definition one_result_spurious :: "'v oneres \<Rightarrow> bool option" where
  "one_result_spurious m = (if or_poisoned m then None else Some (or_flag m))"

definition ret_one_result :: "'v \<Rightarrow> 'v oneres \<Rightarrow> 'v oneres" where
  "ret_one_result v m = (let m = m\<lparr>or_notify := Suc (or_notify m)\<rparr> in if or_poisoned m then m else m\<lparr>or_flag := True, or_val := v\<rparr>)"

definition unlock_one_result :: "'v oneres \<Rightarrow> 'v oneres" where
  "unlock_one_result m = (let m = m\<lparr>or_notify := Suc (or_notify m)\<rparr> in if or_poisoned m then m else m\<lparr>or_flag := True\<rparr>)"

definition change_one_result :: "'v \<Rightarrow> 'v oneres \<Rightarrow> 'v oneres" where
  "change_one_result v m = (if or_poisoned m then m else m\<lparr>or_val := v\<rparr>)"

definition change_one_result_ifneq :: "'v \<Rightarrow> 'v \<Rightarrow> 'v oneres \<Rightarrow> 'v oneres" where
  "change_one_result_ifneq neq v m = (if \<not> or_poisoned m \<and> or_val m \<noteq> neq then m\<lparr>or_val := v\<rparr> else m)"

section \<open>Waiting\<close>

text \<open>
  The result of a step of a thread that waits: it sleeps on, or its call returns.  The value is taken
  and replaced.
\<close>

datatype 'v waited = Sleeps | Returned "'v option"

definition take_val :: "'v option \<Rightarrow> 'v oneres \<Rightarrow> 'v oneres \<times> 'v waited" where
  "take_val newval m = (m\<lparr>or_val := (case newval of Some v \<Rightarrow> v | None \<Rightarrow> or_val m)\<rparr>, Returned (Some (or_val m)))"

text \<open>\<open>clone_wait_one_result\<close>: the wait comes first.\<close>

definition clone_wait_one_result :: "'v waiting \<Rightarrow> 'v oneres \<Rightarrow> 'v oneres \<times> 'v waited" where
  "clone_wait_one_result w m =
     (if or_poisoned m then (m, Returned None) else (m\<lparr>or_asleep := or_asleep m @ [w]\<rparr>, Sleeps))"

definition replace_wait_one_result :: "nat \<Rightarrow> 'v \<Rightarrow> 'v oneres \<Rightarrow> 'v oneres \<times> 'v waited" where
  "replace_wait_one_result t newval m =
     (if or_poisoned m then (m, Returned None)
      else (m\<lparr>or_asleep := or_asleep m @ [\<lparr>w_tid = t, w_newval = Some newval, w_timed = False\<rparr>]\<rparr>, Sleeps))"

definition clone_wait_one_result_ifneq :: "'v \<Rightarrow> 'v waiting \<Rightarrow> 'v oneres \<Rightarrow> 'v oneres \<times> 'v waited" where
  "clone_wait_one_result_ifneq neqval w m =
     (if or_poisoned m then (m, Returned None)
      else if or_val m \<noteq> neqval then (m\<lparr>or_asleep := or_asleep m @ [w]\<rparr>, Sleeps)
      else take_val (w_newval w) m)"

text \<open>With a time limit: the waits are entered in the same way, and may end without a result.\<close>

definition clone_wait_one_result_ifneq_timeout_ms :: "nat \<Rightarrow> 'v \<Rightarrow> 'v option \<Rightarrow> 'v oneres \<Rightarrow> 'v oneres \<times> 'v waited" where
  "clone_wait_one_result_ifneq_timeout_ms t neqval newval m =
     (if or_poisoned m then (m, Returned None)
      else if or_val m \<noteq> neqval
      then (m\<lparr>or_asleep := or_asleep m @ [\<lparr>w_tid = t, w_newval = newval, w_timed = True\<rparr>]\<rparr>, Sleeps)
      else take_val newval m)"

definition clone_wait_one_result_timeout_ms :: "nat \<Rightarrow> 'v option \<Rightarrow> 'v oneres \<Rightarrow> 'v oneres \<times> 'v waited" where
  "clone_wait_one_result_timeout_ms t newval m =
     (if or_poisoned m then (m, Returned None)
      else (m\<lparr>or_asleep := or_asleep m @ [\<lparr>w_tid = t, w_newval = newval, w_timed = True\<rparr>]\<rparr>, Sleeps))"

text \<open>
  The body of the loop after a wake-up: the flag tells a result from a spurious wake-up.  When the
  time is over the call returns without looking at it.
\<close>

definition after_wait :: "bool \<Rightarrow> 'v waiting \<Rightarrow> 'v oneres \<Rightarrow> 'v oneres \<times> 'v waited" where
  "after_wait timed_out w m =
     (if or_poisoned m then (m, Returned None)
      else if timed_out then (m, Returned None)
      else if or_flag m then take_val (w_newval w) (m\<lparr>or_flag := False\<rparr>)
      else (m\<lparr>or_asleep := or_asleep m @ [w]\<rparr>, Sleeps))"

section \<open>Interleaving\<close>

datatype 'v or_event =
    EvRet 'v
  | EvUnlock
  | EvNotify
  | EvChange 'v
  | EvChangeNeq 'v 'v
  | EvWait "'v waiting" "'v waited"
  | EvWaitNeq 'v "'v waiting" "'v waited"
  | EvSpurious "'v waiting"
  | EvResume "'v waiting" "'v waited"
  | EvTimeout "'v waiting" "'v waited"
  | EvPoison

inductive or_step :: "'v oneres \<Rightarrow> 'v or_event \<Rightarrow> 'v oneres \<Rightarrow> bool" where
  ret: "or_step m (EvRet v) (ret_one_result v m)"
| unlock: "or_step m EvUnlock (unlock_one_result m)"
| notify: "0 < or_notify m \<Longrightarrow> or_step m EvNotify (notify_all m)"
| change: "or_step m (EvChange v) (change_one_result v m)"
| change_neq: "or_step m (EvChangeNeq n v) (change_one_result_ifneq n v m)"
| wait: "clone_wait_one_result w m = (m', r) \<Longrightarrow> or_step m (EvWait w r) m'"
| wait_neq: "clone_wait_one_result_ifneq n w m = (m', r) \<Longrightarrow> or_step m (EvWaitNeq n w r) m'"
| spurious: "w \<in> set (or_asleep m) \<Longrightarrow> or_step m (EvSpurious w) (m\<lparr>or_asleep := remove1 w (or_asleep m), or_woken := or_woken m @ [w]\<rparr>)"
| resume: "w \<in> set (or_woken m) \<Longrightarrow> after_wait False w (m\<lparr>or_woken := remove1 w (or_woken m)\<rparr>) = (m', r) \<Longrightarrow> or_step m (EvResume w r) m'"
| timeout: "w \<in> set (or_asleep m) \<Longrightarrow> w_timed w \<Longrightarrow> after_wait True w (m\<lparr>or_asleep := remove1 w (or_asleep m)\<rparr>) = (m', r)
    \<Longrightarrow> or_step m (EvTimeout w r) m'"
| poison: "or_step m EvPoison (m\<lparr>or_poisoned := True\<rparr>)"

inductive_cases or_stepE: "or_step m ev m'"

inductive or_run :: "'v oneres \<Rightarrow> 'v or_event list \<Rightarrow> 'v oneres \<Rightarrow> bool" where
  start: "or_run m [] m"
| more: "or_run m evs m1 \<Longrightarrow> or_step m1 ev m2 \<Longrightarrow> or_run m (evs @ [ev]) m2"

inductive_cases or_runE: "or_run m evs m'"

text \<open>The other waits are those of the step relation, with the value to put and the time limit given.\<close>

lemma waits_are_clone_waits:
  "replace_wait_one_result t v m = clone_wait_one_result \<lparr>w_tid = t, w_newval = Some v, w_timed = False\<rparr> m"
  "clone_wait_one_result_timeout_ms t newval m = clone_wait_one_result \<lparr>w_tid = t, w_newval = newval, w_timed = True\<rparr> m"
  "clone_wait_one_result_ifneq_timeout_ms t n newval m = clone_wait_one_result_ifneq n \<lparr>w_tid = t, w_newval = newval, w_timed = True\<rparr> m"
  by (simp_all add: replace_wait_one_result_def clone_wait_one_result_timeout_ms_def clone_wait_one_result_ifneq_timeout_ms_def
      clone_wait_one_result_def clone_wait_one_result_ifneq_def)

lemmas or_defs = Let_def ret_one_result_def unlock_one_result_def notify_all_def change_one_result_def change_one_result_ifneq_def
  clone_wait_one_result_def clone_wait_one_result_ifneq_def after_wait_def take_val_def

section \<open>Results\<close>

text \<open>Signals that were given, and waits that took one.\<close>

fun gives :: "'v or_event \<Rightarrow> bool" where
  "gives (EvRet _) = True"
| "gives EvUnlock = True"
| "gives _ = False"

fun takes :: "'v or_event \<Rightarrow> bool" where
  "takes (EvResume _ (Returned (Some _))) = True"
| "takes _ = False"

lemma step_counts:
  "or_step m ev m' \<Longrightarrow> of_bool (takes ev) + of_bool (or_flag m') \<le> of_bool (gives ev) + (of_bool (or_flag m) :: nat)"
  by (induction rule: or_step.induct) (auto simp: or_defs split: if_splits)

lemma run_counts:
  "or_run m evs m' \<Longrightarrow>
    length (filter takes evs) + of_bool (or_flag m') \<le> length (filter gives evs) + of_bool (or_flag m)"
proof (induction rule: or_run.induct)
  case (more m evs m1 ev m2)
  from step_counts [OF more.hyps(2)] more.IH show ?case by (auto split: if_splits)
qed simp

text \<open>A thread that sleeps while nothing wakes it.\<close>

definition quiet :: "'v or_event \<Rightarrow> bool" where
  "quiet ev = (case ev of EvRet _ \<Rightarrow> False | EvUnlock \<Rightarrow> False | EvNotify \<Rightarrow> False | EvSpurious _ \<Rightarrow> False | EvTimeout _ _ \<Rightarrow> False | _ \<Rightarrow> True)"

lemma quiet_step:
  assumes "or_step m ev m'" and "quiet ev" and "or_woken m = []" and "w \<in> set (or_asleep m)"
  shows "or_woken m' = [] \<and> w \<in> set (or_asleep m')"
  using assms by cases (auto simp: or_defs quiet_def split: if_splits)

lemma quiet_run:
  assumes "or_run m evs m'" and "list_all quiet evs" and "or_woken m = []" and "w \<in> set (or_asleep m)"
  shows "or_woken m' = [] \<and> w \<in> set (or_asleep m')"
  using assms
proof (induction rule: or_run.induct)
  case (more m evs m1 ev m2)
  then show ?case using quiet_step [OF more.hyps(2)] by auto
qed simp

text \<open>The last value that was put.\<close>

fun puts :: "'v or_event \<Rightarrow> bool" where
  "puts (EvRet _) = True"
| "puts (EvChange _) = True"
| "puts (EvChangeNeq _ _) = True"
| "puts (EvWaitNeq _ _ (Returned _)) = True"
| "puts (EvResume _ (Returned _)) = True"
| "puts EvPoison = True"
| "puts _ = False"

lemma value_kept_step:
  assumes "or_step m ev m'" and "\<not> puts ev" and "\<not> or_poisoned m"
  shows "or_val m' = or_val m \<and> \<not> or_poisoned m' \<and> (or_flag m \<longrightarrow> or_flag m')"
  using assms by cases (auto simp: or_defs split: if_splits)

lemma value_kept_run:
  assumes "or_run m evs m'" and "list_all (\<lambda>ev. \<not> puts ev) evs" and "\<not> or_poisoned m"
  shows "or_val m' = or_val m \<and> \<not> or_poisoned m' \<and> (or_flag m \<longrightarrow> or_flag m')"
  using assms
proof (induction rule: or_run.induct)
  case (more m evs m1 ev m2)
  then show ?case using value_kept_step [OF more.hyps(2)] by auto
qed simp

text \<open>
  A result that nobody took yet keeps the threads that slept when it was given, until they give up;
  the notification wakes them.
\<close>

fun gives_up :: "'v waiting \<Rightarrow> 'v or_event \<Rightarrow> bool" where
  "gives_up w (EvTimeout w' _) = (w' = w)"
| "gives_up _ _ = False"

definition awaits :: "'v waiting \<Rightarrow> 'v oneres \<Rightarrow> bool \<Rightarrow> bool" where
  "awaits w m notified = (w \<in> set (or_woken m) \<or> \<not> notified \<and> w \<in> set (or_asleep m) \<and> 0 < or_notify m)"

lemma awaits_step:
  assumes "or_step m ev m'" and "\<not> puts ev" and "\<not> gives_up w ev" and "\<not> or_poisoned m" and "or_flag m" and "awaits w m b"
  shows "awaits w m' (EvNotify = ev \<or> b)"
  using assms by cases (auto simp: or_defs awaits_def split: if_splits)

lemma awaits_run:
  assumes "or_run m evs m'" and "list_all (\<lambda>ev. \<not> puts ev \<and> \<not> gives_up w ev) evs" and "\<not> or_poisoned m" and "or_flag m"
    and "awaits w m False"
  shows "awaits w m' (EvNotify \<in> set evs)"
  using assms
proof (induction rule: or_run.induct)
  case (more m evs m1 ev m2)
  then have "list_all (\<lambda>ev. \<not> puts ev) evs" by (auto simp: list_all_iff)
  with more value_kept_run [OF more.hyps(1)] have "\<not> or_poisoned m1" "or_flag m1" "awaits w m1 (EvNotify \<in> set evs)"
    by (auto simp: list_all_iff)
  with more.prems(1) awaits_step [OF more.hyps(2), of w "EvNotify \<in> set evs"] show ?case by auto
qed (simp add: awaits_def)

section \<open>Properties\<close>


text \<open>
  C18. A result reaches a thread that waits for it: when a result is given while the thread sleeps, then
  as long as no other thread takes or changes it and the thread does not give up, the
  notification can follow, and after it the thread can go on: its call returns that result and
  takes the signal.
\<close>

theorem one_result_received:
  assumes "w \<in> set (or_asleep m)" and "\<not> or_poisoned m" and "or_run (ret_one_result v m) evs m'"
    and "list_all (\<lambda>ev. \<not> puts ev \<and> \<not> gives_up w ev) evs"
  shows "(EvNotify \<in> set evs \<longrightarrow> (\<exists>m''. or_step m' (EvResume w (Returned (Some v))) m'' \<and> \<not> or_flag m'')) \<and>
    (EvNotify \<notin> set evs \<longrightarrow> or_step m' EvNotify (notify_all m') \<or> (\<exists>m''. or_step m' (EvResume w (Returned (Some v))) m''))"
proof -
  let ?m = "ret_one_result v m"
  have m: "\<not> or_poisoned ?m" "or_flag ?m" "or_val ?m = v" "awaits w ?m False" using assms(1,2) by (simp_all add: or_defs awaits_def)
  have np: "list_all (\<lambda>ev. \<not> puts ev) evs" using assms(4) by (auto simp: list_all_iff)
  have k: "or_val m' = v" "\<not> or_poisoned m'" "or_flag m'" using value_kept_run [OF assms(3) np m(1)] m by simp_all
  have aw: "awaits w m' (EvNotify \<in> set evs)" using awaits_run [OF assms(3,4) m(1,2,4)] .
  obtain m'' where a: "after_wait False w (m'\<lparr>or_woken := remove1 w (or_woken m')\<rparr>) = (m'', Returned (Some v))" "\<not> or_flag m''"
    using k by (cases "w_newval w") (simp_all add: after_wait_def take_val_def)
  have "w \<in> set (or_woken m') \<Longrightarrow> or_step m' (EvResume w (Returned (Some v))) m''" using or_step.resume [OF _ a(1)] by blast
  with aw a(2) or_step.notify [of m'] show ?thesis unfolding awaits_def by blast
qed

text \<open>
  A result that comes before the wait is missed: the wait does not look at the flag first, so that a
  thread that starts to wait after the result was given and notified sleeps on, until another
  result is given, its time is over or it wakes up spuriously.
\<close>

theorem early_result_missed:
  assumes "or_run (fst (clone_wait_one_result w (notify_all (ret_one_result v (new_oneresult v0))))) evs m" and "list_all quiet evs"
  shows "w \<in> set (or_asleep m) \<and> (\<forall>ev\<in>set evs. \<not> takes ev)"
proof -
  let ?m = "fst (clone_wait_one_result w (notify_all (ret_one_result v (new_oneresult v0))))"
  have m: "or_woken ?m = []" "w \<in> set (or_asleep ?m)" by (simp_all add: or_defs new_oneresult_def)
  have "or_run m0 evs m \<Longrightarrow> list_all quiet evs \<Longrightarrow> or_woken m0 = [] \<Longrightarrow> w \<in> set (or_asleep m0) \<Longrightarrow> \<forall>ev\<in>set evs. \<not> takes ev" for m0
  proof (induction rule: or_run.induct)
    case (more m0 evs m1 ev m2)
    then have "or_woken m1 = []" using quiet_run [OF more.hyps(1)] by auto
    with more.hyps(2) have "\<not> takes ev" by cases auto
    with more show ?case by auto
  qed simp
  with assms m quiet_run [OF assms m] show ?thesis by blast
qed

section \<open>Witnesses\<close>

abbreviation demo_wait :: "nat waiting" where
  "demo_wait \<equiv> \<lparr>w_tid = 1, w_newval = None, w_timed = False\<rparr>"

lemma demo_run1: "or_step m ev m' \<Longrightarrow> or_run m [ev] m'"
  using or_run.more [OF or_run.start] by fastforce


theorem one_result_received_witness:
  "\<exists>m''. or_step (notify_all (ret_one_result 5 ((new_oneresult (0::nat))\<lparr>or_asleep := [demo_wait]\<rparr>)))
     (EvResume demo_wait (Returned (Some 5))) m'' \<and> \<not> or_flag m''"
proof -
  let ?m = "(new_oneresult (0::nat))\<lparr>or_asleep := [demo_wait]\<rparr>"
  have "or_run (ret_one_result 5 ?m) [EvNotify] (notify_all (ret_one_result 5 ?m))"
    by (rule demo_run1, rule or_step.notify) (simp add: or_defs new_oneresult_def)
  from one_result_received [OF _ _ this, of demo_wait] show ?thesis by (simp add: new_oneresult_def)
qed

theorem early_result_missed_witness:
  "\<exists>m. or_run (fst (clone_wait_one_result demo_wait (notify_all (ret_one_result 5 (new_oneresult 0))))) [EvChange 7] m \<and> demo_wait \<in> set (or_asleep m)"
proof -
  let ?m = "fst (clone_wait_one_result demo_wait (notify_all (ret_one_result 5 (new_oneresult 0))))"
  have r: "or_run ?m [EvChange 7] (change_one_result 7 ?m)" by (rule demo_run1, rule or_step.change)
  from early_result_missed [OF this] show ?thesis using r by (intro exI conjI) (simp_all add: quiet_def)
qed

end
