(* ===== verification/Attach.thy ===== *)
theory Attach
  imports Extio
begin

text \<open>
  Attachments on a stream, \<open>write_attachment\<close> and \<open>read_attachment\<close> of \<open>mydht-base/src/msgenc.rs\<close>, which the
  encoders use: the size of the file, then its content in buffers of \<open>BUFF_SIZE\<close> bytes.

  Files and streams are arguments: opening a file, its size, reading and writing it, the
  temporary file of \<open>create_tmp_file\<close>, and the eight bytes of a number, which the crate \<open>byteorder\<close> gives.
\<close>

section \<open>Operations\<close>

definition BUFF_SIZE :: nat where
  "BUFF_SIZE = 10000"

text \<open>
  The environment: \<open>a_len\<close> is \<open>metadata().unwrap().len()\<close>, \<open>a_rewind\<close> the call of \<open>seek\<close>, \<open>a_put\<close> and \<open>a_get\<close> the two
  directions of a number in little-endian order.
\<close>

record ('p, 'f) attach_env =
  a_open :: "'p \<Rightarrow> 'f outcome"
  a_len :: "'f \<Rightarrow> 64 word outcome"
  a_rewind :: "'f \<Rightarrow> 'f \<times> unit outcome"
  a_fread :: "'f rd"
  a_fwrite :: "bytes \<Rightarrow> 'f \<Rightarrow> 'f \<times> nat outcome"
  a_tmp :: "('p \<times> 'f) outcome"
  a_put :: "64 word \<Rightarrow> bytes"
  a_get :: "bytes \<Rightarrow> 64 word"

text \<open>The number of whole buffers and the size of the rest.\<close>

definition att_nbframe :: "64 word \<Rightarrow> nat" where
  "att_nbframe fsize = unat (fsize div of_nat BUFF_SIZE)"

definition att_lfrsize :: "64 word \<Rightarrow> nat" where
  "att_lfrsize fsize = unat (fsize - of_nat BUFF_SIZE * (fsize div of_nat BUFF_SIZE))"

text \<open>The loop of \<open>write_attachment\<close> over \<open>k\<close> buffers: a part of a buffer is written by a single call of \<open>write\<close>.\<close>

fun write_frames ::
    "'f rd \<Rightarrow> (bytes \<Rightarrow> 'w \<Rightarrow> 'w \<times> nat outcome) \<Rightarrow> nat \<Rightarrow> nat \<Rightarrow> 'w \<times> 'f \<Rightarrow> ('w \<times> 'f) \<times> unit outcome" where
  "write_frames rd wr lfrsize 0 s = (s, Ok ())"
| "write_frames rd wr lfrsize (Suc k) (w, f) =
     (case rd f BUFF_SIZE of
        (f', Ok bs) \<Rightarrow>
          if length bs = BUFF_SIZE
          then (case write_all wr bs w of
                  (w', Ok _) \<Rightarrow> write_frames rd wr lfrsize k (w', f')
                | (w', Err e) \<Rightarrow> ((w', f'), Err e)
                | (w', Panic) \<Rightarrow> ((w', f'), Panic))
          else if length bs \<noteq> lfrsize
          then ((w, f'), Err (Serializing ''mismatch file size calc for tcp transport''))
          else (case wr bs w of
                  (w', Ok _) \<Rightarrow> write_frames rd wr lfrsize k (w', f')
                | (w', Err e) \<Rightarrow> ((w', f'), Err e)
                | (w', Panic) \<Rightarrow> ((w', f'), Panic))
      | (f', Err e) \<Rightarrow> ((w, f'), Err e)
      | (f', Panic) \<Rightarrow> ((w, f'), Panic))"

definition msgenc_write_attachment ::
    "('p, 'f) attach_env \<Rightarrow> (bytes \<Rightarrow> 'w \<Rightarrow> 'w \<times> nat outcome) \<Rightarrow> 'p \<Rightarrow> 'w \<Rightarrow> 'w \<times> unit outcome" where
  "msgenc_write_attachment env wr path w =
     (case and_then (a_open env path) (\<lambda>f. and_then (a_len env f) (\<lambda>fsize. Ok (f, fsize))) of
        Ok (f, fsize) \<Rightarrow>
          then_io (write_all wr (a_put env fsize) w) (\<lambda>w _.
            case a_rewind env f of
              (f', Ok _) \<Rightarrow>
                (case write_frames (a_fread env) wr (att_lfrsize fsize) (att_nbframe fsize + 1) (w, f') of ((w', f''), r) \<Rightarrow> (w', r))
            | (f', Err e) \<Rightarrow> (w, Err e)
            | (f', Panic) \<Rightarrow> (w, Panic))
      | Err e \<Rightarrow> (w, Err e)
      | Panic \<Rightarrow> (w, Panic))"

text \<open>The loop of \<open>read_attachment\<close>: every buffer comes from a single call of \<open>read\<close> and goes to a single call of \<open>write\<close>.\<close>

fun read_frames ::
    "'r rd \<Rightarrow> (bytes \<Rightarrow> 'f \<Rightarrow> 'f \<times> nat outcome) \<Rightarrow> nat \<Rightarrow> nat \<Rightarrow> 'r \<times> 'f \<Rightarrow> ('r \<times> 'f) \<times> unit outcome" where
  "read_frames rd fwr lfrsize 0 s = (s, Ok ())"
| "read_frames rd fwr lfrsize (Suc k) (r, f) =
     (case rd r BUFF_SIZE of
        (r', Ok bs) \<Rightarrow>
          if length bs \<noteq> BUFF_SIZE \<and> length bs \<noteq> lfrsize
          then ((r', f), Err (Io ''mismatch received file size calc for tcp transport''))
          else (case fwr bs f of
                  (f', Ok _) \<Rightarrow> read_frames rd fwr lfrsize k (r', f')
                | (f', Err e) \<Rightarrow> ((r', f'), Err e)
                | (f', Panic) \<Rightarrow> ((r', f'), Panic))
      | (r', Err e) \<Rightarrow> ((r', f), Err e)
      | (r', Panic) \<Rightarrow> ((r', f), Panic))"

text \<open>The result is the path of the file with the file as it was left; \<open>mlen\<close> is the largest size allowed, or 0.\<close>

definition msgenc_read_attachment ::
    "('p, 'f) attach_env \<Rightarrow> 'r rd \<Rightarrow> usize \<Rightarrow> 'r \<Rightarrow> 'r \<times> ('p \<times> 'f) outcome" where
  "msgenc_read_attachment env rd mlen r =
     then_io (raw_read_exact rd 8 r) (\<lambda>r bs.
       let fsize = a_get env bs in
       if 0 < mlen \<and> mlen < fsize then (r, Err (Serializing ''Attachment bigger than expected''))
       else case a_tmp env of
         Ok (fp, f) \<Rightarrow>
           (case read_frames rd (a_fwrite env) (att_lfrsize fsize) (att_nbframe fsize + 1) (r, f) of
              ((r', f'), Ok _) \<Rightarrow>
                (case a_rewind env f' of
                   (f'', Ok _) \<Rightarrow> (r', Ok (fp, f''))
                 | (f'', Err e) \<Rightarrow> (r', Err e)
                 | (f'', Panic) \<Rightarrow> (r', Panic))
            | ((r', f'), Err e) \<Rightarrow> (r', Err e)
            | ((r', f'), Panic) \<Rightarrow> (r', Panic))
       | Err e \<Rightarrow> (r, Err e)
       | Panic \<Rightarrow> (r, Panic))"

section \<open>Sizes\<close>

lemma unat_size: "n < 2 ^ 64 \<Longrightarrow> unat (of_nat n :: 64 word) = n"
  by (simp add: unat_of_nat take_bit_eq_mod)

lemma att_frames:
  assumes "n < 2 ^ 64"
  shows "att_nbframe (of_nat n) = n div BUFF_SIZE" and "att_lfrsize (of_nat n) = n mod BUFF_SIZE"
proof -
  have b: "unat (of_nat BUFF_SIZE :: 64 word) = BUFF_SIZE" by (rule unat_size) (simp add: BUFF_SIZE_def)
  have n: "unat (of_nat n :: 64 word) = n" by (rule unat_size [OF assms])
  have d: "unat ((of_nat n :: 64 word) div of_nat BUFF_SIZE) = n div BUFF_SIZE" by (simp only: unat_div_distrib n b)
  show "att_nbframe (of_nat n) = n div BUFF_SIZE" by (simp add: att_nbframe_def d)
  have "(of_nat n :: 64 word) - of_nat BUFF_SIZE * (of_nat n div of_nat BUFF_SIZE) = of_nat n mod of_nat BUFF_SIZE"
    by (simp add: minus_mult_div_eq_mod)
  then show "att_lfrsize (of_nat n) = n mod BUFF_SIZE" by (simp only: att_lfrsize_def unat_mod_distrib n b)
qed

section \<open>Contracts\<close>

text \<open>
  A stream that gives a full buffer while it has one, and a writer that takes all it is given at once.
\<close>

definition reads_full :: "'s rd \<Rightarrow> ('s \<Rightarrow> bytes) \<Rightarrow> bool" where
  "reads_full rd content \<longleftrightarrow> (\<forall>s n. \<exists>s'. rd s n = (s', Ok (take n (content s))) \<and> content s' = drop n (content s))"

definition takes_all :: "(bytes \<Rightarrow> 's \<Rightarrow> 's \<times> nat outcome) \<Rightarrow> ('s \<Rightarrow> bytes \<Rightarrow> bool) \<Rightarrow> bool" where
  "takes_all wr wi \<longleftrightarrow> (\<forall>s p bs. wi s p \<longrightarrow> (\<exists>s'. wr bs s = (s', Ok (length bs)) \<and> wi s' (p @ bs)))"

text \<open>
  What is relied on: files are read and written like that and are read from the start after a \<open>seek\<close>,
  the temporary file is new, and eight bytes stand for a number.
\<close>

definition attach_ok :: "('p, 'f) attach_env \<Rightarrow> ('f \<Rightarrow> bytes) \<Rightarrow> ('f \<Rightarrow> bytes \<Rightarrow> bool) \<Rightarrow> bool" where
  "attach_ok env rcont fwi \<longleftrightarrow>
     reads_full (a_fread env) rcont \<and> takes_all (a_fwrite env) fwi \<and>
     (\<forall>f p. fwi f p \<longrightarrow> (\<exists>f'. a_rewind env f = (f', Ok ()) \<and> rcont f' = p)) \<and>
     (\<exists>fp f. a_tmp env = Ok (fp, f) \<and> fwi f []) \<and>
     (\<forall>x. length (a_put env x) = 8 \<and> a_get env (a_put env x) = x)"

lemma reads_fullD: "reads_full rd content \<Longrightarrow> \<exists>s'. rd s n = (s', Ok (take n (content s))) \<and> content s' = drop n (content s)"
  by (simp add: reads_full_def)

lemma reads_full_ok: "reads_full rd content \<Longrightarrow> reads_ok rd content"
  unfolding reads_full_def reads_ok_def
proof (intro allI)
  fix s n
  assume "\<forall>s n. \<exists>s'. rd s n = (s', Ok (take n (content s))) \<and> content s' = drop n (content s)"
  then obtain s' where "rd s n = (s', Ok (take n (content s)))" "content s' = drop n (content s)" by blast
  then show "\<exists>s' bs. rd s n = (s', Ok bs) \<and> content s = bs @ content s' \<and> length bs \<le> n \<and> (0 < n \<longrightarrow> content s \<noteq> [] \<longrightarrow> bs \<noteq> [])"
    by (intro exI [of _ s'] exI [of _ "take n (content s)"]) simp
qed

lemma takes_allD: "takes_all wr wi \<Longrightarrow> wi s p \<Longrightarrow> \<exists>s'. wr bs s = (s', Ok (length bs)) \<and> wi s' (p @ bs)"
  by (simp add: takes_all_def)

lemma takes_all_write_all:
  assumes "takes_all wr wi" and "wi s p"
  shows "\<exists>s'. write_all wr bs s = (s', Ok ()) \<and> wi s' (p @ bs)"
proof (cases "bs = []")
  case True
  then show ?thesis using assms(2) by (subst write_all.simps) simp
next
  case False
  with takes_allD [OF assms, of bs] show ?thesis by (auto simp: write_all.simps [of wr])
qed

section \<open>Frames\<close>

lemma BUFF_pos [simp]: "0 < BUFF_SIZE"
  by (simp add: BUFF_SIZE_def)

lemma write_frames_ok:
  assumes rd: "reads_full rd content" and wr: "takes_all wr wi" and l: "l < BUFF_SIZE"
    and "length (content f) = k * BUFF_SIZE + l" and "wi w p"
  shows "\<exists>w' f'. write_frames rd wr l (Suc k) (w, f) = ((w', f'), Ok ()) \<and> wi w' (p @ content f)"
  using assms(4,5)
proof (induction k arbitrary: f w p)
  case 0
  obtain f' where f': "rd f BUFF_SIZE = (f', Ok (content f))" using reads_fullD [OF rd, of f BUFF_SIZE] 0(1) l by auto
  obtain w' where "wr (content f) w = (w', Ok (length (content f)))" "wi w' (p @ content f)" using takes_allD [OF wr 0(2)] by blast
  then show ?case using f' 0(1) l by simp
next
  case (Suc k)
  let ?b = "take BUFF_SIZE (content f)"
  obtain f' where f': "rd f BUFF_SIZE = (f', Ok ?b)" "content f' = drop BUFF_SIZE (content f)" using reads_fullD [OF rd] by blast
  obtain w' where w': "write_all wr ?b w = (w', Ok ())" "wi w' (p @ ?b)" using takes_all_write_all [OF wr Suc.prems(2)] by blast
  have "length (content f') = k * BUFF_SIZE + l" using Suc.prems(1) f'(2) by simp
  from Suc.IH [OF this w'(2)] show ?case using f' w'(1) Suc.prems(1) by (subst write_frames.simps) auto
qed

text \<open>Reading stops in the right place only when nothing comes behind the attachment.\<close>

lemma read_frames_ok:
  assumes rd: "reads_full rd content" and wr: "takes_all wr wi" and l: "l < BUFF_SIZE"
    and "content r = c @ rest" and "length c = k * BUFF_SIZE + l" and "wi f p"
  shows "\<exists>r' f' x. read_frames rd wr l (Suc k) (r, f) = ((r', f'), x) \<and>
    (if rest = [] \<or> BUFF_SIZE \<le> l + length rest
     then x = Ok () \<and> wi f' (p @ take (Suc k * BUFF_SIZE) (c @ rest)) \<and> content r' = drop (Suc k * BUFF_SIZE) (c @ rest)
     else \<exists>e. x = Err e)"
  using assms(4-6)
proof (induction k arbitrary: r f p c)
  case 0
  let ?b = "take BUFF_SIZE (c @ rest)"
  obtain r' where r': "rd r BUFF_SIZE = (r', Ok ?b)" "content r' = drop BUFF_SIZE (c @ rest)" using reads_fullD [OF rd, of r] 0(1) by metis
  obtain f' where f': "wr ?b f = (f', Ok (length ?b))" "wi f' (p @ ?b)" using takes_allD [OF wr 0(3)] by blast
  show ?case using r' f' 0(2) l by (auto simp: min_def)
next
  case (Suc k)
  let ?b = "take BUFF_SIZE (c @ rest)"
  obtain r' where r': "rd r BUFF_SIZE = (r', Ok ?b)" "content r' = drop BUFF_SIZE (c @ rest)" using reads_fullD [OF rd, of r] Suc.prems(1) by metis
  obtain f' where f': "wr ?b f = (f', Ok (length ?b))" "wi f' (p @ ?b)" using takes_allD [OF wr Suc.prems(3)] by blast
  have b: "?b = take BUFF_SIZE c" "length ?b = BUFF_SIZE" using Suc.prems(2) by simp_all
  have c: "content r' = drop BUFF_SIZE c @ rest" "length (drop BUFF_SIZE c) = k * BUFF_SIZE + l" using r'(2) Suc.prems(2) by simp_all
  have st: "read_frames rd wr l (Suc (Suc k)) (r, f) = read_frames rd wr l (Suc k) (r', f')"
    using r'(1) f'(1) b(2) by (subst read_frames.simps) (simp del: take_append length_take length_append read_frames.simps)
  have d: "drop BUFF_SIZE c @ rest = drop BUFF_SIZE (c @ rest)" using Suc.prems(2) by simp
  have tk: "take (Suc (Suc k) * BUFF_SIZE) (c @ rest) = ?b @ take (Suc k * BUFF_SIZE) (drop BUFF_SIZE c @ rest)"
    "drop (Suc (Suc k) * BUFF_SIZE) (c @ rest) = drop (Suc k * BUFF_SIZE) (drop BUFF_SIZE c @ rest)"
    unfolding d by (simp_all only: mult_Suc take_add drop_drop add.commute append_assoc)
  from Suc.IH [OF c f'(2)] show ?case unfolding st tk by (simp only: append_assoc)
qed

section \<open>Properties\<close>

lemma attach_okD:
  assumes "attach_ok env rcont fwi"
  shows "reads_full (a_fread env) rcont" "takes_all (a_fwrite env) fwi"
    "fwi f p \<Longrightarrow> \<exists>f'. a_rewind env f = (f', Ok ()) \<and> rcont f' = p"
    "\<exists>fp f. a_tmp env = Ok (fp, f) \<and> fwi f []" "length (a_put env x) = 8" "a_get env (a_put env x) = x"
  using assms by (simp_all add: attach_ok_def)

lemma size_split: "length c = length c div BUFF_SIZE * BUFF_SIZE + length c mod BUFF_SIZE"
  by simp

lemma write_attachment_ok:
  assumes ok: "attach_ok env rcont fwi" and wr: "takes_all wr wi" and w: "wi w p"
    and f: "a_open env path = Ok f" "a_len env f = Ok (of_nat (length c))" "a_rewind env f = (f', Ok ())" "rcont f' = c"
    and n: "length c < 2 ^ 64"
  shows "\<exists>w'. msgenc_write_attachment env wr path w = (w', Ok ()) \<and> wi w' (p @ a_put env (of_nat (length c)) @ c)"
proof -
  obtain w1 where w1: "write_all wr (a_put env (of_nat (length c))) w = (w1, Ok ())" "wi w1 (p @ a_put env (of_nat (length c)))"
    using takes_all_write_all [OF wr w] by blast
  have l: "length (rcont f') = length c div BUFF_SIZE * BUFF_SIZE + length c mod BUFF_SIZE" using f(4) size_split by simp
  obtain w' f'' where "write_frames (a_fread env) wr (length c mod BUFF_SIZE) (Suc (length c div BUFF_SIZE)) (w1, f') = ((w', f''), Ok ())"
    "wi w' ((p @ a_put env (of_nat (length c))) @ rcont f')"
    using write_frames_ok [OF attach_okD(1) [OF ok] wr _ l w1(2)] by auto
  then show ?thesis using w1(1) f by (simp add: msgenc_write_attachment_def att_frames [OF n] del: write_frames.simps)
qed

lemma read_attachment_result:
  assumes ok: "attach_ok env rcont fwi" and rd: "reads_full rd content"
    and r: "content r = a_put env (of_nat (length c)) @ c @ rest" and n: "length c < 2 ^ 64"
    and m: "mlen = 0 \<or> length c \<le> unat mlen"
  shows "\<exists>r' x. msgenc_read_attachment env rd mlen r = (r', x) \<and>
    (if rest = [] \<or> BUFF_SIZE \<le> length c mod BUFF_SIZE + length rest
     then \<exists>fp f'. x = Ok (fp, f') \<and> rcont f' = take (Suc (length c div BUFF_SIZE) * BUFF_SIZE) (c @ rest)
     else \<exists>e. x = Err e)"
proof -
  let ?n = "of_nat (length c) :: 64 word" and ?k = "length c div BUFF_SIZE" and ?l = "length c mod BUFF_SIZE"
  obtain r1 where r1: "raw_read_exact rd 8 r = (r1, Ok (a_put env ?n))" "content r1 = c @ rest"
    using raw_read_exact_ok [OF reads_full_ok [OF rd] r attach_okD(5) [OF ok]] by blast
  obtain fp f where f: "a_tmp env = Ok (fp, f)" "fwi f []" using attach_okD(4) [OF ok] by blast
  have big: "\<not> (0 < mlen \<and> mlen < ?n)" using m unat_size [OF n] by (auto simp: word_less_nat_alt)
  obtain r' f' x where fr: "read_frames rd (a_fwrite env) ?l (Suc ?k) (r1, f) = ((r', f'), x)"
    "if rest = [] \<or> BUFF_SIZE \<le> ?l + length rest
     then x = Ok () \<and> fwi f' ([] @ take (Suc ?k * BUFF_SIZE) (c @ rest)) \<and> content r' = drop (Suc ?k * BUFF_SIZE) (c @ rest)
     else \<exists>e. x = Err e"
    using read_frames_ok [OF rd attach_okD(2) [OF ok] _ r1(2) size_split f(2)] by auto
  have eq: "msgenc_read_attachment env rd mlen r =
    (case ((r', f'), x) of
       ((r', f'), Ok _) \<Rightarrow>
         (case a_rewind env f' of (f'', Ok _) \<Rightarrow> (r', Ok (fp, f'')) | (f'', Err e) \<Rightarrow> (r', Err e) | (f'', Panic) \<Rightarrow> (r', Panic))
     | ((r', f'), Err e) \<Rightarrow> (r', Err e)
     | ((r', f'), Panic) \<Rightarrow> (r', Panic))"
    using r1(1) f(1) fr(1) by (simp add: if_not_P [OF big] msgenc_read_attachment_def Let_def attach_okD(6) [OF ok] att_frames [OF n] del: read_frames.simps)
  show ?thesis
  proof (cases "rest = [] \<or> BUFF_SIZE \<le> ?l + length rest")
    case True
    with fr(2) have "x = Ok ()" "fwi f' (take (Suc ?k * BUFF_SIZE) (c @ rest))" by (simp_all only: if_True append_Nil)
    with attach_okD(3) [OF ok this(2)] eq True show ?thesis by (auto simp del: mult_Suc)
  next
    case False
    with fr(2) eq show ?thesis by (auto simp del: mult_Suc)
  qed
qed

text \<open>
  C20. An attachment arrives as it was sent: on streams that give full buffers and take all they are
  given, what \<open>write_attachment\<close> writes is read back by \<open>read_attachment\<close> into a file with the same content, whatever
  its size below the limit, when the stream ends behind it.
\<close>

theorem attachment_roundtrip:
  assumes "attach_ok env rcont fwi" and "takes_all wr wi" and "wi w []" and "reads_full rd content"
    and "a_open env path = Ok f" and "a_len env f = Ok (of_nat (length c))" and "a_rewind env f = (f', Ok ())" and "rcont f' = c"
    and "length c < 2 ^ 64" and "mlen = 0 \<or> length c \<le> unat mlen"
  shows "\<exists>w' bs. msgenc_write_attachment env wr path w = (w', Ok ()) \<and> wi w' bs \<and>
    (\<forall>r. content r = bs \<longrightarrow> (\<exists>r' fp f''. msgenc_read_attachment env rd mlen r = (r', Ok (fp, f'')) \<and> rcont f'' = c))"
proof -
  let ?bs = "a_put env (of_nat (length c)) @ c"
  obtain w' where w': "msgenc_write_attachment env wr path w = (w', Ok ())" "wi w' ?bs"
    using write_attachment_ok [OF assms(1-3,5-9)] by auto
  have "length c < BUFF_SIZE + length c div BUFF_SIZE * BUFF_SIZE" using dividend_less_times_div [OF BUFF_pos, of "length c"] by (simp add: mult.commute)
  then have "\<exists>r' fp f''. msgenc_read_attachment env rd mlen r = (r', Ok (fp, f'')) \<and> rcont f'' = c" if "content r = ?bs" for r
    using read_attachment_result [OF assms(1,4) _ assms(9,10), of r "[]"] that by auto
  with w' show ?thesis by blast
qed

text \<open>
  An attachment that something follows on the stream is never read as it was sent: the last buffer
  is read without regard to what is left of the attachment, so that the call fails, or returns a file
  that ends with bytes that are not of it.
\<close>

theorem attachment_swallows_rest:
  assumes "attach_ok env rcont fwi" and "reads_full rd content" and "content r = a_put env (of_nat (length c)) @ c @ rest"
    and "length c < 2 ^ 64" and "mlen = 0 \<or> length c \<le> unat mlen" and "rest \<noteq> []"
  shows "\<exists>r' x. msgenc_read_attachment env rd mlen r = (r', x) \<and>
    ((\<exists>e. x = Err e) \<or> (\<exists>fp f' k. x = Ok (fp, f') \<and> 0 < k \<and> rcont f' = c @ take k rest \<and> take k rest \<noteq> []))"
proof -
  let ?s = "Suc (length c div BUFF_SIZE) * BUFF_SIZE"
  have s: "length c < ?s" using dividend_less_times_div [OF BUFF_pos, of "length c"] by (simp add: mult.commute)
  then have "take ?s (c @ rest) = c @ take (?s - length c) rest" by simp
  with s assms(6) read_attachment_result [OF assms(1-5)] show ?thesis
    by (cases "rest = [] \<or> BUFF_SIZE \<le> length c mod BUFF_SIZE + length rest") (fastforce simp del: mult_Suc)+
qed

text \<open>An attachment over the limit is refused before any of it is read.\<close>

lemma attachment_too_big:
  assumes "reads_ok rd content" and "content r = a_put env n @ rest" and "length (a_put env n) = 8" and "a_get env (a_put env n) = n"
    and "0 < mlen" and "mlen < n"
  shows "\<exists>r'. msgenc_read_attachment env rd mlen r = (r', Err (Serializing ''Attachment bigger than expected'')) \<and> content r' = rest"
  using raw_read_exact_ok [OF assms(1,2,3)] assms(4-6) by (auto simp: msgenc_read_attachment_def Let_def)

section \<open>Witnesses\<close>

text \<open>Files with a position, and numbers byte by byte.\<close>

fun demo_put :: "nat \<Rightarrow> nat \<Rightarrow> bytes" where
  "demo_put 0 n = []"
| "demo_put (Suc k) n = of_nat (n mod 256) # demo_put k (n div 256)"

fun demo_get :: "bytes \<Rightarrow> nat" where
  "demo_get [] = 0"
| "demo_get (b # bs) = unat b + 256 * demo_get bs"

lemma demo_get_put: "demo_get (demo_put k n) = n mod 256 ^ k"
proof (induction k arbitrary: n)
  case (Suc k)
  have "unat (of_nat (n mod 256) :: u8) = n mod 256" by (simp add: unat_of_nat take_bit_eq_mod)
  then show ?case using Suc by (simp add: mod_mult2_eq)
qed simp

lemma length_demo_put: "length (demo_put k n) = k"
  by (induction k arbitrary: n) simp_all

definition demo_read :: "(bytes \<times> nat) rd" where
  "demo_read = (\<lambda>(d, p) n. ((d, p + n), Ok (take n (drop p d))))"

definition demo_files :: "bytes \<Rightarrow> (unit, bytes \<times> nat) attach_env" where
  "demo_files c =
     \<lparr>a_open = (\<lambda>_. Ok (c, length c)), a_len = (\<lambda>(d, p). Ok (of_nat (length d))), a_rewind = (\<lambda>(d, p). ((d, 0), Ok ())),
      a_fread = demo_read, a_fwrite = (\<lambda>bs (d, p). ((take p d @ bs @ drop (p + length bs) d, p + length bs), Ok (length bs))),
      a_tmp = Ok ((), ([], 0)), a_put = (\<lambda>x. demo_put 8 (unat x)), a_get = (\<lambda>bs. of_nat (demo_get bs))\<rparr>"

definition demo_rest :: "bytes \<times> nat \<Rightarrow> bytes" where
  "demo_rest = (\<lambda>(d, p). drop p d)"

lemma demo_reads: "reads_full demo_read demo_rest"
  by (auto simp: reads_full_def demo_read_def demo_rest_def add.commute)

lemma demo_files_ok: "attach_ok (demo_files c) demo_rest (\<lambda>f p. f = (p, length p))"
proof -
  have "of_nat (demo_get (demo_put 8 (unat x))) = x" for x :: "64 word"
    using unsigned_less [of x, where ?'a = nat] by (simp add: demo_get_put)
  then show ?thesis using demo_reads
    by (simp add: attach_ok_def demo_files_def takes_all_def length_demo_put) (simp add: demo_rest_def)
qed

theorem attachment_roundtrip_witness:
  "\<exists>w' r' f''. msgenc_write_attachment (demo_files [1, 2, 3]) (\<lambda>bs s. (s @ bs, Ok (length bs))) () [] = (w', Ok ()) \<and>
     msgenc_read_attachment (demo_files [1, 2, 3]) demo_read 5 (w', 0) = (r', Ok ((), f'')) \<and> demo_rest f'' = [1, 2, 3]"
proof -
  have "\<exists>w' bs. msgenc_write_attachment (demo_files [1, 2, 3]) (\<lambda>bs s. (s @ bs, Ok (length bs))) () [] = (w', Ok ()) \<and> w' = bs \<and>
    (\<forall>r. demo_rest r = bs \<longrightarrow> (\<exists>r' fp f''. msgenc_read_attachment (demo_files [1, 2, 3]) demo_read 5 r = (r', Ok (fp, f'')) \<and> demo_rest f'' = [1, 2, 3]))"
    by (rule attachment_roundtrip [OF demo_files_ok _ _ demo_reads, where f = "([1, 2, 3], 3)" and f' = "([1, 2, 3], 0)" and mlen = 5])
      (simp_all add: takes_all_def demo_files_def demo_rest_def)
  then obtain bs where "msgenc_write_attachment (demo_files [1, 2, 3]) (\<lambda>bs s. (s @ bs, Ok (length bs))) () [] = (bs, Ok ())"
    "\<And>r. demo_rest r = bs \<Longrightarrow> \<exists>r' fp f''. msgenc_read_attachment (demo_files [1, 2, 3]) demo_read 5 r = (r', Ok (fp, f'')) \<and> demo_rest f'' = [1, 2, 3]"
    by blast
  moreover have "demo_rest (bs, 0) = bs" by (simp add: demo_rest_def)
  ultimately show ?thesis by fastforce
qed

theorem attachment_swallows_rest_witness:
  "\<exists>r' x. msgenc_read_attachment (demo_files []) demo_read 0 (demo_put 8 3 @ [1, 2, 3] @ [4], 0) = (r', x) \<and>
    ((\<exists>e. x = Err e) \<or> (\<exists>fp f' k. x = Ok (fp, f') \<and> 0 < k \<and> demo_rest f' = [1, 2, 3] @ take k [4] \<and> take k [4 :: u8] \<noteq> []))"
  by (rule attachment_swallows_rest [OF demo_files_ok demo_reads]) (simp_all add: demo_rest_def demo_files_def)

end
