(* ===== verification/Udp.thy ===== *)
theory Udp
  imports Extio
begin

text \<open>
  The datagram transport, \<open>mydht-udp/src/lib.rs\<close>.  A message is gathered in the buffer of the writing stream
  and goes out as one datagram when the stream is flushed; the receiver accepts every datagram as
  a stream of its own.  The socket is an argument, with the network as its state.
\<close>

section \<open>Operations\<close>

text \<open>
  The socket: \<open>send_to\<close>, \<open>recv_from\<close> into a buffer of a given size, and \<open>try_clone\<close>.
\<close>

record ('n, 'a) udp_sock =
  sock_send_to :: "bytes \<Rightarrow> 'a \<Rightarrow> 'n \<Rightarrow> 'n \<times> nat outcome"
  sock_recv_from :: "nat \<Rightarrow> 'n \<Rightarrow> 'n \<times> (bytes \<times> 'a) outcome"
  sock_try_clone :: "unit outcome"

record ('n, 'a) udp =
  udp_sock :: "('n, 'a) udp_sock"
  buffsize :: nat

type_synonym read_udp_stream = bytes

record ('n, 'a) udp_stream =
  us_sock :: "('n, 'a) udp_sock"
  us_with :: 'a
  us_buf :: bytes
  us_maxsize :: nat

definition udp_new :: "('a \<Rightarrow> ('n, 'a) udp_sock outcome) \<Rightarrow> 'a \<Rightarrow> nat \<Rightarrow> ('n, 'a) udp outcome" where
  "udp_new bind_sock p s = and_then (bind_sock p) (\<lambda>socket. Ok \<lparr>udp_sock = socket, buffsize = s\<rparr>)"

definition udp_write :: "bytes \<Rightarrow> ('n, 'a) udp_stream \<Rightarrow> ('n, 'a) udp_stream \<times> nat outcome" where
  "udp_write bs s =
     (if us_maxsize s < length (us_buf s) + length bs then (s, Err (Io ''Udp writer buffer full''))
      else (s\<lparr>us_buf := us_buf s @ bs\<rparr>, Ok (length bs)))"

definition udp_flush :: "('n, 'a) udp_stream \<times> 'n \<Rightarrow> (('n, 'a) udp_stream \<times> 'n) \<times> unit outcome" where
  "udp_flush = (\<lambda>(s, net).
     case sock_send_to (us_sock s) (us_buf s) (us_with s) net of
       (net', Ok _) \<Rightarrow> ((s\<lparr>us_buf := []\<rparr>, net'), Ok ())
     | (net', Err e) \<Rightarrow> ((s, net'), Err e)
     | (net', Panic) \<Rightarrow> ((s, net'), Panic))"

text \<open>\<open>read\<close> into a buffer of \<open>l\<close> bytes.\<close>

definition udp_read :: "nat \<Rightarrow> read_udp_stream \<Rightarrow> read_udp_stream \<times> bytes outcome" where
  "udp_read l s =
     (if 0 < l then if length s < l then ([], Ok s) else (drop l s, Ok (take l s)) else (s, Ok []))"

text \<open>No part of the transport is registered with the poll.\<close>

definition udp_register :: "'po \<Rightarrow> 'tok \<Rightarrow> bool outcome" where
  "udp_register poll tok = Ok False"

definition udp_deregister :: "'po \<Rightarrow> unit outcome" where
  "udp_deregister poll = Ok ()"

definition udp_accept :: "('n, 'a) udp \<Rightarrow> 'n \<Rightarrow> 'n \<times> (read_udp_stream \<times> ('n, 'a) udp_stream option) outcome" where
  "udp_accept t net =
     (case sock_recv_from (udp_sock t) (buffsize t) net of
        (net', Ok (bs, _)) \<Rightarrow> if length bs < buffsize t then (net', Ok (bs, None)) else (net', Err ExpectedError)
      | (net', Err e) \<Rightarrow> (net', Err e)
      | (net', Panic) \<Rightarrow> (net', Panic))"

definition udp_connectwith :: "('n, 'a) udp \<Rightarrow> 'a \<Rightarrow> (('n, 'a) udp_stream \<times> read_udp_stream option) outcome" where
  "udp_connectwith t p =
     and_then (sock_try_clone (udp_sock t)) (\<lambda>_.
       Ok (\<lparr>us_sock = udp_sock t, us_with = p, us_buf = [], us_maxsize = buffsize t\<rparr>, None))"

definition udp_disconnect :: "unit outcome" where
  "udp_disconnect = Ok ()"

definition udp_rec_end_condition :: "read_udp_stream \<Rightarrow> bool" where
  "udp_rec_end_condition s = True"

section \<open>Contract of the network\<close>

text \<open>
  A network that keeps datagrams: what is sent to an address waits there, and is received there in
  order, cut off at the size of the buffer.
\<close>

definition sock_delivers :: "('n \<Rightarrow> 'a \<Rightarrow> bytes list) \<Rightarrow> ('n, 'a) udp_sock \<Rightarrow> bool" where
  "sock_delivers inbox s \<longleftrightarrow>
     (\<forall>bs a net. \<exists>net' k. sock_send_to s bs a net = (net', Ok k) \<and> inbox net' = (inbox net)(a := inbox net a @ [bs]))"

definition sock_receives :: "('n \<Rightarrow> 'a \<Rightarrow> bytes list) \<Rightarrow> 'a \<Rightarrow> ('n, 'a) udp_sock \<Rightarrow> bool" where
  "sock_receives inbox me s \<longleftrightarrow>
     (\<forall>n net d ds. inbox net me = d # ds \<longrightarrow>
        (\<exists>net' from. sock_recv_from s n net = (net', Ok (take n d, from)) \<and> inbox net' = (inbox net)(me := ds)))"

section \<open>Reading and writing\<close>

interpretation udpr: ext_read "\<lambda>n s. Some (udp_read n s)" "(=)"
  by unfold_locales (auto simp: udp_read_def)

lemma udp_write_all:
  "write_all udp_write c s =
     (if c = [] \<or> length (us_buf s) + length c \<le> us_maxsize s then (s\<lparr>us_buf := us_buf s @ c\<rparr>, Ok ())
      else (s, Err (Io ''Udp writer buffer full'')))"
  by (simp add: write_all.simps [of udp_write] udp_write_def)

lemma udp_write_chunks:
  "length (us_buf s) + length (concat cs) \<le> us_maxsize s \<Longrightarrow>
    write_chunks udp_write cs s = (s\<lparr>us_buf := us_buf s @ concat cs\<rparr>, Ok ())"
  by (induction cs arbitrary: s) (simp_all add: udp_write_all)

lemma udp_exchange:
  assumes net: "sock_delivers inbox (udp_sock t)" "sock_receives inbox me (udp_sock t')" "inbox n me = []"
    and conn: "udp_connectwith t me = Ok (s, ro)" and fits: "length (concat cs) \<le> buffsize t"
  shows "\<exists>s1 n1 n2. write_chunks udp_write cs s = (s1, Ok ()) \<and> udp_flush (s1, n) = ((s, n1), Ok ()) \<and>
    udp_accept t' n1 = (n2, if length (concat cs) < buffsize t' then Ok (concat cs, None) else Err ExpectedError) \<and>
    inbox n2 = inbox n"
proof -
  have s: "us_sock s = udp_sock t" "us_with s = me" "us_buf s = []" "us_maxsize s = buffsize t"
    using conn by (cases "sock_try_clone (udp_sock t)"; auto simp: udp_connectwith_def)+
  let ?s1 = "s\<lparr>us_buf := concat cs\<rparr>"
  have w: "write_chunks udp_write cs s = (?s1, Ok ())" using udp_write_chunks [of s cs] s fits by simp
  obtain n1 k where n1: "sock_send_to (udp_sock t) (concat cs) me n = (n1, Ok k)" "inbox n1 = (inbox n)(me := [concat cs])"
    using net(1,3) unfolding sock_delivers_def by fastforce
  have fl: "udp_flush (?s1, n) = ((s, n1), Ok ())" using n1(1) s by (simp add: udp_flush_def)
  obtain n2 a where n2: "sock_recv_from (udp_sock t') (buffsize t') n1 = (n2, Ok (take (buffsize t') (concat cs), a))"
    "inbox n2 = (inbox n1)(me := [])"
    using net(2) n1(2) unfolding sock_receives_def by (metis fun_upd_same)
  have "inbox n2 = inbox n" using n1(2) n2(2) net(3) by (auto simp: fun_eq_iff)
  moreover have "udp_accept t' n1 = (n2, if length (concat cs) < buffsize t' then Ok (concat cs, None) else Err ExpectedError)"
    using n2(1) by (simp add: udp_accept_def)
  ultimately show ?thesis using w fl by blast
qed

section \<open>Properties\<close>

text \<open>
  A message that is smaller than the buffers of both sides, written in any pieces and flushed,
  arrives as one stream and is read back whole, in any pieces; the writing stream is left as it
  was.
\<close>

theorem udp_message_roundtrip:
  assumes "sock_delivers inbox (udp_sock t)" and "sock_receives inbox me (udp_sock t')" and "inbox n me = []"
    and "udp_connectwith t me = Ok (s, ro)" and "length (concat cs) \<le> buffsize t" and "length (concat cs) < buffsize t'"
    and "sum_list ns = length (concat cs)"
  shows "\<exists>s1 n1 n2 rs outs. write_chunks udp_write cs s = (s1, Ok ()) \<and> udp_flush (s1, n) = ((s, n1), Ok ()) \<and>
    udp_accept t' n1 = (n2, Ok (rs, None)) \<and> read_pieces (\<lambda>k r. Some (udp_read k r)) ns rs = Some ([], Ok outs) \<and>
    concat outs = concat cs \<and> map length outs = ns"
proof -
  obtain s1 n1 n2 where x: "write_chunks udp_write cs s = (s1, Ok ())" "udp_flush (s1, n) = ((s, n1), Ok ())"
    "udp_accept t' n1 = (n2, Ok (concat cs, None))"
    using udp_exchange [OF assms(1-5)] assms(6) by auto
  obtain outs where "read_pieces (\<lambda>k r. Some (udp_read k r)) ns (concat cs) = Some ([], Ok outs)" "concat outs = concat cs" "map length outs = ns"
    using udpr.read_pieces_ok [of "concat cs" "concat cs" ns] assms(7) by auto
  with x show ?thesis by blast
qed

text \<open>
  A message as long as the buffer is written and sent without an error, but a receiver with the same
  configuration refuses it and it is lost.
\<close>

theorem udp_full_message_lost:
  assumes "sock_delivers inbox (udp_sock t)" and "sock_receives inbox me (udp_sock t')" and "inbox n me = []"
    and "udp_connectwith t me = Ok (s, ro)" and "length (concat cs) = buffsize t" and "buffsize t' = buffsize t"
  shows "\<exists>s1 n1 n2. write_chunks udp_write cs s = (s1, Ok ()) \<and> udp_flush (s1, n) = ((s, n1), Ok ()) \<and>
    udp_accept t' n1 = (n2, Err ExpectedError) \<and> inbox n2 me = []"
proof -
  have fits: "length (concat cs) \<le> buffsize t" using assms(5) by simp
  from udp_exchange [OF assms(1-4) fits] assms(3,5,6) show ?thesis by auto
qed

text \<open>
  A message that does not fit is refused, but what was written of it stays in the buffer and goes out
  in front of what is written next.
\<close>

lemma udp_rest_sent_first:
  assumes "length (us_buf s) + length c \<le> us_maxsize s" and "us_maxsize s < length (us_buf s) + length c + length c2"
  shows "write_chunks udp_write [c, c2] s = (s\<lparr>us_buf := us_buf s @ c\<rparr>, Err (Io ''Udp writer buffer full''))"
  using assms by (auto simp: udp_write_all)

section \<open>Witnesses\<close>

definition demo_sock :: "(bytes list, unit) udp_sock" where
  "demo_sock =
     \<lparr>sock_send_to = (\<lambda>bs a net. (net @ [bs], Ok (length bs))),
      sock_recv_from = (\<lambda>n net. (tl net, Ok (take n (hd net), ()))), sock_try_clone = Ok ()\<rparr>"

lemma demo_sock_ok: "sock_delivers (\<lambda>net _. net) demo_sock" "sock_receives (\<lambda>net _. net) () demo_sock"
  by (auto simp: sock_delivers_def sock_receives_def demo_sock_def)

abbreviation demo_udp_w :: "(bytes list, unit) udp_stream" where
  "demo_udp_w \<equiv> \<lparr>us_sock = demo_sock, us_with = (), us_buf = [], us_maxsize = 4\<rparr>"

theorem udp_message_roundtrip_witness:
  "\<exists>s1 n1 n2 rs outs. write_chunks udp_write [[1], [2, 3]] demo_udp_w = (s1, Ok ()) \<and> udp_flush (s1, []) = ((demo_udp_w, n1), Ok ()) \<and>
    udp_accept \<lparr>udp_sock = demo_sock, buffsize = 4\<rparr> n1 = (n2, Ok (rs, None)) \<and>
    read_pieces (\<lambda>k r. Some (udp_read k r)) [2, 1] rs = Some ([], Ok outs) \<and> concat outs = concat [[1], [2, 3]] \<and> map length outs = [2, 1]"
  using demo_sock_ok
  by (intro udp_message_roundtrip [where inbox = "\<lambda>net _. net" and me = "()" and t = "\<lparr>udp_sock = demo_sock, buffsize = 4\<rparr>" and ro = None])
    (simp_all add: udp_connectwith_def, simp add: demo_sock_def)

theorem udp_full_message_lost_witness:
  "\<exists>s1 n1 n2. write_chunks udp_write [[1], [2, 3, 4]] demo_udp_w = (s1, Ok ()) \<and> udp_flush (s1, []) = ((demo_udp_w, n1), Ok ()) \<and>
    udp_accept \<lparr>udp_sock = demo_sock, buffsize = 4\<rparr> n1 = (n2, Err ExpectedError) \<and> n2 = []"
  using demo_sock_ok
  by (intro udp_full_message_lost [where inbox = "\<lambda>net _. net" and me = "()" and t = "\<lparr>udp_sock = demo_sock, buffsize = 4\<rparr>" and ro = None])
    (simp_all add: udp_connectwith_def, simp add: demo_sock_def)

end
