(* ===== verification/Localtransport.thy ===== *)
theory Localtransport
  imports Extio
begin

text \<open>
  The transport between threads of one program, \<open>TransportTest\<close> of \<open>mydht-basetest/src/local_transport.rs\<close>, over which the
  tests run whole nodes.

  All connections to a transport share one channel.  A message carries the address of its sender
  and the number of the connection, and \<open>accept\<close> hands it to the channel of the reader of that
  connection; a message without content announces a new connection.  The transports live as long as the
  program, so that sending to one does not fail.
\<close>

section \<open>State\<close>

text \<open>A channel of the standard library: what waits in it, and whether its receiver is still there.\<close>

record chan =
  ch_queue :: "bytes list"
  ch_open :: bool

type_synonym lmsg = "nat \<times> nat \<times> nat \<times> bytes"

text \<open>
  A reader is at a transport, for connections received from a peer or made with it, by the address
  of the peer and the index of the connection.
\<close>

datatype con_kind = ConFrom | ConWith

type_synonym con_id = "nat \<times> con_kind \<times> nat \<times> nat"

text \<open>
  The transports together: how many, the channel each receives from, and the senders to its
  readers, which are empty vectors when the transports are not managed.
\<close>

record lworld =
  lw_nb :: nat
  lw_recv :: "nat \<Rightarrow> lmsg list"
  lw_cli :: "nat \<Rightarrow> con_kind \<Rightarrow> chan list list"

record transport_test =
  multiplex :: bool
  managed :: bool
  tt_address :: nat

record local_read_stream =
  lr_chan :: "con_id option"
  lr_buf :: bytes
  lr_conn :: bool
  lr_managed :: bool

record local_write_stream =
  ls_addr :: nat
  ls_from :: nat
  ls_with :: nat
  ls_dest :: nat
  ls_conn :: bool

definition create_transport :: "nat \<Rightarrow> bool \<Rightarrow> bool \<Rightarrow> transport_test list \<times> lworld" where
  "create_transport nb mux mng =
     (map (\<lambda>i. \<lparr>multiplex = mux, managed = mng, tt_address = i\<rparr>) [0..<nb],
      \<lparr>lw_nb = nb, lw_recv = (\<lambda>_. []), lw_cli = (\<lambda>_ _. if mng then replicate nb [] else [])\<rparr>)"

section \<open>Operations\<close>

definition send_msg :: "nat \<Rightarrow> lmsg \<Rightarrow> lworld \<Rightarrow> lworld" where
  "send_msg dest m w = w\<lparr>lw_recv := (lw_recv w)(dest := lw_recv w dest @ [m])\<rparr>"

definition set_cli :: "nat \<Rightarrow> con_kind \<Rightarrow> chan list list \<Rightarrow> lworld \<Rightarrow> lworld" where
  "set_cli t k cs w = w\<lparr>lw_cli := (lw_cli w)(t := (lw_cli w t)(k := cs))\<rparr>"

text \<open>
  \<open>accept\<close>; without a message the call waits, which is \<open>None\<close>.  The index \<open>nbcon - 1\<close> does not exist for zero, with
  overflow checks and without.
\<close>

definition accept_msg :: "transport_test \<Rightarrow> lmsg \<Rightarrow> lworld \<Rightarrow> lworld \<times> (local_read_stream \<times> local_write_stream option) outcome" where
  "accept_msg tr = (\<lambda>(addr, nbcon_from, nbcon_with, content) w.
     if content \<noteq> []
     then
       if \<not> (nbcon_with = 0 \<or> nbcon_from = 0) then (w, Panic)
       else
         let (k, nbcon) = (if nbcon_with = 0 then (ConFrom, nbcon_from) else (ConWith, nbcon_with));
             clis = lw_cli w (tt_address tr) k in
         if addr < length clis
         then
           if nbcon = 0 \<or> length (clis ! addr) < nbcon then (w, Panic)
           else
             let c = clis ! addr ! (nbcon - 1) in
             if ch_open c
             then (set_cli (tt_address tr) k (clis[addr := (clis ! addr)[nbcon - 1 := c\<lparr>ch_queue := ch_queue c @ [content]\<rparr>]]) w, Err ExpectedError)
             else (w, Err (ChannelSend ''send''))
         else if managed tr then (w, Panic)
         else (w, Ok (\<lparr>lr_chan = None, lr_buf = content, lr_conn = True, lr_managed = managed tr\<rparr>, None))
     else if nbcon_with \<noteq> 0 \<or> \<not> managed tr then (w, Panic)
     else
       let clis = lw_cli w (tt_address tr) ConFrom in
       if length clis \<le> addr then (w, Panic)
       else
         let cur = clis ! addr @ [\<lparr>ch_queue = [], ch_open = True\<rparr>]; nbcon = length cur;
             w' = set_cli (tt_address tr) ConFrom (clis[addr := cur]) w in
         if nbcon \<noteq> nbcon_from then (w', Panic)
         else
           let locread = \<lparr>lr_chan = Some (tt_address tr, ConFrom, addr, nbcon - 1), lr_buf = [], lr_conn = True, lr_managed = managed tr\<rparr> in
           if multiplex tr
           then
             if lw_nb w \<le> addr then (w', Panic)
             else (w', Ok (locread, Some \<lparr>ls_addr = tt_address tr, ls_from = 0, ls_with = nbcon, ls_dest = addr, ls_conn = True\<rparr>))
           else (w', Ok (locread, None)))"

definition local_accept :: "transport_test \<Rightarrow> lworld \<Rightarrow> (lworld \<times> (local_read_stream \<times> local_write_stream option) outcome) option" where
  "local_accept tr w =
     (case lw_recv w (tt_address tr) of
        [] \<Rightarrow> None
      | m # ms \<Rightarrow> Some (accept_msg tr m (w\<lparr>lw_recv := (lw_recv w)(tt_address tr := ms)\<rparr>)))"

text \<open>The receiver of a connection that is not multiplexed is dropped at once.\<close>

definition local_connectwith :: "transport_test \<Rightarrow> nat \<Rightarrow> lworld \<Rightarrow> lworld \<times> (local_write_stream \<times> local_read_stream option) outcome" where
  "local_connectwith tr address w =
     (if managed tr
      then
        let clis = lw_cli w (tt_address tr) ConWith in
        if length clis \<le> address then (w, Panic)
        else
          let cur = clis ! address @ [\<lparr>ch_queue = [], ch_open = multiplex tr\<rparr>]; nbcon = length cur;
              w' = set_cli (tt_address tr) ConWith (clis[address := cur]) w;
              locread = (if multiplex tr
                then Some \<lparr>lr_chan = Some (tt_address tr, ConWith, address, nbcon - 1), lr_buf = [], lr_conn = True, lr_managed = managed tr\<rparr>
                else None) in
          if lw_nb w \<le> address then (w', Panic)
          else (send_msg address (tt_address tr, nbcon, 0, []) w',
                Ok (\<lparr>ls_addr = tt_address tr, ls_from = nbcon, ls_with = 0, ls_dest = address, ls_conn = True\<rparr>, locread))
      else if lw_nb w \<le> address then (w, Panic)
      else (w, Ok (\<lparr>ls_addr = tt_address tr, ls_from = 0, ls_with = 0, ls_dest = address, ls_conn = True\<rparr>, None)))"

definition local_write :: "bytes \<Rightarrow> local_write_stream \<times> lworld \<Rightarrow> (local_write_stream \<times> lworld) \<times> nat outcome" where
  "local_write bs = (\<lambda>(s, w).
     if \<not> ls_conn s then ((s, w), Err (Io ''Closed writer''))
     else ((s, send_msg (ls_dest s) (ls_addr s, ls_from s, ls_with s, bs) w), Ok (length bs)))"

text \<open>\<open>recv().unwrap()\<close> on the channel of a reader: it waits for a message, and panics when the sender is gone.\<close>

definition chan_recv :: "con_id option \<Rightarrow> lworld \<Rightarrow> (lworld \<times> bytes outcome) option" where
  "chan_recv oc w =
     (case oc of
        None \<Rightarrow> Some (w, Panic)
      | Some (t, k, a, x) \<Rightarrow>
          let clis = lw_cli w t k in
          (case ch_queue (clis ! a ! x) of
             [] \<Rightarrow> None
           | c # q \<Rightarrow> Some (set_cli t k (clis[a := (clis ! a)[x := (clis ! a ! x)\<lparr>ch_queue := q\<rparr>]]) w, Ok c)))"

definition local_read ::
    "nat \<Rightarrow> local_read_stream \<times> lworld \<Rightarrow> ((local_read_stream \<times> lworld) \<times> bytes outcome) option" where
  "local_read n = (\<lambda>(r, w).
     if \<not> lr_conn r then Some ((r, w), Err (Io ''Closed reader''))
     else if \<not> lr_managed r \<and> lr_buf r = [] then Some ((r, w), Err (Io ''reader empty for non managed''))
     else map_option (\<lambda>(w', got).
       case got of
         Ok from \<Rightarrow> ((r\<lparr>lr_buf := drop n from\<rparr>, w'), Ok (take n from))
       | Err e \<Rightarrow> ((r, w'), Err e)
       | Panic \<Rightarrow> ((r, w'), Panic))
       (if lr_buf r \<noteq> [] then Some (w, Ok (lr_buf r)) else chan_recv (lr_chan r) w))"

definition local_r_disconnect :: "local_read_stream \<Rightarrow> local_read_stream \<times> unit outcome" where
  "local_r_disconnect r = (r\<lparr>lr_conn := False\<rparr>, Ok ())"

definition local_w_disconnect :: "local_write_stream \<Rightarrow> local_write_stream \<times> unit outcome" where
  "local_w_disconnect s = (s\<lparr>ls_conn := False\<rparr>, Ok ())"

definition local_rec_end_condition :: "local_read_stream \<Rightarrow> bool" where
  "local_rec_end_condition r = (\<not> lr_managed r)"

definition local_end_read_msg :: "local_read_stream \<Rightarrow> local_read_stream" where
  "local_end_read_msg r = (if \<not> lr_managed r then r\<lparr>lr_conn := False\<rparr> else r)"

section \<open>What waits for a reader\<close>

text \<open>The messages for a reader, and the bytes on their way to it: in its channel, and in the channel its connection shares.\<close>

fun carries :: "con_id \<Rightarrow> lmsg \<Rightarrow> bool" where
  "carries (t, ConFrom, a, x) (addr, nf, nw, c) = (c \<noteq> [] \<and> addr = a \<and> nf = Suc x \<and> nw = 0)"
| "carries (t, ConWith, a, x) (addr, nf, nw, c) = (c \<noteq> [] \<and> addr = a \<and> nf = 0 \<and> nw = Suc x)"

fun chan_ok :: "lworld \<Rightarrow> con_id \<Rightarrow> bool" where
  "chan_ok w (t, k, a, x) = (a < length (lw_cli w t k) \<and> x < length (lw_cli w t k ! a) \<and> ch_open (lw_cli w t k ! a ! x))"

fun queue_of :: "lworld \<Rightarrow> con_id \<Rightarrow> bytes list" where
  "queue_of w (t, k, a, x) = ch_queue (lw_cli w t k ! a ! x)"

fun in_flight :: "lworld \<Rightarrow> con_id \<Rightarrow> bytes list" where
  "in_flight w (t, k, a, x) = map (\<lambda>(addr, nf, nw, c). c) (filter (carries (t, k, a, x)) (lw_recv w t))"

definition pending :: "lworld \<Rightarrow> con_id \<Rightarrow> bytes" where
  "pending w cid = concat (queue_of w cid) @ concat (in_flight w cid)"

fun feeds :: "local_write_stream \<Rightarrow> con_id \<Rightarrow> bool" where
  "feeds s (t, k, a, x) = (ls_dest s = t \<and> carries (t, k, a, x) (ls_addr s, ls_from s, ls_with s, [0]))"

lemma carries_content: "c \<noteq> [] \<Longrightarrow> carries (t, k, a, x) (addr, nf, nw, c) = carries (t, k, a, x) (addr, nf, nw, [0])"
  by (cases k) auto

lemma set_cli_simps [simp]:
  "lw_recv (set_cli t k cs w) = lw_recv w" "lw_nb (set_cli t k cs w) = lw_nb w"
  "lw_cli (set_cli t k cs w) t' k' = (if t' = t \<and> k' = k then cs else lw_cli w t' k')"
  by (simp_all add: set_cli_def)

lemma send_msg_simps [simp]:
  "lw_recv (send_msg d m w) t = (if t = d then lw_recv w t @ [m] else lw_recv w t)" "lw_cli (send_msg d m w) = lw_cli w"
  by (simp_all add: send_msg_def)

lemma write_pending:
  assumes "local_write bs (s, w) = ((s', w'), Ok n)" and "bs \<noteq> []"
  shows "s' = s \<and> pending w' (t, k, a, x) = pending w (t, k, a, x) @ (if feeds s (t, k, a, x) then bs else []) \<and>
    (chan_ok w (t, k, a, x) \<longrightarrow> chan_ok w' (t, k, a, x))"
proof -
  have w': "s' = s" "w' = send_msg (ls_dest s) (ls_addr s, ls_from s, ls_with s, bs) w"
    using assms(1) by (auto simp: local_write_def split: if_splits)
  show ?thesis using carries_content [OF assms(2), of "ls_dest s" k a x "ls_addr s" "ls_from s" "ls_with s"] unfolding w' by (auto simp: pending_def)
qed

text \<open>A change of one channel, a new channel at the end, and what is taken out.\<close>

lemma chan_update:
  assumes "chan_ok w (t, k, a, x)" and "cs = lw_cli w t' k'" and "ch_open c" and "(t', k', a', x') \<noteq> (t, k, a, x)"
  shows "queue_of (set_cli t' k' (cs[a' := (cs ! a')[x' := c]]) w) (t, k, a, x) = queue_of w (t, k, a, x) \<and>
    chan_ok (set_cli t' k' (cs[a' := (cs ! a')[x' := c]]) w) (t, k, a, x)"
  using assms by (cases "a' = a") (auto simp: nth_list_update)

lemma chan_push:
  assumes "chan_ok w (t, k, a, x)" and "cs = lw_cli w t' k'"
  shows "queue_of (set_cli t' k' (cs[a' := cs ! a' @ [c]]) w) (t, k, a, x) = queue_of w (t, k, a, x) \<and>
    chan_ok (set_cli t' k' (cs[a' := cs ! a' @ [c]]) w) (t, k, a, x)"
  using assms by (cases "a' = a") (auto simp: nth_list_update nth_append)

text \<open>The reader a message with content goes to.\<close>

fun target :: "nat \<Rightarrow> lmsg \<Rightarrow> con_id" where
  "target t (addr, nf, nw, c) = (if nw = 0 then (t, ConFrom, addr, nf - 1) else (t, ConWith, addr, nw - 1))"

lemma carries_target: "carries (t, k, a, x) m \<Longrightarrow> target t m = (t, k, a, x) \<and> snd (snd (snd m)) \<noteq> []"
  by (cases m; cases k) auto

lemma accept_content:
  assumes "accept_msg tr m w = (w', res)" and "snd (snd (snd m)) \<noteq> []" and "target (tt_address tr) m = (t, k, a, x)"
  shows "w' = w \<and> \<not> (chan_ok w (t, k, a, x) \<and> carries (t, k, a, x) m) \<or>
    chan_ok w (t, k, a, x) \<and> carries (t, k, a, x) m \<and>
      w' = set_cli t k ((lw_cli w t k)[a := (lw_cli w t k ! a)
         [x := (lw_cli w t k ! a ! x)\<lparr>ch_queue := ch_queue (lw_cli w t k ! a ! x) @ [snd (snd (snd m))]\<rparr>]]) w"
proof -
  obtain addr nf nw c where m: "m = (addr, nf, nw, c)" by (cases m)
  show ?thesis
  proof (cases "nw = 0")
    case True
    then have "t = tt_address tr" "k = ConFrom" "a = addr" "x = nf - 1" using assms(3) m by auto
    then show ?thesis using True assms(1,2) m by (cases nf) (auto simp: accept_msg_def Let_def split: if_splits)
  next
    case False
    then have "t = tt_address tr" "k = ConWith" "a = addr" "x = nw - 1" using assms(3) m by auto
    then show ?thesis using False assms(1,2) m by (cases nw) (auto simp: accept_msg_def Let_def split: if_splits)
  qed
qed

lemma accept_msg_queue:
  assumes "accept_msg tr m w = (w', res)" and "chan_ok w (t, k, a, x)"
  shows "lw_recv w' = lw_recv w \<and> chan_ok w' (t, k, a, x) \<and>
    queue_of w' (t, k, a, x) =
      queue_of w (t, k, a, x) @ (if t = tt_address tr \<and> carries (t, k, a, x) m then [snd (snd (snd m))] else [])"
proof (cases "snd (snd (snd m)) = []")
  case True
  obtain addr nf nw c where m: "m = (addr, nf, nw, c)" by (cases m)
  then have nc: "\<not> carries (t, k, a, x) m" using True by (cases k) auto
  let ?t = "tt_address tr" and ?c = "\<lparr>ch_queue = [], ch_open = True\<rparr>"
  have "w' = w \<or> w' = set_cli ?t ConFrom ((lw_cli w ?t ConFrom)[addr := lw_cli w ?t ConFrom ! addr @ [?c]]) w"
    using assms(1) True m by (auto simp: accept_msg_def Let_def split: if_splits)
  then show ?thesis using chan_push [OF assms(2) refl, of ?t ConFrom addr ?c] assms(2) nc by auto
next
  case False
  obtain t2 k2 a2 x2 where tg: "target (tt_address tr) m = (t2, k2, a2, x2)" by (cases "target (tt_address tr) m")
  from accept_content [OF assms(1) False tg] show ?thesis
  proof (elim disjE conjE)
    assume w: "w' = w" and no: "\<not> (chan_ok w (t2, k2, a2, x2) \<and> carries (t2, k2, a2, x2) m)"
    have "\<not> (t = tt_address tr \<and> carries (t, k, a, x) m)" using no assms(2) carries_target [of t k a x m] tg by auto
    with w assms(2) show ?thesis by (simp only: if_False append_Nil2 simp_thms)
  next
    let ?c = "lw_cli w t2 k2 ! a2 ! x2"
    assume ok: "chan_ok w (t2, k2, a2, x2)" "carries (t2, k2, a2, x2) m"
      and w: "w' = set_cli t2 k2 ((lw_cli w t2 k2)[a2 := (lw_cli w t2 k2 ! a2)[x2 := ?c\<lparr>ch_queue := ch_queue ?c @ [snd (snd (snd m))]\<rparr>]]) w"
    have t2: "t2 = tt_address tr" using tg by (cases m) (auto split: if_splits)
    show ?thesis
    proof (cases "(t2, k2, a2, x2) = (t, k, a, x)")
      case True
      then show ?thesis using ok t2 unfolding w by simp
    next
      case ne: False
      then have no: "\<not> (t = tt_address tr \<and> carries (t, k, a, x) m)" using carries_target [of t k a x m] tg by auto
      have "ch_open (?c\<lparr>ch_queue := ch_queue ?c @ [snd (snd (snd m))]\<rparr>)" using ok(1) by simp
      from chan_update [OF assms(2) refl this ne] show ?thesis
        unfolding w if_not_P [OF no] append_Nil2 by (simp del: chan_ok.simps queue_of.simps)
    qed
  qed
qed

lemma accept_pending:
  assumes "local_accept tr w = Some (w', res)" and "chan_ok w (t, k, a, x)"
  shows "pending w' (t, k, a, x) = pending w (t, k, a, x) \<and> chan_ok w' (t, k, a, x)"
proof -
  obtain m ms where m: "lw_recv w (tt_address tr) = m # ms"
    "accept_msg tr m (w\<lparr>lw_recv := (lw_recv w)(tt_address tr := ms)\<rparr>) = (w', res)"
    using assms(1) by (auto simp: local_accept_def split: list.splits)
  let ?w1 = "w\<lparr>lw_recv := (lw_recv w)(tt_address tr := ms)\<rparr>"
  have "chan_ok ?w1 (t, k, a, x)" using assms(2) by simp
  note q = accept_msg_queue [OF m(2) this]
  have "queue_of ?w1 (t, k, a, x) = queue_of w (t, k, a, x)" by simp
  with q m(1) show ?thesis
    by (cases m) (auto simp: pending_def simp del: queue_of.simps chan_ok.simps)
qed

lemma connect_pending:
  assumes "local_connectwith tr b w = (w', res)" and "chan_ok w (t, k, a, x)"
  shows "pending w' (t, k, a, x) = pending w (t, k, a, x) \<and> chan_ok w' (t, k, a, x)"
proof -
  let ?t = "tt_address tr" and ?c = "\<lparr>ch_queue = [], ch_open = multiplex tr\<rparr>"
  let ?w1 = "set_cli ?t ConWith ((lw_cli w ?t ConWith)[b := lw_cli w ?t ConWith ! b @ [?c]]) w"
  have "w' = w \<or> w' = ?w1 \<or> (\<exists>n. w' = send_msg b (?t, n, 0, []) ?w1)"
    using assms(1) by (auto simp: local_connectwith_def Let_def split: if_splits)
  moreover have "\<not> carries (t, k, a, x) (?t, n, 0, [])" for n by (cases k) auto
  ultimately show ?thesis using chan_push [OF assms(2) refl, of ?t ConWith b ?c] assms(2) by (auto simp: pending_def)
qed

lemma read_pending:
  assumes "local_read n (r, w) = Some ((r', w'), Ok out)" and "lr_chan r = Some (t, k, a, x)" and "chan_ok w (t, k, a, x)"
  shows "out @ lr_buf r' @ pending w' (t, k, a, x) = lr_buf r @ pending w (t, k, a, x) \<and> lr_chan r' = Some (t, k, a, x) \<and> chan_ok w' (t, k, a, x)"
proof (cases "lr_buf r = []")
  case False
  then show ?thesis using assms by (auto simp: local_read_def split: if_splits)
next
  case True
  then obtain c q where q: "ch_queue (lw_cli w t k ! a ! x) = c # q" "out = take n c" "r' = r\<lparr>lr_buf := drop n c\<rparr>"
    "w' = set_cli t k ((lw_cli w t k)[a := (lw_cli w t k ! a)[x := (lw_cli w t k ! a ! x)\<lparr>ch_queue := q\<rparr>]]) w"
    using assms(1,2) by (auto simp: local_read_def chan_recv_def Let_def split: if_splits list.splits)
  then show ?thesis using True assms(2,3) by (simp add: pending_def)
qed

lemma other_read_pending:
  assumes "local_read n (r, w) = Some ((r', w'), res)" and "lr_chan r \<noteq> Some (t, k, a, x)" and "chan_ok w (t, k, a, x)"
    and "\<And>i. lr_chan r = Some i \<Longrightarrow> chan_ok w i"
  shows "pending w' (t, k, a, x) = pending w (t, k, a, x) \<and> chan_ok w' (t, k, a, x)"
proof (cases "w' = w")
  case True
  then show ?thesis using assms(3) by simp
next
  case False
  then obtain t2 k2 a2 x2 q where r: "lr_chan r = Some (t2, k2, a2, x2)"
    and w': "w' = set_cli t2 k2 ((lw_cli w t2 k2)[a2 := (lw_cli w t2 k2 ! a2)[x2 := (lw_cli w t2 k2 ! a2 ! x2)\<lparr>ch_queue := q\<rparr>]]) w"
    using assms(1) by (auto simp: local_read_def chan_recv_def Let_def split: if_splits list.splits option.splits)
  have op: "ch_open ((lw_cli w t2 k2 ! a2 ! x2)\<lparr>ch_queue := q\<rparr>)" using assms(4) [OF r] by simp
  have ne: "(t2, k2, a2, x2) \<noteq> (t, k, a, x)" using assms(2) r by auto
  from chan_update [OF assms(3) refl op ne] show ?thesis
    unfolding w' by (simp add: pending_def del: queue_of.simps chan_ok.simps)
qed

section \<open>Connections\<close>

text \<open>
  A connection while other threads work: its writer writes, its reader reads, messages are accepted
  anywhere, and other connections are made and used.  What was written and what was read is
  logged.
\<close>

inductive link_run ::
    "local_write_stream \<Rightarrow> con_id \<Rightarrow> lworld \<times> local_read_stream \<Rightarrow> bytes \<Rightarrow> bytes \<Rightarrow> lworld \<times> local_read_stream \<Rightarrow> bool"
  for s cid st where
  begins: "link_run s cid st [] [] st"
| writes: "link_run s cid st wr got (w, r) \<Longrightarrow> bs \<noteq> [] \<Longrightarrow> local_write bs (s, w) = ((s', w'), Ok n) \<Longrightarrow> link_run s cid st (wr @ bs) got (w', r)"
| reads: "link_run s cid st wr got (w, r) \<Longrightarrow> local_read n (r, w) = Some ((r', w'), Ok out) \<Longrightarrow> link_run s cid st wr (got @ out) (w', r')"
| accepts: "link_run s cid st wr got (w, r) \<Longrightarrow> local_accept tr w = Some (w', res) \<Longrightarrow> link_run s cid st wr got (w', r)"
| connects: "link_run s cid st wr got (w, r) \<Longrightarrow> local_connectwith tr b w = (w', cres) \<Longrightarrow> link_run s cid st wr got (w', r)"
| other_writes: "link_run s cid st wr got (w, r) \<Longrightarrow> \<not> feeds s2 cid \<Longrightarrow> bs \<noteq> [] \<Longrightarrow> local_write bs (s2, w) = ((s2', w'), Ok n)
    \<Longrightarrow> link_run s cid st wr got (w', r)"
| other_reads: "link_run s cid st wr got (w, r) \<Longrightarrow> lr_chan r2 \<noteq> Some cid \<Longrightarrow> (\<And>i. lr_chan r2 = Some i \<Longrightarrow> chan_ok w i)
    \<Longrightarrow> local_read n (r2, w) = Some ((r2', w'), rres) \<Longrightarrow> link_run s cid st wr got (w', r)"

definition link_ok :: "con_id \<Rightarrow> lworld \<times> local_read_stream \<Rightarrow> bool" where
  "link_ok cid = (\<lambda>(w, r). lr_chan r = Some cid \<and> chan_ok w cid)"

definition unread :: "con_id \<Rightarrow> lworld \<times> local_read_stream \<Rightarrow> bytes" where
  "unread cid = (\<lambda>(w, r). lr_buf r @ pending w cid)"

lemma link_run_fifo:
  assumes "link_run s cid st wr got st'" and "feeds s cid" and "link_ok cid st" and "unread cid st = []"
  shows "link_ok cid st' \<and> got @ unread cid st' = wr"
  using assms(1)
proof (induction rule: link_run.induct)
  case begins
  then show ?case using assms by simp
next
  case (writes wr got w r bs s' w' n)
  then show ?case using assms(2) write_pending [OF writes.hyps(3,2)]
    by (cases cid rule: prod_cases4) (auto simp: link_ok_def unread_def simp del: chan_ok.simps feeds.simps)
next
  case (reads wr got w r n r' w' out)
  then show ?case using read_pending [OF reads.hyps(2)]
    by (cases cid rule: prod_cases4) (auto simp: link_ok_def unread_def simp del: chan_ok.simps)
next
  case (accepts wr got w r tr w' res)
  then show ?case using accept_pending [OF accepts.hyps(2)]
    by (cases cid rule: prod_cases4) (auto simp: link_ok_def unread_def simp del: chan_ok.simps)
next
  case (connects wr got w r tr b w' cres)
  then show ?case using connect_pending [OF connects.hyps(2)]
    by (cases cid rule: prod_cases4) (auto simp: link_ok_def unread_def simp del: chan_ok.simps)
next
  case (other_writes wr got w r s2 bs s2' w' n)
  then show ?case using write_pending [OF other_writes.hyps(4,3)]
    by (cases cid rule: prod_cases4) (auto simp: link_ok_def unread_def simp del: chan_ok.simps feeds.simps)
next
  case (other_reads wr got w r r2 n r2' w' rres)
  then show ?case using other_read_pending [OF other_reads.hyps(4)]
    by (cases cid rule: prod_cases4) (auto simp: link_ok_def unread_def simp del: chan_ok.simps)
qed

text \<open>A connection that is made and accepted.\<close>

lemma connection_made:
  assumes "local_connectwith tr1 (tt_address tr2) w = (w1, Ok (s, ro))" and "local_accept tr2 w1 = Some (w2, Ok (r, so))"
    and "lw_recv w (tt_address tr2) = []" and "managed tr1"
  shows "\<exists>x. lr_chan r = Some (tt_address tr2, ConFrom, tt_address tr1, x) \<and> feeds s (tt_address tr2, ConFrom, tt_address tr1, x) \<and>
    link_ok (tt_address tr2, ConFrom, tt_address tr1, x) (w2, r) \<and> unread (tt_address tr2, ConFrom, tt_address tr1, x) (w2, r) = []"
proof -
  let ?a = "tt_address tr1" and ?b = "tt_address tr2"
  obtain n w0 where n: "w1 = send_msg ?b (?a, n, 0, []) w0" "lw_recv w0 = lw_recv w" "ls_dest s = ?b" "ls_addr s = ?a" "ls_from s = n" "ls_with s = 0"
    using assms(1,4) by (auto simp: local_connectwith_def Let_def split: if_splits)
  have acc: "accept_msg tr2 (?a, n, 0, []) (w1\<lparr>lw_recv := (lw_recv w1)(?b := [])\<rparr>) = (w2, Ok (r, so))"
    using assms(2,3) n(1,2) by (simp add: local_accept_def)
  then have r: "lr_chan r = Some (?b, ConFrom, ?a, n - 1)" "lr_buf r = []" "0 < n" "lw_recv w2 ?b = []" "chan_ok w2 (?b, ConFrom, ?a, n - 1)"
    "queue_of w2 (?b, ConFrom, ?a, n - 1) = []"
    by (auto simp: accept_msg_def Let_def split: if_splits)
  then show ?thesis using n(3-6) by (intro exI [of _ "n - 1"]) (simp add: link_ok_def unread_def pending_def)
qed

lemma unread_moves:
  assumes "unread (tt_address tr, k, a, x) (w, r) \<noteq> []" and "lr_chan r = Some (tt_address tr, k, a, x)"
  shows "local_read n (r, w) \<noteq> None \<or> local_accept tr w \<noteq> None"
proof (cases "lr_buf r = [] \<and> queue_of w (tt_address tr, k, a, x) = []")
  case True
  then have "lw_recv w (tt_address tr) \<noteq> []" using assms(1) by (auto simp: unread_def pending_def)
  then show ?thesis by (simp add: local_accept_def split: list.splits)
next
  case False
  then show ?thesis using assms(2) by (auto simp: local_read_def chan_recv_def Let_def split: list.splits)
qed

section \<open>Properties\<close>

text \<open>
  C19. A connection is a stream: whatever other threads do with their connections, what the reader of a
  connection has read is what its writer has written, in order, but for what is still on its way,
  and as long as something is on its way a read or an accept does not wait.
\<close>

theorem local_stream_fifo:
  assumes "local_connectwith tr1 (tt_address tr2) w = (w1, Ok (s, ro))" and "local_accept tr2 w1 = Some (w2, Ok (r, so))"
    and "lw_recv w (tt_address tr2) = []" and "managed tr1"
    and "lr_chan r = Some cid" and "link_run s cid (w2, r) wr got (w', r')"
  shows "wr = got @ unread cid (w', r') \<and> (got \<noteq> wr \<longrightarrow> local_read n (r', w') \<noteq> None \<or> local_accept tr2 w' \<noteq> None)"
proof -
  obtain x where c: "cid = (tt_address tr2, ConFrom, tt_address tr1, x)" "feeds s cid" "link_ok cid (w2, r)" "unread cid (w2, r) = []"
    using connection_made [OF assms(1-4)] assms(5) by auto
  from link_run_fifo [OF assms(6) c(2-4)] have f: "link_ok cid (w', r')" "got @ unread cid (w', r') = wr" by blast+
  moreover have "unread cid (w', r') \<noteq> [] \<Longrightarrow> local_read n (r', w') \<noteq> None \<or> local_accept tr2 w' \<noteq> None"
    using unread_moves [where tr = tr2] f(1) c(1) by (simp add: link_ok_def)
  ultimately show ?thesis by auto
qed

text \<open>An empty write looks like a new connection to the receiver, which panics because the number of the connection is taken.\<close>

lemma empty_write_panics:
  assumes "local_write [] (s, w) = ((s', w'), Ok n)" and "lw_recv w (tt_address tr) = []" and "ls_dest s = tt_address tr"
    and "ls_from s \<le> length (lw_cli w (tt_address tr) ConFrom ! ls_addr s)"
  shows "\<exists>w''. local_accept tr w' = Some (w'', Panic)"
proof -
  have "w' = send_msg (tt_address tr) (ls_addr s, ls_from s, ls_with s, []) w"
    using assms(1,3) by (auto simp: local_write_def split: if_splits)
  then have "local_accept tr w' = Some (accept_msg tr (ls_addr s, ls_from s, ls_with s, []) (w'\<lparr>lw_recv := (lw_recv w')(tt_address tr := [])\<rparr>))"
    using assms(2) by (simp add: local_accept_def)
  moreover have "lw_cli w' = lw_cli w" using \<open>w' = _\<close> by simp
  ultimately show ?thesis using assms(4) by (auto simp: accept_msg_def Let_def)
qed

section \<open>Witnesses\<close>

abbreviation demo_tr :: "nat \<Rightarrow> transport_test" where
  "demo_tr i \<equiv> \<lparr>multiplex = False, managed = True, tt_address = i\<rparr>"

theorem local_stream_fifo_witness:
  "\<exists>w1 w2 s r w'. local_connectwith (demo_tr 0) 1 (snd (create_transport 2 False True)) = (w1, Ok (s, None)) \<and>
     local_accept (demo_tr 1) w1 = Some (w2, Ok (r, None)) \<and>
     local_write [1, 2] (s, w2) = ((s, w'), Ok 2) \<and> [1, 2] = [] @ unread (1, ConFrom, 0, 0) (w', r)"
proof -
  let ?w = "snd (create_transport 2 False True)"
  obtain w1 s where c: "local_connectwith (demo_tr 0) (tt_address (demo_tr 1)) ?w = (w1, Ok (s, None))" "ls_conn s"
    by (simp add: local_connectwith_def create_transport_def Let_def)
  then have "\<exists>w2 r. local_accept (demo_tr 1) w1 = Some (w2, Ok (r, None)) \<and> lr_chan r = Some (1, ConFrom, 0, 0)"
    by (auto simp: local_connectwith_def create_transport_def Let_def local_accept_def accept_msg_def numeral_2_eq_2)
  then obtain w2 r where a: "local_accept (demo_tr 1) w1 = Some (w2, Ok (r, None))" "lr_chan r = Some (1, ConFrom, 0, 0)" by blast
  obtain w' where w': "local_write [1, 2] (s, w2) = ((s, w'), Ok 2)" using c(2) by (simp add: local_write_def)
  have "link_run s (1, ConFrom, 0, 0) (w2, r) ([] @ [1, 2]) [] (w', r)" using link_run.writes [OF link_run.begins _ w'] by simp
  from local_stream_fifo [OF c(1) a(1) _ _ a(2) this, of 1] c a w' show ?thesis
    by (auto simp: create_transport_def)
qed

end
