(* ===== verification/Filestore.thy ===== *)
theory Filestore
  imports Simplecache Extio
begin

text \<open>
  Files as values: \<open>FileKV\<close> (\<open>mydht-filestore/src/filekv.rs\<close>), whose key is the hash of a file, and \<open>FileStore\<close>
  (\<open>filestore.rs\<close>), a store that keeps the files in a directory and what it knows of them in another
  store.

  The file system is a map from paths to contents.  What may fail in it, the directory of
  temporary files, the hash and the serialisation are arguments, and so is the store below.
\<close>

section \<open>Paths\<close>

fun split_on :: "char \<Rightarrow> string \<Rightarrow> string list" where
  "split_on c [] = [[]]"
| "split_on c (x # xs) =
     (if x = c then [] # split_on c xs
      else case split_on c xs of y # ys \<Rightarrow> (x # y) # ys | [] \<Rightarrow> [[x]])"

text \<open>\<open>Path::components\<close>: empty parts and inner dots do not count.\<close>

definition path_components :: "string \<Rightarrow> string list" where
  "path_components p =
     (let parts = split_on (CHR ''/'') p; cs = filter (\<lambda>s. s \<noteq> [] \<and> s \<noteq> ''.'') parts in
      if p \<noteq> [] \<and> hd p = CHR ''/'' then ''/'' # cs else if hd parts = ''.'' then ''.'' # cs else cs)"

definition path_join :: "string \<Rightarrow> string \<Rightarrow> string" where
  "path_join p n =
     (if n \<noteq> [] \<and> hd n = CHR ''/'' then n else if p = [] \<or> last p = CHR ''/'' then p @ n else p @ ''/'' @ n)"

definition path_file_name :: "string \<Rightarrow> string option" where
  "path_file_name p =
     (case rev (path_components p) of
        x # _ \<Rightarrow> if x \<in> {''..'', ''.'', ''/''} then None else Some x
      | [] \<Rightarrow> None)"

definition is_in_tmp_dir :: "string \<Rightarrow> string \<Rightarrow> bool" where
  "is_in_tmp_dir tmp f =
     (let t = path_components tmp in take (length t) (path_components f) = t)"

section \<open>The file system\<close>

type_synonym fsys = "string \<rightharpoonup> bytes"

text \<open>
  Whether a hard link or the removal of a file is possible beyond what the files say, and what a
  failed copy leaves behind.
\<close>

record fs_env =
  fe_tmp :: string
  fe_hash :: "bytes \<Rightarrow> bytes"
  fe_link :: "string \<Rightarrow> string \<Rightarrow> bool"
  fe_copy :: "string \<Rightarrow> string \<Rightarrow> bytes option option"
  fe_remove :: "string \<Rightarrow> bool"

definition hard_link :: "fs_env \<Rightarrow> string \<Rightarrow> string \<Rightarrow> fsys \<Rightarrow> fsys \<times> bool" where
  "hard_link env p q fs =
     (case fs p of
        Some c \<Rightarrow> if fs q = None \<and> fe_link env p q then (fs(q \<mapsto> c), True) else (fs, False)
      | None \<Rightarrow> (fs, False))"

text \<open>A file that is copied to itself is emptied.\<close>

definition copy_file :: "fs_env \<Rightarrow> string \<Rightarrow> string \<Rightarrow> fsys \<Rightarrow> fsys \<times> bool" where
  "copy_file env p q fs =
     (case fs p of
        Some c \<Rightarrow>
          (case fe_copy env p q of
             None \<Rightarrow> (fs(q \<mapsto> (if p = q then [] else c)), True)
           | Some left \<Rightarrow> (fs(q := left), False))
      | None \<Rightarrow> (fs, False))"

definition remove_file :: "fs_env \<Rightarrow> string \<Rightarrow> fsys \<Rightarrow> fsys \<times> bool" where
  "remove_file env p fs =
     (if fs p \<noteq> None \<and> fe_remove env p then (fs(p := None), True) else (fs, False))"

section \<open>FileKV\<close>

record filekv =
  fkv_hash :: bytes
  fkv_file :: string
  fkv_name :: string

definition from_path :: "fs_env \<Rightarrow> fsys \<Rightarrow> string \<Rightarrow> filekv option outcome" where
  "from_path env fs path =
     (case fs path of
        None \<Rightarrow> Ok None
      | Some content \<Rightarrow>
          and_then (unwrap (path_file_name path)) (\<lambda>name.
            Ok (Some \<lparr>fkv_hash = fe_hash env content, fkv_file = path, fkv_name = name\<rparr>)))"

definition filekv_new :: "fs_env \<Rightarrow> fsys \<Rightarrow> string \<Rightarrow> filekv outcome" where
  "filekv_new env fs p = and_then (from_path env fs p) unwrap"

definition fkv_set_attachment :: "string \<Rightarrow> filekv \<Rightarrow> filekv \<times> bool" where
  "fkv_set_attachment f v = (v\<lparr>fkv_file := f\<rparr>, True)"

section \<open>FileStore\<close>

text \<open>The store below, by the operations of the trait \<open>KVStore\<close>.\<close>

record 'st kv_ops =
  k_add :: "filekv \<Rightarrow> cache_policy option \<Rightarrow> 'st \<Rightarrow> 'st"
  k_get :: "'st \<Rightarrow> bytes \<Rightarrow> filekv option"
  k_has :: "'st \<Rightarrow> bytes \<Rightarrow> bool"
  k_remove :: "bytes \<Rightarrow> 'st \<Rightarrow> 'st"
  k_commit :: "'st \<Rightarrow> 'st \<times> bool"

record 'st file_store =
  fst_data :: 'st
  fst_paths :: "string set"
  fst_pstore :: string
  fst_repo :: string

text \<open>The loop of \<open>FileStore::new\<close> over the files below the directory; the last part of the state logs the calls of \<open>initfn\<close>.\<close>

definition fill_ref ::
    "fs_env \<Rightarrow> 'st kv_ops \<Rightarrow> fsys \<Rightarrow> 'st \<times> string set \<times> filekv list \<Rightarrow> string \<Rightarrow> ('st \<times> string set \<times> filekv list) outcome" where
  "fill_ref env ops fs = (\<lambda>(st, bpath, inits) p.
     if fs p \<noteq> None \<and> p \<notin> bpath
     then and_then (from_path env fs p) (\<lambda>okv.
       case okv of
         Some kv \<Rightarrow> Ok (k_add ops kv None st, insert p bpath, inits @ [kv])
       | None \<Rightarrow> Ok (st, bpath, inits))
     else Ok (st, bpath, inits))"

definition file_store_new ::
    "fs_env \<Rightarrow> 'st kv_ops \<Rightarrow> (string \<Rightarrow> bool) \<Rightarrow> (string \<Rightarrow> string list option) \<Rightarrow> (bytes \<Rightarrow> string set option) \<Rightarrow> fsys
      \<Rightarrow> string \<Rightarrow> string \<Rightarrow> 'st \<Rightarrow> bool \<Rightarrow> ('st file_store \<times> filekv list) outcome" where
  "file_store_new env ops is_dir walk_dir decode fs rep pstore st fillref =
     (if \<not> is_dir rep then Err (Io ''Filestore is not a directory'')
      else case fs pstore of
        None \<Rightarrow> Err (Io ''not found'')
      | Some cont \<Rightarrow>
          let bpath = (case decode cont of Some b \<Rightarrow> b | None \<Rightarrow> {}) in
          and_then
            (if fillref then and_then (unwrap (walk_dir rep)) (\<lambda>es. fold_try (fill_ref env ops fs) (st, bpath, []) es)
             else Ok (st, bpath, []))
            (\<lambda>(st, bpath, inits). Ok (\<lparr>fst_data = st, fst_paths = bpath, fst_pstore = pstore, fst_repo = rep\<rparr>, inits)))"

text \<open>A file in the directory of temporary files is moved to the store, and read again there.\<close>

definition move_in :: "fs_env \<Rightarrow> string \<Rightarrow> string \<Rightarrow> fsys \<Rightarrow> fsys \<times> bool" where
  "move_in env path newpath fs =
     (case hard_link env path newpath fs of
        (fs1, False) \<Rightarrow> copy_file env path newpath fs1
      | (fs1, True) \<Rightarrow> (fs1, True))"

definition fs_add_val ::
    "fs_env \<Rightarrow> 'st kv_ops \<Rightarrow> filekv \<Rightarrow> bool \<Rightarrow> cache_policy option \<Rightarrow> 'st file_store \<times> fsys \<Rightarrow> ('st file_store \<times> fsys) \<times> unit outcome" where
  "fs_add_val env ops v is_local cp = (\<lambda>(s, fs).
     if \<not> is_local then ((s, fs), Ok ())
     else
       let path = fkv_file v in
       if is_in_tmp_dir (fe_tmp env) path
       then
         let newpath = path_join (fst_repo s) (fkv_name v) in
         (case move_in env path newpath fs of
            (fs1, False) \<Rightarrow> ((s, fs1), Ok ())
          | (fs1, True) \<Rightarrow>
              let fs2 = fst (remove_file env path fs1) in
              (case and_then (from_path env fs2 newpath) unwrap of
                 Ok kv \<Rightarrow>
                   if fkv_hash kv = fkv_hash v
                   then ((s\<lparr>fst_data := k_add ops kv cp (fst_data s), fst_paths := insert newpath (fst_paths s)\<rparr>, fs2), Ok ())
                   else ((s, fst (remove_file env newpath fs2)), Ok ())
               | Err e \<Rightarrow> ((s, fs2), Err e)
               | Panic \<Rightarrow> ((s, fs2), Panic)))
       else ((s\<lparr>fst_data := k_add ops v cp (fst_data s), fst_paths := insert path (fst_paths s)\<rparr>, fs), Ok ()))"

definition fs_get_val :: "'st kv_ops \<Rightarrow> 'st file_store \<Rightarrow> bytes \<Rightarrow> filekv option" where
  "fs_get_val ops s k = k_get ops (fst_data s) k"

definition fs_has_val :: "'st kv_ops \<Rightarrow> 'st file_store \<Rightarrow> bytes \<Rightarrow> bool" where
  "fs_has_val ops s k = k_has ops (fst_data s) k"

definition fs_remove_val :: "fs_env \<Rightarrow> 'st kv_ops \<Rightarrow> bytes \<Rightarrow> 'st file_store \<times> fsys \<Rightarrow> 'st file_store \<times> fsys" where
  "fs_remove_val env ops k = (\<lambda>(s, fs).
     case k_get ops (fst_data s) k of
       Some kv \<Rightarrow>
         (s\<lparr>fst_paths := fst_paths s - {fkv_file kv}, fst_data := k_remove ops k (fst_data s)\<rparr>, fst (remove_file env (fkv_file kv) fs))
     | None \<Rightarrow> (s, fs))"

text \<open>
  \<open>commit_store\<close>: \<open>opens\<close>, \<open>seeks\<close> and \<open>cuts\<close> say whether the file is opened, its start is found and it is emptied,
  and \<open>puts\<close> what \<open>write_all\<close> makes of the content and whether it succeeds.
\<close>

definition fs_commit_store ::
    "fs_env \<Rightarrow> 'st kv_ops \<Rightarrow> (string set \<Rightarrow> bytes) \<Rightarrow> (string \<Rightarrow> string) \<Rightarrow> (string \<Rightarrow> bool) \<Rightarrow> bool \<Rightarrow> bool \<Rightarrow> (bytes \<Rightarrow> bytes \<times> bool)
      \<Rightarrow> 'st file_store \<times> fsys \<Rightarrow> ('st file_store \<times> fsys) \<times> bool" where
  "fs_commit_store env ops encode bupath opens seeks cuts puts = (\<lambda>(s, fs).
     let confpath = fst_pstore s;
         (fs', r) = (case copy_file env confpath (bupath confpath) fs of
            (fs1, False) \<Rightarrow> (fs1, False)
          | (fs1, True) \<Rightarrow>
              if fs1 confpath = None \<or> \<not> opens confpath then (fs1, False)
              else if \<not> seeks then (fs1, False)
              else if \<not> cuts then (fs1, False)
              else let (written, ok) = puts (encode (fst_paths s)) in (fs1(confpath \<mapsto> written), ok));
         (st', r') = k_commit ops (fst_data s)
     in ((s\<lparr>fst_data := st'\<rparr>, fs'), r' \<and> r))"

unbundle bit_operations_syntax

section \<open>Serialisation of FileKV\<close>

text \<open>
  What is given to the encoder, a call that may fail.  A file is read by calls of \<open>read\<close> into a buffer whose
  length shrinks when a call gives less.
\<close>

datatype enc_item =
    EStruct string nat
  | EField string nat
  | EBytes bytes
  | EStr string
  | ESeq nat
  | EElt nat

definition CHUNK_SIZE :: nat where
  "CHUNK_SIZE = 8000"

definition encode_distant :: "(enc_item \<Rightarrow> 's \<Rightarrow> 's \<times> unit outcome) \<Rightarrow> filekv \<Rightarrow> 's \<Rightarrow> 's \<times> unit outcome" where
  "encode_distant emit v s =
     then_io (emit (EStruct ''FileKV'' 2) s) (\<lambda>s _.
     then_io (emit (EField ''hash'' 0) s) (\<lambda>s _. then_io (emit (EBytes (fkv_hash v)) s) (\<lambda>s _.
     then_io (emit (EField ''name'' 1) s) (\<lambda>s _. emit (EStr (fkv_name v)) s))))"

fun encode_chunks ::
    "(enc_item \<Rightarrow> 's \<Rightarrow> 's \<times> unit outcome) \<Rightarrow> 'f rd \<Rightarrow> nat list \<Rightarrow> nat \<Rightarrow> 'f \<Rightarrow> 's \<Rightarrow> 's \<times> unit outcome" where
  "encode_chunks emit rd [] vlen f s = (s, Ok ())"
| "encode_chunks emit rd (i # is) vlen f s =
     then_io (emit (EElt i) s) (\<lambda>s _.
       case rd f vlen of
         (f', Ok bs) \<Rightarrow>
           if length bs = CHUNK_SIZE then then_io (emit (EBytes bs) s) (\<lambda>s _. encode_chunks emit rd is vlen f' s)
           else if bs = [] then (s, Panic)
           else then_io (emit (EBytes bs) s) (\<lambda>s _. encode_chunks emit rd is (length bs) f' s)
       | _ \<Rightarrow> (s, Panic))"

text \<open>The test \<open>!fsize == 0\<close> of the source complements the bits of the size.\<close>

definition encode_with_file ::
    "(enc_item \<Rightarrow> 's \<Rightarrow> 's \<times> unit outcome) \<Rightarrow> (string \<Rightarrow> 'f option) \<Rightarrow> ('f \<Rightarrow> usize option) \<Rightarrow> 'f rd \<Rightarrow> filekv \<Rightarrow> 's \<Rightarrow> 's \<times> unit outcome" where
  "encode_with_file emit open_file flen rd v s =
     then_io (emit (EStruct ''filekv'' 2) s) (\<lambda>s _.
     then_io (emit (EField ''hash'' 0) s) (\<lambda>s _. then_io (emit (EBytes (fkv_hash v)) s) (\<lambda>s _.
     then_io (emit (EField ''name'' 1) s) (\<lambda>s _. then_io (emit (EStr (fkv_name v)) s) (\<lambda>s _.
       case Option.bind (open_file (fkv_file v)) (\<lambda>f. map_option (\<lambda>n. (f, n)) (flen f)) of
         None \<Rightarrow> (s, Panic)
       | Some (f, fsize) \<Rightarrow>
           if (NOT fsize) = 0
           then
             let nbframe = unat ((fsize - 1) div of_nat CHUNK_SIZE + 1) in
             then_io (emit (EField ''chuncked_file'' 2) s) (\<lambda>s _. then_io (emit (ESeq nbframe) s) (\<lambda>s _.
               encode_chunks emit rd [0..<nbframe] CHUNK_SIZE f s))
           else (s, Panic))))))"

definition decode_distant :: "bytes outcome \<Rightarrow> string outcome \<Rightarrow> filekv outcome" where
  "decode_distant hash name =
     and_then name (\<lambda>n. and_then hash (\<lambda>h. Ok \<lparr>fkv_hash = h, fkv_file = [], fkv_name = n\<rparr>))"

text \<open>The chunks go to a temporary file; \<open>wr\<close> is its \<open>write\<close> and \<open>flush\<close> its \<open>flush\<close>.\<close>

fun decode_chunks :: "(bytes \<Rightarrow> 'f \<Rightarrow> 'f \<times> nat outcome) \<Rightarrow> bytes outcome list \<Rightarrow> 'f \<Rightarrow> 'f \<times> unit outcome" where
  "decode_chunks wr [] f = (f, Ok ())"
| "decode_chunks wr (c # cs) f =
     then_io (f, c) (\<lambda>f chunk.
       case write_all wr chunk f of
         (f', Ok _) \<Rightarrow> decode_chunks wr cs f'
       | (f', Err e) \<Rightarrow> (f', Err (Serializing ''Could not write chunk in dest tmp file''))
       | (f', Panic) \<Rightarrow> (f', Panic))"

definition decode_with_file ::
    "(string \<times> 'f) outcome \<Rightarrow> (bytes \<Rightarrow> 'f \<Rightarrow> 'f \<times> nat outcome) \<Rightarrow> ('f \<Rightarrow> 'f \<times> unit outcome)
      \<Rightarrow> bytes outcome \<Rightarrow> string outcome \<Rightarrow> bytes outcome list \<Rightarrow> (filekv \<times> 'f) outcome" where
  "decode_with_file tmp wr flush hash name chunks =
     (case tmp of
        Ok (fp, file) \<Rightarrow>
          (case decode_chunks wr chunks file of
             (file, Ok _) \<Rightarrow>
               (case flush file of
                  (file, Ok _) \<Rightarrow> and_then name (\<lambda>n. and_then hash (\<lambda>h. Ok (\<lparr>fkv_hash = h, fkv_file = fp, fkv_name = n\<rparr>, file)))
                | (file, Err e) \<Rightarrow> Err (Serializing ''Could flush file in dest tmp'')
                | (file, Panic) \<Rightarrow> Panic)
           | (file, Err e) \<Rightarrow> Err e
           | (file, Panic) \<Rightarrow> Panic)
      | Err e \<Rightarrow> Err (Serializing ''Could not create tmp file'')
      | Panic \<Rightarrow> Panic)"

text \<open>\<open>encode_local\<close> is the derived encoding, which includes the path.\<close>

definition encode_local :: "(enc_item \<Rightarrow> 's \<Rightarrow> 's \<times> unit outcome) \<Rightarrow> filekv \<Rightarrow> 's \<Rightarrow> 's \<times> unit outcome" where
  "encode_local emit v s =
     then_io (emit (EStruct ''FileKV'' 3) s) (\<lambda>s _.
     then_io (emit (EField ''hash'' 0) s) (\<lambda>s _. then_io (emit (EBytes (fkv_hash v)) s) (\<lambda>s _.
     then_io (emit (EField ''file'' 1) s) (\<lambda>s _. then_io (emit (EStr (fkv_file v)) s) (\<lambda>s _.
     then_io (emit (EField ''name'' 2) s) (\<lambda>s _. emit (EStr (fkv_name v)) s))))))"

definition encode_kv ::
    "(enc_item \<Rightarrow> 's \<Rightarrow> 's \<times> unit outcome) \<Rightarrow> (string \<Rightarrow> 'f option) \<Rightarrow> ('f \<Rightarrow> usize option) \<Rightarrow> 'f rd
      \<Rightarrow> filekv \<Rightarrow> bool \<Rightarrow> bool \<Rightarrow> 's \<Rightarrow> 's \<times> unit outcome" where
  "encode_kv emit open_file flen rd v is_local with_att s =
     (if with_att then encode_with_file emit open_file flen rd v s
      else if is_local then encode_local emit v s
      else encode_distant emit v s)"

section \<open>Moving files\<close>

lemma move_in_fresh:
  assumes "fs newpath = None" and "move_in env path newpath fs = (fs1, b)"
  shows "(\<forall>q. q \<noteq> newpath \<longrightarrow> fs1 q = fs q) \<and> (b \<longrightarrow> fs path \<noteq> None \<and> fs1 newpath = fs path)"
  using assms by (auto simp: move_in_def hard_link_def copy_file_def split: option.splits if_splits)

lemma remove_file_other: "q \<noteq> p \<Longrightarrow> fst (remove_file env p fs) q = fs q"
  by (simp add: remove_file_def)

lemma from_path_Some:
  "and_then (from_path env fs p) unwrap = Ok kv \<longleftrightarrow>
     (\<exists>c. fs p = Some c \<and> path_file_name p = Some (fkv_name kv) \<and> fkv_hash kv = fe_hash env c \<and> fkv_file kv = p)"
  by (cases "path_file_name p") (auto simp: from_path_def split: option.splits)

lemma from_path_no_Err: "and_then (from_path env fs p) unwrap \<noteq> Err e"
  by (cases "path_file_name p") (auto simp: from_path_def split: option.splits)

text \<open>Every value in the store has a file with the hash it is stored under.\<close>

definition files_ok :: "fs_env \<Rightarrow> 'st kv_ops \<Rightarrow> 'st \<Rightarrow> fsys \<Rightarrow> bool" where
  "files_ok env ops st fs \<longleftrightarrow>
     (\<forall>k kv. k_get ops st k = Some kv \<longrightarrow> (\<exists>c. fs (fkv_file kv) = Some c \<and> fe_hash env c = k))"

text \<open>When a file can be added: it is in the directory of temporary files and no file has its name in the store, or its content is right.\<close>

definition addable :: "fs_env \<Rightarrow> 'st kv_ops \<Rightarrow> filekv \<Rightarrow> 'st file_store \<Rightarrow> fsys \<Rightarrow> bool" where
  "addable env ops v s fs \<longleftrightarrow>
     (if is_in_tmp_dir (fe_tmp env) (fkv_file v)
      then fs (path_join (fst_repo s) (fkv_name v)) = None \<and> (\<forall>k kv. k_get ops (fst_data s) k = Some kv \<longrightarrow> fkv_file kv \<noteq> fkv_file v)
      else \<exists>c. fs (fkv_file v) = Some c \<and> fe_hash env c = fkv_hash v)"

lemma files_ok_same:
  assumes "files_ok env ops st fs" and "\<And>k kv. k_get ops st k = Some kv \<Longrightarrow> fs' (fkv_file kv) = fs (fkv_file kv)"
  shows "files_ok env ops st fs'"
  using assms unfolding files_ok_def by metis

lemma files_ok_add:
  assumes st: "kv_store sinvar fkv_hash (k_add ops) (k_get ops) (k_has ops) (k_remove ops)" and "sinvar st"
    and "files_ok env ops st fs" and "fs (fkv_file kv) = Some c" and "fe_hash env c = fkv_hash kv"
  shows "files_ok env ops (k_add ops kv cp st) fs"
  using assms(3-5) unfolding files_ok_def kv_store.sget_sadd [OF st assms(2)] by auto

lemma moved_files_ok:
  assumes "files_ok env ops st fs" and "fs q = None" and "\<And>k kv. k_get ops st k = Some kv \<Longrightarrow> fkv_file kv \<noteq> p"
    and "move_in env p q fs = (fs1, b)"
  shows "files_ok env ops st fs1" and "files_ok env ops st (fst (remove_file env p fs1))"
    and "files_ok env ops st (fst (remove_file env q (fst (remove_file env p fs1))))"
proof -
  have noq: "\<And>k kv. k_get ops st k = Some kv \<Longrightarrow> fkv_file kv \<noteq> q" using assms(1,2) unfolding files_ok_def by fastforce
  show 1: "files_ok env ops st fs1" using files_ok_same [OF assms(1)] move_in_fresh [OF assms(2,4)] noq by blast
  show 2: "files_ok env ops st (fst (remove_file env p fs1))" using files_ok_same [OF 1] assms(3) remove_file_other by metis
  show "files_ok env ops st (fst (remove_file env q (fst (remove_file env p fs1))))" using files_ok_same [OF 2] noq remove_file_other by metis
qed

section \<open>Properties\<close>

text \<open>
  C21. The store keeps its files intact: when a file is added whose name is not taken in the store, or in
  place with the right content, then whatever fails, every value of the store has afterwards a
  file with the hash it is stored under, and a file that does not have the hash it came with is
  not added.
\<close>

theorem file_store_intact:
  assumes "kv_store sinvar fkv_hash (k_add ops) (k_get ops) (k_has ops) (k_remove ops)" and "sinvar (fst_data s)"
    and "files_ok env ops (fst_data s) fs" and "addable env ops v s fs"
    and "fs_add_val env ops v is_local cp (s, fs) = ((s', fs'), r)"
  shows "files_ok env ops (fst_data s') fs' \<and> sinvar (fst_data s') \<and>
    (fst_data s' = fst_data s \<or> (\<exists>kv c. fst_data s' = k_add ops kv cp (fst_data s) \<and> fkv_hash kv = fkv_hash v \<and>
       fs' (fkv_file kv) = Some c \<and> fe_hash env c = fkv_hash v))"
proof (cases "is_local \<and> is_in_tmp_dir (fe_tmp env) (fkv_file v)")
  case False
  with assms kv_store.sinvar_sadd [OF assms(1,2)] show ?thesis
    by (auto simp: fs_add_val_def addable_def split: if_splits intro: files_ok_add [OF assms(1,2)])
next
  case True
  let ?p = "fkv_file v" and ?q = "path_join (fst_repo s) (fkv_name v)"
  obtain fs1 b where mv: "move_in env ?p ?q fs = (fs1, b)" by fastforce
  let ?fs2 = "fst (remove_file env ?p fs1)"
  have fresh: "fs ?q = None" and tmp: "\<And>k kv. k_get ops (fst_data s) k = Some kv \<Longrightarrow> fkv_file kv \<noteq> ?p"
    using assms(4) True by (auto simp: addable_def)
  note ok = moved_files_ok [OF assms(3) fresh tmp mv]
  show ?thesis
  proof (cases b)
    case False
    with True mv assms(5) ok(1) assms(2) show ?thesis by (auto simp: fs_add_val_def Let_def)
  next
    case b: True
    show ?thesis
    proof (cases "and_then (from_path env ?fs2 ?q) unwrap")
      case (Ok kv)
      then obtain c where c: "?fs2 (fkv_file kv) = Some c" "fkv_hash kv = fe_hash env c" by (auto simp: from_path_Some)
      show ?thesis
      proof (cases "fkv_hash kv = fkv_hash v")
        case h: True
        then have "s' = s\<lparr>fst_data := k_add ops kv cp (fst_data s), fst_paths := insert ?q (fst_paths s)\<rparr>" "fs' = ?fs2"
          using assms(5) True mv b Ok by (auto simp: fs_add_val_def Let_def)
        with h c kv_store.sinvar_sadd [OF assms(1,2)] files_ok_add [OF assms(1,2) ok(2) c(1)] show ?thesis by auto
      next
        case False
        with assms(2,5) True mv b Ok ok(3) show ?thesis by (auto simp: fs_add_val_def Let_def)
      qed
    qed (use from_path_no_Err assms(2,5) True mv b ok(2) in \<open>auto simp: fs_add_val_def Let_def\<close>)
  qed
qed

text \<open>A file that came with the right hash and a name that is not taken is moved into the store and found there.\<close>

lemma file_moved_in:
  assumes st: "kv_store sinvar fkv_hash (k_add ops) (k_get ops) (k_has ops) (k_remove ops)" "sinvar (fst_data s)"
    and v: "is_in_tmp_dir (fe_tmp env) (fkv_file v)" "fs (fkv_file v) = Some c" "fe_hash env c = fkv_hash v"
    and q: "q = path_join (fst_repo s) (fkv_name v)" "fs q = None" "path_file_name q = Some n"
    and env: "fe_link env (fkv_file v) q \<or> fe_copy env (fkv_file v) q = None" "fe_remove env (fkv_file v)"
  shows "\<exists>s'. fs_add_val env ops v True cp (s, fs) = ((s', fs(q \<mapsto> c, fkv_file v := None)), Ok ()) \<and>
    fs_get_val ops s' = (fs_get_val ops s)(fkv_hash v \<mapsto> \<lparr>fkv_hash = fkv_hash v, fkv_file = q, fkv_name = n\<rparr>) \<and>
    fst_paths s' = insert q (fst_paths s)"
proof -
  have ne: "fkv_file v \<noteq> q" using v(2) q(2) by auto
  have mv: "move_in env (fkv_file v) q fs = (fs(q \<mapsto> c), True)"
    using v(2) q(2) env(1) ne by (auto simp: move_in_def hard_link_def copy_file_def)
  have rm: "fst (remove_file env (fkv_file v) (fs(q \<mapsto> c))) = fs(q \<mapsto> c, fkv_file v := None)"
    using v(2) env(2) ne by (simp add: remove_file_def)
  have fp: "from_path env (fs(q \<mapsto> c, fkv_file v := None)) q = Ok (Some \<lparr>fkv_hash = fkv_hash v, fkv_file = q, fkv_name = n\<rparr>)"
    using q(3) v(3) ne by (simp add: from_path_def)
  let ?kv = "\<lparr>fkv_hash = fkv_hash v, fkv_file = q, fkv_name = n\<rparr>"
  let ?s' = "s\<lparr>fst_data := k_add ops ?kv cp (fst_data s), fst_paths := insert q (fst_paths s)\<rparr>"
  have "fs_add_val env ops v True cp (s, fs) = ((?s', fs(q \<mapsto> c, fkv_file v := None)), Ok ())"
    using v(1) mv rm fp q(1) by (simp add: fs_add_val_def Let_def)
  moreover have "fs_get_val ops ?s' = (fs_get_val ops s)(fkv_hash v \<mapsto> ?kv)"
    using kv_store.sget_sadd [OF st(1,2), of ?kv cp] by (simp add: fs_get_val_def [abs_def])
  ultimately show ?thesis by auto
qed

text \<open>
  C22. A file with the name of another destroys it: when a file that is received has the name of a file in
  the store, that file is overwritten, and if the hash is not the one that was announced it is
  deleted, while the store goes on to name it.
\<close>

theorem file_name_collision:
  assumes "k_get ops (fst_data s) k = Some kv" and "fkv_file kv = path_join (fst_repo s) (fkv_name v)"
    and "fs (fkv_file kv) = Some c" and "path_file_name (fkv_file kv) = Some n"
    and "is_in_tmp_dir (fe_tmp env) (fkv_file v)" and "fs (fkv_file v) = Some c2" and "fkv_file v \<noteq> fkv_file kv"
    and "fe_copy env (fkv_file v) (fkv_file kv) = None" and "fe_remove env (fkv_file v)" and "fe_remove env (fkv_file kv)"
  shows "\<exists>s' fs'. fs_add_val env ops v True cp (s, fs) = ((s', fs'), Ok ()) \<and>
    fs' (fkv_file kv) = (if fe_hash env c2 = fkv_hash v then Some c2 else None) \<and>
    (fe_hash env c2 \<noteq> fkv_hash v \<longrightarrow> fs_get_val ops s' k = Some kv)"
proof -
  let ?p = "fkv_file v" and ?q = "fkv_file kv"
  have mv: "move_in env ?p ?q fs = (fs(?q \<mapsto> c2), True)"
    using assms(3,6-8) by (simp add: move_in_def hard_link_def copy_file_def)
  have rm: "fst (remove_file env ?p (fs(?q \<mapsto> c2))) = fs(?q \<mapsto> c2, ?p := None)" using assms(6,7,9) by (simp add: remove_file_def)
  have fp: "from_path env (fs(?q \<mapsto> c2, ?p := None)) ?q = Ok (Some \<lparr>fkv_hash = fe_hash env c2, fkv_file = ?q, fkv_name = n\<rparr>)"
    using assms(4,7) by (simp add: from_path_def)
  have rm2: "fst (remove_file env ?q (fs(?q \<mapsto> c2, ?p := None))) ?q = None" using assms(7,10) by (simp add: remove_file_def)
  show ?thesis using assms(1,5,7) mv rm fp rm2 by (simp add: fs_add_val_def Let_def fs_get_val_def assms(2) [symmetric])
qed

text \<open>
  A file is never encoded with its content: the test that should find an empty file complements the
  bits of the size, so that the call panics for every file below the largest size, after the hash
  and the name were written.
\<close>

theorem file_never_encoded:
  assumes "\<And>e s. \<exists>s'. emit e s = (s', Ok ())" and "open_file (fkv_file v) = Some f" and "flen f = Some fsize" and "unat fsize < 2 ^ 64 - 1"
  shows "\<exists>s'. encode_kv emit open_file flen rd v is_local True s = (s', Panic)"
proof -
  have "fsize \<noteq> - 1" using assms(4) by (auto simp: unsigned_minus_1_eq_mask mask_eq_exp_minus_1)
  then have n: "(NOT fsize) \<noteq> 0" by (metis bit.compl_zero bit.double_compl)
  define go where "go e s = fst (emit e s)" for e s
  have emit: "emit e s = (go e s, Ok ())" for e s using assms(1) [of e s] by (auto simp: go_def)
  show ?thesis using n assms(2,3) by (simp add: encode_kv_def encode_with_file_def emit)
qed

text \<open>The set of paths is found again by the next start, when the list was written in full.\<close>

lemma paths_committed:
  assumes "fs (fst_pstore s) = Some old" and "fe_copy env (fst_pstore s) (bupath (fst_pstore s)) = None" and "bupath (fst_pstore s) \<noteq> fst_pstore s"
    and "opens (fst_pstore s)" and "\<And>bs. puts bs = (bs, True)" and "decode (encode (fst_paths s)) = Some (fst_paths s)"
    and "fs_commit_store env ops encode bupath opens True True puts (s, fs) = ((s', fs'), b)" and "is_dir rep"
  shows "fs' (bupath (fst_pstore s)) = Some old \<and> b = snd (k_commit ops (fst_data s)) \<and>
    file_store_new env ops is_dir walk decode fs' rep (fst_pstore s) st False =
      Ok (\<lparr>fst_data = st, fst_paths = fst_paths s, fst_pstore = fst_pstore s, fst_repo = rep\<rparr>, [])"
  using assms(7) by (auto simp: fs_commit_store_def copy_file_def file_store_new_def Let_def assms(1-6,8) assms(3) [symmetric] split: prod.splits if_splits)

section \<open>Witnesses\<close>

definition demo_kv_ops :: "(bytes, filekv) simple_cache kv_ops" where
  "demo_kv_ops = \<lparr>k_add = add_val fkv_hash, k_get = get_val, k_has = has_val, k_remove = remove_val, k_commit = (\<lambda>st. (st, True))\<rparr>"

lemma demo_kv_store: "kv_store (store_ok fkv_hash) fkv_hash (k_add demo_kv_ops) (k_get demo_kv_ops) (k_has demo_kv_ops) (k_remove demo_kv_ops)"
  using sc.kv_store_axioms [of fkv_hash] by (simp add: demo_kv_ops_def)

definition demo_fs_env :: fs_env where
  "demo_fs_env = \<lparr>fe_tmp = ''/tmp'', fe_hash = (\<lambda>c. take 1 c), fe_link = (\<lambda>p q. True), fe_copy = (\<lambda>p q. None), fe_remove = (\<lambda>p. True)\<rparr>"

definition demo_kv :: filekv where
  "demo_kv = \<lparr>fkv_hash = [7], fkv_file = ''/st/a'', fkv_name = ''a''\<rparr>"

definition demo_file_store :: "(bytes, filekv) simple_cache file_store" where
  "demo_file_store = \<lparr>fst_data = \<lparr>cache = [([7], demo_kv)], persi = None\<rparr>, fst_paths = {''/st/a''}, fst_pstore = ''/p'', fst_repo = ''/st''\<rparr>"

lemma demo_get: "k_get demo_kv_ops (fst_data demo_file_store) k = (if k = [7] then Some demo_kv else None)"
  by (simp add: demo_kv_ops_def demo_file_store_def get_val_cache)

theorem file_store_intact_witness:
  "\<exists>s' fs' r. fs_add_val demo_fs_env demo_kv_ops \<lparr>fkv_hash = [5], fkv_file = ''/tmp/x'', fkv_name = ''b''\<rparr> True None
      (demo_file_store, [''/st/a'' \<mapsto> [7, 1], ''/tmp/x'' \<mapsto> [5, 2]]) = ((s', fs'), r)
     \<and> files_ok demo_fs_env demo_kv_ops (fst_data s') fs'"
proof -
  let ?v = "\<lparr>fkv_hash = [5], fkv_file = ''/tmp/x'', fkv_name = ''b''\<rparr>" and ?fs = "[''/st/a'' \<mapsto> [7, 1], ''/tmp/x'' \<mapsto> [5, 2]]"
  obtain s' fs' r where run: "fs_add_val demo_fs_env demo_kv_ops ?v True None (demo_file_store, ?fs) = ((s', fs'), r)" by (metis surj_pair)
  have ok: "files_ok demo_fs_env demo_kv_ops (fst_data demo_file_store) ?fs"
    by (simp add: files_ok_def demo_get demo_kv_def demo_fs_env_def)
  have inv: "store_ok fkv_hash (fst_data demo_file_store)" by (simp add: store_ok_def hashmap_ok_def demo_file_store_def demo_kv_def)
  have "\<forall>k kv. k_get demo_kv_ops (fst_data demo_file_store) k = Some kv \<longrightarrow> fkv_file kv \<noteq> fkv_file ?v" by (simp add: demo_get demo_kv_def)
  moreover have "is_in_tmp_dir (fe_tmp demo_fs_env) (fkv_file ?v)" by (simp add: demo_fs_env_def is_in_tmp_dir_def path_components_def)
  moreover have "?fs (path_join (fst_repo demo_file_store) (fkv_name ?v)) = None" by (simp add: demo_file_store_def path_join_def)
  ultimately have ad: "addable demo_fs_env demo_kv_ops ?v demo_file_store ?fs" unfolding addable_def by (simp only: if_True simp_thms)
  show ?thesis using file_store_intact [OF demo_kv_store inv ok ad run] run by blast
qed

theorem file_name_collision_witness:
  "\<exists>s' fs'. fs_add_val demo_fs_env demo_kv_ops \<lparr>fkv_hash = [9], fkv_file = ''/tmp/x'', fkv_name = ''a''\<rparr> True None
      (demo_file_store, [''/st/a'' \<mapsto> [7, 1], ''/tmp/x'' \<mapsto> [5, 2]]) = ((s', fs'), Ok ())
     \<and> fs' ''/st/a'' = None \<and> fs_get_val demo_kv_ops s' [7] = Some demo_kv"
proof -
  have 1: "k_get demo_kv_ops (fst_data demo_file_store) [7] = Some demo_kv" by (simp add: demo_get)
  show ?thesis
    using file_name_collision [OF 1, of "\<lparr>fkv_hash = [9], fkv_file = ''/tmp/x'', fkv_name = ''a''\<rparr>"
        "[''/st/a'' \<mapsto> [7, 1], ''/tmp/x'' \<mapsto> [5, 2]]" "[7, 1]" "''a''" demo_fs_env "[5, 2]" None]
    by (simp add: demo_kv_def demo_fs_env_def demo_file_store_def is_in_tmp_dir_def path_components_def path_join_def path_file_name_def)
qed

theorem file_never_encoded_witness:
  "\<exists>s'. encode_kv (\<lambda>e (s :: nat). (Suc s, Ok ())) (\<lambda>p. Some ()) (\<lambda>f. Some 3) (\<lambda>f n. ((), Ok [1, 2, 3])) demo_kv True True 0 = (s', Panic)"
  by (rule file_never_encoded [where f = "()" and fsize = 3]) simp_all

end
