(* ===== verification/Spec2Isabelle.thy ===== *)
theory Spec2Isabelle
  imports Kvservice Writeservice Mainforward Inefficientmap Btkad Wotstore Userpoll Tunnelenc Osslasym Shadowtest Oneresult Attach Udp Localtransport Filestore
begin

text \<open>
  Verification of the core of mydht, a library for peer to peer applications written in Rust
  (\<open>src/mydht\<close>, \<open>src/mydht-base\<close> and the crates beside them).

  \<^bold>\<open>The program.\<close>  A node runs a main loop that owns the connections to its peers.  Each
  connection has a read service and a write service.  They first authenticate the peer: a ping
  carries a challenge, the pong its signature and possibly a challenge in return.  After that
  they carry the messages of the services: a global service of the application, a local service
  per connection, and the store of peers, a key-value service whose queries are forwarded from
  node to node.  The api service gives the caller's queries identifiers and gathers their
  results.  Services talk to each other by commands only; a command that crosses threads is
  converted to a sendable form and back.  The crates beside the core provide routing tables, a web
  of trust, tunnels through several nodes, and the shadowers that encrypt what a stream carries.

  \<^bold>\<open>Theories and sources\<close> (paths under \<open>src/\<close>).
  \<^item> \<open>Prelude\<close>: outcomes of Rust code (value, error, panic), checked machine arithmetic, vectors.
  \<^item> \<open>Kvcache\<close>: \<open>mydht-base/src/kvcache/mod.rs\<close>, the caches over \<open>HashMap\<close> and \<open>NoCache\<close> and the random
    choice of entries; the interfaces \<open>cache_base\<close> and \<open>cache_store\<close> that caches implement.
  \<^item> \<open>Simplecache\<close>: \<open>mydht-base/src/simplecache.rs\<close> and \<open>kvstore.rs\<close>, the stored map and its file.
  \<^item> \<open>Peer\<close>: \<open>mydht-base/src/peer.rs\<close> and \<open>route.rs\<close>, peers, priorities and states.
  \<^item> \<open>Query\<close>: \<open>mydht-base/src/query.rs\<close>, \<open>rules.rs\<close> and \<open>mydht/src/rules/simplerules.rs\<close>, query
    messages, hop counters, modes and the history of a query.
  \<^item> \<open>Querycache\<close>: \<open>mydht/src/query\<close>, queries that wait for replies.
  \<^item> \<open>Commands\<close>: the commands of the services, \<open>mydht/src/procs/storeprop.rs\<close>, \<open>deflocal.rs\<close>, \<open>mod.rs\<close>.
  \<^item> \<open>Kvservice\<close>: \<open>mydht/src/procs/storeprop.rs\<close>, the key-value service: one definition per command,
    composed in \<open>kv_exec\<close> and \<open>kv_call\<close>.
  \<^item> \<open>Procs\<close>: calls that update a state and may fail, and the messages between the processes with
    their conversions between threads.  The interface \<open>state_rel\<close> says when a relation between
    states is kept by every call.
  \<^item> \<open>Writeservice\<close>: \<open>mydht/src/procs/client2.rs\<close>;  \<open>Readservice\<close>: \<open>server2.rs\<close>;  \<open>Api\<close>: \<open>api.rs\<close>.
  \<^item> \<open>Mainloop\<close>: \<open>mydht/src/procs/mainloop.rs\<close> with the slab of \<open>mydht-slab\<close>: the state \<open>mdht_state\<close>
    (\<open>MDHTState\<close>), one definition per command of \<open>call_inner_loop\<close>, and a turn of the loop,
    \<open>main_turn\<close>.  \<open>Mainframe\<close> holds the interface \<open>ml_frame\<close> (the elementary changes of the state) and
    shows that what allows them is kept by whole runs; \<open>Mainsafety\<close> and \<open>Mainforward\<close> use it.
  \<^item> \<open>Inefficientmap\<close>: \<open>mydht-inefficientmap/src/inefficientmap.rs\<close>, the peer cache that routes, and the
    route over it in \<open>mydht/src/procs/mod.rs\<close>.
  \<^item> \<open>Dests\<close>: the destinations that hand the replies of the services to the other processes
    (\<open>mydht/src/procs/deflocal.rs\<close>, \<open>api.rs\<close>, \<open>storeprop.rs\<close>), the services of synchronous transports
    (\<open>synch_transport.rs\<close>) and those that do nothing (\<open>noservice.rs\<close>); the interface \<open>reply_dest\<close>.
  \<^item> \<open>Knodetable\<close>, \<open>Knodetree\<close>, \<open>Btkad\<close>: \<open>mydht-btkad/src\<close>, the tree of buckets in a vector, its abstraction
    to a tree, and the route and peer cache over it.
  \<^item> \<open>Wottrust\<close>, \<open>Wotstore\<close>: \<open>mydht-wot/src\<close>, the two trust calculi and the store of peers and signatures.
  \<^item> \<open>Userpoll\<close>: \<open>mydht-userpoll/src/lib.rs\<close>, a poll over user-space events.
  \<^item> \<open>Tunnelroute\<close>: the choice of a route in \<open>mydht-tunnel/src/tunnelconf.rs\<close>; \<open>Tunnel\<close>: the messages and the
    local and global services of \<open>mydht-tunnel/src/lib.rs\<close>; \<open>Tunnelenc\<close>: its encoder, attachments,
    proxying and the replies sent back over the stream.
  \<^item> \<open>Extio\<close>: the interfaces of readers and writers that extend a stream (\<open>ext_read\<close>, \<open>ext_write\<close>) and what
    follows for whole messages (\<open>msg_read\<close>, \<open>msg_write\<close>).  \<open>Osslsym\<close>, \<open>Osslshadow\<close>, \<open>Osslasym\<close>:
    \<open>mydht-openssl/src/rsa_openssl.rs\<close>, the symmetric shadower with its buffers, the key exchange and
    modes, the RSA mode, peers and signatures.  \<open>Shadowtest\<close>: \<open>mydht-basetest/src/shadow.rs\<close>, the shadowers
    the tests use.
  \<^item> \<open>Attach\<close>: \<open>mydht-base/src/msgenc.rs\<close>, attachments on a stream; \<open>Udp\<close>: \<open>mydht-udp/src/lib.rs\<close>, the datagram
    transport; \<open>Filestore\<close>: \<open>mydht-filestore/src\<close>, files as values and the store that keeps them.
  \<^item> \<open>Localtransport\<close>: \<open>mydht-basetest/src/local_transport.rs\<close>, the transport between threads of one program.
  \<^item> \<open>Oneresult\<close>: \<open>mydht-base/src/utils.rs\<close>, a result that one thread gives and another waits for, as a
    step relation over interleaved threads.
  \<^item> This theory: what holds of the processes together.

  \<^bold>\<open>State and effects.\<close>  A service is a record and a call takes the record to a new one and a
  result, which is a value, an error that ends the service or the loop, or a panic.  The main
  loop and the write service log what they do to the outside; what the outside answers, and the
  code of other crates (transport, encoders, ciphers, digests and signatures, spawners, channels,
  the \<open>slab\<close> and tunnel crates, random bytes, the clock), are arguments and may depend on the whole log, so that they may
  answer differently every time.  Integers that may overflow are words of their width; overflow
  panics or wraps as the build profile says.

  \<^bold>\<open>What the lemmas show.\<close>
  \<^item> Authentication: the read service attributes messages only to a peer whose signed pong it has
    checked; the write service sends nothing before it knows its peer, then everything, in order;
    the main loop accepts a peer only with the answer to a challenge it had issued, and a
    challenge as often as it was issued.
  \<^item> Queries: an api query is answered at most once, and is answered when its results or negative
    replies are complete, by the key-value service and by the api service; forwarding ends, keeps
    to the budget of hops, and asks for enough results.
  \<^item> Storage and caches: the laws of a map, a file that is read back as it was written, the choice
    of random entries, and routing as a round robin.
  \<^item> State of the main loop: well-formed after any run; a forward accounts for every peer.
  \<^item> Messages survive the conversions between threads and the protocol; the destinations give every
    reply once, and no api query is answered twice.
  \<^item> Routing tables and trust: additions to a Kademlia table refine the set of its elements, the trust
    calculi refine the multiset of signatures, and the web of trust holds only what was checked.
  \<^item> Tunnels: routes are over distinct online peers, commands go out in order once their peer is there,
    queries are framed, hops copy a tunnel unchanged, and a reply returns over the stream it came on.
  \<^item> Shadowers: what is written in any pieces, in every mode, is read back in any pieces, and the
    stream is left at the end of the message.
  \<^item> A connection of the local transport is a stream in order, whatever other connections do.
  \<^item> Attachments and datagrams are read back as they were written, within the limits the theorems
    name; the file store keeps the files of its values intact as long as names do not collide.
  \<^item> Results between threads: taken at most once, and received by a thread that waits.
  \<^item> Where the code does not do what it means to, a theorem states what it does: queries lost or
    never answered, messages out of order, panics that a peer can cause.

  \<^bold>\<open>Bounds and fuel.\<close>  Loops over data are structural recursions; the buffer of the write service, the
  buffers of the shadowers and the drawing of positions end by a measure.  Loops that may run for
  ever are partial functions into \<open>option\<close>: the reroll of random bits and the draw of another peer,
  for which the theorems say when they return; the walk of the routing cache, the update of trust,
  the copying of a tunnel and the reading of a shadowed stream, for which it is proved that they
  return.  A run of the main loop is over a finite list of turns of any length.  The slab holds
  fewer than \<open>2 ^ 64\<close> streams, as a vector does.

  \<^bold>\<open>Not modelled.\<close>  Stream transports and encoders (calls of other crates and of the operating system), the
  cryptography itself (ciphers, RSA and digests are arguments with what is relied on as
  hypotheses), the serialisation of keys, the configuration traits and the start-up code, threads
  and channels themselves, the \<open>restartable\<close> feature, the file sharing application, the other signed peers (of \<open>mydht-wot\<close> and the older RSA peer), and the tests.
\<close>

section \<open>From the main loop to the stream\<close>

text \<open>Without authentication a reliable write service writes every message at once.\<close>

lemma write_run_noauth:
  assumes "w_reliable wenv" and "w_auth_mode wenv = NoAuth" and "wbuff_msgs s = []" and "\<not> wshut_after_first s"
  shows "\<exists>t. write_run wenv (map WService cs) s = (t, LOk ()) \<and> sent t = sent s @ msgs wenv cs"
  using assms(3,4)
proof (induction cs arbitrary: s)
  case Nil
  then show ?case by (simp add: write_run_def ret_def)
next
  case (Cons c cs)
  obtain shad where shad: "msg_shad wenv s = Some shad"
    using assms(2) by (cases "wshad_msg s") (simp_all add: msg_shad_def)
  obtain u where u: "forward_proto wenv c s = (u, LOk ())"
    using forward_proto_reliable [OF assms(1) shad, of c] by blast
  then have keep: "wbuff_msgs u = []" "\<not> wshut_after_first u" "sent u = sent s @ msgs wenv [c]"
    using forward_proto_step [OF u] emitted_forward_proto [of s wenv c] Cons.prems u
    by (auto simp: wstep_def emitted_def)
  have "write_call wenv (WService c) s = (u, LOk ())"
    using Cons.prems assms(2) u keep(2)
    by (simp add: service_def bind_def debuff_msgs.simps [of wenv s] gets_def ret_def)
  with Cons.IH [OF keep(1,2)] keep(3) show ?case
    by (auto simp: write_run_def bind_def simp flip: msgs_simps(2))
qed


type_synonym demo_cmd = "(nat, nat, unit, unit, unit, unit) mc_cmd"

definition demo_write_env :: "((nat, nat) peer, demo_cmd, demo_cmd, unit) write_env" where
  "demo_write_env =
     \<lparr>w_auth_mode = NoAuth, w_io = (\<lambda>ws w. None), w_signmsg = (\<lambda>p c. c), w_attachment = (\<lambda>p. None),
      w_can_into = (\<lambda>c. True), w_opt_into = Some, w_nb_attachments = (\<lambda>m. 0), w_attachments = (\<lambda>m. [])\<rparr>"


section \<open>From a stream to the main loop\<close>

text \<open>
  C33. Any peer that can sign may end the main loop of another: a pong with a challenge that the
  loop never issued passes the read service when its signature is good and its peer acceptable,
  and the command it becomes makes the loop panic.
\<close>

theorem forged_pong_panics_main_loop:
  assumes "r_auth_mode renv \<noteq> NoAuth"
    and "r_header renv (ShadRAuth p) st = (sta, Ok ())"
    and "r_decode renv (ShadRAuth p) sta = (stb, Ok (PONG from chal sig nextchal))"
    and "r_att_size renv from = 0" and "r_end renv (ShadRAuth p) stb = (stc, Ok ())"
    and "r_checkmsg renv from chal sig" and "r_accept renv from = Some pp" and "pp \<noteq> Unchecked"
    and "ml_reach env (mdht_init p asynch n now) cs s" and "EvChallenge chal \<notin> set (events s)"
  shows "\<exists>rs' cmd t. read_call renv RRun (read_service_new (r_auth_mode renv) rtok st p None) = (rs', LOk (RRMainLoop cmd))
     \<and> call_inner_loop env cmd s = (t, LPanic)"
proof -
  let ?cmd = "MLNewPeerUncheckedChallenge from pp rtok chal nextchal"
  have "hashmap_get_val_c (challenge_cache s) chal = None"
    using outstanding_issued [OF assms(9), of chal] assms(10)
    by (cases "hashmap_get_val_c (challenge_cache s) chal") (auto simp: mdht_init_def)
  from unknown_challenge_panics [OF this] obtain t where t: "call_inner_loop env ?cmd s = (t, LPanic)" by blast
  have "\<exists>rs'. read_call renv RRun (read_service_new (r_auth_mode renv) rtok st p None) = (rs', LOk (RRMainLoop ?cmd))"
    using assms(1-8)
    by (simp add: read_service_new_def read_auth_def on_pong_def read_attachment_def rd_def switch_auth_def
        bind_def gets_def ret_def modify_def lift_def)
  with t show ?thesis by blast
qed

text \<open>A peer that signs every challenge by itself.\<close>

definition demo_auth_env ::
    "(nat, nat, (nat, nat) peer proto_message, unit, unit, unit, unit, unit, (nat, nat, unit, unit) peer_command, unit) read_env" where
  "demo_auth_env =
     \<lparr>r_auth_mode = Public, r_yield_return = False, r_header = (\<lambda>sh st. (st, Ok ())),
      r_decode = (\<lambda>sh st. (st, Ok st)), r_decode_msg = (\<lambda>sh st. (st, Err ExpectedError)),
      r_attach = (\<lambda>sh n st. (st, Ok ())), r_end = (\<lambda>sh st. (st, Ok ())), r_att_size = (\<lambda>p. 0),
      r_set_att = (\<lambda>a p. p), r_att_sizes = (\<lambda>m. []), r_set_atts = (\<lambda>as m. m),
      r_checkmsg = (\<lambda>p ch sig. ch = sig), r_accept = (\<lambda>p. Some Normal),
      r_into = (\<lambda>m. Ok (MCGlobal ())), r_is_borrow = (\<lambda>l. False), r_is_borrow_end = (\<lambda>l. False),
      r_put_read = (\<lambda>st sh t l. l), r_init_local = (\<lambda>p w t. Ok ()), r_spawn_local = (\<lambda>srv l. Ok ()),
      r_send_local = (\<lambda>h l. Ok ((), None)), r_unwrap_state = (\<lambda>h. Ok ((), Ok ())),
      r_respawn_local = (\<lambda>srv h l. Ok ())\<rparr>"

theorem forged_pong_panics_main_loop_witness:
  "\<exists>rs' cmd t. read_call demo_auth_env RRun
       (read_service_new Public 5 (PONG (demo_peer 6) [4] [4] None) (demo_peer 1) None) = (rs', LOk (RRMainLoop cmd))
     \<and> call_inner_loop demo_ml_env cmd demo_init = (t, LPanic)"
proof -
  have "ml_reach demo_ml_env (mdht_init (demo_peer 1) True 0 0) [] demo_init"
    unfolding demo_init_def by (rule ml_reach.start)
  moreover have "EvChallenge [4] \<notin> set (events demo_init)" by (simp add: demo_init_def mdht_init_def)
  moreover have "r_auth_mode demo_auth_env = Public" by (simp add: demo_auth_env_def)
  ultimately show ?thesis
    using forged_pong_panics_main_loop [of demo_auth_env "demo_peer 1" "PONG (demo_peer 6) [4] [4] None"
        "PONG (demo_peer 6) [4] [4] None" "PONG (demo_peer 6) [4] [4] None" "demo_peer 6" "[4]" "[4]" None
        "PONG (demo_peer 6) [4] [4] None" Normal demo_ml_env True 0 0 "[]" demo_init 5]
    by (simp add: demo_auth_env_def)
qed

end
